(* ===== verification/DB_Prelude.thy ===== *)
theory DB_Prelude
  imports Complex_Main "HOL-Library.List_Lexorder" "HOL-Library.Char_ord"
    "HOL-Library.Product_Lexorder" "HOL-Library.Multiset"
begin

text \<open>
  What every component of the development shares.

  \<^item> The relational vocabulary of the SQL statements in \<^verbatim>\<open>packages/db\<close>: a table is the list of
    its rows, \<open>find_row\<close> is \<^verbatim>\<open>SELECT ... WHERE id = ?\<close>, \<open>update_where\<close> is
    \<^verbatim>\<open>UPDATE ... SET ... WHERE ...\<close>, \<open>insert_row\<close> is an \<^verbatim>\<open>INSERT\<close> under a primary key,
    \<open>first_by\<close> is \<^verbatim>\<open>ORDER BY ... LIMIT 1\<close> and \<open>sql_page\<close> is \<^verbatim>\<open>LIMIT ? OFFSET ?\<close>.
  \<^item> Decimal text of a natural number, \<open>decimal\<close>.
  \<^item> The result type of fallible code, \<open>'e + 'a\<close>, with its sequencing \<open>bind_res\<close>.
  \<^item> Three interfaces as locales: \<open>row_update\<close> (an UPDATE that leaves the primary key
    alone), \<open>ranked_graph\<close> and its extension \<open>terminal_graph\<close> (a transition table that
    only moves forward), and \<open>invariant_system\<close> (operations that keep an invariant, hence
    so does every sequence of them).
\<close>

named_theorems table_simps \<open>rewrite rules for lookups, updates and inserts on tables\<close>

type_synonym timestamp = int \<comment> \<open>microseconds since the epoch, as TIMESTAMPTZ keeps them\<close>
type_synonym date = int \<comment> \<open>days since the epoch, as DATE\<close>
type_synonym json = string \<comment> \<open>the text of a JSONB value\<close>

definition second :: timestamp where
  "second = 1000000"

definition day :: timestamp where
  "day = 86400 * second"

text \<open>A JavaScript \<^verbatim>\<open>Date\<close> keeps milliseconds.\<close>

definition js_date :: "timestamp \<Rightarrow> timestamp" where
  "js_date t = t - t mod 1000"

section \<open>Decimal text\<close>

definition digit :: "nat \<Rightarrow> char" where
  "digit d = char_of (48 + d)"

fun decimal :: "nat \<Rightarrow> string" where
  "decimal n = (if n < 10 then [digit n] else decimal (n div 10) @ [digit (n mod 10)])"

declare decimal.simps [simp del]

section \<open>Results\<close>

fun bind_res :: "'e + 'a \<Rightarrow> ('a \<Rightarrow> 'e + 'b) \<Rightarrow> 'e + 'b" where
  "bind_res (Inl e) f = Inl e"
| "bind_res (Inr a) f = f a"

lemma bind_res_Inr_iff:
  "bind_res m f = Inr b \<longleftrightarrow> (\<exists>a. m = Inr a \<and> f a = Inr b)"
  by (cases m) auto

lemma bind_res_Inl_iff:
  "bind_res m f = Inl e \<longleftrightarrow> m = Inl e \<or> (\<exists>a. m = Inr a \<and> f a = Inl e)"
  by (cases m) auto

text \<open>A loop whose body may throw: the first error ends it.\<close>

fun fold_res :: "('x \<Rightarrow> 's \<Rightarrow> 'e + 's) \<Rightarrow> 'x list \<Rightarrow> 's \<Rightarrow> 'e + 's" where
  "fold_res f [] s = Inr s"
| "fold_res f (x # xs) s = bind_res (f x s) (fold_res f xs)"

lemma fold_res_invariant:
  assumes "\<And>x s s'. x \<in> set xs \<Longrightarrow> f x s = Inr s' \<Longrightarrow> P s \<Longrightarrow> P s'"
    and "fold_res f xs s = Inr s'" and "P s"
  shows "P s'"
  using assms
proof (induction xs arbitrary: s)
  case (Cons x xs)
  then obtain s1 where "f x s = Inr s1" and "fold_res f xs s1 = Inr s'"
    by (auto simp: bind_res_Inr_iff)
  with Cons show ?case by (metis list.set_intros(1) list.set_intros(2))
qed simp

lemma fold_res_skip: "(\<And>x. x \<in> set xs \<Longrightarrow> f x s = Inr s) \<Longrightarrow> fold_res f xs s = Inr s"
  by (induction xs) auto

section \<open>Tables\<close>

datatype db_error =
    UniqueViolation string
  | ForeignKeyViolation string
  | CheckViolation string
  | NegativeLimit

text \<open>\<^verbatim>\<open>gen_random_uuid()\<close> as a function of the identifiers in use: it never repeats one.\<close>

definition fresh :: "(string list \<Rightarrow> string) \<Rightarrow> bool" where
  "fresh uuid \<longleftrightarrow> (\<forall>ids. uuid ids \<notin> set ids)"

definition find_row :: "('r \<Rightarrow> 'k) \<Rightarrow> 'k \<Rightarrow> 'r list \<Rightarrow> 'r option" where
  "find_row key k t = find (\<lambda>r. key r = k) t"

definition update_where :: "('r \<Rightarrow> bool) \<Rightarrow> ('r \<Rightarrow> 'r) \<Rightarrow> 'r list \<Rightarrow> 'r list" where
  "update_where p f t = map (\<lambda>r. if p r then f r else r) t"

definition insert_row :: "('r \<Rightarrow> string) \<Rightarrow> 'r \<Rightarrow> 'r list \<Rightarrow> db_error + 'r list" where
  "insert_row key r t =
     (if key r \<in> key ` set t then Inl (UniqueViolation (key r)) else Inr (t @ [r]))"

definition first_by :: "('r \<Rightarrow> 'o::linorder) \<Rightarrow> ('r \<Rightarrow> bool) \<Rightarrow> 'r list \<Rightarrow> 'r option" where
  "first_by ord p t = (case sort_key ord (filter p t) of [] \<Rightarrow> None | r # _ \<Rightarrow> Some r)"

definition sql_page :: "int \<Rightarrow> int \<Rightarrow> 'r list \<Rightarrow> db_error + 'r list" where
  "sql_page lmt ofs t =
     (if lmt < 0 \<or> ofs < 0 then Inl NegativeLimit
      else Inr (take (nat lmt) (drop (nat ofs) t)))"

lemma find_row_Nil [simp, table_simps]: "find_row key k [] = None"
  by (simp add: find_row_def)

lemma find_row_Cons [simp, table_simps]:
  "find_row key k (r # t) = (if key r = k then Some r else find_row key k t)"
  by (simp add: find_row_def)

lemma find_row_append [table_simps]:
  "find_row key k (t @ u) = (case find_row key k t of Some r \<Rightarrow> Some r | None \<Rightarrow> find_row key k u)"
  by (induction t) auto

lemma find_row_SomeD: "find_row key k t = Some r \<Longrightarrow> r \<in> set t \<and> key r = k"
  by (auto simp: find_row_def find_Some_iff)

lemma find_row_key: "find_row key k t = Some r \<Longrightarrow> key r = k"
  and find_row_in: "find_row key k t = Some r \<Longrightarrow> r \<in> set t"
  by (blast dest: find_row_SomeD)+

lemma find_row_None_iff: "find_row key k t = None \<longleftrightarrow> k \<notin> key ` set t"
  by (auto simp: find_row_def find_None_iff image_iff)

lemma find_row_SomeI:
  "distinct (map key t) \<Longrightarrow> r \<in> set t \<Longrightarrow> find_row key (key r) t = Some r"
  by (induction t) (auto simp: image_iff)

lemma find_row_iff:
  "distinct (map key t) \<Longrightarrow> find_row key k t = Some r \<longleftrightarrow> r \<in> set t \<and> key r = k"
  using find_row_SomeD find_row_SomeI by metis

lemma set_update_where [table_simps]:
  "set (update_where p f t) = f ` {r \<in> set t. p r} \<union> {r \<in> set t. \<not> p r}"
  by (auto simp: update_where_def)

lemma length_update_where [simp]: "length (update_where p f t) = length t"
  by (simp add: update_where_def)

lemma map_update_where_same:
  "(\<And>r. f (upd r) = f r) \<Longrightarrow> map f (update_where p upd t) = map f t"
  by (simp add: update_where_def)

lemma update_where_id: "(\<And>r. r \<in> set t \<Longrightarrow> \<not> p r) \<Longrightarrow> update_where p f t = t"
  by (induction t) (auto simp: update_where_def)

lemma image_update_where_same:
  assumes "\<And>r. f (upd r) = f r"
  shows "f ` set (update_where p upd t) = f ` set t"
  using map_update_where_same [of f upd p t, OF assms] by (metis set_map)

lemma find_SomeD: "find P xs = Some x \<Longrightarrow> x \<in> set xs \<and> P x"
  by (auto simp: find_Some_iff)

lemma in_update_whereE:
  assumes "r \<in> set (update_where p f t)"
  obtains (changed) r0 where "r0 \<in> set t" "p r0" "r = f r0"
    | (same) "r \<in> set t" "\<not> p r"
  using assms by (auto simp: set_update_where)

lemma insert_row_Inr:
  "insert_row key r t = Inr t' \<longleftrightarrow> key r \<notin> key ` set t \<and> t' = t @ [r]"
  by (auto simp: insert_row_def)

lemma insert_row_distinct:
  "insert_row key r t = Inr t' \<Longrightarrow> distinct (map key t) \<Longrightarrow> distinct (map key t')"
  by (auto simp: insert_row_Inr)

lemma insert_row_fresh: "fresh uuid \<Longrightarrow> key r = uuid (map key t) \<Longrightarrow> insert_row key r t = Inr (t @ [r])"
  by (metis fresh_def insert_row_Inr list.set_map)

text \<open>An identifier generator that meets \<open>fresh\<close>: a string longer than every one in use.\<close>

definition long_uuid :: "string list \<Rightarrow> string" where
  "long_uuid ids = replicate (Suc (foldr max (map length ids) 0)) (CHR ''x'')"

lemma foldr_max_ge: "x \<in> set xs \<Longrightarrow> (x::nat) \<le> foldr max xs 0"
  by (induction xs) auto

lemma fresh_long_uuid: "fresh long_uuid"
  unfolding fresh_def
proof (intro allI notI)
  fix ids assume "long_uuid ids \<in> set ids"
  then have "length (long_uuid ids) \<le> foldr max (map length ids) 0"
    by (intro foldr_max_ge) simp
  then show False by (simp add: long_uuid_def)
qed

lemma first_by_None: "first_by ord p t = None \<longleftrightarrow> (\<forall>r \<in> set t. \<not> p r)"
proof -
  have "first_by ord p t = None \<longleftrightarrow> sort_key ord (filter p t) = []"
    by (simp add: first_by_def split: list.splits)
  also have "\<dots> \<longleftrightarrow> filter p t = []"
    by (metis set_empty set_sort)
  also have "\<dots> \<longleftrightarrow> (\<forall>r \<in> set t. \<not> p r)"
    by (simp add: filter_empty_conv)
  finally show ?thesis .
qed

lemma first_by_SomeD:
  assumes "first_by ord p t = Some r"
  shows "r \<in> set t" and "p r" and "\<And>r'. r' \<in> set t \<Longrightarrow> p r' \<Longrightarrow> ord r \<le> ord r'"
proof -
  obtain rs where rs: "sort_key ord (filter p t) = r # rs"
    using assms by (auto simp: first_by_def split: list.splits)
  then have mem: "set (filter p t) = set (r # rs)"
    by (metis set_sort)
  from mem show "r \<in> set t" and "p r"
    by auto
  have "sorted (map ord (r # rs))"
    using sorted_sort_key [of ord "filter p t"] by (simp add: rs)
  then show "ord r \<le> ord r'" if "r' \<in> set t" "p r'" for r'
    using that mem by auto
qed

section \<open>Interfaces\<close>

text \<open>An UPDATE statement that does not write the key column.\<close>

locale row_update =
  fixes key :: "'r \<Rightarrow> 'k"
    and upd :: "'r \<Rightarrow> 'r"
  assumes key_upd: "key (upd r) = key r"
begin

lemma keys_update: "map key (update_where p upd t) = map key t"
  by (simp add: update_where_def key_upd comp_def if_distrib cong: if_cong)

lemma distinct_update:
  "distinct (map key (update_where p upd t)) \<longleftrightarrow> distinct (map key t)"
  by (simp add: keys_update)

lemma find_update:
  "find_row key k (update_where p upd t) =
     map_option (\<lambda>r. if p r then upd r else r) (find_row key k t)"
  by (induction t) (auto simp: update_where_def key_upd)

lemma find_update_self:
  "find_row key k (update_where (\<lambda>r. key r = k) upd t) = map_option upd (find_row key k t)"
  by (induction t) (auto simp: update_where_def key_upd)

lemma find_update_other:
  "k' \<noteq> k \<Longrightarrow>
     find_row key k' (update_where (\<lambda>r. key r = k) upd t) = find_row key k' t"
  by (induction t) (auto simp: update_where_def key_upd)

end

text \<open>A transition table: each state with the list of its legal successors.\<close>

fun legal_path :: "('s \<Rightarrow> 's list) \<Rightarrow> 's \<Rightarrow> 's list \<Rightarrow> bool" where
  "legal_path succs s [] = True"
| "legal_path succs s (t # ts) = (t \<in> set (succs s) \<and> legal_path succs t ts)"

lemma legal_path_append:
  "legal_path succs s (ts @ us) \<longleftrightarrow>
     legal_path succs s ts \<and> legal_path succs (last (s # ts)) us"
  by (induction ts arbitrary: s) auto

lemma legal_path_snoc:
  "legal_path succs s (ts @ [u]) \<longleftrightarrow>
     legal_path succs s ts \<and> u \<in> set (succs (last (s # ts)))"
  by (simp add: legal_path_append)

text \<open>A transition table that only moves forward in some bounded rank.\<close>

locale ranked_graph =
  fixes succs :: "'s \<Rightarrow> 's list"
    and rank :: "'s \<Rightarrow> nat"
    and bound :: nat
  assumes rank_step: "t \<in> set (succs s) \<Longrightarrow> rank s < rank t"
    and rank_bound: "rank s \<le> bound"
begin

lemma path_rank: "legal_path succs s ts \<Longrightarrow> t \<in> set ts \<Longrightarrow> rank s < rank t"
  by (induction ts arbitrary: s) (auto dest: rank_step less_trans)

lemma path_distinct: "legal_path succs s ts \<Longrightarrow> distinct (s # ts)"
proof (induction ts arbitrary: s)
  case (Cons t ts)
  then have "s \<notin> set (t # ts)"
    using path_rank by blast
  moreover from Cons have "distinct (t # ts)"
    by (auto simp del: distinct.simps)
  ultimately show ?case by simp
qed simp

lemma path_length: "legal_path succs s ts \<Longrightarrow> rank s + length ts \<le> bound"
proof (induction ts arbitrary: s)
  case (Cons t ts)
  then have "rank s < rank t" and "rank t + length ts \<le> bound"
    by (auto dest: rank_step)
  then show ?case by simp
qed (simp add: rank_bound)

end

locale terminal_graph = ranked_graph +
  fixes terminal :: "'a \<Rightarrow> bool"
  assumes terminal_iff: "terminal s \<longleftrightarrow> succs s = []"
begin

lemma terminal_stays: "terminal s \<Longrightarrow> legal_path succs s ts \<Longrightarrow> ts = []"
  by (cases ts) (auto simp: terminal_iff)

text \<open>From every state some legal path ends in a terminal state.\<close>

lemma reaches_terminal: "\<exists>ts. legal_path succs s ts \<and> terminal (last (s # ts))"
proof (induction "bound - rank s" arbitrary: s rule: less_induct)
  case less
  show ?case
  proof (cases "succs s")
    case Nil
    then have "legal_path succs s [] \<and> terminal (last [s])"
      by (simp add: terminal_iff)
    then show ?thesis by fastforce
  next
    case (Cons t ts)
    then have t: "t \<in> set (succs s)" by simp
    then have "bound - rank t < bound - rank s"
      using rank_step rank_bound [of t] by (meson diff_less_mono2 le_trans less_le_trans not_le)
    then obtain us where "legal_path succs t us" "terminal (last (t # us))"
      using less by blast
    with t have "legal_path succs s (t # us) \<and> terminal (last (s # t # us))"
      by simp
    then show ?thesis by blast
  qed
qed

end

text \<open>
  Operations that keep an invariant. \<open>ok\<close> says which calls the contract covers; a
  failing call leaves the state as it was, as a rolled-back transaction does.
\<close>

locale invariant_system =
  fixes step :: "'op \<Rightarrow> 's \<Rightarrow> 's"
    and ok :: "'op \<Rightarrow> bool"
    and inv :: "'s \<Rightarrow> bool"
  assumes step_inv: "inv s \<Longrightarrow> ok op \<Longrightarrow> inv (step op s)"
begin

lemma run_inv: "inv s \<Longrightarrow> list_all ok ops \<Longrightarrow> inv (fold step ops s)"
  by (induction ops arbitrary: s) (auto intro: step_inv)

end

definition commit :: "'s \<Rightarrow> 'e + ('a \<times> 's) \<Rightarrow> 's" where
  "commit s m = (case m of Inl _ \<Rightarrow> s | Inr (_, s') \<Rightarrow> s')"

lemma commit_simps [simp]:
  "commit s (Inl e) = s" "commit s (Inr (a, s')) = s'"
  by (simp_all add: commit_def)

end
