(* ===== verification/JS_Numbers.thy ===== *)
theory JS_Numbers
  imports DB_Prelude
begin

text \<open>
  JavaScript numbers: IEEE 754 binary64 values with rounding to nearest, ties to even.

  A finite number is the rational it denotes; \<open>fl\<close> rounds a rational to the nearest double,
  and every arithmetic operation is the exact one followed by \<open>fl\<close>, with the overflow to an
  infinity and the NaN rules written out. The two zeros are one value: no source modelled on
  top of this theory tells them apart (\<^verbatim>\<open>toFixed\<close> and the comparisons do not, and a sum that
  can be a divisor is \<open>-0\<close> only when the dividend is a zero too).

  The lemmas are the ones floating-point code is verified with: \<open>fl\<close> is monotone, is the
  identity on doubles, and errs by at most half a unit in the last place.
\<close>

section \<open>Rounding\<close>

text \<open>The binary magnitude of a positive rational: \<open>2 powi mag q \<le> q < 2 powi (mag q + 1)\<close>.\<close>

fun bit_length :: "int \<Rightarrow> int" where
  "bit_length n = (if n \<le> 0 then 0 else bit_length (n div 2) + 1)"

declare bit_length.simps [simp del]

definition mag :: "rat \<Rightarrow> int" where
  "mag q = (let (a, b) = quotient_of q;
                e = bit_length a - bit_length b
            in if 2 powi e \<le> q then e else e - 1)"

definition ulp_exp :: "rat \<Rightarrow> int" where
  "ulp_exp q = max (mag q - 52) (- 1074)"

definition round_even :: "rat \<Rightarrow> int" where
  "round_even x =
     (let f = \<lfloor>x\<rfloor>; d = x - of_int f
      in if d < 1 / 2 \<or> (d = 1 / 2 \<and> even f) then f else f + 1)"

definition round_pos :: "rat \<Rightarrow> rat" where
  "round_pos q = of_int (round_even (q / 2 powi ulp_exp q)) * 2 powi ulp_exp q"

definition fl :: "rat \<Rightarrow> rat" where
  "fl q = (if q = 0 then 0 else if 0 < q then round_pos q else - round_pos (- q))"

text \<open>The least normal double.\<close>

definition min_normal :: rat where
  "min_normal = 2 powi (- 1022)"

subsection \<open>Rounding to an integer\<close>

lemma round_even_of_int [simp]: "round_even (of_int n) = n"
  by (simp add: round_even_def)

lemma floor_add_one_gt: "x < of_int \<lfloor>x\<rfloor> + (1 :: rat)"
  by linarith

lemma round_even_error: "\<bar>of_int (round_even x) - x\<bar> \<le> 1 / 2"
  using of_int_floor_le [of x] floor_add_one_gt [of x]
  by (auto simp: round_even_def Let_def abs_le_iff)

lemma round_even_mono:
  assumes "x \<le> y"
  shows "round_even x \<le> round_even y"
proof (cases "\<lfloor>x\<rfloor> = \<lfloor>y\<rfloor>")
  case True
  then show ?thesis using assms by (auto simp: round_even_def Let_def)
next
  case False
  then have "\<lfloor>x\<rfloor> + 1 \<le> \<lfloor>y\<rfloor>" using floor_mono [OF assms] by linarith
  then show ?thesis by (auto simp: round_even_def Let_def)
qed

lemma round_even_ge: "of_int n \<le> x \<Longrightarrow> n \<le> round_even x"
  and round_even_le: "x \<le> of_int n \<Longrightarrow> round_even x \<le> n"
  using round_even_mono [of "of_int n" x] round_even_mono [of x "of_int n"] by simp_all

subsection \<open>Magnitude\<close>

lemma powi_less_exp: "(2 :: rat) powi i < 2 powi j \<Longrightarrow> i < j"
  by (metis not_le power_int_increasing one_le_numeral)

lemma powi_shift: "(2 :: rat) powi i * 2 powi j = 2 powi (i + j)"
  by (simp add: power_int_add)

lemma powi_pos [simp]: "0 < (2 :: rat) powi i"
  by simp

lemma powi_nat: "(2 :: rat) ^ n * 2 powi i = 2 powi (i + int n)"
  by (simp add: power_int_add mult.commute)

lemma bit_length_nonneg: "0 \<le> bit_length n"
  by (induction n rule: bit_length.induct) (subst bit_length.simps, simp)

lemma bit_length_bounds:
  "0 < n \<Longrightarrow> 2 powi (bit_length n - 1) \<le> (of_int n :: rat) \<and> (of_int n :: rat) < 2 powi bit_length n"
proof (induction n rule: bit_length.induct)
  case (1 n)
  define m where "m = n div 2"
  have n: "bit_length n = bit_length m + 1" using 1(2) by (simp add: bit_length.simps [of n] m_def)
  have split: "2 * m \<le> n" "n \<le> 2 * m + 1" by (simp_all add: m_def)
  show ?case
  proof (cases "m = 0")
    case True
    then have "n = 1" using 1(2) split by linarith
    then show ?thesis by (simp add: n True bit_length.simps)
  next
    case False
    then have "0 < m" using 1(2) by (simp add: m_def)
    with 1 have IH: "2 powi (bit_length m - 1) \<le> (of_int m :: rat)" "(of_int m :: rat) < 2 powi bit_length m"
      by (simp_all add: m_def)
    have pos: "0 \<le> bit_length m" by (rule bit_length_nonneg)
    have "m + 1 \<le> 2 ^ nat (bit_length m)"
    proof -
      have "(of_int m :: rat) < of_int (2 ^ nat (bit_length m))" using IH(2) pos by (simp add: power_int_def)
      then show ?thesis by simp
    qed
    then have "n < 2 * 2 ^ nat (bit_length m)" using split by linarith
    then have "(of_int n :: rat) < of_int (2 * 2 ^ nat (bit_length m))" by (simp only: of_int_less_iff)
    then have "(of_int n :: rat) < 2 powi bit_length n" using pos by (simp add: n power_int_add power_int_def nat_add_distrib)
    moreover have "2 * 2 powi (bit_length m - 1) \<le> (of_int (2 * m) :: rat)" using IH(1) by simp
    moreover have "(of_int (2 * m) :: rat) \<le> of_int n" using split(1) by (simp only: of_int_le_iff)
    moreover have "2 * 2 powi (bit_length m - 1) = (2 :: rat) powi (bit_length n - 1)"
      by (simp add: n power_int_diff)
    ultimately show ?thesis by linarith
  qed
qed

lemma mag_bounds:
  assumes "0 < q"
  shows "2 powi mag q \<le> q" and "q < 2 powi (mag q + 1)"
proof -
  obtain a b where ab: "quotient_of q = (a, b)" by fastforce
  have b: "0 < b" using quotient_of_denom_pos [OF ab] .
  have q: "q = of_int a / of_int b" using quotient_of_div [OF ab] .
  then have a: "0 < a" using assms b by (simp add: zero_less_divide_iff)
  define A B where "A = bit_length a" and "B = bit_length b"
  have A: "2 powi (A - 1) \<le> (of_int a :: rat)" "(of_int a :: rat) < 2 powi A"
    and B: "2 powi (B - 1) \<le> (of_int b :: rat)" "(of_int b :: rat) < 2 powi B"
    using bit_length_bounds [OF a] bit_length_bounds [OF b] by (simp_all add: A_def B_def)
  have up: "q < 2 powi (A - B + 1)"
  proof -
    have "2 powi (B - 1) * q \<le> of_int b * q" using B(1) assms by simp
    also have "\<dots> < 2 powi A" using A(2) b by (simp add: q)
    also have "2 powi A = (2 :: rat) powi (B - 1) * 2 powi (A - B + 1)" by (simp add: powi_shift)
    finally show ?thesis by simp
  qed
  have low: "2 powi (A - B - 1) \<le> q"
  proof -
    have "2 powi B * 2 powi (A - B - 1) = (2 :: rat) powi (A - 1)" by (simp add: powi_shift)
    also have "\<dots> \<le> of_int b * q" using A(1) b by (simp add: q)
    also have "\<dots> \<le> 2 powi B * q" using B(2) assms by simp
    finally show ?thesis by simp
  qed
  show "2 powi mag q \<le> q" and "q < 2 powi (mag q + 1)"
    using up low by (auto simp: mag_def ab A_def B_def Let_def)
qed

lemma mag_mono:
  assumes "0 < p" "p \<le> q"
  shows "mag p \<le> mag q"
proof -
  have "(2 :: rat) powi mag p < 2 powi (mag q + 1)"
    using mag_bounds [of p] mag_bounds [of q] assms by linarith
  then show ?thesis using powi_less_exp by fastforce
qed

lemma ulp_exp_mono: "0 < p \<Longrightarrow> p \<le> q \<Longrightarrow> ulp_exp p \<le> ulp_exp q"
  using mag_mono [of p q] by (auto simp: ulp_exp_def)

lemma ulp_exp_min: "- 1074 \<le> ulp_exp q"
  by (simp add: ulp_exp_def)

subsection \<open>The integer significand\<close>

lemma significand_less:
  assumes "0 < q"
  shows "q / 2 powi ulp_exp q < 2 ^ 53"
proof -
  have "q < 2 powi (mag q + 1)" by (rule mag_bounds [OF assms])
  also have "\<dots> \<le> 2 powi (ulp_exp q + int 53)" by (rule power_int_increasing) (simp_all add: ulp_exp_def)
  also have "\<dots> = 2 ^ 53 * 2 powi ulp_exp q" by (rule powi_nat [symmetric])
  finally show ?thesis by (simp add: divide_less_eq)
qed

lemma significand_normal:
  assumes "0 < q" "- 1074 < ulp_exp q"
  shows "2 ^ 52 \<le> q / 2 powi ulp_exp q"
proof -
  have "mag q = ulp_exp q + int 52" using assms(2) by (simp add: ulp_exp_def max_def split: if_splits)
  then have "2 ^ 52 * 2 powi ulp_exp q \<le> q" using mag_bounds(1) [OF assms(1)] by (simp only: powi_nat)
  then show ?thesis by (simp add: le_divide_eq)
qed

lemma round_pos_nonneg: "0 < q \<Longrightarrow> 0 \<le> round_pos q"
  by (simp add: round_pos_def round_even_ge [of 0])

lemma round_pos_mono:
  assumes "0 < p" "p \<le> q"
  shows "round_pos p \<le> round_pos q"
proof (cases "ulp_exp p = ulp_exp q")
  case True
  then show ?thesis
    using assms by (simp add: round_pos_def round_even_mono divide_right_mono)
next
  case False
  let ?k = "ulp_exp p" and ?l = "ulp_exp q"
  have less: "?k < ?l" using False ulp_exp_mono [OF assms] by simp
  have "round_even (p / 2 powi ?k) \<le> 2 ^ 53"
    using significand_less [OF assms(1)] by (intro round_even_le) simp
  then have "(of_int (round_even (p / 2 powi ?k)) :: rat) \<le> 2 ^ 53"
    by (metis of_int_le_iff of_int_numeral of_int_power)
  then have "round_pos p \<le> 2 ^ 53 * 2 powi ?k"
    by (simp add: round_pos_def)
  also have "\<dots> \<le> 2 ^ 52 * 2 powi ?l"
    unfolding powi_nat by (rule power_int_increasing) (use less in simp_all)
  also have "\<dots> \<le> round_pos q"
  proof -
    have "2 ^ 52 \<le> round_even (q / 2 powi ?l)"
      using significand_normal [of q] assms less ulp_exp_min [of p] by (intro round_even_ge) simp
    then have "(2 :: rat) ^ 52 \<le> of_int (round_even (q / 2 powi ?l))"
      by (metis of_int_le_iff of_int_numeral of_int_power)
    then show ?thesis by (simp add: round_pos_def)
  qed
  finally show ?thesis .
qed

lemma round_pos_error:
  assumes "0 < q"
  shows "\<bar>round_pos q - q\<bar> \<le> max q min_normal / 2 ^ 53"
proof -
  let ?u = "(2 :: rat) powi ulp_exp q"
  have "round_pos q - q = (of_int (round_even (q / ?u)) - q / ?u) * ?u"
    by (simp add: round_pos_def field_simps)
  then have "\<bar>round_pos q - q\<bar> = \<bar>of_int (round_even (q / ?u)) - q / ?u\<bar> * ?u"
    by (simp add: abs_mult)
  also have "\<dots> \<le> 1 / 2 * ?u"
    using round_even_error [of "q / ?u"] by (intro mult_right_mono) simp_all
  also have "\<dots> \<le> max q min_normal / 2 ^ 53"
  proof -
    have e: "ulp_exp q + int 52 = max (mag q) (- 1022)" by (simp add: ulp_exp_def max_def)
    have "2 ^ 52 * ?u = 2 powi max (mag q) (- 1022)" by (simp only: powi_nat e)
    also have "\<dots> \<le> max q min_normal"
      using mag_bounds(1) [OF assms] by (simp add: max_def min_normal_def)
    finally show ?thesis by simp
  qed
  finally show ?thesis .
qed

lemma round_pos_exact:
  assumes "0 < m" "m < 2 ^ 53" "- 1074 \<le> k"
  shows "round_pos (of_int m * 2 powi k) = of_int m * 2 powi k"
proof -
  let ?q = "(of_int m :: rat) * 2 powi k"
  have pos: "0 < ?q" using assms by simp
  have "?q < 2 ^ 53 * 2 powi k"
    using assms(2) by simp
  then have "(2 :: rat) powi mag ?q < 2 powi (k + int 53)"
    unfolding powi_nat [symmetric] using mag_bounds(1) [OF pos] by linarith
  then have "mag ?q < k + int 53" by (rule powi_less_exp)
  then have le: "ulp_exp ?q \<le> k" using assms(3) by (simp add: ulp_exp_def)
  define j where "j = ulp_exp ?q"
  have "2 powi k = (2 :: rat) ^ nat (k - j) * 2 powi j" using le by (simp add: powi_nat j_def)
  then have "?q / 2 powi j = of_int (m * 2 ^ nat (k - j))" by simp
  then have "round_pos ?q = ?q / 2 powi j * 2 powi j" by (simp only: round_pos_def round_even_of_int j_def [symmetric])
  then show ?thesis by simp
qed

subsection \<open>The laws of \<open>fl\<close>\<close>

lemma fl_0 [simp]: "fl 0 = 0"
  by (simp add: fl_def)

lemma fl_uminus: "fl (- q) = - fl q"
  by (simp add: fl_def)

lemma fl_pos: "0 < q \<Longrightarrow> fl q = round_pos q"
  by (simp add: fl_def)

lemma fl_nonneg: "0 \<le> q \<Longrightarrow> 0 \<le> fl q"
  by (simp add: fl_def round_pos_nonneg)

lemma fl_mono:
  assumes "p \<le> q"
  shows "fl p \<le> fl q"
proof -
  consider "0 < p" | "p \<le> 0" "0 \<le> q" | "q < 0" using assms by linarith
  then show ?thesis
  proof cases
    case 1
    then show ?thesis using round_pos_mono [OF 1 assms] assms by (simp add: fl_def)
  next
    case 2
    then show ?thesis using fl_nonneg [of q] fl_nonneg [of "- p"] by (simp add: fl_uminus)
  next
    case 3
    then show ?thesis using round_pos_mono [of "- q" "- p"] assms by (simp add: fl_def)
  qed
qed

lemma fl_error: "\<bar>fl q - q\<bar> \<le> max \<bar>q\<bar> min_normal / 2 ^ 53"
proof -
  have pos: "\<bar>fl x - x\<bar> \<le> max \<bar>x\<bar> min_normal / 2 ^ 53" if "0 < x" for x
    using round_pos_error [OF that] that by (simp add: fl_pos)
  consider "q = 0" | "0 < q" | "q < 0" by linarith
  then show ?thesis
  proof cases
    case 3
    then show ?thesis using pos [of "- q"] abs_minus_commute [of "fl q" q] by (simp add: fl_uminus)
  qed (use pos in \<open>auto simp: min_normal_def max_def\<close>)
qed

lemma fl_exact:
  assumes "\<bar>m\<bar> < 2 ^ 53" "- 1074 \<le> k"
  shows "fl (of_int m * 2 powi k) = of_int m * 2 powi k"
proof -
  have pos: "fl (of_int n * 2 powi k) = of_int n * 2 powi k" if "0 < n" "n < 2 ^ 53" for n
    using round_pos_exact [OF that assms(2)] that by (simp add: fl_pos)
  consider "m = 0" | "0 < m" | "m < 0" by linarith
  then show ?thesis
  proof cases
    case 3
    then show ?thesis using pos [of "- m"] assms(1) by (simp add: fl_uminus)
  qed (use pos assms in auto)
qed

lemma fl_of_int: "\<bar>m\<bar> < 2 ^ 53 \<Longrightarrow> fl (of_int m) = of_int m"
  using fl_exact [of m 0] by simp

lemma fl_1 [simp]: "fl 1 = 1"
  using fl_of_int [of 1] by simp

lemma fl_numeral: "numeral n < (2 :: int) ^ 53 \<Longrightarrow> fl (numeral n) = numeral n"
  using fl_of_int [of "numeral n"] by simp

text \<open>A rounded value is a double: rounding it again changes nothing.\<close>

lemma fl_fl [simp]: "fl (fl q) = fl q"
proof -
  have pos: "fl (round_pos x) = round_pos x" if "0 < x" for x
  proof -
    let ?k = "ulp_exp x"
    define m where "m = round_even (x / 2 powi ?k)"
    have m: "0 \<le> m" "m \<le> 2 ^ 53"
      using that significand_less [OF that] by (simp_all add: m_def round_even_ge round_even_le)
    have x: "round_pos x = of_int m * 2 powi ?k" by (simp add: round_pos_def m_def)
    show ?thesis
    proof (cases "m = 2 ^ 53")
      case True
      have "round_pos x = of_int (2 ^ 52) * 2 powi (?k + 1)" by (simp add: x True power_int_add)
      then show ?thesis using fl_exact [of "2 ^ 52" "?k + 1"] ulp_exp_min [of x] by simp
    next
      case False
      then show ?thesis using fl_exact [of m ?k] m ulp_exp_min [of x] by (simp add: x)
    qed
  qed
  consider "q = 0" | "0 < q" | "q < 0" by linarith
  then show ?thesis
  proof cases
    case 3
    then have r: "round_pos (- q) = - fl q" using fl_pos [of "- q"] by (simp add: fl_uminus)
    show ?thesis using pos [of "- q"] 3 by (simp add: r fl_uminus)
  qed (simp_all add: fl_pos pos)
qed

lemma fl_le: "p \<le> q \<Longrightarrow> fl q = q \<Longrightarrow> fl p \<le> q"
  and fl_ge: "q \<le> p \<Longrightarrow> fl q = q \<Longrightarrow> q \<le> fl p"
  using fl_mono by metis+

section \<open>Numbers\<close>

datatype js_number = NaN | Infinite bool \<comment> \<open>\<open>True\<close> is the positive one\<close> | Finite rat

text \<open>A magnitude of \<open>2 ^ 1024\<close> or more is out of range.\<close>

definition overflows :: "rat \<Rightarrow> bool" where
  "overflows r \<longleftrightarrow> r \<noteq> 0 \<and> 1024 \<le> mag \<bar>r\<bar>"

definition to_double :: "rat \<Rightarrow> js_number" where
  "to_double q = (let r = fl q in if overflows r then Infinite (0 < r) else Finite r)"

fun num_neg :: "js_number \<Rightarrow> js_number" where
  "num_neg NaN = NaN"
| "num_neg (Infinite s) = Infinite (\<not> s)"
| "num_neg (Finite x) = Finite (- x)"

fun num_add :: "js_number \<Rightarrow> js_number \<Rightarrow> js_number" where
  "num_add NaN b = NaN"
| "num_add a NaN = NaN"
| "num_add (Infinite s) (Infinite t) = (if s = t then Infinite s else NaN)"
| "num_add (Infinite s) (Finite y) = Infinite s"
| "num_add (Finite x) (Infinite t) = Infinite t"
| "num_add (Finite x) (Finite y) = to_double (x + y)"

definition num_sub :: "js_number \<Rightarrow> js_number \<Rightarrow> js_number" where
  "num_sub a b = num_add a (num_neg b)"

fun num_mul :: "js_number \<Rightarrow> js_number \<Rightarrow> js_number" where
  "num_mul NaN b = NaN"
| "num_mul a NaN = NaN"
| "num_mul (Infinite s) (Infinite t) = Infinite (s = t)"
| "num_mul (Infinite s) (Finite y) = (if y = 0 then NaN else Infinite (s = (0 < y)))"
| "num_mul (Finite x) (Infinite t) = (if x = 0 then NaN else Infinite (t = (0 < x)))"
| "num_mul (Finite x) (Finite y) = to_double (x * y)"

fun num_div :: "js_number \<Rightarrow> js_number \<Rightarrow> js_number" where
  "num_div NaN b = NaN"
| "num_div a NaN = NaN"
| "num_div (Infinite s) (Infinite t) = NaN"
| "num_div (Infinite s) (Finite y) = Infinite (s = (0 \<le> y))"
| "num_div (Finite x) (Infinite t) = Finite 0"
| "num_div (Finite x) (Finite y) =
     (if y = 0 then (if x = 0 then NaN else Infinite (0 < x)) else to_double (x / y))"

text \<open>\<^verbatim>\<open><\<close>, \<^verbatim>\<open>>=\<close> and \<^verbatim>\<open>>\<close>: false as soon as one side is NaN.\<close>

fun num_less :: "js_number \<Rightarrow> js_number \<Rightarrow> bool" where
  "num_less NaN b = False"
| "num_less a NaN = False"
| "num_less (Infinite s) b = (\<not> s \<and> b \<noteq> Infinite False)"
| "num_less (Finite x) (Infinite t) = t"
| "num_less (Finite x) (Finite y) = (x < y)"

definition num_le :: "js_number \<Rightarrow> js_number \<Rightarrow> bool" where
  "num_le a b \<longleftrightarrow> a \<noteq> NaN \<and> b \<noteq> NaN \<and> \<not> num_less b a"

text \<open>\<^verbatim>\<open>Math.max\<close> and \<^verbatim>\<open>Math.min\<close> of two numbers, \<^verbatim>\<open>Math.round\<close> (halves go up).\<close>

definition num_max :: "js_number \<Rightarrow> js_number \<Rightarrow> js_number" where
  "num_max a b = (if a = NaN \<or> b = NaN then NaN else if num_less a b then b else a)"

definition num_min :: "js_number \<Rightarrow> js_number \<Rightarrow> js_number" where
  "num_min a b = (if a = NaN \<or> b = NaN then NaN else if num_less b a then b else a)"

fun num_round :: "js_number \<Rightarrow> js_number" where
  "num_round (Finite x) = to_double (of_int \<lfloor>x + 1 / 2\<rfloor>)"
| "num_round a = a"

lemma num_le_simps [simp]:
  "num_le (Finite x) (Finite y) \<longleftrightarrow> x \<le> y"
  "\<not> num_le NaN b" "\<not> num_le a NaN"
  "num_le (Infinite s) (Infinite t) \<longleftrightarrow> s \<le> t"
  "num_le (Infinite s) (Finite y) \<longleftrightarrow> \<not> s"
  "num_le (Finite x) (Infinite t) \<longleftrightarrow> t"
  by (auto simp: num_le_def)

lemma num_le_refl [simp]: "num_le a a \<longleftrightarrow> a \<noteq> NaN"
  by (cases a) auto

lemma num_le_trans: "num_le a b \<Longrightarrow> num_le b c \<Longrightarrow> num_le a c"
  by (cases a; cases b; cases c) auto

lemma num_leD: "num_le a b \<Longrightarrow> a \<noteq> NaN \<and> b \<noteq> NaN"
  by (simp add: num_le_def)

subsection \<open>Every operation is monotone\<close>

lemma overflows_iff: "overflows r \<longleftrightarrow> 2 ^ 1024 \<le> \<bar>r\<bar>"
proof (cases "r = 0")
  case False
  then have b: "2 powi mag \<bar>r\<bar> \<le> \<bar>r\<bar>" "\<bar>r\<bar> < 2 powi (mag \<bar>r\<bar> + 1)" using mag_bounds [of "\<bar>r\<bar>"] by simp_all
  have p: "(2 :: rat) ^ 1024 = 2 powi 1024" by (simp add: power_int_def)
  have "2 powi 1024 \<le> \<bar>r\<bar>" if "1024 \<le> mag \<bar>r\<bar>"
    using power_int_increasing [OF that, of "2 :: rat"] b(1) by simp
  moreover have "1024 \<le> mag \<bar>r\<bar>" if "2 powi 1024 \<le> \<bar>r\<bar>"
    using powi_less_exp [OF le_less_trans [OF that b(2)]] by simp
  ultimately show ?thesis using False by (auto simp: overflows_def p)
qed (simp add: overflows_def)

lemma to_double_mono:
  assumes "p \<le> q"
  shows "num_le (to_double p) (to_double q)"
proof -
  note fl_mono [OF assms]
  then show ?thesis by (auto simp: to_double_def Let_def overflows_iff abs_if split: if_splits)
qed

lemma to_double_NaN [simp]: "to_double q \<noteq> NaN"
  by (simp add: to_double_def Let_def)

lemma num_neg_mono: "num_le a b \<Longrightarrow> num_le (num_neg b) (num_neg a)"
  by (cases a; cases b) auto

lemma num_le_infinite [simp]:
  "num_le (Infinite False) a \<longleftrightarrow> a \<noteq> NaN" "num_le a (Infinite True) \<longleftrightarrow> a \<noteq> NaN"
  by (cases a; auto)+

lemma num_add_mono:
  "num_le a a' \<Longrightarrow> num_le b b' \<Longrightarrow> num_add a b \<noteq> NaN \<Longrightarrow> num_add a' b' \<noteq> NaN
     \<Longrightarrow> num_le (num_add a b) (num_add a' b')"
  by (cases a; cases a'; cases b; cases b') (simp_all add: to_double_mono split: if_splits)

text \<open>Subtraction from a finite number, and multiplication and division by a positive one, never give NaN.\<close>

lemma num_sub_NaN [simp]: "num_sub (Finite x) a = NaN \<longleftrightarrow> a = NaN"
  by (cases a) (simp_all add: num_sub_def)

lemma num_sub_antimono: "num_le a b \<Longrightarrow> num_le (num_sub (Finite x) b) (num_sub (Finite x) a)"
  unfolding num_sub_def by (rule num_add_mono) (use num_neg_mono num_leD in \<open>auto simp: num_sub_NaN [unfolded num_sub_def]\<close>)

lemma num_add_NaN [simp]: "num_add a (Finite x) = NaN \<longleftrightarrow> a = NaN"
  by (cases a) simp_all

lemma num_div_mono: "0 < y \<Longrightarrow> num_le a b \<Longrightarrow> num_le (num_div a (Finite y)) (num_div b (Finite y))"
  by (cases a; cases b) (simp_all add: to_double_mono divide_right_mono)

lemma num_mul_mono: "0 < y \<Longrightarrow> num_le a b \<Longrightarrow> num_le (num_mul a (Finite y)) (num_mul b (Finite y))"
  by (cases a; cases b) (simp_all add: to_double_mono)

lemma num_div_NaN [simp]: "0 < y \<Longrightarrow> num_div a (Finite y) = NaN \<longleftrightarrow> a = NaN"
  by (cases a) simp_all

lemma num_mul_NaN [simp]: "0 < y \<Longrightarrow> num_mul a (Finite y) = NaN \<longleftrightarrow> a = NaN"
  by (cases a) simp_all

lemma num_less_le: "a \<noteq> NaN \<Longrightarrow> b \<noteq> NaN \<Longrightarrow> num_less a b \<longleftrightarrow> \<not> num_le b a"
  by (simp add: num_le_def)

lemma num_min_mono: "num_le a b \<Longrightarrow> c \<noteq> NaN \<Longrightarrow> num_le (num_min c a) (num_min c b)"
  by (cases a; cases b; cases c) (auto simp: num_min_def)

lemma num_max_mono: "num_le a b \<Longrightarrow> c \<noteq> NaN \<Longrightarrow> num_le (num_max c a) (num_max c b)"
  by (cases a; cases b; cases c) (auto simp: num_max_def)

lemma num_round_mono: "num_le a b \<Longrightarrow> num_le (num_round a) (num_round b)"
  by (cases a; cases b) (auto simp: floor_mono intro!: to_double_mono)

subsection \<open>Results in range\<close>

lemma to_double_finite:
  assumes "\<bar>q\<bar> \<le> 2 ^ 1000"
  shows "to_double q = Finite (fl q)"
proof -
  have top: "fl (2 ^ 1000) = 2 ^ 1000" using fl_exact [of 1 1000] by (simp add: power_int_def)
  have "fl q \<le> 2 ^ 1000" "- (2 ^ 1000) \<le> fl q"
    using fl_le [OF _ top, of q] fl_le [OF _ top, of "- q"] assms by (simp_all add: fl_uminus abs_le_iff)
  moreover have "(2 :: rat) ^ 1000 < 2 ^ 1024" by (rule power_strict_increasing) simp_all
  ultimately show ?thesis by (auto simp: to_double_def Let_def overflows_iff abs_if)
qed

section \<open>Text\<close>

text \<open>\<^verbatim>\<open>parseFloat\<close>: white space, a sign, then the longest prefix that is a decimal literal.\<close>

definition is_digit :: "char \<Rightarrow> bool" where
  "is_digit c \<longleftrightarrow> c \<in> set ''0123456789''"

definition digits_value :: "string \<Rightarrow> int" where
  "digits_value ds = foldl (\<lambda>n c. 10 * n + (int (of_char c) - 48)) 0 ds"

definition white :: "char \<Rightarrow> bool" where
  "white c \<longleftrightarrow> (of_char c :: nat) \<in> {9, 10, 11, 12, 13, 32, 160}"

definition split_sign :: "string \<Rightarrow> bool \<times> string" where
  "split_sign s = (case s of
     [] \<Rightarrow> (False, s)
   | c # r \<Rightarrow> if c = CHR ''-'' then (True, r) else if c = CHR ''+'' then (False, r) else (False, s))"

text \<open>The exponent part is read only when a digit follows.\<close>

definition exponent_part :: "string \<Rightarrow> int" where
  "exponent_part s = (case s of
     [] \<Rightarrow> 0
   | c # r \<Rightarrow>
       if c \<in> set ''eE'' then
         (case split_sign r of (neg, t) \<Rightarrow>
            let ds = takeWhile is_digit t in (if neg then - digits_value ds else digits_value ds))
       else 0)"

definition unsigned_decimal :: "string \<Rightarrow> js_number" where
  "unsigned_decimal s =
     (if take 8 s = ''Infinity'' then Infinite True
      else
        let whole = takeWhile is_digit s; r = dropWhile is_digit s;
            (frac, r') = (case r of
                 [] \<Rightarrow> ([], r)
               | c # t \<Rightarrow> if c = CHR ''.'' then (takeWhile is_digit t, dropWhile is_digit t) else ([], r))
        in if whole = [] \<and> frac = [] then NaN
           else to_double (of_int (digits_value (whole @ frac)) * 10 powi (exponent_part r' - int (length frac))))"

definition parseFloat :: "string \<Rightarrow> js_number" where
  "parseFloat s = (case split_sign (dropWhile white s) of (neg, t) \<Rightarrow>
     let v = unsigned_decimal t in if neg then num_neg v else v)"

text \<open>\<^verbatim>\<open>parseInt(s, 10)\<close>.\<close>

definition parseInt :: "string \<Rightarrow> js_number" where
  "parseInt s = (case split_sign (dropWhile white s) of (neg, t) \<Rightarrow>
     let ds = takeWhile is_digit t; v = to_double (of_int (digits_value ds))
     in if ds = [] then NaN else if neg then num_neg v else v)"

text \<open>
  \<^verbatim>\<open>Number::toString\<close>: the fewest digits \<open>s\<close> (at most 17) and the power of ten for which
  \<open>s * 10 powi (n - k)\<close> rounds to the number, the candidate nearer to it when two do.
\<close>

fun int_decimal :: "int \<Rightarrow> string" where
  "int_decimal n = (if n < 10 then [digit (nat n)] else int_decimal (n div 10) @ [digit (nat (n mod 10))])"

declare int_decimal.simps [simp del]

definition decimal_exp :: "rat \<Rightarrow> int" where
  "decimal_exp x =
     (let (a, b) = quotient_of x; e = int (length (int_decimal a)) - int (length (int_decimal b))
      in if 10 powi e \<le> x then e + 1 else e)"

definition digit_candidate :: "rat \<Rightarrow> nat \<Rightarrow> (int \<times> int) option" where
  "digit_candidate x k =
     (let n = decimal_exp x; y = x * 10 powi (int k - n); f = \<lfloor>y\<rfloor>;
          ok = (\<lambda>s. fl (of_int s * 10 powi (n - int k)) = x);
          up = (if f + 1 = 10 ^ k then (10 ^ (k - 1), n + 1) else (f + 1, n))
      in if ok f \<and> (y - of_int f \<le> 1 / 2 \<or> \<not> ok (f + 1)) then Some (f, n)
         else if ok (f + 1) then Some up else None)"

definition shortest_digits :: "rat \<Rightarrow> nat \<times> int \<times> int" where
  "shortest_digits x =
     (case List.find (\<lambda>k. digit_candidate x k \<noteq> None) [1..<18] of
        None \<Rightarrow> (17, 0, 0)
      | Some k \<Rightarrow> (k, the (digit_candidate x k)))"

definition zeros :: "nat \<Rightarrow> string" where
  "zeros n = replicate n CHR ''0''"

fun num_text :: "js_number \<Rightarrow> string" where
  "num_text NaN = ''NaN''"
| "num_text (Infinite s) = (if s then ''Infinity'' else ''-Infinity'')"
| "num_text (Finite q) =
     (if q = 0 then ''0''
      else
        let (k, s, n) = shortest_digits \<bar>q\<bar>; ds = int_decimal s;
            e = (if n - 1 < 0 then ''e-'' else ''e+'') @ int_decimal \<bar>n - 1\<bar>;
            t = (if int k \<le> n \<and> n \<le> 21 then ds @ zeros (nat n - k)
                 else if 0 < n \<and> n \<le> 21 then take (nat n) ds @ ''.'' @ drop (nat n) ds
                 else if - 6 < n \<and> n \<le> 0 then ''0.'' @ zeros (nat (- n)) @ ds
                 else if k = 1 then ds @ e
                 else take 1 ds @ ''.'' @ drop 1 ds @ e)
        in (if q < 0 then ''-'' else '''') @ t)"

text \<open>\<^verbatim>\<open>toFixed(f)\<close> with \<open>f > 0\<close>.\<close>

fun toFixed :: "nat \<Rightarrow> js_number \<Rightarrow> string" where
  "toFixed f (Finite q) =
     (if 10 ^ 21 \<le> \<bar>q\<bar> then num_text (Finite q)
      else
        let m = int_decimal \<lfloor>\<bar>q\<bar> * 10 ^ f + 1 / 2\<rfloor>;
            p = zeros (f + 1 - length m) @ m; w = length p - f
        in (if q < 0 then ''-'' else '''') @ take w p @ ''.'' @ drop w p)"
| "toFixed f a = num_text a"

end
