(* ===== verification/Scoring.thy ===== *)
theory Scoring
  imports JS_Numbers
begin

text \<open>
  The scores, computed in binary64 as the sources do: the pure part of \<^verbatim>\<open>src/packages/db/cltv-scorer.ts\<close> (configuration,
  sub-scores, weighted composite, tier, rationale texts, version hash) and \<^verbatim>\<open>computeHealthScore\<close> of
  \<^verbatim>\<open>src/packages/db/customer-health-scores.ts\<close>.

  Parameters: \<open>log10\<close>, the implementation-approximated \<^verbatim>\<open>Math.log10\<close>; \<open>rounded_text\<close>, what
  \<^verbatim>\<open>Math.round(x).toLocaleString()\<close> prints in the process's locale; \<open>sha\<close>, the hexadecimal SHA-256 digest.
\<close>

section \<open>Configuration\<close>

datatype Tier = Tier_A | Tier_B | Tier_C | Tier_D

record ScoringConfig =
  weightMacro :: js_number
  weightIndustry :: js_number
  weightCompany :: js_number
  tierA :: js_number
  tierB :: js_number
  tierC :: js_number

record cltv_env =
  CLTV_WEIGHT_MACRO :: "string option"
  CLTV_WEIGHT_INDUSTRY :: "string option"
  CLTV_WEIGHT_COMPANY :: "string option"
  CLTV_TIER_A :: "string option"
  CLTV_TIER_B :: "string option"
  CLTV_TIER_C :: "string option"

text \<open>\<^verbatim>\<open>parseFloat(env.X ?? text)\<close>, and the number itself when that is NaN.\<close>

definition env_number :: "string option \<Rightarrow> string \<Rightarrow> rat \<Rightarrow> js_number" where
  "env_number v txt dflt =
     (let n = parseFloat (case v of None \<Rightarrow> txt | Some t \<Rightarrow> t) in if n = NaN then to_double dflt else n)"

definition resolveScoringConfig :: "cltv_env \<Rightarrow> ScoringConfig" where
  "resolveScoringConfig env =
     \<lparr>weightMacro = env_number (CLTV_WEIGHT_MACRO env) ''0.30'' (3 / 10),
      weightIndustry = env_number (CLTV_WEIGHT_INDUSTRY env) ''0.30'' (3 / 10),
      weightCompany = env_number (CLTV_WEIGHT_COMPANY env) ''0.40'' (4 / 10),
      tierA = env_number (CLTV_TIER_A env) ''80'' 80,
      tierB = env_number (CLTV_TIER_B env) ''60'' 60,
      tierC = env_number (CLTV_TIER_C env) ''40'' 40\<rparr>"

text \<open>\<^verbatim>\<open>JSON.stringify\<close> of a number: an infinity prints as \<^verbatim>\<open>null\<close>.\<close>

definition json_number :: "js_number \<Rightarrow> string" where
  "json_number a = (case a of Finite _ \<Rightarrow> num_text a | _ \<Rightarrow> ''null'')"

definition version_payload :: "ScoringConfig \<Rightarrow> string" where
  "version_payload c =
     ''{'' @ [CHR 34] @ ''wm'' @ [CHR 34] @ '':'' @ json_number (weightMacro c)
     @ '','' @ [CHR 34] @ ''wi'' @ [CHR 34] @ '':'' @ json_number (weightIndustry c)
     @ '','' @ [CHR 34] @ ''wc'' @ [CHR 34] @ '':'' @ json_number (weightCompany c)
     @ '','' @ [CHR 34] @ ''tA'' @ [CHR 34] @ '':'' @ json_number (tierA c)
     @ '','' @ [CHR 34] @ ''tB'' @ [CHR 34] @ '':'' @ json_number (tierB c)
     @ '','' @ [CHR 34] @ ''tC'' @ [CHR 34] @ '':'' @ json_number (tierC c) @ ''}''"

definition computeScoreVersion :: "(string \<Rightarrow> string) \<Rightarrow> ScoringConfig \<Rightarrow> string" where
  "computeScoreVersion sha c = take 12 (sha (version_payload c))"

definition classifyTier :: "js_number \<Rightarrow> ScoringConfig \<Rightarrow> Tier" where
  "classifyTier compositeScore c =
     (if num_le (tierA c) compositeScore then Tier_A
      else if num_le (tierB c) compositeScore then Tier_B
      else if num_le (tierC c) compositeScore then Tier_C
      else Tier_D)"

section \<open>Sub-scores\<close>

record MacroSnapshot =
  interest_rate :: "js_number option"
  gdp_growth_rate :: "js_number option"
  inflation_rate :: "js_number option"

record IndustrySnapshot =
  sic_code :: "string option"
  growth_rate :: "js_number option"
  default_rate :: "js_number option"
  payment_norm_days :: "int option"

record CompanySnapshot =
  annual_revenue_est :: "js_number option"
  debt_load_est :: "js_number option"
  funding_stage :: "string option"
  kyc_record_id :: "string option"

definition clamp :: "js_number \<Rightarrow> js_number \<Rightarrow> js_number \<Rightarrow> js_number" where
  "clamp v lo hi = num_max lo (num_min hi v)"

text \<open>\<^verbatim>\<open>clamp(1 - x / lim, 0, 1)\<close> and \<^verbatim>\<open>clamp((x + a) / b, 0, 1)\<close>.\<close>

definition lower_better :: "js_number \<Rightarrow> js_number \<Rightarrow> js_number" where
  "lower_better l x = clamp (num_sub (Finite 1) (num_div x l)) (Finite 0) (Finite 1)"

definition higher_better :: "js_number \<Rightarrow> js_number \<Rightarrow> js_number \<Rightarrow> js_number" where
  "higher_better a b x = clamp (num_div (num_add x a) b) (Finite 0) (Finite 1)"

definition opt_list :: "('a \<Rightarrow> 'b) \<Rightarrow> 'a option \<Rightarrow> 'b list" where
  "opt_list f x = (case x of None \<Rightarrow> [] | Some v \<Rightarrow> [f v])"

text \<open>\<^verbatim>\<open>components.reduce((a, b) => a + b, 0) / components.length\<close>, one half when there is none.\<close>

definition num_average :: "js_number list \<Rightarrow> js_number" where
  "num_average components =
     (if components = [] then Finite (1 / 2)
      else num_div (foldl num_add (Finite 0) components) (Finite (of_nat (length components))))"

text \<open>The \<^verbatim>\<open>components\<close> array of each sub-score.\<close>

definition macro_components :: "MacroSnapshot \<Rightarrow> js_number list" where
  "macro_components s =
     opt_list (lower_better (Finite 20)) (interest_rate s)
     @ opt_list (higher_better (Finite 5) (Finite 15)) (gdp_growth_rate s)
     @ opt_list (lower_better (Finite 20)) (inflation_rate s)"

definition computeMacroSubScore :: "MacroSnapshot \<Rightarrow> js_number" where
  "computeMacroSubScore s = num_average (macro_components s)"

definition industry_components :: "IndustrySnapshot \<Rightarrow> js_number list" where
  "industry_components s =
     opt_list (higher_better (to_double (1 / 10)) (to_double (3 / 10))) (growth_rate s)
     @ opt_list (lower_better (to_double (2 / 10))) (default_rate s)"

definition computeIndustrySubScore :: "IndustrySnapshot \<Rightarrow> js_number" where
  "computeIndustrySubScore s = num_average (industry_components s)"

definition known_revenue :: "CompanySnapshot \<Rightarrow> js_number option" where
  "known_revenue s = (case annual_revenue_est s of
     Some r \<Rightarrow> if num_less (Finite 0) r then Some r else None
   | None \<Rightarrow> None)"

definition company_components :: "(js_number \<Rightarrow> js_number) \<Rightarrow> CompanySnapshot \<Rightarrow> js_number list" where
  "company_components log10 s =
     opt_list (\<lambda>r. clamp (num_div (log10 (num_add r (Finite 1))) (log10 (num_add (Finite 10000000) (Finite 1))))
                (Finite 0) (Finite 1)) (known_revenue s)
     @ opt_list (\<lambda>d. case known_revenue s of
           Some r \<Rightarrow> lower_better (Finite 2) (num_div d r)
         | None \<Rightarrow> Finite (1 / 2)) (debt_load_est s)"

definition computeCompanySubScore :: "(js_number \<Rightarrow> js_number) \<Rightarrow> CompanySnapshot \<Rightarrow> js_number" where
  "computeCompanySubScore log10 s = num_average (company_components log10 s)"

section \<open>The composite\<close>

definition totalWeight :: "ScoringConfig \<Rightarrow> js_number" where
  "totalWeight c = num_add (num_add (weightMacro c) (weightIndustry c)) (weightCompany c)"

definition compositeRaw :: "ScoringConfig \<Rightarrow> js_number \<Rightarrow> js_number \<Rightarrow> js_number \<Rightarrow> js_number" where
  "compositeRaw c m i k =
     (let wMacro = num_div (weightMacro c) (totalWeight c);
          wIndustry = num_div (weightIndustry c) (totalWeight c);
          wCompany = num_div (weightCompany c) (totalWeight c)
      in num_add (num_add (num_mul m wMacro) (num_mul i wIndustry)) (num_mul k wCompany))"

definition compositeScore :: "ScoringConfig \<Rightarrow> js_number \<Rightarrow> js_number \<Rightarrow> js_number \<Rightarrow> js_number" where
  "compositeScore c m i k =
     num_div (num_round (num_mul (num_mul (compositeRaw c m i k) (Finite 100)) (Finite 10000))) (Finite 10000)"

text \<open>Steps 5 and 6 of \<^verbatim>\<open>score\<close>: the composite of three snapshots.\<close>

definition snapshot_score ::
  "(js_number \<Rightarrow> js_number) \<Rightarrow> ScoringConfig \<Rightarrow> MacroSnapshot \<Rightarrow> IndustrySnapshot \<Rightarrow> CompanySnapshot \<Rightarrow> js_number" where
  "snapshot_score log10 c ms ind cs =
     compositeScore c (computeMacroSubScore ms) (computeIndustrySubScore ind) (computeCompanySubScore log10 cs)"

section \<open>Rationale\<close>

fun join_text :: "string \<Rightarrow> string list \<Rightarrow> string" where
  "join_text sep [] = []"
| "join_text sep [t] = t"
| "join_text sep (t # u # us) = t @ sep @ join_text sep (u # us)"

definition int_text :: "int \<Rightarrow> string" where
  "int_text n = (if n < 0 then ''-'' @ int_decimal (- n) else int_decimal n)"

definition scored_text :: "string \<Rightarrow> js_number \<Rightarrow> string list \<Rightarrow> string" where
  "scored_text subject subScore parts =
     subject @ '' scored '' @ toFixed 1 (num_mul subScore (Finite 100)) @ ''/100 based on: ''
     @ join_text '', '' parts @ ''.''"

definition buildMacroRationale :: "MacroSnapshot \<Rightarrow> js_number \<Rightarrow> string" where
  "buildMacroRationale s subScore =
     (let parts = opt_list (\<lambda>r. ''interest rate '' @ toFixed 2 r @ ''%'') (interest_rate s)
            @ opt_list (\<lambda>g. ''GDP growth '' @ toFixed 2 g @ ''%'') (gdp_growth_rate s)
            @ opt_list (\<lambda>r. ''inflation '' @ toFixed 2 r @ ''%'') (inflation_rate s)
      in if parts = [] then ''No macro indicators available; defaulted to neutral (0.50).''
         else scored_text ''Macro environment'' subScore parts)"

definition truthy :: "string option \<Rightarrow> bool" where
  "truthy x \<longleftrightarrow> (case x of None \<Rightarrow> False | Some t \<Rightarrow> t \<noteq> [])"

definition buildIndustryRationale :: "IndustrySnapshot \<Rightarrow> js_number \<Rightarrow> string" where
  "buildIndustryRationale s subScore =
     (if \<not> truthy (sic_code s) then ''No industry benchmark available; defaulted to neutral (0.50).''
      else scored_text ''Industry'' subScore (
        opt_list (\<lambda>c. ''SIC code '' @ c) (sic_code s)
        @ opt_list (\<lambda>g. ''growth rate '' @ toFixed 2 (num_mul g (Finite 100)) @ ''%'') (growth_rate s)
        @ opt_list (\<lambda>d. ''default rate '' @ toFixed 2 (num_mul d (Finite 100)) @ ''%'') (default_rate s)
        @ opt_list (\<lambda>n. ''payment norm '' @ int_text n @ '' days'') (payment_norm_days s)))"

definition buildCompanyRationale :: "(js_number \<Rightarrow> string) \<Rightarrow> CompanySnapshot \<Rightarrow> js_number \<Rightarrow> string" where
  "buildCompanyRationale rounded_text s subScore =
     (if \<not> truthy (kyc_record_id s) then ''No KYC record available; defaulted to neutral (0.50).''
      else scored_text ''Company'' subScore (
        opt_list (\<lambda>r. ''annual revenue ~$'' @ rounded_text r) (annual_revenue_est s)
        @ opt_list (\<lambda>d. ''debt load ~$'' @ rounded_text d) (debt_load_est s)
        @ opt_list (\<lambda>f. ''stage: '' @ f) (funding_stage s)))"

section \<open>Customer health\<close>

record CustomerHealthSignals =
  health_customer_id :: string
  sg_days_overdue :: js_number
  sg_breach_count :: js_number
  sg_escalation_level :: js_number

record health_score =
  hs_score :: js_number
  days_overdue_signal :: js_number
  breach_count_signal :: js_number
  escalation_signal :: js_number

definition WEIGHT_DAYS_OVERDUE :: js_number where "WEIGHT_DAYS_OVERDUE = to_double (65 / 100)"
definition WEIGHT_BREACH_COUNT :: js_number where "WEIGHT_BREACH_COUNT = to_double (2 / 10)"
definition WEIGHT_ESCALATION :: js_number where "WEIGHT_ESCALATION = to_double (15 / 100)"

definition compositePenalty :: "js_number \<Rightarrow> js_number \<Rightarrow> js_number \<Rightarrow> js_number" where
  "compositePenalty d b e =
     num_add (num_add (num_mul d WEIGHT_DAYS_OVERDUE) (num_mul b WEIGHT_BREACH_COUNT)) (num_mul e WEIGHT_ESCALATION)"

definition round_cents :: "js_number \<Rightarrow> js_number" where
  "round_cents a = num_div (num_round (num_mul a (Finite 100))) (Finite 100)"

definition computeHealthScore :: "CustomerHealthSignals \<Rightarrow> health_score" where
  "computeHealthScore s =
     (let daysOverduePenalty = num_min (num_div (sg_days_overdue s) (Finite 60)) (Finite 1);
          breachPenalty = num_min (num_div (sg_breach_count s) (Finite 3)) (Finite 1);
          escalationPenalty = num_min (num_div (sg_escalation_level s) (Finite 3)) (Finite 1);
          rawScore = num_mul (Finite 100)
            (num_sub (Finite 1) (compositePenalty daysOverduePenalty breachPenalty escalationPenalty))
      in \<lparr>hs_score = num_max (Finite 0) (num_min (Finite 100) (round_cents rawScore)),
          days_overdue_signal = round_cents (num_mul (num_mul daysOverduePenalty WEIGHT_DAYS_OVERDUE) (Finite 100)),
          breach_count_signal = round_cents (num_mul (num_mul breachPenalty WEIGHT_BREACH_COUNT) (Finite 100)),
          escalation_signal = round_cents (num_mul (num_mul escalationPenalty WEIGHT_ESCALATION) (Finite 100))\<rparr>)"

section \<open>Ranges\<close>

definition unit_number :: "js_number \<Rightarrow> bool" where
  "unit_number a \<longleftrightarrow> (case a of Finite x \<Rightarrow> 0 \<le> x \<and> x \<le> 1 | _ \<Rightarrow> False)"

lemma unit_numberE:
  assumes "unit_number a"
  obtains x where "a = Finite x" "0 \<le> x" "x \<le> 1"
  using assms by (cases a) (auto simp: unit_number_def)

lemma clamp_unit: "v \<noteq> NaN \<Longrightarrow> unit_number (clamp v (Finite 0) (Finite 1))"
  by (cases v) (auto simp: clamp_def num_min_def num_max_def unit_number_def)

lemma clamp_mono: "num_le v v' \<Longrightarrow> num_le (clamp v (Finite 0) (Finite 1)) (clamp v' (Finite 0) (Finite 1))"
  unfolding clamp_def by (intro num_max_mono num_min_mono) simp_all

lemma to_double_range:
  assumes "0 \<le> q" "q \<le> of_int n" "n < 2 ^ 53"
  shows "to_double q = Finite (fl q)" "0 \<le> fl q" "fl q \<le> of_int n"
proof -
  have n: "0 \<le> n" using assms(1,2) by (metis of_int_0_le_iff order_trans)
  have "(of_int n :: rat) \<le> 2 ^ 53" using assms(3) by simp
  also have "\<dots> \<le> 2 ^ 1000" by (rule power_increasing) simp_all
  finally show "to_double q = Finite (fl q)" using assms by (intro to_double_finite) simp
  show "0 \<le> fl q" by (rule fl_nonneg [OF assms(1)])
  show "fl q \<le> of_int n" using assms(2,3) n by (intro fl_le fl_of_int) simp_all
qed

lemma sum_range:
  assumes "list_all unit_number cs" "0 \<le> s" "s \<le> of_int n" "n + int (length cs) < 2 ^ 53"
  shows "\<exists>t. foldl num_add (Finite s) cs = Finite t \<and> 0 \<le> t \<and> t \<le> of_int (n + int (length cs))"
  using assms
proof (induction cs arbitrary: s n)
  case (Cons a cs)
  obtain x where x: "a = Finite x" "0 \<le> x" "x \<le> 1" using Cons.prems(1) by (auto elim: unit_numberE)
  have "to_double (s + x) = Finite (fl (s + x))" "0 \<le> fl (s + x)" "fl (s + x) \<le> of_int (n + 1)"
    using to_double_range [of "s + x" "n + 1"] x Cons.prems(2-4) by simp_all
  then show ?case using Cons.IH [of "fl (s + x)" "n + 1"] Cons.prems x by (simp add: algebra_simps)
qed simp

lemma average_unit:
  assumes "list_all unit_number cs" "length cs < 100"
  shows "unit_number (num_average cs)"
proof (cases "cs = []")
  case False
  obtain t where t: "foldl num_add (Finite 0) cs = Finite t" "0 \<le> t" "t \<le> of_int (0 + int (length cs))"
    using sum_range [OF assms(1), of 0 0] assms(2) by auto
  then have "0 \<le> t / of_nat (length cs)" "t / of_nat (length cs) \<le> of_int 1" using False by simp_all
  from to_double_range [OF this] show ?thesis using t False by (simp add: num_average_def unit_number_def)
qed (simp add: num_average_def unit_number_def)

lemma sum_mono:
  assumes "list_all2 num_le cs cs'" "list_all unit_number cs" "list_all unit_number cs'"
    "num_le (Finite s) (Finite s')" "0 \<le> s" "s' \<le> of_int n" "n + int (length cs) < 2 ^ 53"
  shows "num_le (foldl num_add (Finite s) cs) (foldl num_add (Finite s') cs')"
  using assms
proof (induction cs cs' arbitrary: s s' n rule: list_all2_induct)
  case (Cons a as b bs)
  obtain x y where xy: "a = Finite x" "b = Finite y" "0 \<le> x" "x \<le> 1" "0 \<le> y" "y \<le> 1"
    using Cons.prems(1,2) by (auto elim!: unit_numberE)
  have le: "x \<le> y" "s \<le> s'" using Cons xy by simp_all
  have S: "to_double (s + x) = Finite (fl (s + x))" "0 \<le> fl (s + x)"
    and S': "to_double (s' + y) = Finite (fl (s' + y))" "fl (s' + y) \<le> of_int (n + 1)"
    using to_double_range [of "s + x" "n + 1"] to_double_range [of "s' + y" "n + 1"] xy le Cons.prems by simp_all
  have "fl (s + x) \<le> fl (s' + y)" using le by (intro fl_mono) simp
  then show ?case using Cons.IH [of "fl (s + x)" "fl (s' + y)" "n + 1"] Cons.prems S S' xy by (simp add: algebra_simps)
qed simp

lemma average_mono:
  assumes "list_all2 num_le cs cs'" "list_all unit_number cs" "list_all unit_number cs'" "length cs < 100"
  shows "num_le (num_average cs) (num_average cs')"
proof (cases "cs = []")
  case True
  then show ?thesis using assms(1) by (simp add: num_average_def)
next
  case False
  have len: "length cs' = length cs" using assms(1) by (simp add: list_all2_lengthD)
  have "num_le (foldl num_add (Finite 0) cs) (foldl num_add (Finite 0) cs')"
    using assms by (intro sum_mono [where n = 0]) simp_all
  then show ?thesis using False len by (auto simp: num_average_def intro!: num_div_mono)
qed

section \<open>The composite stays in range\<close>

text \<open>Rounding moves a value of at most \<open>b\<close> by at most \<open>b / 2 ^ 53\<close>.\<close>

lemma fl_near:
  assumes "0 \<le> q" "q \<le> b" "min_normal \<le> b"
  shows "fl q \<le> q + b / 2 ^ 53" "q - b / 2 ^ 53 \<le> fl q"
proof -
  have "max \<bar>q\<bar> min_normal / 2 ^ 53 \<le> b / 2 ^ 53" using assms by (intro divide_right_mono) simp_all
  then have "\<bar>fl q - q\<bar> \<le> b / 2 ^ 53" using fl_error [of q] by (rule order_trans [rotated])
  then show "fl q \<le> q + b / 2 ^ 53" "q - b / 2 ^ 53 \<le> fl q" by linarith+
qed

lemma min_normal_small: "0 < min_normal" "min_normal \<le> 1 / 2 ^ 60"
proof -
  have "(2 :: rat) powi (- 1022) \<le> 2 powi (- 60)" by (rule power_int_increasing) simp_all
  also have "(2 :: rat) powi (- 60) = 1 / 2 ^ 60" by (simp add: power_int_def power_divide)
  finally show "min_normal \<le> 1 / 2 ^ 60" by (simp only: min_normal_def)
  show "0 < min_normal" unfolding min_normal_def by (rule powi_pos)
qed

text \<open>The computed total of three weights is infinite or at most three units in the last place short.\<close>

lemma total_weight_low:
  assumes "0 \<le> x" "0 \<le> y" "0 \<le> z" "min_normal \<le> x + y + z"
    "num_add (num_add (Finite x) (Finite y)) (Finite z) = Finite t"
  shows "(x + y + z) * (2 ^ 53 - 3) \<le> t * 2 ^ 53"
proof -
  let ?S = "x + y + z"
  have t: "t = fl (fl (x + y) + z)"
    using assms(5) by (auto simp: to_double_def Let_def split: if_splits)
  have s: "fl (x + y) \<le> x + y + ?S / 2 ^ 53" "x + y - ?S / 2 ^ 53 \<le> fl (x + y)"
    using fl_near [of "x + y" ?S] assms by simp_all
  have "fl (x + y) + z - (?S + ?S / 2 ^ 53) / 2 ^ 53 \<le> t"
    unfolding t using assms s fl_nonneg [of "x + y"] by (intro fl_near) simp_all
  then have "?S - ?S / 2 ^ 53 - (?S + ?S / 2 ^ 53) / 2 ^ 53 \<le> t" using s by linarith
  moreover have "?S / 2 ^ 53 \<le> ?S" using assms by simp
  ultimately show ?thesis by (simp add: field_simps)
qed

lemma total_weight_cases:
  assumes "0 \<le> x" "0 \<le> y" "0 \<le> z"
  shows "num_add (num_add (Finite x) (Finite y)) (Finite z) = Infinite True
    \<or> (\<exists>t. num_add (num_add (Finite x) (Finite y)) (Finite z) = Finite t)"
  using assms fl_nonneg [of "x + y"] fl_nonneg [of "fl (x + y) + z"]
  by (auto simp: to_double_def Let_def overflows_def)

text \<open>The three normalised weights add up to hardly more than one.\<close>

lemma normalised_weights:
  assumes "0 \<le> x" "0 \<le> y" "0 \<le> z" "min_normal \<le> x + y + z"
    "num_add (num_add (Finite x) (Finite y)) (Finite z) = Finite t"
  shows "fl (x / t) + fl (y / t) + fl (z / t) \<le> 1 + 1 / 2 ^ 48" "0 < t" "x / t \<le> 2" "y / t \<le> 2" "z / t \<le> 2"
proof -
  have S: "0 < x + y + z" using assms(4) min_normal_small by linarith
  have low: "(x + y + z) * (2 ^ 53 - 3) \<le> t * 2 ^ 53" by (rule total_weight_low [OF assms])
  then show t: "0 < t" using S by (simp add: zero_less_mult_iff)
  have q: "(x + y + z) / t \<le> 2 ^ 53 / (2 ^ 53 - 3)" using low t by (simp add: field_simps)
  then have sum: "x / t + y / t + z / t \<le> 1 + 1 / 2 ^ 50" by (simp add: add_divide_distrib)
  have nn: "0 \<le> x / t" "0 \<le> y / t" "0 \<le> z / t" using assms t by simp_all
  have "x / t + y / t + z / t \<le> 2" using sum by (rule order_trans) simp
  then show two: "x / t \<le> 2" "y / t \<le> 2" "z / t \<le> 2" using nn by linarith+
  have "fl (x / t) \<le> x / t + 2 / 2 ^ 53" "fl (y / t) \<le> y / t + 2 / 2 ^ 53" "fl (z / t) \<le> z / t + 2 / 2 ^ 53"
    using fl_near(1) [OF nn(1) two(1)] fl_near(1) [OF nn(2) two(2)] fl_near(1) [OF nn(3) two(3)] min_normal_small(2) by simp_all
  with sum show "fl (x / t) + fl (y / t) + fl (z / t) \<le> 1 + 1 / 2 ^ 48" by simp
qed

lemma rounded_percent:
  assumes "0 \<le> r" "r \<le> 1 + 1 / 2 ^ 40"
  shows "\<exists>s. num_div (num_round (num_mul (num_mul (Finite r) (Finite 100)) (Finite 10000))) (Finite 10000) = Finite s
    \<and> 0 \<le> s \<and> s \<le> 100"
proof -
  define u where "u = fl (r * 100)"
  define v where "v = fl (u * 10000)"
  define n where "n = \<lfloor>v + 1 / 2\<rfloor>"
  have u: "to_double (r * 100) = Finite u" "0 \<le> u" "u \<le> r * 100 + 101 / 2 ^ 53"
    using to_double_range [of "r * 100" 101] fl_near(1) [of "r * 100" 101] assms min_normal_small(2) by (simp_all add: u_def)
  have b: "u * 10000 \<le> 1000001" using u(3) assms(2) by simp
  have v: "to_double (u * 10000) = Finite v" "0 \<le> v" "v \<le> u * 10000 + 1000001 / 2 ^ 53"
    using to_double_range [of "u * 10000" 1000001] fl_near(1) [of "u * 10000" 1000001] u(2) b min_normal_small(2) by (simp_all add: v_def)
  have "v + 1 / 2 < 1000001" using v(3) u(3) assms(2) by simp
  then have "n < 1000001" by (simp add: n_def floor_less_iff)
  moreover have "0 \<le> n" using v(2) by (simp add: n_def)
  ultimately have n: "to_double (of_int n) = Finite (of_int n)" "0 \<le> (of_int n :: rat) / 10000" "(of_int n :: rat) / 10000 \<le> of_int 100"
    using to_double_range(1) [of "of_int n" n] fl_of_int [of n] by simp_all
  from to_double_range [OF n(2,3)] show ?thesis using n(1) by (simp add: u v n_def)
qed

lemma weighted_sum:
  assumes "0 \<le> a" "a \<le> 1" "0 \<le> b" "b \<le> 1" "0 \<le> c" "c \<le> 1"
    "0 \<le> x" "0 \<le> y" "0 \<le> z" "fl x = x" "fl y = y" "fl z = z" "x \<le> 2" "y \<le> 2" "z \<le> 2"
  shows "\<exists>r. num_add (num_add (num_mul (Finite a) (Finite x)) (num_mul (Finite b) (Finite y))) (num_mul (Finite c) (Finite z)) = Finite r
    \<and> 0 \<le> r \<and> r \<le> x + y + z + 1 / 2 ^ 48"
proof -
  have prod: "to_double (p * w) = Finite (fl (p * w))" "0 \<le> fl (p * w)" "fl (p * w) \<le> w"
    if "0 \<le> p" "p \<le> 1" "0 \<le> w" "fl w = w" "w \<le> 2" for p w
  proof -
    have "p * w \<le> w" using that mult_right_mono [of p 1 w] by simp
    then show "to_double (p * w) = Finite (fl (p * w))" "0 \<le> fl (p * w)" "fl (p * w) \<le> w"
      using to_double_range [of "p * w" 2] fl_le [of "p * w" w] that by simp_all
  qed
  note A = prod [OF assms(1,2,7,10,13)] and B = prod [OF assms(3,4,8,11,14)] and C = prod [OF assms(5,6,9,12,15)]
  define p where "p = fl (a * x) + fl (b * y)"
  have p: "0 \<le> p" "p \<le> x + y" "p \<le> 4" using A B assms(13,14) by (simp_all add: p_def)
  have s: "to_double p = Finite (fl p)" "0 \<le> fl p" "fl p \<le> p + 4 / 2 ^ 53"
    using to_double_range [of p 4] fl_near(1) [of p 4] p min_normal_small(2) by simp_all
  define q where "q = fl p + fl (c * z)"
  have q: "0 \<le> q" "q \<le> x + y + z + 4 / 2 ^ 53" "q \<le> 7" using s p C assms(15) by (simp_all add: q_def)
  have r: "to_double q = Finite (fl q)" "0 \<le> fl q" "fl q \<le> q + 7 / 2 ^ 53"
    using to_double_range [of q 7] fl_near(1) [of q 7] q min_normal_small(2) by simp_all
  show ?thesis using r q by (intro exI [of _ "fl q"]) (simp add: A B C s p_def [symmetric] q_def [symmetric])
qed

text \<open>A configuration whose weights are finite, not negative and not all negligible.\<close>

definition sane_weights :: "ScoringConfig \<Rightarrow> bool" where
  "sane_weights c = (case (weightMacro c, weightIndustry c, weightCompany c) of
     (Finite x, Finite y, Finite z) \<Rightarrow> 0 \<le> x \<and> 0 \<le> y \<and> 0 \<le> z \<and> min_normal \<le> x + y + z
   | _ \<Rightarrow> False)"

lemma weights_normalised:
  assumes "sane_weights c"
  obtains p q r where "num_div (weightMacro c) (totalWeight c) = Finite p" "num_div (weightIndustry c) (totalWeight c) = Finite q"
    "num_div (weightCompany c) (totalWeight c) = Finite r" "0 \<le> p" "0 \<le> q" "0 \<le> r" "fl p = p" "fl q = q" "fl r = r"
    "p \<le> 2" "q \<le> 2" "r \<le> 2" "p + q + r \<le> 1 + 1 / 2 ^ 48"
proof -
  obtain x y z where c: "weightMacro c = Finite x" "weightIndustry c = Finite y" "weightCompany c = Finite z"
    and pos: "0 \<le> x" "0 \<le> y" "0 \<le> z" "min_normal \<le> x + y + z"
    using assms by (auto simp: sane_weights_def split: js_number.splits)
  have total: "totalWeight c = num_add (num_add (Finite x) (Finite y)) (Finite z)" by (simp add: totalWeight_def c)
  consider "totalWeight c = Infinite True" | t where "totalWeight c = Finite t"
    using total_weight_cases [OF pos(1-3)] total by auto
  then show thesis
  proof cases
    case 1
    then show ?thesis by (intro that [of 0 0 0]) (simp_all add: c)
  next
    case (2 t)
    note N = normalised_weights [OF pos, folded total, OF 2]
    have w: "to_double (w / t) = Finite (fl (w / t))" "0 \<le> fl (w / t)" "fl (w / t) \<le> 2" if "0 \<le> w" "w / t \<le> 2" for w
      using to_double_range [of "w / t" 2] that N(2) by simp_all
    note w [OF pos(1) N(3)] w [OF pos(2) N(4)] w [OF pos(3) N(5)]
    then show ?thesis using N(1,2) by (intro that [of "fl (x / t)" "fl (y / t)" "fl (z / t)"]) (simp_all add: c 2)
  qed
qed

lemma composite_range:
  assumes "sane_weights c" "unit_number m" "unit_number i" "unit_number k"
  shows "\<exists>s. compositeScore c m i k = Finite s \<and> 0 \<le> s \<and> s \<le> 100"
proof -
  obtain a b d where sub: "m = Finite a" "i = Finite b" "k = Finite d" "0 \<le> a" "a \<le> 1" "0 \<le> b" "b \<le> 1" "0 \<le> d" "d \<le> 1"
    using assms(2-4) by (auto elim!: unit_numberE)
  obtain p q r where w: "num_div (weightMacro c) (totalWeight c) = Finite p" "num_div (weightIndustry c) (totalWeight c) = Finite q"
    "num_div (weightCompany c) (totalWeight c) = Finite r" and N: "0 \<le> p" "0 \<le> q" "0 \<le> r" "fl p = p" "fl q = q" "fl r = r"
    "p \<le> 2" "q \<le> 2" "r \<le> 2" "p + q + r \<le> 1 + 1 / 2 ^ 48"
    using assms(1) by (rule weights_normalised)
  obtain e where e: "compositeRaw c m i k = Finite e" "0 \<le> e" "e \<le> p + q + r + 1 / 2 ^ 48"
    using weighted_sum [OF sub(4-9) N(1-9)] by (auto simp: compositeRaw_def w sub)
  have "e \<le> 1 + 1 / 2 ^ 40" using e(3) N(10) by simp
  from rounded_percent [OF e(2) this] show ?thesis by (simp add: compositeScore_def e(1))
qed

lemma num_add_nonneg:
  "num_le (Finite 0) a \<Longrightarrow> num_le (Finite 0) b \<Longrightarrow> num_add a b \<noteq> NaN \<and> num_le (Finite 0) (num_add a b)"
  using to_double_mono [of 0] by (cases a; cases b) (auto simp: to_double_def [of 0] overflows_def)

lemma num_add_mono_nonneg:
  assumes "num_le (Finite 0) a" "num_le a a'" "num_le (Finite 0) b" "num_le b b'"
  shows "num_le (num_add a b) (num_add a' b')" "num_le (Finite 0) (num_add a b)"
  using assms num_add_nonneg [OF assms(1,3)]
    num_add_nonneg [OF num_le_trans [OF assms(1,2)] num_le_trans [OF assms(3,4)]]
  by (auto intro!: num_add_mono)

lemma composite_mono:
  assumes "sane_weights c" "list_all unit_number [m, i, k, m', i', k']" "num_le m m'" "num_le i i'" "num_le k k'"
  shows "num_le (compositeScore c m i k) (compositeScore c m' i' k')"
proof -
  obtain p q r where w: "num_div (weightMacro c) (totalWeight c) = Finite p" "num_div (weightIndustry c) (totalWeight c) = Finite q"
    "num_div (weightCompany c) (totalWeight c) = Finite r" "0 \<le> p" "0 \<le> q" "0 \<le> r"
    using assms(1) by (rule weights_normalised)
  have mul: "num_le (num_mul a (Finite w)) (num_mul a' (Finite w))" "num_le (Finite 0) (num_mul a (Finite w))"
    if "unit_number a" "unit_number a'" "num_le a a'" "0 \<le> w" for a a' w
    using that to_double_mono [of 0] by (auto elim!: unit_numberE simp: to_double_def [of 0] overflows_def intro!: to_double_mono mult_right_mono)
  have M: "num_le (num_mul m (Finite p)) (num_mul m' (Finite p))" "num_le (Finite 0) (num_mul m (Finite p))"
    and I: "num_le (num_mul i (Finite q)) (num_mul i' (Finite q))" "num_le (Finite 0) (num_mul i (Finite q))"
    and K: "num_le (num_mul k (Finite r)) (num_mul k' (Finite r))" "num_le (Finite 0) (num_mul k (Finite r))"
    using mul [of m m' p] mul [of i i' q] mul [of k k' r] assms w(4-6) by auto
  note MI = num_add_mono_nonneg [OF M(2,1) I(2,1)]
  have raw: "num_le (compositeRaw c m i k) (compositeRaw c m' i' k')"
    unfolding compositeRaw_def Let_def w(1-3) by (rule num_add_mono_nonneg [OF MI(2,1) K(2,1)])
  show ?thesis unfolding compositeScore_def using raw by (intro num_div_mono num_round_mono num_mul_mono) simp_all
qed

section \<open>Sub-scores in range and monotone\<close>

definition no_NaN :: "js_number option \<Rightarrow> bool" where
  "no_NaN x \<longleftrightarrow> x \<noteq> Some NaN"

definition finite_or_absent :: "js_number option \<Rightarrow> bool" where
  "finite_or_absent x = (case x of Some (Finite _) \<Rightarrow> True | None \<Rightarrow> True | _ \<Rightarrow> False)"

text \<open>What the scores rely on of \<^verbatim>\<open>Math.log10\<close>.\<close>

definition log10_ok :: "(js_number \<Rightarrow> js_number) \<Rightarrow> bool" where
  "log10_ok log10 \<longleftrightarrow>
     (\<forall>a. num_le (Finite 1) a \<longrightarrow> num_le (Finite 0) (log10 a))
     \<and> (case log10 (Finite 10000001) of Finite l \<Rightarrow> 0 < l | _ \<Rightarrow> False)"

lemma opt_list_unit: "(\<And>v. x = Some v \<Longrightarrow> unit_number (f v)) \<Longrightarrow> list_all unit_number (opt_list f x)"
  by (cases x) (simp_all add: opt_list_def)

lemma length_opt_list [simp]: "length (opt_list f x) = (if x = None then 0 else 1)"
  by (cases x) (simp_all add: opt_list_def)

lemma opt_list_mono: "rel_option R x y \<Longrightarrow> (\<And>v w. R v w \<Longrightarrow> num_le (f v) (g w)) \<Longrightarrow> list_all2 num_le (opt_list f x) (opt_list g y)"
  by (cases x; cases y) (simp_all add: opt_list_def)

lemma lower_better_unit: "0 < l \<Longrightarrow> x \<noteq> NaN \<Longrightarrow> unit_number (lower_better (Finite l) x)"
  and higher_better_unit: "0 < b \<Longrightarrow> x \<noteq> NaN \<Longrightarrow> unit_number (higher_better (Finite a) (Finite b) x)"
  by (simp_all add: lower_better_def higher_better_def clamp_unit)

lemma lower_better_antimono: "0 < l \<Longrightarrow> num_le x y \<Longrightarrow> num_le (lower_better (Finite l) y) (lower_better (Finite l) x)"
  unfolding lower_better_def by (intro clamp_mono num_sub_antimono num_div_mono)

lemma higher_better_mono:
  "0 < b \<Longrightarrow> num_le x y \<Longrightarrow> num_le (higher_better (Finite a) (Finite b) x) (higher_better (Finite a) (Finite b) y)"
  unfolding higher_better_def by (intro clamp_mono num_div_mono num_add_mono) (auto dest: num_leD)

lemma to_double_pos:
  assumes "1 / 2 ^ 10 \<le> q" "q \<le> 1"
  shows "\<exists>y. to_double q = Finite y \<and> 0 < y"
proof -
  have "fl (1 / 2 ^ 10) = 1 / 2 ^ 10" using fl_exact [of 1 "- 10"] by (simp add: power_int_def power_divide)
  then have "1 / 2 ^ 10 \<le> fl q" using fl_ge assms(1) by metis
  then show ?thesis using to_double_range(1) [of q 1] assms by (auto intro: less_le_trans [of _ "1 / 2 ^ 10"])
qed

lemma industry_constants:
  obtains x y z where "to_double (1 / 10) = Finite x" "to_double (3 / 10) = Finite y" "to_double (2 / 10) = Finite z" "0 < y" "0 < z"
  using to_double_pos [of "1 / 10"] to_double_pos [of "3 / 10"] to_double_pos [of "2 / 10"] by auto

definition macro_ok :: "MacroSnapshot \<Rightarrow> bool" where
  "macro_ok s \<longleftrightarrow> no_NaN (interest_rate s) \<and> no_NaN (gdp_growth_rate s) \<and> no_NaN (inflation_rate s)"

definition industry_ok :: "IndustrySnapshot \<Rightarrow> bool" where
  "industry_ok s \<longleftrightarrow> no_NaN (growth_rate s) \<and> no_NaN (default_rate s)"

definition company_ok :: "CompanySnapshot \<Rightarrow> bool" where
  "company_ok s \<longleftrightarrow> finite_or_absent (annual_revenue_est s) \<and> finite_or_absent (debt_load_est s)"

lemma macro_units: "macro_ok s \<Longrightarrow> list_all unit_number (macro_components s)"
  by (auto simp: macro_ok_def no_NaN_def macro_components_def intro!: opt_list_unit lower_better_unit higher_better_unit)

lemma industry_units:
  assumes "industry_ok s"
  shows "list_all unit_number (industry_components s)"
  by (rule industry_constants)
     (use assms in \<open>auto simp: industry_ok_def no_NaN_def industry_components_def intro!: opt_list_unit lower_better_unit higher_better_unit\<close>)

lemma known_revenue_pos: "company_ok s \<Longrightarrow> known_revenue s = Some r \<Longrightarrow> \<exists>x > 0. r = Finite x"
  by (cases r) (auto simp: company_ok_def known_revenue_def finite_or_absent_def split: option.splits if_splits)

lemma log10_revenue:
  assumes "log10_ok log10" "0 < x"
  shows "log10 (to_double (x + 1)) \<noteq> NaN"
proof -
  have "num_le (Finite 1) (to_double (x + 1))" using to_double_mono [of 1 "x + 1"] to_double_range(1) [of 1 1] assms(2) by simp
  then have "num_le (Finite 0) (log10 (to_double (x + 1)))" using assms(1) by (auto simp: log10_ok_def)
  then show ?thesis by auto
qed

lemma log10_cap:
  assumes "log10_ok log10"
  obtains l where "log10 (num_add (Finite 10000000) (Finite 1)) = Finite l" "0 < l"
  using assms to_double_range(1) [of 10000001 10000001] fl_of_int [of 10000001]
  by (auto simp: log10_ok_def split: js_number.splits)

lemma company_units:
  assumes "log10_ok log10" "company_ok s"
  shows "list_all unit_number (company_components log10 s)"
proof -
  obtain l where l: "log10 (num_add (Finite 10000000) (Finite 1)) = Finite l" "0 < l" by (rule log10_cap [OF assms(1)])
  show ?thesis unfolding company_components_def l(1)
    using known_revenue_pos [OF assms(2)] assms(2) l(2)
    by (auto simp: company_ok_def finite_or_absent_def log10_revenue [OF assms(1)] unit_number_def [of "Finite (1 / 2)"]
        split: option.splits js_number.splits intro!: opt_list_unit lower_better_unit clamp_unit)
qed

lemma short_components [simp]:
  "length (macro_components ms) < 100" "length (industry_components ind) < 100" "length (company_components log10 cs) < 100"
  by (simp_all add: macro_components_def industry_components_def company_components_def)

lemma sub_scores_unit:
  "macro_ok ms \<Longrightarrow> unit_number (computeMacroSubScore ms)"
  "industry_ok ind \<Longrightarrow> unit_number (computeIndustrySubScore ind)"
  "log10_ok log10 \<Longrightarrow> company_ok cs \<Longrightarrow> unit_number (computeCompanySubScore log10 cs)"
  by (simp_all add: computeMacroSubScore_def computeIndustrySubScore_def computeCompanySubScore_def
      macro_units industry_units company_units average_unit)

section \<open>The scores\<close>

text \<open>C24: With weights that are finite, not negative and not all negligible, and inputs that are numbers, the composite is a number
  from 0 to 100, rounding errors of every step included.\<close>

theorem composite_in_range:
  assumes "sane_weights c" "macro_ok ms" "industry_ok ind" "company_ok cs" "log10_ok log10"
  shows "\<exists>s. snapshot_score log10 c ms ind cs = Finite s \<and> 0 \<le> s \<and> s \<le> 100"
  unfolding snapshot_score_def using assms by (intro composite_range sub_scores_unit)

definition macro_improves :: "MacroSnapshot \<Rightarrow> MacroSnapshot \<Rightarrow> bool" where
  "macro_improves s s' \<longleftrightarrow> rel_option num_le (interest_rate s') (interest_rate s)
     \<and> rel_option num_le (gdp_growth_rate s) (gdp_growth_rate s') \<and> rel_option num_le (inflation_rate s') (inflation_rate s)"

definition industry_improves :: "IndustrySnapshot \<Rightarrow> IndustrySnapshot \<Rightarrow> bool" where
  "industry_improves s s' \<longleftrightarrow> rel_option num_le (growth_rate s) (growth_rate s') \<and> rel_option num_le (default_rate s') (default_rate s)"

definition debt_falls :: "CompanySnapshot \<Rightarrow> CompanySnapshot \<Rightarrow> bool" where
  "debt_falls s s' \<longleftrightarrow> annual_revenue_est s' = annual_revenue_est s \<and> rel_option num_le (debt_load_est s') (debt_load_est s)"

fun tier_rank :: "Tier \<Rightarrow> nat" where
  "tier_rank Tier_A = 3" | "tier_rank Tier_B = 2" | "tier_rank Tier_C = 1" | "tier_rank Tier_D = 0"

lemma classifyTier_mono: "num_le s s' \<Longrightarrow> tier_rank (classifyTier s c) \<le> tier_rank (classifyTier s' c)"
  by (auto simp: classifyTier_def dest: num_le_trans)

lemma opt_list_antimono:
  "rel_option num_le y x \<Longrightarrow> (\<And>v w. num_le w v \<Longrightarrow> num_le (f v) (g w)) \<Longrightarrow> list_all2 num_le (opt_list f x) (opt_list g y)"
  by (cases x; cases y) (simp_all add: opt_list_def)

lemma macro_mono:
  assumes "macro_improves s s'"
  shows "list_all2 num_le (macro_components s) (macro_components s')"
  unfolding macro_components_def
  by (intro list_all2_appendI opt_list_antimono [of "interest_rate s'"] opt_list_mono [of num_le "gdp_growth_rate s"]
      opt_list_antimono [of "inflation_rate s'"] lower_better_antimono higher_better_mono)
    (use assms in \<open>simp_all add: macro_improves_def\<close>)

lemma industry_mono:
  assumes "industry_improves s s'"
  shows "list_all2 num_le (industry_components s) (industry_components s')"
proof -
  obtain x y z where xyz: "to_double (1 / 10) = Finite x" "to_double (3 / 10) = Finite y" "to_double (2 / 10) = Finite z" "0 < y" "0 < z"
    by (rule industry_constants)
  show ?thesis unfolding industry_components_def xyz(1-3)
    by (intro list_all2_appendI opt_list_mono [of num_le "growth_rate s"] opt_list_antimono [of "default_rate s'"]
        lower_better_antimono higher_better_mono)
      (use assms xyz in \<open>simp_all add: industry_improves_def\<close>)
qed

lemma company_mono:
  assumes "log10_ok log10" "company_ok s" "debt_falls s s'"
  shows "list_all2 num_le (company_components log10 s) (company_components log10 s')"
proof -
  have rev: "known_revenue s' = known_revenue s" using assms(3) by (simp add: debt_falls_def known_revenue_def)
  have refl: "list_all2 num_le xs xs" if "list_all unit_number xs" for xs
    using that by (induction xs) (auto elim: unit_numberE)
  have "list_all unit_number (company_components log10 s)" by (rule company_units [OF assms(1,2)])
  then have "list_all2 num_le (opt_list (\<lambda>r. clamp (num_div (log10 (num_add r (Finite 1))) (log10 (num_add (Finite 10000000) (Finite 1))))
      (Finite 0) (Finite 1)) (known_revenue s)) (opt_list (\<lambda>r. clamp (num_div (log10 (num_add r (Finite 1)))
      (log10 (num_add (Finite 10000000) (Finite 1)))) (Finite 0) (Finite 1)) (known_revenue s))"
    by (intro refl) (simp add: company_components_def)
  moreover have "list_all2 num_le
      (opt_list (\<lambda>d. case known_revenue s of Some r \<Rightarrow> lower_better (Finite 2) (num_div d r) | None \<Rightarrow> Finite (1 / 2)) (debt_load_est s))
      (opt_list (\<lambda>d. case known_revenue s of Some r \<Rightarrow> lower_better (Finite 2) (num_div d r) | None \<Rightarrow> Finite (1 / 2)) (debt_load_est s'))"
    using assms(3) known_revenue_pos [OF assms(2)]
    by (intro opt_list_antimono) (auto simp: debt_falls_def split: option.splits intro!: lower_better_antimono num_div_mono)
  ultimately show ?thesis unfolding company_components_def rev by (rule list_all2_appendI)
qed

text \<open>C25: Lower interest, inflation, default rate or debt and higher growth never lower the composite or the tier, whatever the weights
  and thresholds, and in spite of the rounding of every step.\<close>

theorem better_inputs_better_tier:
  assumes "sane_weights c" "log10_ok log10"
    and "macro_ok ms" "macro_ok ms'" "macro_improves ms ms'"
    and "industry_ok ind" "industry_ok ind'" "industry_improves ind ind'"
    and "company_ok cs" "company_ok cs'" "debt_falls cs cs'"
  shows "num_le (snapshot_score log10 c ms ind cs) (snapshot_score log10 c ms' ind' cs')
    \<and> tier_rank (classifyTier (snapshot_score log10 c ms ind cs) c) \<le> tier_rank (classifyTier (snapshot_score log10 c ms' ind' cs') c)"
proof -
  have "num_le (computeMacroSubScore ms) (computeMacroSubScore ms')"
    "num_le (computeIndustrySubScore ind) (computeIndustrySubScore ind')"
    "num_le (computeCompanySubScore log10 cs) (computeCompanySubScore log10 cs')"
    using assms by (simp_all add: computeMacroSubScore_def computeIndustrySubScore_def computeCompanySubScore_def average_mono
        macro_units industry_units company_units macro_mono industry_mono company_mono)
  then show ?thesis using assms by (simp add: snapshot_score_def composite_mono sub_scores_unit classifyTier_mono)
qed

section \<open>Customer health\<close>

definition nonneg :: "js_number \<Rightarrow> bool" where
  "nonneg a \<longleftrightarrow> num_le (Finite 0) a"

definition signals_ok :: "CustomerHealthSignals \<Rightarrow> bool" where
  "signals_ok s \<longleftrightarrow> nonneg (sg_days_overdue s) \<and> nonneg (sg_breach_count s) \<and> nonneg (sg_escalation_level s)"

definition signals_worse :: "CustomerHealthSignals \<Rightarrow> CustomerHealthSignals \<Rightarrow> bool" where
  "signals_worse s s' \<longleftrightarrow> num_le (sg_days_overdue s) (sg_days_overdue s') \<and> num_le (sg_breach_count s) (sg_breach_count s')
     \<and> num_le (sg_escalation_level s) (sg_escalation_level s')"

lemma num_mul_commute: "num_mul a b = num_mul b a"
  by (cases a; cases b) (auto simp: mult.commute)

lemma penalty_mono:
  assumes "0 < y" "nonneg a" "num_le a b"
  shows "num_le (num_min (num_div a (Finite y)) (Finite 1)) (num_min (num_div b (Finite y)) (Finite 1))"
    and "num_le (Finite 0) (num_min (num_div a (Finite y)) (Finite 1))"
proof -
  have "num_le (num_div a (Finite y)) (num_div b (Finite y))" using assms by (intro num_div_mono)
  moreover have "num_le (num_div (Finite 0) (Finite y)) (num_div a (Finite y))" using assms by (intro num_div_mono) (simp_all add: nonneg_def)
  then have "num_le (Finite 0) (num_div a (Finite y))" using assms(1) to_double_range(1) [of 0 0] by simp
  ultimately show "num_le (num_min (num_div a (Finite y)) (Finite 1)) (num_min (num_div b (Finite y)) (Finite 1))"
    and "num_le (Finite 0) (num_min (num_div a (Finite y)) (Finite 1))"
    by (cases "num_div a (Finite y)"; cases "num_div b (Finite y)"; auto simp: num_min_def)+
qed

lemma weight_pos:
  obtains d b e where "WEIGHT_DAYS_OVERDUE = Finite d" "WEIGHT_BREACH_COUNT = Finite b" "WEIGHT_ESCALATION = Finite e" "0 < d" "0 < b" "0 < e"
  using to_double_pos [of "65 / 100"] to_double_pos [of "2 / 10"] to_double_pos [of "15 / 100"]
  by (auto simp: WEIGHT_DAYS_OVERDUE_def WEIGHT_BREACH_COUNT_def WEIGHT_ESCALATION_def)

lemma compositePenalty_mono:
  assumes "num_le (Finite 0) d" "num_le d d'" "num_le (Finite 0) b" "num_le b b'" "num_le (Finite 0) e" "num_le e e'"
  shows "num_le (compositePenalty d b e) (compositePenalty d' b' e')"
proof -
  obtain x y z where w: "WEIGHT_DAYS_OVERDUE = Finite x" "WEIGHT_BREACH_COUNT = Finite y" "WEIGHT_ESCALATION = Finite z" "0 < x" "0 < y" "0 < z"
    by (rule weight_pos)
  have mul: "num_le (num_mul a (Finite v)) (num_mul a' (Finite v))" "num_le (Finite 0) (num_mul a (Finite v))"
    if "0 < v" "num_le (Finite 0) a" "num_le a a'" for a a' v
    using that num_mul_mono [OF that(1,3)] num_mul_mono [OF that(1,2)] to_double_range(1) [of 0 0] by simp_all
  note D = mul [OF w(4) assms(1,2)] and B = mul [OF w(5) assms(3,4)] and E = mul [OF w(6) assms(5,6)]
  note DB = num_add_mono_nonneg [OF D(2,1) B(2,1)]
  show ?thesis unfolding compositePenalty_def w(1-3) by (rule num_add_mono_nonneg [OF DB(2,1) E(2,1)])
qed

lemma health_mono:
  assumes "signals_ok s" "signals_worse s s'"
  shows "num_le (hs_score (computeHealthScore s')) (hs_score (computeHealthScore s))"
proof -
  note D = penalty_mono [of 60 "sg_days_overdue s" "sg_days_overdue s'"]
  note B = penalty_mono [of 3 "sg_breach_count s" "sg_breach_count s'"]
  note E = penalty_mono [of 3 "sg_escalation_level s" "sg_escalation_level s'"]
  have round: "num_le (round_cents a) (round_cents b)" if "num_le a b" for a b
    unfolding round_cents_def using that by (intro num_div_mono num_round_mono num_mul_mono) simp_all
  have hundred: "num_le (num_mul (Finite 100) a) (num_mul (Finite 100) b)" if "num_le a b" for a b
    unfolding num_mul_commute [of "Finite 100"] using that by (intro num_mul_mono) simp
  show ?thesis using D B E assms unfolding computeHealthScore_def Let_def signals_ok_def signals_worse_def
    by (simp add: num_max_mono num_min_mono round hundred num_sub_antimono compositePenalty_mono)
qed

lemma health_range: "signals_ok s \<Longrightarrow> \<exists>x. hs_score (computeHealthScore s) = Finite x \<and> 0 \<le> x \<and> x \<le> 100"
proof -
  assume "signals_ok s"
  then have "hs_score (computeHealthScore s) \<noteq> NaN"
    using health_mono [of s s] num_leD by (auto simp: signals_ok_def signals_worse_def nonneg_def)
  then show ?thesis unfolding computeHealthScore_def Let_def
    by (cases "round_cents (num_mul (Finite 100) (num_sub (Finite 1) (compositePenalty
          (num_min (num_div (sg_days_overdue s) (Finite 60)) (Finite 1)) (num_min (num_div (sg_breach_count s) (Finite 3)) (Finite 1))
          (num_min (num_div (sg_escalation_level s) (Finite 3)) (Finite 1)))))")
       (auto simp: num_max_def num_min_def)
qed

lemma sixty_days: "hs_score (computeHealthScore \<lparr>health_customer_id = ''c'', sg_days_overdue = Finite 60, sg_breach_count = Finite 0, sg_escalation_level = Finite 0\<rparr>) = Finite 35"
  unfolding computeHealthScore_def Let_def health_score.select_convs CustomerHealthSignals.select_convs by code_simp

text \<open>C26: A health score is a number from 0 to 100 that never rises when a signal gets worse, and at sixty days overdue it is at most 35,
  below the critical threshold of 40, whatever the other signals.\<close>

theorem health_score_sound:
  assumes "signals_ok s" "signals_worse s s'"
  shows "\<exists>x x'. hs_score (computeHealthScore s) = Finite x \<and> hs_score (computeHealthScore s') = Finite x'
    \<and> 0 \<le> x' \<and> x' \<le> x \<and> x \<le> 100 \<and> (num_less (sg_days_overdue s) (Finite 60) \<or> x \<le> 35)"
proof -
  have ok': "signals_ok s'" using assms by (auto simp: signals_ok_def signals_worse_def nonneg_def dest: num_le_trans)
  obtain x x' where x: "hs_score (computeHealthScore s) = Finite x" "hs_score (computeHealthScore s') = Finite x'" "0 \<le> x'" "x \<le> 100"
    using health_range [OF assms(1)] health_range [OF ok'] by auto
  moreover have "x' \<le> x" using health_mono [OF assms] x by simp
  moreover have "x \<le> 35" if "\<not> num_less (sg_days_overdue s) (Finite 60)"
  proof -
    have "signals_worse \<lparr>health_customer_id = ''c'', sg_days_overdue = Finite 60, sg_breach_count = Finite 0, sg_escalation_level = Finite 0\<rparr> s"
      using that assms(1) by (auto simp: signals_worse_def signals_ok_def nonneg_def num_le_def)
    from health_mono [OF _ this] show ?thesis by (simp add: sixty_days x signals_ok_def nonneg_def)
  qed
  ultimately show ?thesis by blast
qed

text \<open>With every weight at zero the composite is not a number, and the tier is D whatever the inputs.\<close>

lemma zero_weights_NaN:
  assumes "weightMacro c = Finite 0" "weightIndustry c = Finite 0" "weightCompany c = Finite 0"
  shows "snapshot_score log10 c ms ind cs = NaN" "classifyTier (snapshot_score log10 c ms ind cs) c = Tier_D"
proof -
  have "totalWeight c = Finite 0" using to_double_range(1) [of 0 0] by (simp add: totalWeight_def assms)
  then have "compositeRaw c m i k = NaN" for m i k
    by (cases "num_mul m NaN"; cases m) (simp_all add: compositeRaw_def assms)
  then show "snapshot_score log10 c ms ind cs = NaN" by (simp add: snapshot_score_def compositeScore_def)
  then show "classifyTier (snapshot_score log10 c ms ind cs) c = Tier_D" by (simp add: classifyTier_def)
qed

section \<open>Witnesses\<close>

text \<open>A coarse logarithm, a configuration in whole numbers and two sets of inputs.\<close>

definition sample_log10 :: "js_number \<Rightarrow> js_number" where
  "sample_log10 a = (if num_less a (Finite 1000) then Finite 0 else Finite 7)"

definition sample_config :: ScoringConfig where
  "sample_config = \<lparr>weightMacro = Finite 3, weightIndustry = Finite 3, weightCompany = Finite 4,
     tierA = Finite 80, tierB = Finite 60, tierC = Finite 40\<rparr>"

definition sample_macro :: "rat \<Rightarrow> MacroSnapshot" where
  "sample_macro r = \<lparr>interest_rate = Some (Finite r), gdp_growth_rate = Some (Finite 2), inflation_rate = None\<rparr>"

definition sample_industry :: IndustrySnapshot where
  "sample_industry = \<lparr>sic_code = Some ''7372'', growth_rate = None, default_rate = Some (Finite 0), payment_norm_days = Some 30\<rparr>"

definition sample_company :: "rat \<Rightarrow> CompanySnapshot" where
  "sample_company d = \<lparr>annual_revenue_est = Some (Finite 2000000), debt_load_est = Some (Finite d), funding_stage = None,
     kyc_record_id = Some ''k1''\<rparr>"

lemma sample_scoring:
  "sane_weights sample_config" "log10_ok sample_log10" "macro_ok (sample_macro r)" "industry_ok sample_industry" "company_ok (sample_company d)"
proof -
  have "min_normal \<le> 10" using min_normal_small(2) by (rule order_trans) simp
  then show "sane_weights sample_config" by (simp add: sane_weights_def sample_config_def)
qed (auto simp: log10_ok_def sample_log10_def macro_ok_def sample_macro_def industry_ok_def sample_industry_def company_ok_def
    sample_company_def no_NaN_def finite_or_absent_def)

theorem composite_in_range_witness:
  "\<exists>s. snapshot_score sample_log10 sample_config (sample_macro 5) sample_industry (sample_company 500000) = Finite s \<and> 0 \<le> s \<and> s \<le> 100"
  by (rule composite_in_range) (rule sample_scoring)+

theorem better_inputs_better_tier_witness:
  "num_le (snapshot_score sample_log10 sample_config (sample_macro 5) sample_industry (sample_company 500000))
     (snapshot_score sample_log10 sample_config (sample_macro 3) sample_industry (sample_company 400000))"
  using better_inputs_better_tier [OF sample_scoring(1,2) sample_scoring(3) sample_scoring(3) _ sample_scoring(4,4) _ sample_scoring(5,5), of 5 3 500000 400000]
  by (simp add: macro_improves_def industry_improves_def debt_falls_def sample_macro_def sample_industry_def sample_company_def)

theorem health_score_sound_witness:
  "\<exists>x x'. hs_score (computeHealthScore \<lparr>health_customer_id = ''c'', sg_days_overdue = Finite 61, sg_breach_count = Finite 0, sg_escalation_level = Finite 0\<rparr>) = Finite x
    \<and> hs_score (computeHealthScore \<lparr>health_customer_id = ''c'', sg_days_overdue = Finite 61, sg_breach_count = Finite 2, sg_escalation_level = Finite 1\<rparr>) = Finite x'
    \<and> 0 \<le> x' \<and> x' \<le> x \<and> x \<le> 35"
  using health_score_sound [of "\<lparr>health_customer_id = ''c'', sg_days_overdue = Finite 61, sg_breach_count = Finite 0, sg_escalation_level = Finite 0\<rparr>"
      "\<lparr>health_customer_id = ''c'', sg_days_overdue = Finite 61, sg_breach_count = Finite 2, sg_escalation_level = Finite 1\<rparr>"]
  by (auto simp: signals_ok_def signals_worse_def nonneg_def)

end
