(* ===== verification/Task_Queue.thy ===== *)
theory Task_Queue
  imports DB_Prelude
begin

text \<open>
  The single-table task queue, \<^verbatim>\<open>src/packages/db/task-queue.ts\<close>, and the worker's claim step,
  \<^verbatim>\<open>tryClaimAndExecute\<close> of \<^verbatim>\<open>src/apps/worker/src/runner.ts\<close>.

  The \<^verbatim>\<open>task_queue\<close> table is a list of \<open>TaskQueueRow\<close>s. Every statement runs at the time
  \<open>now\<close> its \<^verbatim>\<open>NOW()\<close> reads; \<open>locked\<close> lists the rows other transactions hold, which
  \<^verbatim>\<open>FOR UPDATE SKIP LOCKED\<close> passes over; \<open>uuid\<close> is what \<^verbatim>\<open>gen_random_uuid()\<close> gave the INSERT.
\<close>

section \<open>Data\<close>

datatype TaskType =
    EMAIL_INGEST | AUTOLEARN | TRANSCRIPTION | ANNOTATION | DEEPCLEAN | BDM_SUMMARY
  | KYC_VERIFY | RESCORE | RESCORE_SCHEDULE

fun TASK_TYPE_AGENT_MAP :: "TaskType \<Rightarrow> string" where
  "TASK_TYPE_AGENT_MAP EMAIL_INGEST = ''email_ingest''"
| "TASK_TYPE_AGENT_MAP AUTOLEARN = ''autolearn''"
| "TASK_TYPE_AGENT_MAP TRANSCRIPTION = ''transcription''"
| "TASK_TYPE_AGENT_MAP ANNOTATION = ''annotation''"
| "TASK_TYPE_AGENT_MAP DEEPCLEAN = ''deepclean''"
| "TASK_TYPE_AGENT_MAP BDM_SUMMARY = ''bdm_summary''"
| "TASK_TYPE_AGENT_MAP KYC_VERIFY = ''kyc_verify''"
| "TASK_TYPE_AGENT_MAP RESCORE = ''rescore''"
| "TASK_TYPE_AGENT_MAP RESCORE_SCHEDULE = ''rescore_schedule''"

datatype TaskQueueStatus =
    T_pending | T_claimed | T_running | T_submitting | T_completed | T_failed | T_dead

record TaskQueueRow =
  tq_id :: string
  idempotency_key :: string
  agent_type :: string
  job_type :: string
  tq_status :: TaskQueueStatus
  payload :: json
  correlation_id :: "string option"
  created_by :: string
  claimed_by :: "string option"
  claimed_at :: "timestamp option"
  claim_expires_at :: "timestamp option"
  delegated_token :: "string option"
  tq_result :: "json option"
  error_message :: "string option"
  attempt :: nat
  max_attempts :: int
  next_retry_at :: "timestamp option"
  priority :: int
  tq_created_at :: timestamp
  tq_updated_at :: timestamp

record EnqueueOptions =
  eo_idempotency_key :: string
  eo_agent_type :: string
  eo_job_type :: string
  eo_payload :: "json option"
  eo_correlation_id :: "string option"
  eo_created_by :: string
  eo_priority :: "int option"
  eo_max_attempts :: "int option"

record ClaimOptions =
  co_agent_type :: string
  co_claimed_by :: string
  co_delegated_token :: "string option"
  co_claim_ttl_seconds :: "int option"

record UpdateStatusOptions =
  uo_id :: string
  uo_status :: TaskQueueStatus
  uo_error_message :: "string option"
  uo_next_retry_at :: "timestamp option"

record SubmitResultOptions =
  so_id :: string
  so_result :: json

record RecoveredTaskRow =
  rr_id :: string
  rr_status :: TaskQueueStatus
  rr_attempt :: nat
  rr_agent_type :: string
  rr_job_type :: string

type_synonym task_queue = "TaskQueueRow list"

section \<open>Operations\<close>

text \<open>\<^verbatim>\<open>payload = {}\<close>, \<^verbatim>\<open>priority = 5\<close>, \<^verbatim>\<open>max_attempts = 3\<close> and the column defaults.\<close>

definition new_task :: "string \<Rightarrow> timestamp \<Rightarrow> EnqueueOptions \<Rightarrow> TaskQueueRow" where
  "new_task uuid now o1 = \<lparr>
     tq_id = uuid,
     idempotency_key = eo_idempotency_key o1,
     agent_type = eo_agent_type o1,
     job_type = eo_job_type o1,
     tq_status = T_pending,
     payload = (case eo_payload o1 of None \<Rightarrow> ''{}'' | Some p \<Rightarrow> p),
     correlation_id = eo_correlation_id o1,
     created_by = eo_created_by o1,
     claimed_by = None, claimed_at = None, claim_expires_at = None, delegated_token = None,
     tq_result = None, error_message = None,
     attempt = 0,
     max_attempts = (case eo_max_attempts o1 of None \<Rightarrow> 3 | Some m \<Rightarrow> m),
     next_retry_at = None,
     priority = (case eo_priority o1 of None \<Rightarrow> 5 | Some p \<Rightarrow> p),
     tq_created_at = now, tq_updated_at = now\<rparr>"

definition enqueueTask ::
  "string \<Rightarrow> timestamp \<Rightarrow> EnqueueOptions \<Rightarrow> task_queue \<Rightarrow> db_error + (TaskQueueRow \<times> task_queue)" where
  "enqueueTask uuid now o1 q =
     (case find_row idempotency_key (eo_idempotency_key o1) q of
        Some row \<Rightarrow> Inr (row, q)
      | None \<Rightarrow>
          bind_res (insert_row tq_id (new_task uuid now o1) q)
            (\<lambda>q'. Inr (new_task uuid now o1, q')))"

definition claim_row :: "timestamp \<Rightarrow> ClaimOptions \<Rightarrow> TaskQueueRow \<Rightarrow> TaskQueueRow" where
  "claim_row now c r = r\<lparr>
     tq_status := T_claimed,
     claimed_by := Some (co_claimed_by c),
     claimed_at := Some now,
     claim_expires_at :=
       Some (now + (case co_claim_ttl_seconds c of None \<Rightarrow> 300 | Some s \<Rightarrow> s) * second),
     delegated_token := co_delegated_token c,
     attempt := attempt r + 1,
     tq_updated_at := now\<rparr>"

definition claimable :: "timestamp \<Rightarrow> string \<Rightarrow> TaskQueueRow \<Rightarrow> bool" where
  "claimable now agent r \<longleftrightarrow>
     agent_type r = agent \<and> tq_status r = T_pending \<and>
     (case next_retry_at r of None \<Rightarrow> True | Some t \<Rightarrow> t \<le> now)"

definition claimNextTask ::
  "string list \<Rightarrow> timestamp \<Rightarrow> ClaimOptions \<Rightarrow> task_queue \<Rightarrow> TaskQueueRow option \<times> task_queue" where
  "claimNextTask locked now c q =
     (case first_by (\<lambda>r. (priority r, tq_created_at r))
             (\<lambda>r. claimable now (co_agent_type c) r \<and> tq_id r \<notin> set locked) q of
        None \<Rightarrow> (None, q)
      | Some r \<Rightarrow>
          (Some (claim_row now c r),
           update_where (\<lambda>r'. tq_id r' = tq_id r) (claim_row now c) q))"

definition status_row :: "timestamp \<Rightarrow> UpdateStatusOptions \<Rightarrow> TaskQueueRow \<Rightarrow> TaskQueueRow" where
  "status_row now u r = r\<lparr>
     tq_status := uo_status u,
     error_message := uo_error_message u,
     next_retry_at := uo_next_retry_at u,
     tq_updated_at := now\<rparr>"

definition updateTaskStatus ::
  "timestamp \<Rightarrow> UpdateStatusOptions \<Rightarrow> task_queue \<Rightarrow> TaskQueueRow option \<times> task_queue" where
  "updateTaskStatus now u q =
     (let q' = update_where (\<lambda>r. tq_id r = uo_id u) (status_row now u) q
      in (find_row tq_id (uo_id u) q', q'))"

definition result_row :: "timestamp \<Rightarrow> SubmitResultOptions \<Rightarrow> TaskQueueRow \<Rightarrow> TaskQueueRow" where
  "result_row now s r = r\<lparr>
     tq_status := T_completed,
     tq_result := Some (so_result s),
     tq_updated_at := now\<rparr>"

definition submitTaskResult ::
  "timestamp \<Rightarrow> SubmitResultOptions \<Rightarrow> task_queue \<Rightarrow> TaskQueueRow option \<times> task_queue" where
  "submitTaskResult now s q =
     (let q' = update_where (\<lambda>r. tq_id r = so_id s) (result_row now s) q
      in (find_row tq_id (so_id s) q', q'))"

definition stale :: "timestamp \<Rightarrow> TaskQueueRow \<Rightarrow> bool" where
  "stale now r \<longleftrightarrow>
     tq_status r = T_claimed \<and>
     (case claim_expires_at r of None \<Rightarrow> False | Some t \<Rightarrow> t < now)"

definition recover_row :: "timestamp \<Rightarrow> TaskQueueRow \<Rightarrow> TaskQueueRow" where
  "recover_row now r = r\<lparr>
     tq_status := (if int (attempt r) \<ge> max_attempts r then T_dead else T_pending),
     claimed_by := None, claimed_at := None, claim_expires_at := None, delegated_token := None,
     next_retry_at :=
       (if int (attempt r) \<ge> max_attempts r then None else Some (now + 2 ^ attempt r * second)),
     tq_updated_at := now\<rparr>"

definition recovered_row :: "TaskQueueRow \<Rightarrow> RecoveredTaskRow" where
  "recovered_row r = \<lparr>rr_id = tq_id r, rr_status = tq_status r, rr_attempt = attempt r,
     rr_agent_type = agent_type r, rr_job_type = job_type r\<rparr>"

definition recoverStaleClaims ::
  "timestamp \<Rightarrow> task_queue \<Rightarrow> RecoveredTaskRow list \<times> task_queue" where
  "recoverStaleClaims now q =
     (map (recovered_row \<circ> recover_row now) (filter (stale now) q),
      update_where (stale now) (recover_row now) q)"

subsection \<open>Monitoring\<close>

record TaskQueueAdminRow =
  ar_id :: string
  ar_idempotency_key :: string
  ar_agent_type :: string
  ar_job_type :: string
  ar_status :: TaskQueueStatus
  ar_correlation_id :: "string option"
  ar_created_by :: string
  ar_claimed_by :: "string option"
  ar_claimed_at :: "timestamp option"
  ar_claim_expires_at :: "timestamp option"
  ar_result :: "json option"
  ar_error_message :: "string option"
  ar_attempt :: nat
  ar_max_attempts :: int
  ar_next_retry_at :: "timestamp option"
  ar_priority :: int
  ar_created_at :: timestamp
  ar_updated_at :: timestamp

definition admin_row :: "TaskQueueRow \<Rightarrow> TaskQueueAdminRow" where
  "admin_row r = \<lparr>
     ar_id = tq_id r, ar_idempotency_key = idempotency_key r, ar_agent_type = agent_type r,
     ar_job_type = job_type r, ar_status = tq_status r, ar_correlation_id = correlation_id r,
     ar_created_by = created_by r, ar_claimed_by = claimed_by r, ar_claimed_at = claimed_at r,
     ar_claim_expires_at = claim_expires_at r, ar_result = tq_result r,
     ar_error_message = error_message r, ar_attempt = attempt r, ar_max_attempts = max_attempts r,
     ar_next_retry_at = next_retry_at r, ar_priority = priority r,
     ar_created_at = tq_created_at r, ar_updated_at = tq_updated_at r\<rparr>"

text \<open>An empty \<^verbatim>\<open>agent_type\<close> string is falsy, so it filters nothing.\<close>

definition listTasksForAdmin ::
  "TaskQueueStatus option \<Rightarrow> string option \<Rightarrow> int option \<Rightarrow> int option \<Rightarrow> task_queue
     \<Rightarrow> db_error + TaskQueueAdminRow list" where
  "listTasksForAdmin st ag lmt ofs q =
     sql_page (case lmt of None \<Rightarrow> 50 | Some l \<Rightarrow> l) (case ofs of None \<Rightarrow> 0 | Some k \<Rightarrow> k)
       (map admin_row
         (sort_key (\<lambda>r. - tq_created_at r)
           (filter (\<lambda>r. (case st of None \<Rightarrow> True | Some s \<Rightarrow> tq_status r = s) \<and>
                        (case ag of None \<Rightarrow> True | Some a \<Rightarrow> a = [] \<or> agent_type r = a)) q)))"

definition DLQ_ALERT_THRESHOLD :: nat where
  "DLQ_ALERT_THRESHOLD = 10"

record DlqDepthRow =
  dlq_agent_type :: string
  dead_count :: nat

definition getDlqDepth :: "task_queue \<Rightarrow> DlqDepthRow list" where
  "getDlqDepth q =
     (let dead = filter (\<lambda>r. tq_status r = T_dead) q
      in sort_key (\<lambda>d. (- int (dead_count d), dlq_agent_type d))
           (map (\<lambda>a. \<lparr>dlq_agent_type = a, dead_count = length (filter (\<lambda>r. agent_type r = a) dead)\<rparr>)
             (remdups (map agent_type dead))))"

definition checkDlqAlertThreshold ::
  "nat option \<Rightarrow> task_queue \<Rightarrow> DlqDepthRow list \<times> DlqDepthRow list" where
  "checkDlqAlertThreshold threshold q =
     (let depth = getDlqDepth q;
          t = (case threshold of None \<Rightarrow> DLQ_ALERT_THRESHOLD | Some t \<Rightarrow> t)
      in (filter (\<lambda>row. dead_count row > t) depth, depth))"

subsection \<open>The worker's claim step\<close>

text \<open>
  \<open>execute\<close> stands for the job itself (the CLI subprocess and its result validation) and
  \<open>submit\<close> for the HTTP call that posts the result with the delegated token and, when the
  server accepts it, completes the row; both may fail with a message. The claim passes no
  \<^verbatim>\<open>delegated_token\<close>.
\<close>

definition no_token_message :: "TaskQueueRow \<Rightarrow> string" where
  "no_token_message task =
     ''Task '' @ tq_id task @ '' has no delegated token - cannot submit result''"

definition tryClaimAndExecute ::
  "string \<Rightarrow> (TaskQueueRow \<Rightarrow> string + json) \<Rightarrow>
     (string \<Rightarrow> string \<Rightarrow> json \<Rightarrow> task_queue \<Rightarrow> string + task_queue) \<Rightarrow>
     string \<Rightarrow> string list \<Rightarrow> timestamp \<Rightarrow> task_queue \<Rightarrow> task_queue" where
  "tryClaimAndExecute worker_id execute submit agent locked now q =
     (case claimNextTask locked now
             \<lparr>co_agent_type = agent, co_claimed_by = worker_id, co_delegated_token = None,
              co_claim_ttl_seconds = None\<rparr> q of
        (None, q1) \<Rightarrow> q1
      | (Some task, q1) \<Rightarrow>
          (case bind_res (execute task) (\<lambda>res.
                 case delegated_token task of
                   None \<Rightarrow> Inl (no_token_message task)
                 | Some tok \<Rightarrow>
                     if tok = [] then Inl (no_token_message task)
                     else submit (tq_id task) tok res q1) of
             Inr q2 \<Rightarrow> q2
           | Inl msg \<Rightarrow>
               snd (updateTaskStatus now
                 \<lparr>uo_id = tq_id task, uo_status = T_failed,
                  uo_error_message = Some (take 1000 msg), uo_next_retry_at = None\<rparr> q1)))"

section \<open>The queue as a system of operations\<close>

datatype tq_op =
    Enqueue string timestamp EnqueueOptions
  | Claim "string list" timestamp ClaimOptions
  | UpdateStatus timestamp UpdateStatusOptions
  | SubmitResult timestamp SubmitResultOptions
  | Recover timestamp

fun tq_step :: "tq_op \<Rightarrow> task_queue \<Rightarrow> task_queue" where
  "tq_step (Enqueue u t o1) q = commit q (enqueueTask u t o1 q)"
| "tq_step (Claim l t c) q = snd (claimNextTask l t c q)"
| "tq_step (UpdateStatus t u) q = snd (updateTaskStatus t u q)"
| "tq_step (SubmitResult t s) q = snd (submitTaskResult t s q)"
| "tq_step (Recover t) q = snd (recoverStaleClaims t q)"

definition tq_keys :: "task_queue \<Rightarrow> bool" where
  "tq_keys q \<longleftrightarrow> distinct (map tq_id q) \<and> distinct (map idempotency_key q)"

definition ids_of :: "TaskQueueRow \<Rightarrow> string \<times> string" where
  "ids_of r = (tq_id r, idempotency_key r)"

lemma row_fields [simp]:
  "tq_id (claim_row now c r) = tq_id r"
  "idempotency_key (claim_row now c r) = idempotency_key r"
  "tq_status (claim_row now c r) = T_claimed"
  "delegated_token (claim_row now c r) = co_delegated_token c"
  "attempt (claim_row now c r) = attempt r + 1"
  "max_attempts (claim_row now c r) = max_attempts r"
  "tq_id (status_row now u r) = tq_id r"
  "idempotency_key (status_row now u r) = idempotency_key r"
  "tq_status (status_row now u r) = uo_status u"
  "error_message (status_row now u r) = uo_error_message u"
  "attempt (status_row now u r) = attempt r"
  "max_attempts (status_row now u r) = max_attempts r"
  "claim_expires_at (status_row now u r) = claim_expires_at r"
  "tq_id (result_row now s r) = tq_id r"
  "idempotency_key (result_row now s r) = idempotency_key r"
  "tq_status (result_row now s r) = T_completed"
  "attempt (result_row now s r) = attempt r"
  "max_attempts (result_row now s r) = max_attempts r"
  "claim_expires_at (result_row now s r) = claim_expires_at r"
  "tq_id (recover_row now r) = tq_id r"
  "idempotency_key (recover_row now r) = idempotency_key r"
  "agent_type (recover_row now r) = agent_type r"
  "attempt (recover_row now r) = attempt r"
  "max_attempts (recover_row now r) = max_attempts r"
  "tq_id (new_task uuid now o1) = uuid"
  "idempotency_key (new_task uuid now o1) = eo_idempotency_key o1"
  "tq_status (new_task uuid now o1) = T_pending"
  "attempt (new_task uuid now o1) = 0"
  by (simp_all add: claim_row_def status_row_def result_row_def recover_row_def new_task_def)

interpretation claim_upd: row_update tq_id "claim_row now c" for now c
  by unfold_locales simp

interpretation status_upd: row_update tq_id "status_row now u" for now u
  by unfold_locales simp

interpretation result_upd: row_update tq_id "result_row now s" for now s
  by unfold_locales simp

interpretation recover_upd: row_update tq_id "recover_row now" for now
  by unfold_locales simp

lemmas tq_op_defs =
  claimNextTask_def updateTaskStatus_def submitTaskResult_def recoverStaleClaims_def Let_def

text \<open>No operation deletes a row or rewrites its keys; an enqueue may append one.\<close>

lemma tq_step_ids: "\<exists>new. map ids_of (tq_step op q) = map ids_of q @ new"
proof (cases op)
  case (Enqueue u t o1)
  then show ?thesis
    by (auto simp: enqueueTask_def insert_row_def split: option.splits)
next
  case (Claim l t c)
  then show ?thesis
    by (auto simp: tq_op_defs map_update_where_same ids_of_def split: option.splits)
qed (auto simp: tq_op_defs map_update_where_same ids_of_def)

lemma tq_run_ids: "\<exists>new. map ids_of (fold tq_step ops q) = map ids_of q @ new"
proof (induction ops arbitrary: q)
  case (Cons op ops)
  obtain a b where "map ids_of (tq_step op q) = map ids_of q @ a"
    and "map ids_of (fold tq_step ops (tq_step op q)) = map ids_of (tq_step op q) @ b"
    using tq_step_ids [of op q] Cons.IH [of "tq_step op q"] by blast
  then show ?case by auto
qed simp

lemma find_idempotency_ids:
  "map_option tq_id (find_row idempotency_key k q) =
     map_option fst (find (\<lambda>p. snd p = k) (map ids_of q))"
  by (induction q) (auto simp: ids_of_def)

lemma find_append_Some: "find P xs = Some x \<Longrightarrow> find P (xs @ ys) = Some x"
  by (induction xs) (auto split: if_splits)

lemma tq_run_keeps_task:
  assumes "find_row idempotency_key k q = Some r"
  shows "\<exists>r'. find_row idempotency_key k (fold tq_step ops q) = Some r' \<and> tq_id r' = tq_id r"
proof -
  obtain new where new: "map ids_of (fold tq_step ops q) = map ids_of q @ new"
    using tq_run_ids by blast
  obtain p where p: "find (\<lambda>p. snd p = k) (map ids_of q) = Some p" and "fst p = tq_id r"
    using find_idempotency_ids [of k q] assms by (cases "find (\<lambda>p. snd p = k) (map ids_of q)") auto
  then have "map_option tq_id (find_row idempotency_key k (fold tq_step ops q)) = Some (tq_id r)"
    using find_append_Some [OF p, of new] by (simp add: find_idempotency_ids new)
  then show ?thesis by auto
qed

lemma enqueueTask_found:
  assumes "enqueueTask u t o1 q = Inr (r, q')"
  shows "find_row idempotency_key (eo_idempotency_key o1) q' = Some r"
  using assms
  by (auto simp: enqueueTask_def bind_res_Inr_iff insert_row_Inr find_row_append split: option.splits)

text \<open>A retried enqueue converges: whatever ran in between, enqueueing again under the
  same idempotency key returns the task the first call made or found, and leaves the queue
  as it is (TQ-P-003).\<close>

theorem enqueue_converges:
  assumes "enqueueTask u t o1 q = Inr (r, q1)"
    and "eo_idempotency_key o2 = eo_idempotency_key o1"
  shows "\<exists>r'. enqueueTask u2 t2 o2 (fold tq_step ops q1) = Inr (r', fold tq_step ops q1)
           \<and> tq_id r' = tq_id r"
proof -
  obtain r' where "find_row idempotency_key (eo_idempotency_key o2) (fold tq_step ops q1) = Some r'"
    and "tq_id r' = tq_id r"
    using tq_run_keeps_task [OF enqueueTask_found [OF assms(1)]] assms(2) by auto
  then show ?thesis by (simp add: enqueueTask_def)
qed

definition eo_example :: EnqueueOptions where
  "eo_example = \<lparr>eo_idempotency_key = ''k'', eo_agent_type = ''rescore'', eo_job_type = ''j'',
     eo_payload = None, eo_correlation_id = None, eo_created_by = ''u'', eo_priority = None,
     eo_max_attempts = None\<rparr>"

definition co_example :: ClaimOptions where
  "co_example = \<lparr>co_agent_type = ''rescore'', co_claimed_by = ''w'', co_delegated_token = None,
     co_claim_ttl_seconds = None\<rparr>"

theorem enqueue_converges_witness:
  "\<exists>r'. enqueueTask ''b'' 9 eo_example (fold tq_step [Claim [] 5 co_example] [new_task ''a'' 0 eo_example]) =
      Inr (r', fold tq_step [Claim [] 5 co_example] [new_task ''a'' 0 eo_example]) \<and> tq_id r' = ''a''"
proof -
  have "enqueueTask ''a'' 0 eo_example [] = Inr (new_task ''a'' 0 eo_example, [new_task ''a'' 0 eo_example])"
    by (simp add: enqueueTask_def insert_row_def)
  from enqueue_converges [OF this refl, of "''b''" 9 "[Claim [] 5 co_example]"]
  show ?thesis by simp
qed

text \<open>Keys stay unique under every operation.\<close>

lemma tq_keys_step:
  assumes "tq_keys q"
  shows "tq_keys (tq_step op q)"
proof -
  have keys: "\<And>q'. tq_keys q' \<longleftrightarrow>
      distinct (map fst (map ids_of q')) \<and> distinct (map snd (map ids_of q'))"
    by (simp add: tq_keys_def comp_def ids_of_def)
  show ?thesis
  proof (cases op)
    case (Enqueue u t o1)
    with assms show ?thesis
      by (auto simp: enqueueTask_def tq_keys_def insert_row_def find_row_None_iff
          split: option.splits)
  next
    case (Claim l t c)
    then show ?thesis
      using assms by (auto simp: keys tq_op_defs map_update_where_same ids_of_def comp_def
          split: option.splits simp del: map_map)
  qed (use assms in \<open>auto simp: keys tq_op_defs map_update_where_same ids_of_def simp del: map_map\<close>)
qed

interpretation tq: invariant_system tq_step "\<lambda>_. True" tq_keys
  by unfold_locales (rule tq_keys_step)


section \<open>Claims\<close>

lemma claimNextTask_SomeE:
  assumes "claimNextTask l t c q = (Some r, q')"
  obtains r0 where "r0 \<in> set q" "claimable t (co_agent_type c) r0" "tq_id r0 \<notin> set l"
    "r = claim_row t c r0" "q' = update_where (\<lambda>r'. tq_id r' = tq_id r0) (claim_row t c) q"
    "\<And>r'. r' \<in> set q \<Longrightarrow> claimable t (co_agent_type c) r' \<Longrightarrow> tq_id r' \<notin> set l \<Longrightarrow>
       (priority r0, tq_created_at r0) \<le> (priority r', tq_created_at r')"
proof -
  let ?p = "\<lambda>r. claimable t (co_agent_type c) r \<and> tq_id r \<notin> set l"
  obtain r0 where r0: "first_by (\<lambda>r. (priority r, tq_created_at r)) ?p q = Some r0"
    and "r = claim_row t c r0"
    and "q' = update_where (\<lambda>r'. tq_id r' = tq_id r0) (claim_row t c) q"
    using assms by (auto simp: claimNextTask_def split: option.splits)
  moreover note first_by_SomeD [OF r0]
  ultimately show thesis using that by blast
qed

lemma claimNextTask_None_iff:
  "fst (claimNextTask l t c q) = None \<longleftrightarrow>
     (\<forall>r \<in> set q. claimable t (co_agent_type c) r \<longrightarrow> tq_id r \<in> set l)"
proof -
  have "fst (claimNextTask l t c q) = None \<longleftrightarrow>
      first_by (\<lambda>r. (priority r, tq_created_at r))
        (\<lambda>r. claimable t (co_agent_type c) r \<and> tq_id r \<notin> set l) q = None"
    by (auto simp: claimNextTask_def split: option.splits)
  then show ?thesis by (auto simp: first_by_None)
qed

text \<open>A claim takes the best task: the returned row was pending, due and unlocked for the
  caller's agent type, no other such row has a smaller (priority, created\_at), every other row of
  the queue is untouched, and the claim comes back empty only when there is no such row.\<close>

theorem claim_takes_best:
  assumes "tq_keys q"
  shows "case claimNextTask locked now c q of
      (None, q') \<Rightarrow> q' = q \<and> (\<forall>r \<in> set q. claimable now (co_agent_type c) r \<longrightarrow> tq_id r \<in> set locked)
    | (Some r, q') \<Rightarrow> (\<exists>r0. find_row tq_id (tq_id r) q = Some r0
        \<and> claimable now (co_agent_type c) r0 \<and> tq_id r0 \<notin> set locked
        \<and> r = claim_row now c r0 \<and> find_row tq_id (tq_id r) q' = Some r
        \<and> (\<forall>k. k \<noteq> tq_id r \<longrightarrow> find_row tq_id k q' = find_row tq_id k q)
        \<and> (\<forall>r' \<in> set q. claimable now (co_agent_type c) r' \<and> tq_id r' \<notin> set locked \<longrightarrow>
             (priority r0, tq_created_at r0) \<le> (priority r', tq_created_at r')))"
proof (cases "claimNextTask locked now c q")
  case (Pair res q')
  show ?thesis
  proof (cases res)
    case None
    with Pair have "q' = q"
      by (auto simp: claimNextTask_def split: option.splits)
    with None Pair claimNextTask_None_iff [of locked now c q] show ?thesis by simp
  next
    case (Some r)
    with Pair have "claimNextTask locked now c q = (Some r, q')" by simp
    then show ?thesis
    proof (cases rule: claimNextTask_SomeE)
      case (1 r0)
      have "find_row tq_id (tq_id r0) q = Some r0"
        using assms 1(1) by (simp add: tq_keys_def find_row_SomeI)
      with 1 Pair Some show ?thesis
        by (auto simp: claim_upd.find_update_self claim_upd.find_update_other)
    qed
  qed
qed

theorem claim_takes_best_witness:
  "case claimNextTask [] 5 co_example [new_task ''a'' 0 eo_example] of
      (None, q') \<Rightarrow> False
    | (Some r, q') \<Rightarrow> r = claim_row 5 co_example (new_task ''a'' 0 eo_example)"
proof -
  have "tq_keys [new_task ''a'' 0 eo_example]" by (simp add: tq_keys_def)
  from claim_takes_best [OF this, where locked = "[]" and now = 5 and c = co_example] show ?thesis
    by (auto simp: claimable_def new_task_def eo_example_def co_example_def
        split: prod.splits option.splits if_splits)
qed

text \<open>
  What may run while a lease is held: anything but a sweep after the lease has expired or a
  status update that puts the task back to pending.
\<close>

fun keeps_claim :: "string \<Rightarrow> timestamp \<Rightarrow> tq_op \<Rightarrow> bool" where
  "keeps_claim k e (Recover t) = (t \<le> e)"
| "keeps_claim k e (UpdateStatus t u) = (uo_id u \<noteq> k \<or> uo_status u \<noteq> T_pending)"
| "keeps_claim k e _ = True"

definition leased :: "string \<Rightarrow> timestamp \<Rightarrow> task_queue \<Rightarrow> bool" where
  "leased k e q \<longleftrightarrow> tq_keys q \<and>
     (\<exists>r. find_row tq_id k q = Some r \<and> tq_status r \<noteq> T_pending \<and> claim_expires_at r = Some e)"

lemma leased_not_claimed:
  assumes "leased k e q" and "claimNextTask l t c q = (Some r, q')"
  shows "tq_id r \<noteq> k"
  using assms(2)
proof (cases rule: claimNextTask_SomeE)
  case (1 r0)
  have "find_row tq_id (tq_id r0) q = Some r0"
    using assms(1) 1(1) by (simp add: leased_def tq_keys_def find_row_SomeI)
  with 1 assms(1) show ?thesis by (auto simp: leased_def claimable_def)
qed

lemma leased_find_step:
  assumes "leased k e q" and "keeps_claim k e op"
  shows "\<exists>r. find_row tq_id k (tq_step op q) = Some r \<and> tq_status r \<noteq> T_pending
    \<and> claim_expires_at r = Some e"
proof -
  obtain r where r: "find_row tq_id k q = Some r" "tq_status r \<noteq> T_pending"
    "claim_expires_at r = Some e"
    using assms(1) by (auto simp: leased_def)
  from r(1) have "tq_id r = k" by (rule find_row_key)
  show ?thesis
  proof (cases op)
    case (Enqueue u t o1)
    with assms show ?thesis
      by (auto simp: enqueueTask_def insert_row_def leased_def find_row_append split: option.splits)
  next
    case (Claim l t c)
    show ?thesis
    proof (cases "claimNextTask l t c q")
      case (Pair res q')
      show ?thesis
      proof (cases res)
        case None
        with Pair Claim assms show ?thesis
          by (auto simp: claimNextTask_def leased_def split: option.splits)
      next
        case (Some r)
        note claimed = Pair [unfolded Some]
        from claimed show ?thesis
        proof (cases rule: claimNextTask_SomeE)
          case (1 r0)
          then have "k \<noteq> tq_id r0"
            using leased_not_claimed [OF assms(1) claimed] by simp
          with claimed 1(5) Claim assms(1) show ?thesis
            by (simp add: leased_def claim_upd.find_update_other)
        qed
      qed
    qed
  qed (use assms(2) r \<open>tq_id r = k\<close> in \<open>auto simp: tq_op_defs stale_def status_upd.find_update
         result_upd.find_update recover_upd.find_update\<close>)
qed

lemma leased_step: "leased k e q \<Longrightarrow> keeps_claim k e op \<Longrightarrow> leased k e (tq_step op q)"
  using leased_find_step [of k e q op] tq_keys_step [of q op] by (simp add: leased_def)

interpretation lease: invariant_system tq_step "keeps_claim k e" "leased k e" for k e
  by unfold_locales (rule leased_step)

lemma claim_leases:
  assumes "tq_keys q" and "claimNextTask l t c q = (Some r, q1)"
  shows "leased (tq_id r) (the (claim_expires_at r)) q1"
proof -
  have "tq_keys q1"
    using tq_keys_step [OF assms(1), of "Claim l t c"] assms(2) by simp
  from assms(2) show ?thesis
  proof (cases rule: claimNextTask_SomeE)
    case (1 r0)
    then have "find_row tq_id (tq_id r) q1 = Some r"
      using assms(1) by (simp add: claim_upd.find_update_self tq_keys_def find_row_SomeI)
    with \<open>tq_keys q1\<close> 1(4) show ?thesis by (simp add: leased_def claim_row_def)
  qed
qed

text \<open>C3: Exactly one winner (TQ-P-001): once a worker has claimed a task, no other claim
  returns it, whatever enqueues, claims, submissions, status updates and sweeps interleave,
  until a sweep runs after the lease has expired or someone puts the task back to pending.\<close>

theorem claim_exclusive:
  assumes "tq_keys q"
    and "claimNextTask l1 t1 c1 q = (Some r1, q1)"
    and "list_all (keeps_claim (tq_id r1) (the (claim_expires_at r1))) ops"
    and "claimNextTask l2 t2 c2 (fold tq_step ops q1) = (Some r2, q2)"
  shows "tq_id r2 \<noteq> tq_id r1"
  using leased_not_claimed [OF lease.run_inv [OF claim_leases [OF assms(1,2)] assms(3)] assms(4)] .

definition two_tasks :: task_queue where
  "two_tasks = [new_task ''a'' 0 eo_example, new_task ''b'' 1 (eo_example\<lparr>eo_idempotency_key := ''k2''\<rparr>)]"

lemmas example_defs =
  two_tasks_def new_task_def eo_example_def co_example_def claim_row_def claimNextTask_def
  first_by_def claimable_def update_where_def second_def

theorem claim_exclusive_witness:
  "tq_id (the (fst (claimNextTask [] 7 co_example
      (fold tq_step [Recover 6] (snd (claimNextTask [] 5 co_example two_tasks)))))) \<noteq> ''a''"
proof -
  have keys: "tq_keys two_tasks" by (simp add: tq_keys_def two_tasks_def eo_example_def)
  let ?r1 = "claim_row 5 co_example (new_task ''a'' 0 eo_example)"
  let ?q1 = "snd (claimNextTask [] 5 co_example two_tasks)"
  have c1: "claimNextTask [] 5 co_example two_tasks = (Some ?r1, ?q1)"
    by (simp add: example_defs)
  have ok: "list_all (keeps_claim (tq_id ?r1) (the (claim_expires_at ?r1))) [Recover 6]"
    by (simp add: example_defs)
  obtain r2 q2 where c2: "claimNextTask [] 7 co_example (fold tq_step [Recover 6] ?q1) = (Some r2, q2)"
    by (simp add: example_defs recoverStaleClaims_def stale_def)
  from claim_exclusive [OF keys c1 ok c2] c2 show ?thesis by simp
qed


section \<open>Recovery and retries\<close>

lemma tq_keys_recover: "tq_keys q \<Longrightarrow> tq_keys (snd (recoverStaleClaims now q))"
  using tq_keys_step [of q "Recover now"] by simp

text \<open>C35: A crashed worker does not lose its task: after the sweep finds the expired claim of a
  task with attempts left, the task cannot be claimed before the backoff of \<open>2^attempt\<close> seconds is
  over, and from then on a claim for its agent type does not come back empty (TQ-D-003).\<close>

theorem crashed_task_retried:
  assumes "tq_keys q" and "r \<in> set q" and "stale now r" and "int (attempt r) < max_attempts r"
    and "tq_id r \<notin> set locked" and "co_agent_type c = agent_type r"
  shows "let res = fst (claimNextTask locked t c (snd (recoverStaleClaims now q)));
             due = now + 2 ^ attempt r * second
         in (t < due \<longrightarrow> (\<forall>r'. res = Some r' \<longrightarrow> tq_id r' \<noteq> tq_id r))
          \<and> (due \<le> t \<longrightarrow> (\<exists>r'. res = Some r'))"
proof -
  let ?q = "snd (recoverStaleClaims now q)"
  have row: "recover_row now r \<in> set ?q"
    using assms(2,3) by (auto simp: recoverStaleClaims_def set_update_where)
  have claimable_iff: "claimable t (co_agent_type c) (recover_row now r) \<longleftrightarrow>
      now + 2 ^ attempt r * second \<le> t"
    using assms(4,6) by (simp add: claimable_def recover_row_def)
  have "tq_id r' \<noteq> tq_id r"
    if early: "t < now + 2 ^ attempt r * second" and res: "fst (claimNextTask locked t c ?q) = Some r'"
    for r'
  proof -
    have "claimNextTask locked t c ?q = (Some r', snd (claimNextTask locked t c ?q))"
      using res by (metis prod.collapse)
    then show ?thesis
    proof (cases rule: claimNextTask_SomeE)
      case (1 r0)
      have "r0 = recover_row now r" if "tq_id r0 = tq_id r"
        using that row 1(1) tq_keys_recover [OF assms(1), of now]
        by (auto simp: tq_keys_def distinct_map inj_on_def)
      with 1 early claimable_iff show ?thesis by auto
    qed
  qed
  moreover have "\<exists>r'. fst (claimNextTask locked t c ?q) = Some r'"
    if "now + 2 ^ attempt r * second \<le> t"
    using that row claimable_iff assms(5) claimNextTask_None_iff [of locked t c ?q]
    by (metis option.exhaust row_fields(20))
  ultimately show ?thesis by (simp add: Let_def)
qed

theorem crashed_task_retried_witness:
  "\<exists>r'. fst (claimNextTask [] 303000000 co_example
     (snd (recoverStaleClaims 301000000
       [claim_row 0 co_example (new_task ''a'' 0 eo_example)]))) = Some r'"
proof -
  let ?r = "claim_row 0 co_example (new_task ''a'' 0 eo_example)"
  have "tq_keys [?r]" and "?r \<in> set [?r]" and "stale 301000000 ?r"
    and "int (attempt ?r) < max_attempts ?r" and "tq_id ?r \<notin> set []"
    and "co_agent_type co_example = agent_type ?r"
    by (simp_all add: tq_keys_def stale_def example_defs)
  from crashed_task_retried [OF this, of 303000000] show ?thesis
    by (simp add: Let_def second_def)
qed

text \<open>
  The calls that respect the retry budget: enqueues with at least one attempt, and status
  updates other than back to pending (the runner only ever writes \<^verbatim>\<open>failed\<close>).
\<close>

fun within_budget :: "tq_op \<Rightarrow> bool" where
  "within_budget (Enqueue u t o1) = (case eo_max_attempts o1 of None \<Rightarrow> True | Some m \<Rightarrow> 1 \<le> m)"
| "within_budget (UpdateStatus t u) = (uo_status u \<noteq> T_pending)"
| "within_budget _ = True"

definition attempts_ok :: "task_queue \<Rightarrow> bool" where
  "attempts_ok q \<longleftrightarrow> (\<forall>r \<in> set q. int (attempt r) \<le> max_attempts r
     \<and> (tq_status r = T_pending \<longrightarrow> int (attempt r) < max_attempts r))"

lemma attempts_ok_update:
  assumes "attempts_ok q"
    and "\<And>r. r \<in> set q \<Longrightarrow> p r \<Longrightarrow> int (attempt (f r)) \<le> max_attempts (f r)
           \<and> (tq_status (f r) = T_pending \<longrightarrow> int (attempt (f r)) < max_attempts (f r))"
  shows "attempts_ok (update_where p f q)"
  using assms by (auto simp: attempts_ok_def set_update_where)

lemma attempts_ok_step:
  assumes "tq_keys q \<and> attempts_ok q" and "within_budget op"
  shows "tq_keys (tq_step op q) \<and> attempts_ok (tq_step op q)"
proof (rule conjI [OF tq_keys_step])
  show "tq_keys q" using assms(1) by simp
  have ok: "attempts_ok q" using assms(1) by simp
  show "attempts_ok (tq_step op q)"
  proof (cases op)
    case (Enqueue u t o1)
    with assms(2) ok show ?thesis
      by (auto simp: enqueueTask_def insert_row_def attempts_ok_def new_task_def split: option.splits)
  next
    case (Claim l t c)
    show ?thesis
    proof (cases "claimNextTask l t c q")
      case (Pair res q')
      show ?thesis
      proof (cases res)
        case None
        with Pair Claim ok show ?thesis by (auto simp: claimNextTask_def split: option.splits)
      next
        case (Some r)
        from Pair [unfolded Some] show ?thesis
        proof (cases rule: claimNextTask_SomeE)
          case (1 r0)
          have "x = r0" if "x \<in> set q" "tq_id x = tq_id r0" for x
            using that 1(1) assms(1) by (auto simp: tq_keys_def distinct_map inj_on_def)
          moreover have "int (attempt r0) < max_attempts r0"
            using ok 1(1,2) by (auto simp: attempts_ok_def claimable_def)
          ultimately have "attempts_ok q'"
            unfolding 1(5) by (intro attempts_ok_update [OF ok]) fastforce
          with Pair Claim show ?thesis by simp
        qed
      qed
    qed
  next
    case (Recover t)
    have "attempts_ok (update_where (stale t) (recover_row t) q)"
      using ok by (intro attempts_ok_update [OF ok]) (auto simp: attempts_ok_def recover_row_def)
    with Recover show ?thesis by (simp add: tq_op_defs)
  qed (use assms(2) ok in \<open>auto simp: tq_op_defs set_update_where attempts_ok_def\<close>)
qed

interpretation budget: invariant_system tq_step within_budget "\<lambda>q. tq_keys q \<and> attempts_ok q"
  by unfold_locales (rule attempts_ok_step)

text \<open>The retry budget holds: starting from an empty queue, under any sequence of enqueues
  (each with at least one attempt), claims, submissions, sweeps and status updates other than back
  to pending, no task is ever handed out more than \<open>max_attempts\<close> times.\<close>

theorem attempts_bounded:
  assumes "list_all within_budget ops" and "r \<in> set (fold tq_step ops [])"
  shows "int (attempt r) \<le> max_attempts r"
proof -
  have "tq_keys [] \<and> attempts_ok []" by (simp add: tq_keys_def attempts_ok_def)
  from budget.run_inv [OF this assms(1)] assms(2) show ?thesis by (auto simp: attempts_ok_def)
qed

theorem attempts_bounded_witness:
  "int (attempt (hd (fold tq_step [Enqueue ''a'' 0 eo_example, Claim [] 5 co_example] []))) \<le> 3"
proof -
  let ?ops = "[Enqueue ''a'' 0 eo_example, Claim [] 5 co_example]"
  have "list_all within_budget ?ops" by (simp add: eo_example_def)
  moreover have q: "fold tq_step ?ops [] = [claim_row 5 co_example (new_task ''a'' 0 eo_example)]"
    by (simp add: enqueueTask_def insert_row_def example_defs)
  ultimately have "int (attempt (hd (fold tq_step ?ops []))) \<le> max_attempts (hd (fold tq_step ?ops []))"
    by (intro attempts_bounded [of ?ops]) (simp_all add: q)
  then show ?thesis unfolding q by (simp add: new_task_def eo_example_def)
qed

section \<open>What the runner does with a claim\<close>

text \<open>The runner claims without passing a delegated token and refuses to submit without
  one, so a claimed task always ends as \<^verbatim>\<open>failed\<close>, whatever the job and the API would answer.\<close>

theorem runner_always_fails:
  assumes "tq_keys q"
    and "claimable now agent r" and "r \<in> set q" and "tq_id r \<notin> set locked"
  shows "\<exists>r0 r'. claimable now agent r0 \<and> tq_id r0 \<notin> set locked \<and> find_row tq_id (tq_id r0) q = Some r0
    \<and> find_row tq_id (tq_id r0) (tryClaimAndExecute w execute submit agent locked now q) = Some r'
    \<and> tq_status r' = T_failed \<and> tq_result r' = tq_result r0 \<and> error_message r' \<noteq> None"
proof -
  let ?c = "\<lparr>co_agent_type = agent, co_claimed_by = w, co_delegated_token = None,
              co_claim_ttl_seconds = None\<rparr>"
  obtain task q1 where claim: "claimNextTask locked now ?c q = (Some task, q1)"
    using assms(2-4) claimNextTask_None_iff [of locked now ?c q]
    by (cases "claimNextTask locked now ?c q"; cases "fst (claimNextTask locked now ?c q)") auto
  then show ?thesis
  proof (cases rule: claimNextTask_SomeE)
    case (1 r0)
    have found: "find_row tq_id (tq_id r0) q = Some r0"
      using assms(1) 1(1) by (simp add: tq_keys_def find_row_SomeI)
    then have q1: "find_row tq_id (tq_id r0) q1 = Some task"
      using 1(4,5) by (simp add: claim_upd.find_update_self)
    have "delegated_token task = None" using 1(4) by simp
    then obtain msg where "tryClaimAndExecute w execute submit agent locked now q =
        snd (updateTaskStatus now \<lparr>uo_id = tq_id task, uo_status = T_failed,
          uo_error_message = Some (take 1000 msg), uo_next_retry_at = None\<rparr> q1)"
      by (cases "execute task") (auto simp: tryClaimAndExecute_def claim)
    then have "find_row tq_id (tq_id r0) (tryClaimAndExecute w execute submit agent locked now q) =
        Some (status_row now \<lparr>uo_id = tq_id task, uo_status = T_failed,
          uo_error_message = Some (take 1000 msg), uo_next_retry_at = None\<rparr> task)"
      using q1 1(4) by (simp add: updateTaskStatus_def Let_def status_upd.find_update_self)
    moreover have "tq_result task = tq_result r0" using 1(4) by (simp add: claim_row_def)
    ultimately show ?thesis using found 1(2,3) by (fastforce simp: status_row_def)
  qed
qed

theorem runner_always_fails_witness:
  "\<exists>r'. find_row tq_id ''a'' (tryClaimAndExecute ''w'' (\<lambda>_. Inr ''{}'')
      (\<lambda>k _ j q. Inr (snd (submitTaskResult 5 \<lparr>so_id = k, so_result = j\<rparr> q)))
      ''rescore'' [] 5 [new_task ''a'' 0 eo_example]) = Some r' \<and> tq_status r' = T_failed"
proof -
  let ?r = "new_task ''a'' 0 eo_example"
  have "tq_keys [?r]" and "claimable 5 ''rescore'' ?r" and "?r \<in> set [?r]" and "tq_id ?r \<notin> set []"
    by (simp_all add: tq_keys_def example_defs)
  from runner_always_fails [OF this, of "''w''" "\<lambda>_. Inr ''{}''"
      "\<lambda>k _ j q. Inr (snd (submitTaskResult 5 \<lparr>so_id = k, so_result = j\<rparr> q))"]
  show ?thesis by (auto split: if_splits)
qed

text \<open>
  The calls that never touch a failed task: everything but a status update or a submission
  that names it.
\<close>

fun not_addressed :: "string \<Rightarrow> tq_op \<Rightarrow> bool" where
  "not_addressed k (UpdateStatus t u) = (uo_id u \<noteq> k)"
| "not_addressed k (SubmitResult t s) = (so_id s \<noteq> k)"
| "not_addressed k _ = True"

lemma failed_step:
  assumes "tq_keys q \<and> r \<in> set q \<and> tq_status r = T_failed" and "not_addressed (tq_id r) op"
  shows "tq_keys (tq_step op q) \<and> r \<in> set (tq_step op q) \<and> tq_status r = T_failed"
proof -
  have "r \<in> set (tq_step op q)"
  proof (cases op)
    case (Enqueue u t o1)
    with assms show ?thesis by (auto simp: enqueueTask_def insert_row_def split: option.splits)
  next
    case (Claim l t c)
    show ?thesis
    proof (cases "claimNextTask l t c q")
      case (Pair res q')
      show ?thesis
      proof (cases res)
        case None
        with Pair Claim assms show ?thesis by (auto simp: claimNextTask_def split: option.splits)
      next
        case (Some r1)
        from Pair [unfolded Some] show ?thesis
        proof (cases rule: claimNextTask_SomeE)
          case (1 r0)
          then have "tq_id r \<noteq> tq_id r0"
            using assms(1) by (auto simp: tq_keys_def distinct_map inj_on_def claimable_def)
          with 1 Pair Claim assms(1) show ?thesis by (auto simp: set_update_where)
        qed
      qed
    qed
  qed (use assms in \<open>auto simp: tq_op_defs set_update_where stale_def\<close>)
  with assms(1) tq_keys_step show ?thesis by blast
qed

interpretation failed: invariant_system tq_step "not_addressed (tq_id r)"
  "\<lambda>q. tq_keys q \<and> r \<in> set q \<and> tq_status r = T_failed" for r
  by unfold_locales (rule failed_step)

text \<open>A failed task is never retried or dead-lettered: no sweep, claim or enqueue changes
  its row, so it stays as the runner left it until someone addresses it by id.\<close>

theorem failed_never_retried:
  assumes "tq_keys q" and "r \<in> set q" and "tq_status r = T_failed"
    and "list_all (not_addressed (tq_id r)) ops"
  shows "r \<in> set (fold tq_step ops q)"
  using failed.run_inv [of q r ops] assms by blast

theorem failed_never_retried_witness:
  "new_task ''a'' 0 eo_example\<lparr>tq_status := T_failed\<rparr> \<in>
     set (fold tq_step [Recover 999999999, Claim [] 999999999 co_example]
       [new_task ''a'' 0 eo_example\<lparr>tq_status := T_failed\<rparr>])"
  by (rule failed_never_retried) (simp_all add: tq_keys_def)

section \<open>Dead-letter alerts\<close>

lemma set_getDlqDepth:
  "set (getDlqDepth q) = {\<lparr>dlq_agent_type = a,
       dead_count = length (filter (\<lambda>r. tq_status r = T_dead \<and> agent_type r = a) q)\<rparr>
     | a. \<exists>r \<in> set q. tq_status r = T_dead \<and> agent_type r = a}"
  by (auto simp: getDlqDepth_def Let_def image_iff conj_commute)

text \<open>The alert fires for exactly the agent types with more dead tasks than the threshold,
  each reported once with its exact count, the deepest queue first (TQ-C-003).\<close>

theorem dlq_alert_exact:
  "let (breached, depth) = checkDlqAlertThreshold threshold q;
       limit = (case threshold of None \<Rightarrow> 10 | Some t \<Rightarrow> t);
       deaths = (\<lambda>a. length (filter (\<lambda>r. tq_status r = T_dead \<and> agent_type r = a) q))
   in set breached = {\<lparr>dlq_agent_type = a, dead_count = deaths a\<rparr> | a. limit < deaths a}
    \<and> distinct (map dlq_agent_type depth)
    \<and> sorted (map (\<lambda>d. - int (dead_count d)) depth)"
proof -
  let ?deaths = "\<lambda>a. length (filter (\<lambda>r. tq_status r = T_dead \<and> agent_type r = a) q)"
  have pos: "\<exists>r \<in> set q. tq_status r = T_dead \<and> agent_type r = a" if "t < ?deaths a" for t a
  proof -
    from that have "filter (\<lambda>r. tq_status r = T_dead \<and> agent_type r = a) q \<noteq> []" by auto
    then show ?thesis by (auto simp: filter_empty_conv)
  qed
  have srt: "sorted (map (\<lambda>d. (- int (dead_count d), dlq_agent_type d)) (getDlqDepth q))"
    by (simp add: getDlqDepth_def Let_def)
  have "sorted (map (\<lambda>d. - int (dead_count d)) (getDlqDepth q))"
    using srt by (auto simp: sorted_iff_nth_mono less_eq_prod_def) fastforce
  moreover have "distinct (map dlq_agent_type (getDlqDepth q))"
  proof -
    have "mset (map dlq_agent_type (getDlqDepth q)) =
        mset (remdups (map agent_type (filter (\<lambda>r. tq_status r = T_dead) q)))"
      by (simp add: getDlqDepth_def Let_def comp_def multiset.map_comp)
    then show ?thesis by (metis distinct_remdups mset_eq_imp_distinct_iff)
  qed
  ultimately show ?thesis
    using pos
    by (auto simp: checkDlqAlertThreshold_def Let_def set_getDlqDepth DLQ_ALERT_THRESHOLD_def
        split: option.splits)
qed


end
