(* ===== verification/Leads.thy ===== *)
theory Leads
  imports Scoring Task_Queue
begin

text \<open>
  The sales pipeline: lead scores (\<^verbatim>\<open>score\<close> of \<^verbatim>\<open>src/packages/db/cltv-scorer.ts\<close>), routing (\<^verbatim>\<open>lead-routing.ts\<close>),
  notifications (\<^verbatim>\<open>notifications.ts\<close>), the rescore worker (\<^verbatim>\<open>cltv-rescore-worker.ts\<close>), the queries of the sales queue
  (\<^verbatim>\<open>leads-queue.ts\<close>) and the KYC handlers that drive them (\<^verbatim>\<open>src/apps/server/src/api/kyc.ts\<close>).

  \<open>crm\<close> holds the tables, with the columns these modules read or write; the round-robin counter is module state and is
  passed beside it. No function here opens a transaction: when a statement fails, the ones before it stay, so a function that
  writes more than once returns the tables on both branches. \<open>clk i\<close> is the time the \<open>i\<close>-th statement of a handler reads.
  A numeric column is the binary64 number it reads back as.

  Parameters, in \<open>cltv_world\<close>: \<^verbatim>\<open>Math.log10\<close>, the locale's number format, SHA-256, and \<open>numeric p\<close>, what the driver and
  \<^verbatim>\<open>NUMERIC(p, 4)\<close> make of a number (\<open>None\<close>: numeric field overflow).
\<close>

section \<open>Tables\<close>

datatype ProspectStage = S_new | S_kyc_pending | S_kyc_manual_review | S_scored | S_qualified | S_disqualified

datatype DisqualificationReason = Score_below_threshold | Kyc_not_verified | Kyc_manual_review

datatype KycVerificationStatus = K_pending | K_verified | K_failed | K_archived

datatype EntityType = Prospect | Customer

datatype NotificationEventType = New_lead | Score_drop

record RlProspectRow =
  pr_id :: string
  pr_company_name :: string
  pr_industry :: "string option"
  pr_sic_code :: "string option"
  pr_stage :: ProspectStage
  pr_assigned_rep_id :: "string option"
  pr_disqualification_reason :: "DisqualificationReason option"
  pr_disqualified_at :: "timestamp option"
  pr_created_at :: timestamp
  pr_updated_at :: timestamp

record KycRecordRow =
  ky_id :: string
  ky_prospect_id :: string
  ky_verification_status :: KycVerificationStatus
  ky_funding_stage :: "string option"
  ky_annual_revenue_est :: "js_number option"
  ky_debt_load_est :: "js_number option"
  ky_checked_at :: "timestamp option"
  ky_created_at :: timestamp
  ky_updated_at :: timestamp

record CLTVScoreRow =
  sc_id :: string
  sc_entity_id :: string
  sc_entity_type :: EntityType
  sc_macro_score :: "js_number option"
  sc_industry_score :: "js_number option"
  sc_company_score :: "js_number option"
  sc_composite_score :: "js_number option"
  sc_tier :: "Tier option"
  sc_score_version :: string
  sc_macro_inputs_snapshot :: "MacroSnapshot option"
  sc_industry_inputs_snapshot :: "IndustrySnapshot option"
  sc_company_inputs_snapshot :: "CompanySnapshot option"
  sc_rationale_macro :: "string option"
  sc_rationale_industry :: "string option"
  sc_rationale_company :: "string option"
  sc_computed_at :: timestamp
  sc_created_at :: timestamp

record MacroIndicatorRow =
  mi_id :: string
  mi_indicator_type :: string
  mi_value :: js_number
  mi_effective_date :: date
  mi_created_at :: timestamp

record IndustryBenchmarkRow =
  ib_id :: string
  ib_sic_code :: string
  ib_growth_rate :: "js_number option"
  ib_default_rate :: "js_number option"
  ib_payment_norm_days :: "int option"
  ib_effective_date :: date
  ib_created_at :: timestamp

record crm_customer =
  cu_id :: string
  cu_prospect_id :: "string option"

text \<open>A row of \<^verbatim>\<open>entities\<close>, with \<^verbatim>\<open>properties->>'role'\<close>.\<close>

record entity_row =
  ey_id :: string
  ey_type :: string
  ey_role :: "string option"

record NotificationRow =
  no_id :: string
  no_rep_id :: string
  no_prospect_id :: string
  no_event_type :: NotificationEventType
  no_description :: string
  no_read_at :: "timestamp option"
  no_created_at :: timestamp

record deal_row =
  de_prospect_id :: string
  de_stage :: string
  de_created_at :: timestamp

record activity_row =
  ac_prospect_id :: string
  ac_occurred_at :: timestamp

record crm =
  prospects :: "RlProspectRow list"
  kyc_records :: "KycRecordRow list"
  cltv_scores :: "CLTVScoreRow list"
  macro_indicators :: "MacroIndicatorRow list"
  benchmarks :: "IndustryBenchmarkRow list"
  crm_customers :: "crm_customer list"
  crm_entities :: "entity_row list"
  notifications :: "NotificationRow list"
  deals :: "deal_row list"
  activities :: "activity_row list"
  tasks :: task_queue

datatype crm_error =
    Db db_error
  | Numeric_overflow
  | Invalid_entity_id string
  | Invalid_entity_type string

section \<open>Notifications\<close>

record CreateNotificationOptions =
  cn_rep_id :: string
  cn_prospect_id :: string
  cn_event_type :: NotificationEventType
  cn_description :: string

definition new_notification :: "string \<Rightarrow> timestamp \<Rightarrow> CreateNotificationOptions \<Rightarrow> NotificationRow" where
  "new_notification uuid now opts =
     \<lparr>no_id = uuid, no_rep_id = cn_rep_id opts, no_prospect_id = cn_prospect_id opts, no_event_type = cn_event_type opts,
      no_description = cn_description opts, no_read_at = None, no_created_at = now\<rparr>"

definition createNotification ::
  "(string list \<Rightarrow> string) \<Rightarrow> timestamp \<Rightarrow> CreateNotificationOptions \<Rightarrow> crm \<Rightarrow> crm_error + (NotificationRow \<times> crm)" where
  "createNotification uuid now opts db =
     (let row = new_notification (uuid (map no_id (notifications db))) now opts
      in if cn_prospect_id opts \<notin> pr_id ` set (prospects db) then Inl (Db (ForeignKeyViolation ''prospect_id''))
         else case insert_row no_id row (notifications db) of
                Inl e \<Rightarrow> Inl (Db e)
              | Inr t \<Rightarrow> Inr (row, db\<lparr>notifications := t\<rparr>))"

definition markNotificationRead :: "timestamp \<Rightarrow> string \<Rightarrow> string \<Rightarrow> crm \<Rightarrow> NotificationRow option \<times> crm" where
  "markNotificationRead now i repId db =
     (let hit = (\<lambda>r. no_id r = i \<and> no_rep_id r = repId \<and> no_read_at r = None)
      in (map_option (\<lambda>r. r\<lparr>no_read_at := Some now\<rparr>) (find hit (notifications db)),
          db\<lparr>notifications := update_where hit (\<lambda>r. r\<lparr>no_read_at := Some now\<rparr>) (notifications db)\<rparr>))"

definition getUnreadNotifications :: "string \<Rightarrow> crm \<Rightarrow> NotificationRow list" where
  "getUnreadNotifications repId db =
     sort_key (\<lambda>r. - no_created_at r) (filter (\<lambda>r. no_rep_id r = repId \<and> no_read_at r = None) (notifications db))"

section \<open>Scoring an entity\<close>

record cltv_world =
  cw_log10 :: "js_number \<Rightarrow> js_number"
  cw_rounded_text :: "js_number \<Rightarrow> string"
  cw_sha :: "string \<Rightarrow> string"
  cw_numeric :: "nat \<Rightarrow> js_number \<Rightarrow> js_number option"

definition macro_value :: "crm \<Rightarrow> string \<Rightarrow> js_number option" where
  "macro_value db t = map_option mi_value
     (first_by (\<lambda>r. (- mi_effective_date r, - mi_created_at r)) (\<lambda>r. mi_indicator_type r = t) (macro_indicators db))"

definition macro_snapshot :: "crm \<Rightarrow> MacroSnapshot" where
  "macro_snapshot db = \<lparr>interest_rate = macro_value db ''interest_rate'', gdp_growth_rate = macro_value db ''gdp_growth_rate'',
     inflation_rate = macro_value db ''inflation_rate''\<rparr>"

text \<open>The prospect behind an entity: itself, or the one a customer was converted from.\<close>

definition entity_prospect :: "crm \<Rightarrow> EntityType \<Rightarrow> string \<Rightarrow> RlProspectRow option" where
  "entity_prospect db t k = (case t of
     Prospect \<Rightarrow> find_row pr_id k (prospects db)
   | Customer \<Rightarrow> Option.bind (find_row cu_id k (crm_customers db)) (\<lambda>c.
       Option.bind (cu_prospect_id c) (\<lambda>p. find_row pr_id p (prospects db))))"

definition entity_sic_code :: "crm \<Rightarrow> EntityType \<Rightarrow> string \<Rightarrow> string option" where
  "entity_sic_code db t k = Option.bind (entity_prospect db t k) pr_sic_code"

definition industry_row :: "crm \<Rightarrow> string option \<Rightarrow> IndustryBenchmarkRow option" where
  "industry_row db sicCode =
     (if truthy sicCode
      then first_by (\<lambda>r. (- ib_effective_date r, - ib_created_at r)) (\<lambda>r. Some (ib_sic_code r) = sicCode) (benchmarks db)
      else None)"

definition industry_snapshot :: "crm \<Rightarrow> string option \<Rightarrow> IndustrySnapshot" where
  "industry_snapshot db sicCode =
     (let row = industry_row db sicCode
      in \<lparr>sic_code = sicCode, growth_rate = Option.bind row ib_growth_rate, default_rate = Option.bind row ib_default_rate,
          payment_norm_days = Option.bind row ib_payment_norm_days\<rparr>)"

definition active_kyc :: "string \<Rightarrow> KycRecordRow \<Rightarrow> bool" where
  "active_kyc p r \<longleftrightarrow> ky_prospect_id r = p \<and> ky_verification_status r \<noteq> K_archived"

definition latest_kyc :: "crm \<Rightarrow> string \<Rightarrow> KycRecordRow option" where
  "latest_kyc db p = first_by (\<lambda>r. - ky_created_at r) (active_kyc p) (kyc_records db)"

text \<open>A prospect's records are read by its id alone, a customer's through the rows of both tables.\<close>

definition entity_kyc :: "crm \<Rightarrow> EntityType \<Rightarrow> string \<Rightarrow> KycRecordRow option" where
  "entity_kyc db t k = (case t of
     Prospect \<Rightarrow> latest_kyc db k
   | Customer \<Rightarrow> Option.bind (entity_prospect db Customer k) (\<lambda>p. latest_kyc db (pr_id p)))"

definition company_snapshot :: "KycRecordRow option \<Rightarrow> CompanySnapshot" where
  "company_snapshot row = \<lparr>annual_revenue_est = Option.bind row ky_annual_revenue_est,
     debt_load_est = Option.bind row ky_debt_load_est, funding_stage = Option.bind row ky_funding_stage,
     kyc_record_id = map_option ky_id row\<rparr>"

definition score ::
  "cltv_world \<Rightarrow> (string list \<Rightarrow> string) \<Rightarrow> timestamp \<Rightarrow> ScoringConfig \<Rightarrow> string \<Rightarrow> EntityType \<Rightarrow> crm
    \<Rightarrow> crm_error + (CLTVScoreRow \<times> crm)" where
  "score W uuid now config entity_id entity_type db =
     (let ms = macro_snapshot db;
          ind = industry_snapshot db (entity_sic_code db entity_type entity_id);
          cs = company_snapshot (entity_kyc db entity_type entity_id);
          m = computeMacroSubScore ms; i = computeIndustrySubScore ind; k = computeCompanySubScore (cw_log10 W) cs;
          composite = snapshot_score (cw_log10 W) config ms ind cs
      in case (cw_numeric W 5 m, cw_numeric W 5 i, cw_numeric W 5 k, cw_numeric W 7 composite) of
           (Some m', Some i', Some k', Some c') \<Rightarrow>
             let row = \<lparr>sc_id = uuid (map sc_id (cltv_scores db)), sc_entity_id = entity_id, sc_entity_type = entity_type,
                   sc_macro_score = Some m', sc_industry_score = Some i', sc_company_score = Some k',
                   sc_composite_score = Some c', sc_tier = Some (classifyTier composite config),
                   sc_score_version = computeScoreVersion (cw_sha W) config,
                   sc_macro_inputs_snapshot = Some ms, sc_industry_inputs_snapshot = Some ind, sc_company_inputs_snapshot = Some cs,
                   sc_rationale_macro = Some (buildMacroRationale ms m), sc_rationale_industry = Some (buildIndustryRationale ind i),
                   sc_rationale_company = Some (buildCompanyRationale (cw_rounded_text W) cs k),
                   sc_computed_at = now, sc_created_at = now\<rparr>
             in (case insert_row sc_id row (cltv_scores db) of
                   Inl e \<Rightarrow> Inl (Db e)
                 | Inr t \<Rightarrow> Inr (row, db\<lparr>cltv_scores := t\<rparr>))
         | _ \<Rightarrow> Inl Numeric_overflow)"

section \<open>Routing\<close>

record route_env =
  QUALIFICATION_THRESHOLD :: "string option"
  QUEUE_ASSIGN_MODE :: "string option"

datatype assign_mode = Round_robin | Manual

definition resolveQualificationThreshold :: "route_env \<Rightarrow> js_number" where
  "resolveQualificationThreshold env = (case QUALIFICATION_THRESHOLD env of
     None \<Rightarrow> Finite (1 / 2)
   | Some raw \<Rightarrow> if raw = [] then Finite (1 / 2)
       else let parsed = parseFloat raw in if parsed = NaN then Finite (1 / 2) else parsed)"

definition resolveQueueAssignMode :: "route_env \<Rightarrow> assign_mode" where
  "resolveQueueAssignMode env = (if QUEUE_ASSIGN_MODE env = Some ''manual'' then Manual else Round_robin)"

definition enqueueTaskWithClient ::
  "string \<Rightarrow> timestamp \<Rightarrow> string \<Rightarrow> TaskType \<Rightarrow> string \<Rightarrow> json \<Rightarrow> string \<Rightarrow> task_queue \<Rightarrow> db_error + (TaskQueueRow \<times> task_queue)" where
  "enqueueTaskWithClient uuid now key t jobType body createdBy q =
     enqueueTask uuid now \<lparr>eo_idempotency_key = key, eo_agent_type = TASK_TYPE_AGENT_MAP t, eo_job_type = jobType,
       eo_payload = Some body, eo_correlation_id = None, eo_created_by = createdBy, eo_priority = Some 5, eo_max_attempts = Some 3\<rparr> q"

definition fetchProspectStage :: "string \<Rightarrow> crm \<Rightarrow> ProspectStage option" where
  "fetchProspectStage p db = map_option pr_stage (find_row pr_id p (prospects db))"

definition fetchLatestCltvScore :: "string \<Rightarrow> crm \<Rightarrow> CLTVScoreRow option" where
  "fetchLatestCltvScore p db =
     first_by (\<lambda>r. - sc_computed_at r) (\<lambda>r. sc_entity_id r = p \<and> sc_entity_type r = Prospect) (cltv_scores db)"

definition fetchActiveSalesReps :: "crm \<Rightarrow> string list" where
  "fetchActiveSalesReps db =
     sort (map ey_id (filter (\<lambda>e. ey_type e = ''user'' \<and> ey_role e = Some ''sales_rep'') (crm_entities db)))"

definition routing_row ::
  "timestamp \<Rightarrow> ProspectStage \<Rightarrow> string option \<Rightarrow> DisqualificationReason option \<Rightarrow> RlProspectRow \<Rightarrow> RlProspectRow" where
  "routing_row now stage rep reason r = r\<lparr>pr_stage := stage, pr_assigned_rep_id := rep, pr_disqualification_reason := reason,
     pr_disqualified_at := (if stage = S_disqualified then Some now else None), pr_updated_at := now\<rparr>"

definition updateProspectRouting ::
  "timestamp \<Rightarrow> string \<Rightarrow> ProspectStage \<Rightarrow> string option \<Rightarrow> DisqualificationReason option \<Rightarrow> crm \<Rightarrow> crm" where
  "updateProspectRouting now p stage rep reason db =
     db\<lparr>prospects := update_where (\<lambda>r. pr_id r = p) (routing_row now stage rep reason) (prospects db)\<rparr>"

definition disqualification :: "route_env \<Rightarrow> string \<Rightarrow> crm \<Rightarrow> DisqualificationReason option" where
  "disqualification env p db =
     (let kyc_reason =
            (if fetchProspectStage p db = Some S_kyc_manual_review then Some Kyc_manual_review
             else case latest_kyc db p of
                    None \<Rightarrow> Some Kyc_not_verified
                  | Some k \<Rightarrow> if ky_verification_status k \<noteq> K_verified then Some Kyc_not_verified else None)
      in case kyc_reason of
           Some r \<Rightarrow> Some r
         | None \<Rightarrow> (case Option.bind (fetchLatestCltvScore p db) sc_composite_score of
               None \<Rightarrow> Some Score_below_threshold
             | Some s \<Rightarrow> if num_less s (resolveQualificationThreshold env) then Some Score_below_threshold else None))"

record RouteResult =
  rt_stage :: ProspectStage
  rt_assigned_rep_id :: "string option"
  rt_disqualification_reason :: "DisqualificationReason option"
  rt_rescore_task_id :: "string option"

record RouteOptions =
  manualRepId :: "string option"
  systemUserId :: string

fun reason_text :: "DisqualificationReason \<Rightarrow> string" where
  "reason_text Score_below_threshold = ''score_below_threshold''"
| "reason_text Kyc_not_verified = ''kyc_not_verified''"
| "reason_text Kyc_manual_review = ''kyc_manual_review''"

definition MAX_SAFE_INTEGER :: nat where
  "MAX_SAFE_INTEGER = 2 ^ 53 - 1"

text \<open>The rep of the next qualified lead and the counter after it. \<open>render\<close> is the JSON text of the task's payload.\<close>

definition pick_rep :: "route_env \<Rightarrow> RouteOptions \<Rightarrow> crm \<Rightarrow> nat \<Rightarrow> string option \<times> nat" where
  "pick_rep env opts db rr =
     (if resolveQueueAssignMode env = Manual \<and> truthy (manualRepId opts) then (manualRepId opts, rr)
      else let reps = fetchActiveSalesReps db
           in if reps = [] then (None, rr)
              else (Some (reps ! (rr mod length reps)), (rr + 1) mod MAX_SAFE_INTEGER))"

definition rescore_key :: "string \<Rightarrow> string" where
  "rescore_key p = ''rescore_schedule:'' @ p"

definition route ::
  "(string \<Rightarrow> DisqualificationReason \<Rightarrow> json) \<Rightarrow> (string list \<Rightarrow> string) \<Rightarrow> timestamp \<Rightarrow> timestamp \<Rightarrow> route_env \<Rightarrow> RouteOptions
    \<Rightarrow> string \<Rightarrow> crm \<times> nat \<Rightarrow> (crm_error + RouteResult) \<times> crm \<times> nat" where
  "route render uuid now later env opts p s = (case s of (db, rr) \<Rightarrow>
     (case disqualification env p db of
        Some reason \<Rightarrow>
          let db1 = updateProspectRouting now p S_disqualified None (Some reason) db
          in (case enqueueTaskWithClient (uuid (map tq_id (tasks db1))) later (rescore_key p) RESCORE_SCHEDULE ''RESCORE_SCHEDULE''
                     (render p reason) (systemUserId opts) (tasks db1) of
                Inl e \<Rightarrow> (Inl (Db e), db1, rr)
              | Inr (task, q) \<Rightarrow>
                  (Inr \<lparr>rt_stage = S_disqualified, rt_assigned_rep_id = None, rt_disqualification_reason = Some reason,
                        rt_rescore_task_id = Some (tq_id task)\<rparr>, db1\<lparr>tasks := q\<rparr>, rr))
      | None \<Rightarrow>
          (case pick_rep env opts db rr of (rep, rr1) \<Rightarrow>
             let db1 = updateProspectRouting now p S_qualified rep None db;
                 result = \<lparr>rt_stage = S_qualified, rt_assigned_rep_id = rep, rt_disqualification_reason = None, rt_rescore_task_id = None\<rparr>
             in if truthy rep then
                  (let companyName = (case find_row pr_id p (prospects db1) of None \<Rightarrow> ''Unknown'' | Some r \<Rightarrow> pr_company_name r)
                   in case createNotification uuid later \<lparr>cn_rep_id = the rep, cn_prospect_id = p, cn_event_type = New_lead,
                             cn_description = ''New qualified lead: '' @ companyName\<rparr> db1 of
                        Inl e \<Rightarrow> (Inl e, db1, rr1)
                      | Inr (_, db2) \<Rightarrow> (Inr result, db2, rr1))
                else (Inr result, db1, rr1))))"

section \<open>The rescore worker\<close>

text \<open>The two fields of the payload the handler reads; \<open>None\<close> is a field that is absent or not a string.\<close>

record RescorePayload =
  rp_entity_id :: "string option"
  rp_entity_type :: "string option"

record RescoreResult =
  rs_cltvScoreId :: string
  rs_compositeScore :: "js_number option"
  rs_tier :: "Tier option"

definition payload_entity_type :: "RescorePayload \<Rightarrow> EntityType option" where
  "payload_entity_type pl =
     (if rp_entity_type pl = Some ''prospect'' then Some Prospect
      else if rp_entity_type pl = Some ''customer'' then Some Customer else None)"

definition previous_score :: "crm \<Rightarrow> EntityType \<Rightarrow> string \<Rightarrow> js_number option" where
  "previous_score db t k = Option.bind
     (first_by (\<lambda>r. - sc_computed_at r) (\<lambda>r. sc_entity_id r = k \<and> sc_entity_type r = t) (cltv_scores db)) sc_composite_score"

definition score_dropped :: "js_number option \<Rightarrow> CLTVScoreRow \<Rightarrow> bool" where
  "score_dropped prev row = (case (sc_composite_score row, prev) of
     (Some new, Some old) \<Rightarrow> num_less new old | _ \<Rightarrow> False)"

definition drop_text :: "RlProspectRow \<Rightarrow> CLTVScoreRow \<Rightarrow> js_number option \<Rightarrow> string" where
  "drop_text r row prev = ''Score dropped for '' @ pr_company_name r @ '' (new: '' @ toFixed 2 (the (sc_composite_score row))
     @ '', prev: '' @ toFixed 2 (the prev) @ '')''"

definition handleRescoreTask ::
  "cltv_world \<Rightarrow> (string list \<Rightarrow> string) \<Rightarrow> timestamp \<Rightarrow> timestamp \<Rightarrow> ScoringConfig \<Rightarrow> string \<Rightarrow> RescorePayload \<Rightarrow> crm
    \<Rightarrow> (crm_error + RescoreResult) \<times> crm" where
  "handleRescoreTask W uuid now later config taskId pl db =
     (if \<not> truthy (rp_entity_id pl) then (Inl (Invalid_entity_id taskId), db)
      else case payload_entity_type pl of
        None \<Rightarrow> (Inl (Invalid_entity_type taskId), db)
      | Some t \<Rightarrow>
          let k = the (rp_entity_id pl); prev = previous_score db t k
          in (case score W uuid now config k t db of
                Inl e \<Rightarrow> (Inl e, db)
              | Inr (row, db1) \<Rightarrow>
                  let result = \<lparr>rs_cltvScoreId = sc_id row, rs_compositeScore = sc_composite_score row, rs_tier = sc_tier row\<rparr>
                  in if t = Prospect \<and> score_dropped prev row then
                       (case find_row pr_id k (prospects db1) of
                          None \<Rightarrow> (Inr result, db1)
                        | Some r \<Rightarrow>
                            if truthy (pr_assigned_rep_id r) then
                              (case createNotification uuid later \<lparr>cn_rep_id = the (pr_assigned_rep_id r), cn_prospect_id = k,
                                        cn_event_type = Score_drop, cn_description = drop_text r row prev\<rparr> db1 of
                                 Inl e \<Rightarrow> (Inl e, db1)
                               | Inr (_, db2) \<Rightarrow> (Inr result, db2))
                            else (Inr result, db1))
                     else (Inr result, db1)))"

section \<open>The KYC handlers\<close>

datatype KycOutcome = O_verified | O_failed | O_insufficient_data

definition resolveKycOutcome :: "string option \<Rightarrow> string \<Rightarrow> KycOutcome" where
  "resolveKycOutcome stub p =
     (if stub = Some ''verified'' then O_verified
      else if stub = Some ''failed'' then O_failed
      else if stub = Some ''insufficient_data'' then O_insufficient_data
      else [O_verified, O_failed, O_insufficient_data] ! (sum_list (map of_char p) mod 3))"

definition canAccessManualReview :: "string option \<Rightarrow> string option \<Rightarrow> string \<Rightarrow> bool" where
  "canAccessManualReview superuser role userId \<longleftrightarrow>
     (truthy superuser \<and> superuser = Some userId) \<or> (truthy role \<and> role \<noteq> Some ''sales_rep'')"

definition actor_role :: "crm \<Rightarrow> string \<Rightarrow> string option" where
  "actor_role db userId =
     Option.bind (find (\<lambda>e. ey_id e = userId \<and> ey_type e = ''user'') (crm_entities db)) ey_role"

text \<open>What a request body holds in \<^verbatim>\<open>action\<close>; \<open>Body_null\<close> is the JSON text \<^verbatim>\<open>null\<close>, which cannot be destructured.\<close>

datatype review_body = Body_invalid | Body_null | Body_action "string option"

datatype kyc_response =
    Unauthorized | Forbidden | Prospect_not_found | Not_in_review | Invalid_json | Bad_action
  | Server_error "crm_error option"
  | Triggered string KycOutcome "RouteResult option"
  | Rejected string
  | Verified string RouteResult

record kyc_env =
  ke_superuser :: "string option"
  ke_stub_outcome :: "string option"
  ke_config :: ScoringConfig
  ke_route :: route_env

definition set_stage :: "timestamp \<Rightarrow> string \<Rightarrow> ProspectStage \<Rightarrow> crm \<Rightarrow> crm" where
  "set_stage now p stage db =
     db\<lparr>prospects := update_where (\<lambda>r. pr_id r = p) (\<lambda>r. r\<lparr>pr_stage := stage, pr_updated_at := now\<rparr>) (prospects db)\<rparr>"

definition archive_kyc :: "timestamp \<Rightarrow> string \<Rightarrow> crm \<Rightarrow> crm" where
  "archive_kyc now p db =
     db\<lparr>kyc_records := update_where (active_kyc p) (\<lambda>r. r\<lparr>ky_verification_status := K_archived, ky_updated_at := now\<rparr>) (kyc_records db)\<rparr>"

text \<open>The INSERT, under the foreign key and the index \<^verbatim>\<open>rl_kyc_records_one_active_per_prospect\<close>.\<close>

definition insert_kyc ::
  "(string list \<Rightarrow> string) \<Rightarrow> timestamp \<Rightarrow> string \<Rightarrow> KycVerificationStatus \<Rightarrow> timestamp \<Rightarrow> crm \<Rightarrow> crm_error + (string \<times> crm)" where
  "insert_kyc uuid now p status checked db =
     (let row = \<lparr>ky_id = uuid (map ky_id (kyc_records db)), ky_prospect_id = p, ky_verification_status = status,
            ky_funding_stage = None, ky_annual_revenue_est = None, ky_debt_load_est = None, ky_checked_at = Some checked,
            ky_created_at = now, ky_updated_at = now\<rparr>
      in if p \<notin> pr_id ` set (prospects db) then Inl (Db (ForeignKeyViolation ''prospect_id''))
         else if status \<noteq> K_archived \<and> (\<exists>r \<in> set (kyc_records db). active_kyc p r)
              then Inl (Db (UniqueViolation ''rl_kyc_records_one_active_per_prospect''))
         else case insert_row ky_id row (kyc_records db) of
                Inl e \<Rightarrow> Inl (Db e)
              | Inr t \<Rightarrow> Inr (ky_id row, db\<lparr>kyc_records := t\<rparr>))"

definition verify_kyc :: "timestamp \<Rightarrow> string \<Rightarrow> crm \<Rightarrow> crm" where
  "verify_kyc now p db =
     db\<lparr>kyc_records := update_where (active_kyc p)
        (\<lambda>r. r\<lparr>ky_verification_status := K_verified, ky_updated_at := now, ky_checked_at := Some now\<rparr>) (kyc_records db)\<rparr>"

text \<open>What both handlers do once the record is verified: set the stage, score, route with the default options.\<close>

definition score_and_route ::
  "(string \<Rightarrow> DisqualificationReason \<Rightarrow> json) \<Rightarrow> cltv_world \<Rightarrow> (string list \<Rightarrow> string) \<Rightarrow> (nat \<Rightarrow> timestamp) \<Rightarrow> kyc_env \<Rightarrow> string
    \<Rightarrow> crm \<times> nat \<Rightarrow> (crm_error + RouteResult) \<times> crm \<times> nat" where
  "score_and_route render W uuid clk env p s = (case s of (db, rr) \<Rightarrow>
     let db1 = set_stage (clk 2) p S_scored db
     in (case score W uuid (clk 3) (ke_config env) p Prospect db1 of
           Inl e \<Rightarrow> (Inl e, db1, rr)
         | Inr (_, db2) \<Rightarrow>
             route render uuid (clk 4) (clk 5) (ke_route env) \<lparr>manualRepId = None, systemUserId = ''system''\<rparr> p (db2, rr)))"

definition kyc_trigger ::
  "(string \<Rightarrow> DisqualificationReason \<Rightarrow> json) \<Rightarrow> cltv_world \<Rightarrow> (string list \<Rightarrow> string) \<Rightarrow> (nat \<Rightarrow> timestamp) \<Rightarrow> kyc_env
    \<Rightarrow> string option \<Rightarrow> string \<Rightarrow> crm \<times> nat \<Rightarrow> kyc_response \<times> crm \<times> nat" where
  "kyc_trigger render W uuid clk env user p s = (case s of (db, rr) \<Rightarrow>
     (if user = None then (Unauthorized, s)
      else if find_row pr_id p (prospects db) = None then (Prospect_not_found, s)
      else
        let db1 = archive_kyc (clk 0) p db;
            outcome = resolveKycOutcome (ke_stub_outcome env) p;
            status = (if outcome = O_verified then K_verified else K_failed)
        in (case insert_kyc uuid (clk 1) p status (js_date (clk 1)) db1 of
              Inl e \<Rightarrow> (Server_error (Some e), db1, rr)
            | Inr (kycId, db2) \<Rightarrow>
                if outcome = O_verified then
                  (case score_and_route render W uuid clk env p (db2, rr) of
                     (Inl e, s') \<Rightarrow> (Server_error (Some e), s')
                   | (Inr r, s') \<Rightarrow> (Triggered kycId outcome (Some r), s'))
                else (Triggered kycId outcome None, set_stage (clk 2) p S_kyc_manual_review db2, rr))))"

definition reject_prospect :: "timestamp \<Rightarrow> string \<Rightarrow> crm \<Rightarrow> crm" where
  "reject_prospect now p db =
     db\<lparr>prospects := update_where (\<lambda>r. pr_id r = p) (\<lambda>r. r\<lparr>pr_stage := S_disqualified,
          pr_disqualification_reason := Some Kyc_not_verified, pr_disqualified_at := Some now, pr_updated_at := now\<rparr>) (prospects db)\<rparr>"

definition kyc_review ::
  "(string \<Rightarrow> DisqualificationReason \<Rightarrow> json) \<Rightarrow> cltv_world \<Rightarrow> (string list \<Rightarrow> string) \<Rightarrow> (nat \<Rightarrow> timestamp) \<Rightarrow> kyc_env
    \<Rightarrow> string option \<Rightarrow> string \<Rightarrow> review_body \<Rightarrow> crm \<times> nat \<Rightarrow> kyc_response \<times> crm \<times> nat" where
  "kyc_review render W uuid clk env user p body s = (case s of (db, rr) \<Rightarrow>
     (case user of
        None \<Rightarrow> (Unauthorized, s)
      | Some u \<Rightarrow>
          if \<not> canAccessManualReview (ke_superuser env) (actor_role db u) u then (Forbidden, s)
          else (case find_row pr_id p (prospects db) of
             None \<Rightarrow> (Prospect_not_found, s)
           | Some r \<Rightarrow>
               if pr_stage r \<noteq> S_kyc_manual_review then (Not_in_review, s)
               else (case body of
                  Body_invalid \<Rightarrow> (Invalid_json, s)
                | Body_null \<Rightarrow> (Server_error None, s)
                | Body_action action \<Rightarrow>
                    if action \<noteq> Some ''verify'' \<and> action \<noteq> Some ''reject'' then (Bad_action, s)
                    else if action = Some ''reject'' then (Rejected p, reject_prospect (clk 0) p db, rr)
                    else (case score_and_route render W uuid clk env p (verify_kyc (clk 1) p db, rr) of
                            (Inl e, s') \<Rightarrow> (Server_error (Some e), s')
                          | (Inr res, s') \<Rightarrow> (Verified p res, s'))))))"

record ManualReviewRow =
  mr_prospect :: RlProspectRow
  mr_kyc :: "KycRecordRow option"
  mr_days_since_flag :: int

text \<open>\<^verbatim>\<open>Math.max(0, Math.floor((now - flagged) / 86400000))\<close> on millisecond times.\<close>

definition manual_review_list :: "timestamp \<Rightarrow> kyc_env \<Rightarrow> string option \<Rightarrow> crm \<Rightarrow> kyc_response + ManualReviewRow list" where
  "manual_review_list now env user db = (case user of
     None \<Rightarrow> Inl Unauthorized
   | Some u \<Rightarrow>
       if \<not> canAccessManualReview (ke_superuser env) (actor_role db u) u then Inl Forbidden
       else Inr (map (\<lambda>r. \<lparr>mr_prospect = r, mr_kyc = latest_kyc db (pr_id r),
                     mr_days_since_flag = max 0 ((js_date now - js_date (pr_updated_at r)) div day)\<rparr>)
              (sort_key (\<lambda>r. - pr_updated_at r) (filter (\<lambda>r. pr_stage r = S_kyc_manual_review) (prospects db)))))"

section \<open>The sales queue\<close>

datatype ScoreTier = Q_A | Q_B | Q_C

datatype LeadQueueSort = By_score | By_cltv | By_days

record LeadQueueFilters =
  lf_tier :: "ScoreTier list option"
  lf_industry :: "string list option"
  lf_days_min :: "rat option"
  lf_days_max :: "rat option"
  lf_rep_id :: "string option"

record QueueLeadRow =
  ql_prospect :: RlProspectRow
  ql_days_in_queue :: int
  ql_composite_score :: "js_number option"
  ql_score_tier :: "ScoreTier option"
  ql_cltv_low :: "js_number option"
  ql_cltv_high :: "js_number option"
  ql_kyc_status :: "KycVerificationStatus option"
  ql_deal_stage :: "string option"
  ql_last_activity_at :: "timestamp option"
  ql_nudge :: bool
  ql_scoring_in_progress :: bool

definition deriveTier :: "js_number option \<Rightarrow> ScoreTier option" where
  "deriveTier s = map_option (\<lambda>v. if num_le (to_double (7 / 10)) v then Q_A
     else if num_le (to_double (4 / 10)) v then Q_B else Q_C) s"

text \<open>The same \<^verbatim>\<open>CASE\<close> in SQL, where a numeric NaN is above every number.\<close>

definition sql_tier :: "js_number option \<Rightarrow> ScoreTier option" where
  "sql_tier s = (if s = Some NaN then Some Q_A else deriveTier s)"

definition resolveNudgeDaysThreshold :: "string option \<Rightarrow> js_number" where
  "resolveNudgeDaysThreshold v =
     (case v of None \<Rightarrow> Finite 7
      | Some raw \<Rightarrow> if raw = [] then Finite 7
          else let parsed = parseInt raw in if parsed = NaN \<or> num_less parsed (Finite 0) then Finite 7 else parsed)"

definition queue_age :: "timestamp \<Rightarrow> RlProspectRow \<Rightarrow> rat" where
  "queue_age now r = of_int (now - pr_created_at r) / of_int day"

text \<open>\<^verbatim>\<open>DESC NULLS LAST\<close> on a score of four decimals, and on the estimate \<^verbatim>\<open>score * 1.2 * 1000000\<close>.\<close>

definition score_order :: "int \<Rightarrow> js_number option \<Rightarrow> nat \<times> int" where
  "score_order factor s = (case s of
     None \<Rightarrow> (2, 0)
   | Some (Finite x) \<Rightarrow> (1, - (\<lfloor>x * 10000 + 1 / 2\<rfloor> * factor))
   | Some _ \<Rightarrow> (0, 0))"

definition queue_order :: "LeadQueueSort \<Rightarrow> timestamp \<Rightarrow> RlProspectRow \<times> js_number option \<Rightarrow> (nat \<times> int) \<times> (nat \<times> int)" where
  "queue_order srt now x = (case x of (r, s) \<Rightarrow>
     (case srt of
        By_cltv \<Rightarrow> (score_order 120 s, score_order 1 s)
      | By_days \<Rightarrow> ((0, - \<lfloor>queue_age now r\<rfloor>), score_order 1 s)
      | By_score \<Rightarrow> (score_order 1 s, (0, - \<lfloor>queue_age now r\<rfloor>))))"

definition in_filter :: "'a list option \<Rightarrow> 'a option \<Rightarrow> bool" where
  "in_filter f x = (case f of None \<Rightarrow> True | Some [] \<Rightarrow> True | Some xs \<Rightarrow> x \<in> Some ` set xs)"

definition queue_match :: "timestamp \<Rightarrow> string \<Rightarrow> LeadQueueFilters \<Rightarrow> RlProspectRow \<Rightarrow> bool" where
  "queue_match now repId f r \<longleftrightarrow> pr_stage r = S_qualified \<and> pr_assigned_rep_id r = Some repId
     \<and> in_filter (lf_industry f) (pr_industry r)
     \<and> (case lf_days_min f of None \<Rightarrow> True | Some d \<Rightarrow> queue_age now r \<ge> d)
     \<and> (case lf_days_max f of None \<Rightarrow> True | Some d \<Rightarrow> queue_age now r \<le> d)
     \<and> (case lf_rep_id f of None \<Rightarrow> True | Some q \<Rightarrow> pr_assigned_rep_id r = Some q)"

definition nudged :: "timestamp \<Rightarrow> js_number \<Rightarrow> RlProspectRow \<Rightarrow> string option \<Rightarrow> timestamp option \<Rightarrow> bool" where
  "nudged clock limit r deal activity \<longleftrightarrow> deal = Some ''contacted'' \<and>
     (let ref = (case activity of None \<Rightarrow> pr_created_at r | Some t \<Rightarrow> t)
      in num_less limit (num_div (Finite (of_int ((js_date clock - js_date ref) div 1000))) (Finite 86400000)))"

definition queue_row :: "timestamp \<Rightarrow> timestamp \<Rightarrow> js_number \<Rightarrow> crm \<Rightarrow> RlProspectRow \<times> js_number option \<Rightarrow> QueueLeadRow" where
  "queue_row now clock limit db x = (case x of (r, s) \<Rightarrow>
     let deal = map_option de_stage (first_by (\<lambda>d. - de_created_at d) (\<lambda>d. de_prospect_id d = pr_id r) (deals db));
         activity = map_option ac_occurred_at (first_by (\<lambda>a. - ac_occurred_at a) (\<lambda>a. ac_prospect_id a = pr_id r) (activities db));
         estimate = (\<lambda>q. map_option (\<lambda>v. num_round (num_mul (num_mul v (to_double q)) (Finite 1000000))) s)
     in \<lparr>ql_prospect = r, ql_days_in_queue = \<lfloor>queue_age now r\<rfloor>, ql_composite_score = s, ql_score_tier = deriveTier s,
         ql_cltv_low = estimate (8 / 10), ql_cltv_high = estimate (12 / 10),
         ql_kyc_status = map_option ky_verification_status (latest_kyc db (pr_id r)),
         ql_deal_stage = deal, ql_last_activity_at = activity,
         ql_nudge = nudged clock limit r deal activity, ql_scoring_in_progress = (s = None)\<rparr>)"

definition getQueueLeads ::
  "timestamp \<Rightarrow> timestamp \<Rightarrow> string option \<Rightarrow> string \<Rightarrow> LeadQueueSort \<Rightarrow> LeadQueueFilters \<Rightarrow> crm \<Rightarrow> QueueLeadRow list" where
  "getQueueLeads now clock nudge_env repId srt f db =
     map (queue_row now clock (resolveNudgeDaysThreshold nudge_env) db)
       (sort_key (queue_order srt now)
         (filter (\<lambda>(r, s). in_filter (lf_tier f) (sql_tier s))
           (map (\<lambda>r. (r, Option.bind (fetchLatestCltvScore (pr_id r) db) sc_composite_score))
             (filter (queue_match now repId f) (prospects db)))))"

definition disqualified_order :: "RlProspectRow \<Rightarrow> (nat \<times> int) \<times> int" where
  "disqualified_order r = ((case pr_disqualified_at r of None \<Rightarrow> (1, 0) | Some t \<Rightarrow> (0, - t)), - pr_created_at r)"

definition getDisqualifiedLeads :: "string \<Rightarrow> crm \<Rightarrow> RlProspectRow list" where
  "getDisqualifiedLeads repId db = sort_key disqualified_order
     (filter (\<lambda>r. pr_stage r = S_disqualified \<and> pr_assigned_rep_id r = Some repId) (prospects db))"

definition getPendingKycCount :: "string \<Rightarrow> crm \<Rightarrow> nat" where
  "getPendingKycCount repId db =
     length (filter (\<lambda>r. pr_stage r = S_kyc_pending \<and> pr_assigned_rep_id r = Some repId) (prospects db))"

section \<open>Well-formed tables\<close>

definition verified_kyc :: "KycRecordRow list \<Rightarrow> string \<Rightarrow> bool" where
  "verified_kyc t p \<longleftrightarrow> (\<exists>k \<in> set t. active_kyc p k \<and> ky_verification_status k = K_verified)"

definition row_ok :: "crm \<Rightarrow> RlProspectRow \<Rightarrow> bool" where
  "row_ok db r \<longleftrightarrow>
     (pr_stage r = S_qualified \<longrightarrow> verified_kyc (kyc_records db) (pr_id r))
     \<and> (pr_stage r = S_disqualified \<longrightarrow> pr_disqualification_reason r \<noteq> None \<and> pr_disqualified_at r \<noteq> None)"

definition one_active :: "KycRecordRow list \<Rightarrow> bool" where
  "one_active t \<longleftrightarrow> (\<forall>p. length (filter (active_kyc p) t) \<le> 1)"

definition crm_wf :: "crm \<Rightarrow> bool" where
  "crm_wf db \<longleftrightarrow> distinct (map pr_id (prospects db)) \<and> distinct (map ky_id (kyc_records db)) \<and> distinct (map sc_id (cltv_scores db))
     \<and> distinct (map no_id (notifications db)) \<and> one_active (kyc_records db)
     \<and> ky_prospect_id ` set (kyc_records db) \<subseteq> pr_id ` set (prospects db)
     \<and> no_prospect_id ` set (notifications db) \<subseteq> pr_id ` set (prospects db)"

text \<open>\<open>rows_ok A\<close>: the pipeline rules hold of the prospects in \<open>A\<close>.\<close>

definition rows_ok :: "(string \<Rightarrow> bool) \<Rightarrow> crm \<Rightarrow> bool" where
  "rows_ok A db \<longleftrightarrow> (\<forall>r \<in> set (prospects db). A (pr_id r) \<longrightarrow> row_ok db r)"

definition crm_ok :: "crm \<Rightarrow> bool" where
  "crm_ok db \<longleftrightarrow> crm_wf db \<and> rows_ok (\<lambda>_. True) db"

text \<open>What no operation touches: the prospects' identity, and the scores already written.\<close>

definition evolves_crm :: "crm \<Rightarrow> crm \<Rightarrow> bool" where
  "evolves_crm db db' \<longleftrightarrow> map pr_id (prospects db') = map pr_id (prospects db)
     \<and> map pr_company_name (prospects db') = map pr_company_name (prospects db)
     \<and> (\<exists>new. cltv_scores db' = cltv_scores db @ new)"

lemma evolves_crm_refl [simp]: "evolves_crm db db"
  by (simp add: evolves_crm_def)

lemma evolves_crm_trans: "evolves_crm a b \<Longrightarrow> evolves_crm b c \<Longrightarrow> evolves_crm a c"
  by (auto simp: evolves_crm_def)

text \<open>\<open>preserves A B\<close>: from tables where the rules hold of \<open>A\<close> to tables where they hold of \<open>B\<close>.\<close>

definition carries :: "(string \<Rightarrow> bool) \<Rightarrow> (string \<Rightarrow> bool) \<Rightarrow> crm \<Rightarrow> crm \<Rightarrow> bool" where
  "carries A B db db' \<longleftrightarrow> (crm_wf db \<and> rows_ok A db \<longrightarrow> crm_wf db' \<and> rows_ok B db') \<and> evolves_crm db db'"

lemma carries_refl [simp]: "carries A A db db"
  by (simp add: carries_def)

lemma carries_trans: "carries A B a b \<Longrightarrow> carries B C b c \<Longrightarrow> carries A C a c"
  unfolding carries_def by (blast intro: evolves_crm_trans)

lemma carries_weaken: "carries A B a b \<Longrightarrow> (\<And>p. A p \<Longrightarrow> A' p) \<Longrightarrow> (\<And>p. B' p \<Longrightarrow> B p) \<Longrightarrow> carries A' B' a b"
  unfolding carries_def rows_ok_def by blast

subsection \<open>Statements\<close>

text \<open>An UPDATE of one prospect that leaves its identity alone and makes the rules hold of it.\<close>

lemma carries_update_prospect:
  assumes "\<And>r. pr_id (f r) = pr_id r" "\<And>r. pr_company_name (f r) = pr_company_name r" "\<And>r. pr_id r = p \<Longrightarrow> row_ok db (f r)"
    "db' = db\<lparr>prospects := update_where (\<lambda>r. pr_id r = p) f (prospects db)\<rparr>"
  shows "carries (\<lambda>q. A q \<and> q \<noteq> p) A db db'"
proof -
  have ids: "map pr_id (prospects db') = map pr_id (prospects db)" "map pr_company_name (prospects db') = map pr_company_name (prospects db)"
    using assms by (simp_all add: map_update_where_same)
  have "pr_id ` set (prospects db') = pr_id ` set (prospects db)" using ids(1) by (metis set_map)
  then have "crm_wf db \<Longrightarrow> crm_wf db'" using ids(1) assms(4) by (simp add: crm_wf_def)
  moreover have "row_ok db' r \<longleftrightarrow> row_ok db r" for r by (simp add: row_ok_def assms(4))
  ultimately show ?thesis using ids assms
    by (auto simp: carries_def evolves_crm_def rows_ok_def elim!: in_update_whereE)
qed

lemma carries_set_stage:
  assumes "stage \<noteq> S_qualified" "stage \<noteq> S_disqualified"
  shows "carries (\<lambda>q. A q \<and> q \<noteq> p) A db (set_stage now p stage db)"
  by (rule carries_update_prospect [OF _ _ _ set_stage_def]) (use assms in \<open>simp_all add: row_ok_def\<close>)

lemma carries_reject: "carries (\<lambda>q. A q \<and> q \<noteq> p) A db (reject_prospect now p db)"
  by (rule carries_update_prospect [OF _ _ _ reject_prospect_def]) (simp_all add: row_ok_def)

lemma carries_routing:
  assumes "stage = S_disqualified \<and> reason \<noteq> None
    \<or> stage = S_qualified \<and> verified_kyc (kyc_records db) p"
  shows "carries (\<lambda>q. A q \<and> q \<noteq> p) A db (updateProspectRouting now p stage rep reason db)"
  by (rule carries_update_prospect [OF _ _ _ updateProspectRouting_def]) (use assms in \<open>auto simp: row_ok_def routing_row_def\<close>)

text \<open>A statement that leaves the prospects, the KYC records and the old scores alone.\<close>

lemma carries_beside:
  assumes "prospects db' = prospects db" "kyc_records db' = kyc_records db" "cltv_scores db' = cltv_scores db @ new"
    "crm_wf db \<Longrightarrow> distinct (map sc_id (cltv_scores db')) \<and> distinct (map no_id (notifications db'))
       \<and> no_prospect_id ` set (notifications db') \<subseteq> pr_id ` set (prospects db)"
  shows "carries A A db db'"
  using assms by (auto simp: carries_def crm_wf_def rows_ok_def row_ok_def evolves_crm_def)

lemma carries_tasks: "carries A A db (db\<lparr>tasks := q\<rparr>)"
  by (rule carries_beside [where new = "[]"]) (simp_all add: crm_wf_def)

lemma notification_effect:
  assumes "createNotification uuid now opts db = Inr (row, db')"
  shows "db' = db\<lparr>notifications := notifications db @ [row]\<rparr>" "row = new_notification (uuid (map no_id (notifications db))) now opts"
    "no_id row \<notin> no_id ` set (notifications db)" "cn_prospect_id opts \<in> pr_id ` set (prospects db)"
  using assms by (auto simp: createNotification_def Let_def insert_row_Inr split: if_splits sum.splits)

lemma carries_notification:
  assumes "createNotification uuid now opts db = Inr (row, db')"
  shows "carries A A db db'"
  using notification_effect [OF assms] by (intro carries_beside [where new = "[]"]) (auto simp: crm_wf_def new_notification_def)

lemma carries_mark_read: "carries A A db (snd (markNotificationRead now i rep db))"
proof -
  have "map no_id (update_where h (\<lambda>r. r\<lparr>no_read_at := Some now\<rparr>) t) = map no_id t"
    "no_prospect_id ` set (update_where h (\<lambda>r. r\<lparr>no_read_at := Some now\<rparr>) t) = no_prospect_id ` set t" for h and t :: "NotificationRow list"
    by (simp_all add: map_update_where_same image_update_where_same)
  then show ?thesis by (intro carries_beside [where new = "[]"]) (simp_all add: markNotificationRead_def Let_def crm_wf_def)
qed

lemma score_effect:
  assumes "score W uuid now c k t db = Inr (row, db')"
  shows "db' = db\<lparr>cltv_scores := cltv_scores db @ [row]\<rparr>" "sc_id row \<notin> sc_id ` set (cltv_scores db)"
  using assms by (auto simp: score_def Let_def insert_row_Inr split: option.splits sum.splits)

lemma carries_score:
  assumes "score W uuid now c k t db = Inr (row, db')"
  shows "carries A A db db'"
  using score_effect [OF assms] by (intro carries_beside [where new = "[row]"]) (auto simp: crm_wf_def)

lemma filter_archived:
  "filter (active_kyc q) (update_where (active_kyc p) (\<lambda>r. r\<lparr>ky_verification_status := K_archived, ky_updated_at := now\<rparr>) t) =
     (if q = p then [] else filter (active_kyc q) t)"
  by (induction t) (auto simp: update_where_def active_kyc_def [abs_def])

text \<open>A statement on the KYC records.\<close>

lemma carries_kyc:
  assumes "db' = db\<lparr>kyc_records := t\<rparr>"
    "crm_wf db \<Longrightarrow> distinct (map ky_id t) \<and> one_active t \<and> ky_prospect_id ` set t \<subseteq> pr_id ` set (prospects db)"
    "\<And>q. B q \<Longrightarrow> A q" "\<And>q. B q \<Longrightarrow> verified_kyc (kyc_records db) q \<Longrightarrow> verified_kyc t q"
  shows "carries A B db db'"
  using assms by (auto simp: carries_def crm_wf_def evolves_crm_def rows_ok_def row_ok_def)

lemma carries_archive: "carries A (\<lambda>q. A q \<and> q \<noteq> p) db (archive_kyc now p db)"
proof -
  let ?f = "\<lambda>r. r\<lparr>ky_verification_status := K_archived, ky_updated_at := now\<rparr>"
  let ?t = "update_where (active_kyc p) ?f (kyc_records db)"
  have ids: "map ky_id ?t = map ky_id (kyc_records db)" "ky_prospect_id ` set ?t = ky_prospect_id ` set (kyc_records db)"
    by (simp_all add: map_update_where_same image_update_where_same)
  show ?thesis
  proof (rule carries_kyc [OF archive_kyc_def])
    show "crm_wf db \<Longrightarrow> distinct (map ky_id ?t) \<and> one_active ?t \<and> ky_prospect_id ` set ?t \<subseteq> pr_id ` set (prospects db)"
      using ids by (simp add: crm_wf_def one_active_def filter_archived)
    show "A q \<and> q \<noteq> p \<Longrightarrow> verified_kyc (kyc_records db) q \<Longrightarrow> verified_kyc ?t q" for q
      by (auto simp: verified_kyc_def set_update_where active_kyc_def)
  qed simp
qed

lemma insert_kyc_effect:
  assumes "insert_kyc uuid now p status checked db = Inr (i, db')"
  obtains row where "db' = db\<lparr>kyc_records := kyc_records db @ [row]\<rparr>" "ky_prospect_id row = p" "ky_verification_status row = status"
    "ky_id row \<notin> ky_id ` set (kyc_records db)" "p \<in> pr_id ` set (prospects db)"
    "status \<noteq> K_archived \<Longrightarrow> filter (active_kyc p) (kyc_records db) = []"
  using assms by (auto simp: insert_kyc_def Let_def insert_row_Inr filter_empty_conv split: if_splits sum.splits)

lemma insert_kyc_fresh:
  assumes "fresh uuid" "p \<in> pr_id ` set (prospects db)" "filter (active_kyc p) (kyc_records db) = []"
  obtains i db' where "insert_kyc uuid now p status checked db = Inr (i, db')"
  using assms by (auto simp: insert_kyc_def Let_def insert_row_fresh filter_empty_conv)

lemma carries_insert_kyc:
  assumes "insert_kyc uuid now p status checked db = Inr (i, db')" "status \<noteq> K_archived"
  shows "carries A A db db'"
proof -
  obtain row where row: "db' = db\<lparr>kyc_records := kyc_records db @ [row]\<rparr>" "ky_prospect_id row = p" "ky_verification_status row = status"
    "ky_id row \<notin> ky_id ` set (kyc_records db)" "p \<in> pr_id ` set (prospects db)" "filter (active_kyc p) (kyc_records db) = []"
    using insert_kyc_effect [OF assms(1)] assms(2) by metis
  have "length (filter (active_kyc q) (kyc_records db @ [row])) \<le> 1" if "one_active (kyc_records db)" for q
    using that row(2,6) by (cases "q = p") (auto simp: one_active_def active_kyc_def)
  then show ?thesis using row(2,4,5) by (intro carries_kyc [OF row(1)]) (auto simp: crm_wf_def one_active_def verified_kyc_def)
qed

lemma carries_verify_kyc: "carries A A db (verify_kyc now p db)"
proof -
  let ?f = "\<lambda>r. r\<lparr>ky_verification_status := K_verified, ky_updated_at := now, ky_checked_at := Some now\<rparr>"
  let ?t = "update_where (active_kyc p) ?f (kyc_records db)"
  have ids: "map ky_id ?t = map ky_id (kyc_records db)" "ky_prospect_id ` set ?t = ky_prospect_id ` set (kyc_records db)"
    by (simp_all add: map_update_where_same image_update_where_same)
  have "length (filter (active_kyc q) (update_where (active_kyc p) ?f t)) = length (filter (active_kyc q) t)" for q t
    by (induction t) (auto simp: update_where_def active_kyc_def)
  then have one: "one_active (kyc_records db) \<Longrightarrow> one_active ?t" by (simp add: one_active_def)
  have "verified_kyc ?t q" if "k \<in> set (kyc_records db)" "active_kyc q k" "ky_verification_status k = K_verified" for k q
    using that unfolding verified_kyc_def
    by (cases "active_kyc p k") (auto simp: set_update_where active_kyc_def intro: bexI [of _ "?f k"] bexI [of _ k])
  then have "verified_kyc (kyc_records db) q \<Longrightarrow> verified_kyc ?t q" for q by (auto simp: verified_kyc_def)
  then show ?thesis using one ids by (intro carries_kyc [OF verify_kyc_def]) (simp_all add: crm_wf_def)
qed

subsection \<open>Handlers\<close>

text \<open>When a prospect qualifies.\<close>

definition qualifies :: "route_env \<Rightarrow> string \<Rightarrow> crm \<Rightarrow> bool" where
  "qualifies env p db \<longleftrightarrow> fetchProspectStage p db \<noteq> Some S_kyc_manual_review
     \<and> (\<exists>k. latest_kyc db p = Some k \<and> ky_verification_status k = K_verified)
     \<and> (\<exists>row s. fetchLatestCltvScore p db = Some row \<and> sc_composite_score row = Some s \<and> \<not> num_less s (resolveQualificationThreshold env))"

lemma disqualification_None: "disqualification env p db = None \<longleftrightarrow> qualifies env p db"
  by (auto simp: disqualification_def qualifies_def Let_def Option.bind_eq_Some_conv split: option.splits if_splits)

lemma qualifies_kyc: "qualifies env p db \<Longrightarrow> verified_kyc (kyc_records db) p"
  unfolding qualifies_def latest_kyc_def verified_kyc_def by (auto dest: first_by_SomeD)

lemma carries_route:
  assumes "route render uuid now later env opts p (db, rr) = (res, db', rr')"
  shows "carries (\<lambda>q. A q \<and> q \<noteq> p) A db db'"
proof (cases "disqualification env p db")
  case None
  then have q: "qualifies env p db" by (simp add: disqualification_None)
  obtain rep rr1 where pick: "pick_rep env opts db rr = (rep, rr1)" by (rule prod.exhaust)
  have upd: "carries (\<lambda>q. A q \<and> q \<noteq> p) A db (updateProspectRouting now p S_qualified rep None db)"
    by (rule carries_routing) (use qualifies_kyc [OF q] in simp)
  then show ?thesis using assms None pick
    by (auto simp: route_def Let_def split: if_splits sum.splits prod.splits intro: carries_trans [OF upd] carries_notification)
next
  case (Some reason)
  have upd: "carries (\<lambda>q. A q \<and> q \<noteq> p) A db (updateProspectRouting now p S_disqualified None (Some reason) db)"
    by (rule carries_routing) simp
  then show ?thesis using assms Some
    by (auto simp: route_def Let_def split: sum.splits prod.splits intro: carries_trans [OF upd] carries_tasks)
qed

lemma carries_score_and_route:
  assumes "score_and_route render W uuid clk env p (db, rr) = (res, db', rr')"
  shows "carries (\<lambda>q. A q \<and> q \<noteq> p) A db db'"
proof -
  let ?db1 = "set_stage (clk 2) p S_scored db"
  have stage: "carries (\<lambda>q. A q \<and> q \<noteq> p) A db ?db1" by (rule carries_set_stage) simp_all
  show ?thesis
  proof (cases "score W uuid (clk 3) (ke_config env) p Prospect ?db1")
    case (Inl e)
    then show ?thesis using assms stage by (simp add: score_and_route_def Let_def)
  next
    case (Inr x)
    obtain row db2 where x: "x = (row, db2)" by (rule prod.exhaust)
    have "route render uuid (clk 4) (clk 5) (ke_route env) \<lparr>manualRepId = None, systemUserId = ''system''\<rparr> p (db2, rr) = (res, db', rr')"
      using assms Inr x by (simp add: score_and_route_def Let_def)
    then have "carries A A db2 db'" by (rule carries_weaken [OF carries_route [where A = A]]) simp_all
    then show ?thesis using carries_trans [OF stage carries_trans [OF carries_score]] Inr x by blast
  qed
qed

lemma carries_trigger:
  assumes "fresh uuid" "kyc_trigger render W uuid clk env user p (db, rr) = (res, db', rr')"
  shows "carries A A db db'"
proof (cases "user = None \<or> find_row pr_id p (prospects db) = None")
  case True
  then show ?thesis using assms(2) by (auto simp: kyc_trigger_def split: if_splits)
next
  case False
  let ?db1 = "archive_kyc (clk 0) p db"
  define outcome where "outcome = resolveKycOutcome (ke_stub_outcome env) p"
  define status where "status = (if outcome = O_verified then K_verified else K_failed)"
  have here: "p \<in> pr_id ` set (prospects ?db1)" using False by (auto simp: archive_kyc_def find_row_None_iff)
  have "filter (active_kyc p) (kyc_records ?db1) = []" using filter_archived [of p p] by (simp add: archive_kyc_def)
  with assms(1) here obtain i db2 where ins: "insert_kyc uuid (clk 1) p status (js_date (clk 1)) ?db1 = Inr (i, db2)"
    by (rule insert_kyc_fresh)
  have c: "carries A (\<lambda>q. A q \<and> q \<noteq> p) db db2"
    by (rule carries_trans [OF carries_archive carries_insert_kyc [OF ins]]) (simp add: status_def)
  show ?thesis
  proof (cases "outcome = O_verified")
    case True
    obtain x db3 rr3 where sr: "score_and_route render W uuid clk env p (db2, rr) = (x, db3, rr3)" by (rule prod_cases3)
    then have "db' = db3" using assms(2) False ins True
      by (cases x) (auto simp: kyc_trigger_def Let_def status_def outcome_def)
    then show ?thesis using carries_trans [OF c carries_score_and_route [OF sr]] by simp
  next
    case False2: False
    then have "db' = set_stage (clk 2) p S_kyc_manual_review db2" using assms(2) False ins
      by (auto simp: kyc_trigger_def Let_def status_def outcome_def)
    then show ?thesis using carries_trans [OF c carries_set_stage] by simp
  qed
qed

lemma carries_review:
  assumes "kyc_review render W uuid clk env user p body (db, rr) = (res, db', rr')"
  shows "carries A A db db'"
proof -
  have sr: "carries A A db d" if "score_and_route render W uuid clk env p (verify_kyc (clk 1) p db, rr) = (x, d, n)" for x d n
    using carries_trans [OF carries_verify_kyc carries_weaken [OF carries_score_and_route [OF that, where A = A]]] by blast
  have "carries A A db (reject_prospect (clk 0) p db)" by (rule carries_weaken [OF carries_reject [where A = A]]) simp_all
  then show ?thesis using assms sr
    by (auto simp: kyc_review_def split: option.splits if_splits review_body.splits sum.splits prod.splits)
qed

lemma carries_rescore:
  assumes "handleRescoreTask W uuid now later c taskId pl db = (res, db')"
  shows "carries A A db db'"
proof -
  have "carries A A db d" if "score W uuid now c k t db = Inr (row, d)" for k t row d using that by (rule carries_score)
  moreover have "carries A A db d'" if "score W uuid now c k t db = Inr (row, d)" "createNotification uuid later opts d = Inr (n, d')" for k t row d opts n d'
    using carries_trans [OF carries_score carries_notification] that by blast
  ultimately show ?thesis using assms
    by (auto simp: handleRescoreTask_def Let_def split: option.splits if_splits sum.splits prod.splits)
qed

section \<open>The pipeline under all its operations\<close>

datatype crm_op =
    Kyc_trigger cltv_world "string list \<Rightarrow> string" "nat \<Rightarrow> timestamp" kyc_env "string option" string
  | Kyc_review cltv_world "string list \<Rightarrow> string" "nat \<Rightarrow> timestamp" kyc_env "string option" string review_body
  | Route "string list \<Rightarrow> string" timestamp timestamp route_env RouteOptions string
  | Rescore cltv_world "string list \<Rightarrow> string" timestamp timestamp ScoringConfig string RescorePayload
  | Mark_read timestamp string string

fun crm_step :: "(string \<Rightarrow> DisqualificationReason \<Rightarrow> json) \<Rightarrow> crm_op \<Rightarrow> crm \<times> nat \<Rightarrow> crm \<times> nat" where
  "crm_step render (Kyc_trigger W uuid clk env user p) s = snd (kyc_trigger render W uuid clk env user p s)"
| "crm_step render (Kyc_review W uuid clk env user p body) s = snd (kyc_review render W uuid clk env user p body s)"
| "crm_step render (Route uuid now later env opts p) s = snd (route render uuid now later env opts p s)"
| "crm_step render (Rescore W uuid now later c taskId pl) s = (snd (handleRescoreTask W uuid now later c taskId pl (fst s)), snd s)"
| "crm_step render (Mark_read now i rep) s = (snd (markNotificationRead now i rep (fst s)), snd s)"

fun crm_fresh :: "crm_op \<Rightarrow> bool" where
  "crm_fresh (Kyc_trigger W uuid clk env user p) = fresh uuid"
| "crm_fresh _ = True"

lemma carries_step:
  assumes "crm_fresh op"
  shows "carries (\<lambda>_. True) (\<lambda>_. True) (fst s) (fst (crm_step render op s))"
proof -
  obtain db rr where s: "s = (db, rr)" by (rule prod.exhaust)
  show ?thesis
  proof (cases op)
    case (Kyc_trigger W uuid clk env user p)
    obtain x d n where "kyc_trigger render W uuid clk env user p (db, rr) = (x, d, n)" by (rule prod_cases3)
    then show ?thesis using carries_trigger assms Kyc_trigger s by simp
  next
    case (Kyc_review W uuid clk env user p body)
    obtain x d n where "kyc_review render W uuid clk env user p body (db, rr) = (x, d, n)" by (rule prod_cases3)
    then show ?thesis using carries_review Kyc_review s by simp
  next
    case (Route uuid now later env opts p)
    obtain x d n where "route render uuid now later env opts p (db, rr) = (x, d, n)" by (rule prod_cases3)
    then show ?thesis using carries_weaken [OF carries_route [where A = "\<lambda>_. True"]] Route s by simp
  next
    case (Rescore W uuid now later c taskId pl)
    obtain x d where "handleRescoreTask W uuid now later c taskId pl db = (x, d)" by (rule prod.exhaust)
    then show ?thesis using carries_rescore Rescore s by simp
  next
    case (Mark_read now i rep)
    then show ?thesis using carries_mark_read s by simp
  qed
qed

interpretation pipeline: invariant_system "crm_step render" crm_fresh "\<lambda>s. carries (\<lambda>_. True) (\<lambda>_. True) db0 (fst s)" for render db0
  by unfold_locales (blast intro: carries_trans carries_step)

text \<open>C27: Whatever sequence of KYC triggers, reviews, routings, rescorings and reads runs: keys, references and the one active KYC record per
  prospect hold, every qualified prospect has a verified KYC record that is not archived, every disqualified one has a reason
  and a time, no prospect disappears or changes its name, and the scores written are never changed.\<close>

theorem pipeline_lifecycle:
  assumes "crm_ok db" "list_all crm_fresh ops" "fold (crm_step render) ops (db, rr) = (db', rr')"
  shows "crm_ok db' \<and> evolves_crm db db'"
  using pipeline.run_inv [of db "(db, rr)" ops render] assms by (simp add: carries_def crm_ok_def)

section \<open>What routing does\<close>

interpretation routing: row_update pr_id "routing_row now stage rep reason" for now stage rep reason
  by unfold_locales (simp add: routing_row_def)

lemma find_routed:
  "find_row pr_id q (prospects (updateProspectRouting now p stage rep reason db)) =
     (if q = p then map_option (routing_row now stage rep reason) (find_row pr_id p (prospects db)) else find_row pr_id q (prospects db))"
  by (simp add: updateProspectRouting_def routing.find_update_self routing.find_update_other)

lemma enqueue_rescore:
  assumes "fresh uuid"
  obtains task q' where "enqueueTaskWithClient (uuid (map tq_id q)) now key t job body who q = Inr (task, q')"
    "idempotency_key task = key" "task \<in> set q'" "q' = q \<or> q' = q @ [task]"
proof (cases "find_row idempotency_key key q")
  case None
  let ?o = "\<lparr>eo_idempotency_key = key, eo_agent_type = TASK_TYPE_AGENT_MAP t, eo_job_type = job, eo_payload = Some body,
    eo_correlation_id = None, eo_created_by = who, eo_priority = Some 5, eo_max_attempts = Some 3\<rparr>"
  let ?n = "new_task (uuid (map tq_id q)) now ?o"
  have "insert_row tq_id ?n q = Inr (q @ [?n])" by (rule insert_row_fresh [OF assms]) (simp add: new_task_def)
  then have "enqueueTaskWithClient (uuid (map tq_id q)) now key t job body who q = Inr (?n, q @ [?n])"
    using None by (simp add: enqueueTaskWithClient_def enqueueTask_def)
  then show ?thesis by (rule that) (simp_all add: new_task_def)
next
  case (Some row)
  then have "enqueueTaskWithClient (uuid (map tq_id q)) now key t job body who q = Inr (row, q)"
    by (simp add: enqueueTaskWithClient_def enqueueTask_def)
  then show ?thesis by (rule that) (use find_row_SomeD [OF Some] in simp_all)
qed

lemma notify_fresh:
  assumes "fresh uuid" "cn_prospect_id opts \<in> pr_id ` set (prospects db)"
  shows "createNotification uuid now opts db =
    Inr (new_notification (uuid (map no_id (notifications db))) now opts,
         db\<lparr>notifications := notifications db @ [new_notification (uuid (map no_id (notifications db))) now opts]\<rparr>)"
  using assms insert_row_fresh [OF assms(1), of no_id "new_notification (uuid (map no_id (notifications db))) now opts" "notifications db"]
  by (simp add: createNotification_def Let_def new_notification_def)

definition lead_notice :: "string \<Rightarrow> RlProspectRow \<Rightarrow> NotificationRow \<Rightarrow> bool" where
  "lead_notice rep r n \<longleftrightarrow> no_rep_id n = rep \<and> no_prospect_id n = pr_id r \<and> no_event_type n = New_lead
     \<and> no_description n = ''New qualified lead: '' @ pr_company_name r \<and> no_read_at n = None"

lemma route_qualified:
  assumes "fresh uuid" "find_row pr_id p (prospects db) = Some r" "qualifies env p db" "pick_rep env opts db rr = (rep, rr1)"
  obtains new where
    "route render uuid now later env opts p (db, rr) =
       (Inr \<lparr>rt_stage = S_qualified, rt_assigned_rep_id = rep, rt_disqualification_reason = None, rt_rescore_task_id = None\<rparr>,
        (updateProspectRouting now p S_qualified rep None db)\<lparr>notifications := notifications db @ new\<rparr>, rr1)"
    "if truthy rep then \<exists>n. new = [n] \<and> lead_notice (the rep) r n else new = []"
proof -
  let ?db1 = "updateProspectRouting now p S_qualified rep None db"
  have r: "pr_id r = p" "find_row pr_id p (prospects ?db1) = Some (routing_row now S_qualified rep None r)"
    using assms(2) by (auto simp: find_routed dest: find_row_SomeD)
  then have here: "p \<in> pr_id ` set (prospects ?db1)" by (metis find_row_None_iff option.distinct(1))
  let ?o = "\<lparr>cn_rep_id = the rep, cn_prospect_id = p, cn_event_type = New_lead, cn_description = ''New qualified lead: '' @ pr_company_name r\<rparr>"
  let ?n = "new_notification (uuid (map no_id (notifications ?db1))) later ?o"
  have n: "createNotification uuid later ?o ?db1 = Inr (?n, ?db1\<lparr>notifications := notifications ?db1 @ [?n]\<rparr>)"
    by (rule notify_fresh [OF assms(1)]) (use here in simp)
  have name: "pr_company_name (routing_row now S_qualified rep None r) = pr_company_name r" by (simp add: routing_row_def)
  have none: "disqualification env p db = None" using assms(3) by (simp add: disqualification_None)
  have same: "notifications ?db1 = notifications db" by (simp add: updateProspectRouting_def)
  show thesis
  proof (cases "truthy rep")
    case True
    have "route render uuid now later env opts p (db, rr) =
       (Inr \<lparr>rt_stage = S_qualified, rt_assigned_rep_id = rep, rt_disqualification_reason = None, rt_rescore_task_id = None\<rparr>,
        ?db1\<lparr>notifications := notifications db @ [?n]\<rparr>, rr1)"
      using True n same by (simp add: route_def none assms(4) r(2) name Let_def)
    then show ?thesis by (rule that) (use True r(1) in \<open>simp add: lead_notice_def new_notification_def\<close>)
  next
    case False
    then show ?thesis by (intro that [of "[]"]) (simp_all add: route_def none assms(4) same [symmetric])
  qed
qed

lemma route_disqualified:
  assumes "fresh uuid" "disqualification env p db = Some reason"
  obtains task q where
    "route render uuid now later env opts p (db, rr) =
       (Inr \<lparr>rt_stage = S_disqualified, rt_assigned_rep_id = None, rt_disqualification_reason = Some reason, rt_rescore_task_id = Some (tq_id task)\<rparr>,
        (updateProspectRouting now p S_disqualified None (Some reason) db)\<lparr>tasks := q\<rparr>, rr)"
    "idempotency_key task = rescore_key p" "task \<in> set q" "q = tasks db \<or> q = tasks db @ [task]"
proof -
  let ?db1 = "updateProspectRouting now p S_disqualified None (Some reason) db"
  obtain task q where t: "enqueueTaskWithClient (uuid (map tq_id (tasks ?db1))) later (rescore_key p) RESCORE_SCHEDULE ''RESCORE_SCHEDULE''
      (render p reason) (systemUserId opts) (tasks ?db1) = Inr (task, q)" "idempotency_key task = rescore_key p" "task \<in> set q"
      "q = tasks ?db1 \<or> q = tasks ?db1 @ [task]"
    using assms(1) by (rule enqueue_rescore)
  have "tasks ?db1 = tasks db" by (simp add: updateProspectRouting_def)
  then show thesis using t by (intro that [of task q]) (simp_all add: route_def assms(2) Let_def)
qed

text \<open>C28: Routing a prospect never fails. It qualifies exactly when the prospect does not await manual review, its active KYC record is
  verified and its latest score is not below the threshold; it then gets the rep whose turn it is and one notice. Otherwise it
  loses its rep, gets the reason, and a rescore task with the prospect's key is in the queue, an old one if there is one. No other
  prospect, no KYC record and no score changes.\<close>

theorem route_outcome:
  assumes "fresh uuid" "find_row pr_id p (prospects db) = Some r"
    and "route render uuid now later env opts p (db, rr) = (res, db', rr')"
  shows "\<exists>result. res = Inr result \<and> kyc_records db' = kyc_records db \<and> cltv_scores db' = cltv_scores db
    \<and> (\<forall>q. q = p \<or> find_row pr_id q (prospects db') = find_row pr_id q (prospects db))
    \<and> (if qualifies env p db then
         rt_stage result = S_qualified \<and> pick_rep env opts db rr = (rt_assigned_rep_id result, rr')
         \<and> find_row pr_id p (prospects db') = Some (routing_row now S_qualified (rt_assigned_rep_id result) None r)
         \<and> tasks db' = tasks db
         \<and> (if truthy (rt_assigned_rep_id result)
            then \<exists>n. notifications db' = notifications db @ [n] \<and> lead_notice (the (rt_assigned_rep_id result)) r n
            else notifications db' = notifications db)
       else
         \<exists>reason task. rt_stage result = S_disqualified \<and> rt_disqualification_reason result = Some reason \<and> rr' = rr
         \<and> find_row pr_id p (prospects db') = Some (routing_row now S_disqualified None (Some reason) r)
         \<and> notifications db' = notifications db
         \<and> task \<in> set (tasks db') \<and> idempotency_key task = rescore_key p \<and> rt_rescore_task_id result = Some (tq_id task)
         \<and> (tasks db' = tasks db \<or> tasks db' = tasks db @ [task]))"
proof (cases "qualifies env p db")
  case True
  obtain rep rr1 where pick: "pick_rep env opts db rr = (rep, rr1)" by (rule prod.exhaust)
  obtain new where "route render uuid now later env opts p (db, rr) =
       (Inr \<lparr>rt_stage = S_qualified, rt_assigned_rep_id = rep, rt_disqualification_reason = None, rt_rescore_task_id = None\<rparr>,
        (updateProspectRouting now p S_qualified rep None db)\<lparr>notifications := notifications db @ new\<rparr>, rr1)"
    "if truthy rep then \<exists>n. new = [n] \<and> lead_notice (the rep) r n else new = []"
    using assms(1,2) True pick by (rule route_qualified)
  then show ?thesis using assms(2,3) True pick
    by (auto simp: find_routed) (simp_all add: updateProspectRouting_def split: if_splits)
next
  case False
  then obtain reason where reason: "disqualification env p db = Some reason" using disqualification_None by (metis option.exhaust)
  obtain task q where "route render uuid now later env opts p (db, rr) =
       (Inr \<lparr>rt_stage = S_disqualified, rt_assigned_rep_id = None, rt_disqualification_reason = Some reason, rt_rescore_task_id = Some (tq_id task)\<rparr>,
        (updateProspectRouting now p S_disqualified None (Some reason) db)\<lparr>tasks := q\<rparr>, rr)"
    "idempotency_key task = rescore_key p" "task \<in> set q" "q = tasks db \<or> q = tasks db @ [task]"
    using assms(1) reason by (rule route_disqualified)
  then show ?thesis using assms(2,3) False
    by (auto simp: find_routed) (auto simp: updateProspectRouting_def)
qed

section \<open>Fair turns\<close>

fun route_run ::
  "(string \<Rightarrow> DisqualificationReason \<Rightarrow> json) \<Rightarrow> (string list \<Rightarrow> string) \<Rightarrow> route_env \<Rightarrow> RouteOptions
    \<Rightarrow> (string \<times> timestamp \<times> timestamp) list \<Rightarrow> crm \<times> nat \<Rightarrow> (crm_error + RouteResult) list \<times> crm \<times> nat" where
  "route_run render uuid env opts [] s = ([], s)"
| "route_run render uuid env opts ((p, now, later) # cs) s =
     (case route render uuid now later env opts p s of (res, s1) \<Rightarrow>
        case route_run render uuid env opts cs s1 of (rs, s2) \<Rightarrow> (res # rs, s2))"

fun assigned :: "crm_error + RouteResult \<Rightarrow> string option" where
  "assigned (Inl e) = None"
| "assigned (Inr r) = rt_assigned_rep_id r"

lemma qualified_elsewhere:
  assumes "qualifies env q db"
  shows "qualifies env q ((updateProspectRouting now p S_qualified rep None db)\<lparr>notifications := ns\<rparr>)"
  using assms find_routed [of q now p S_qualified rep None db]
  by (cases "q = p")
     (auto simp: qualifies_def fetchProspectStage_def latest_kyc_def fetchLatestCltvScore_def updateProspectRouting_def routing_row_def)

lemma qualifies_prospect:
  assumes "crm_wf db" "qualifies env p db"
  obtains r where "find_row pr_id p (prospects db) = Some r"
proof -
  have "p \<in> pr_id ` set (prospects db)" using qualifies_kyc [OF assms(2)] assms(1) by (auto simp: crm_wf_def verified_kyc_def active_kyc_def)
  then show thesis using that by (metis find_row_None_iff option.exhaust)
qed

lemma turns_of_run:
  assumes "fresh uuid" "resolveQueueAssignMode env = Round_robin" "fetchActiveSalesReps db = reps" "reps \<noteq> []" "crm_wf db"
    "\<forall>c \<in> set cs. qualifies env (fst c) db" "rr + length cs < MAX_SAFE_INTEGER"
  shows "map assigned (fst (route_run render uuid env opts cs (db, rr))) = map (\<lambda>i. Some (reps ! ((rr + i) mod length reps))) [0..<length cs]"
  using assms(3,5-7)
proof (induction cs arbitrary: db rr)
  case (Cons c cs)
  obtain p now later where c: "c = (p, now, later)" by (rule prod_cases3)
  have q: "qualifies env p db" using Cons.prems(3) c by simp
  obtain r where r: "find_row pr_id p (prospects db) = Some r" by (rule qualifies_prospect [OF Cons.prems(2) q])
  let ?rep = "Some (reps ! (rr mod length reps))"
  have pick: "pick_rep env opts db rr = (?rep, rr + 1)"
    using assms(2,4) Cons.prems(1,4) by (simp add: pick_rep_def)
  obtain new where route: "route render uuid now later env opts p (db, rr) =
       (Inr \<lparr>rt_stage = S_qualified, rt_assigned_rep_id = ?rep, rt_disqualification_reason = None, rt_rescore_task_id = None\<rparr>,
        (updateProspectRouting now p S_qualified ?rep None db)\<lparr>notifications := notifications db @ new\<rparr>, rr + 1)"
    using route_qualified [OF assms(1) r q pick] by metis
  define db1 where "db1 = (updateProspectRouting now p S_qualified ?rep None db)\<lparr>notifications := notifications db @ new\<rparr>"
  have "crm_wf db1" using carries_route [OF route, where A = "\<lambda>_. False"] Cons.prems(2) by (simp add: carries_def rows_ok_def db1_def)
  moreover have "fetchActiveSalesReps db1 = reps" using Cons.prems(1) by (simp add: fetchActiveSalesReps_def db1_def updateProspectRouting_def)
  moreover have "\<forall>c \<in> set cs. qualifies env (fst c) db1" using Cons.prems(3) by (simp add: db1_def qualified_elsewhere)
  ultimately have IH: "map assigned (fst (route_run render uuid env opts cs (db1, rr + 1))) =
      map (\<lambda>i. Some (reps ! ((rr + 1 + i) mod length reps))) [0..<length cs]"
    using Cons.prems(4) by (intro Cons.IH) simp_all
  have "[0..<length (c # cs)] = 0 # map Suc [0..<length cs]" by (simp add: map_Suc_upt upt_conv_Cons del: upt_Suc)
  then show ?case using IH by (auto simp: c route db1_def [symmetric] comp_def split: prod.splits)
qed simp

lemma count_turns:
  assumes "distinct xs" "x \<in> set xs"
  shows "count_list (map (\<lambda>i. Some (xs ! ((r + i) mod length xs))) [0..<k * length xs]) (Some x) = k"
proof (induction k arbitrary: r)
  case (Suc k)
  let ?n = "length xs"
  have "map (\<lambda>i. xs ! ((r + i) mod ?n)) [0..<?n] = rotate r xs" by (rule nth_equalityI) (simp_all add: nth_rotate)
  then have block: "map (\<lambda>i. Some (xs ! ((r + i) mod ?n))) [0..<?n] = map Some (rotate r xs)"
    by (metis (no_types, lifting) comp_apply list.map_comp map_eq_conv)
  have "count_list (map Some (rotate r xs)) (Some x) = 1"
    using assms by (simp add: count_list_map_conv [OF inj_Some] count_list_eq_length_filter distinct_length_filter
        set_rotate Collect_conv_if Int_absorb1)
  moreover have "[0..<Suc k * ?n] = [0..<?n] @ map (\<lambda>i. i + ?n) [0..<k * ?n]" using upt_add_eq_append [of 0 ?n "k * ?n"] map_add_upt [of ?n "k * ?n"] by (simp add: add.commute)
  then have "map (\<lambda>i. Some (xs ! ((r + i) mod ?n))) [0..<Suc k * ?n] =
      map (\<lambda>i. Some (xs ! ((r + i) mod ?n))) [0..<?n] @ map (\<lambda>i. Some (xs ! ((r + ?n + i) mod ?n))) [0..<k * ?n]"
    by (simp add: ac_simps)
  ultimately show ?case using Suc.IH [of "r + ?n"] block by simp
qed simp

text \<open>C29: Round robin is fair: while the reps stay the same and the counter does not wrap, any sequence of \<open>k\<close> times as many qualified leads
  as there are reps gives each of them exactly \<open>k\<close>, wherever the counter stood.\<close>

theorem round_robin_fair:
  assumes "fresh uuid" "crm_wf db" "resolveQueueAssignMode env = Round_robin" "distinct (map ey_id (crm_entities db))"
    and "rep \<in> set (fetchActiveSalesReps db)" "\<forall>c \<in> set cs. qualifies env (fst c) db"
    and "length cs = k * length (fetchActiveSalesReps db)" "rr + length cs < MAX_SAFE_INTEGER"
  shows "count_list (map assigned (fst (route_run render uuid env opts cs (db, rr)))) (Some rep) = k"
proof -
  have "distinct (fetchActiveSalesReps db)" using assms(4) by (simp add: fetchActiveSalesReps_def distinct_map_filter)
  then show ?thesis using turns_of_run [OF assms(1,3) refl _ assms(2,6,8)] count_turns [of "fetchActiveSalesReps db" rep rr k] assms(5,7)
    by (metis (no_types, lifting) empty_iff list.set(1))
qed

section \<open>Behaviours worth knowing\<close>

lemma disqualified_result:
  assumes "fresh uuid" "disqualification env p db = Some reason"
  shows "\<exists>(task :: TaskQueueRow) q. route render uuid now later env opts p (db, rr) =
       (Inr \<lparr>rt_stage = S_disqualified, rt_assigned_rep_id = None, rt_disqualification_reason = Some reason, rt_rescore_task_id = Some (tq_id task)\<rparr>,
        (updateProspectRouting now p S_disqualified None (Some reason) db)\<lparr>tasks := q\<rparr>, rr)"
  by (rule route_disqualified [OF assms, of render now later opts rr]) blast

text \<open>A lead that routing disqualifies is in no rep's list of disqualified leads: its rep is cleared.\<close>

lemma disqualified_unlisted:
  assumes "fresh uuid" "\<not> qualifies env p db" "route render uuid now later env opts p (db, rr) = (res, db', rr')"
  shows "\<forall>rep r. r \<in> set (getDisqualifiedLeads rep db') \<longrightarrow> pr_id r \<noteq> p"
proof -
  obtain reason where reason: "disqualification env p db = Some reason" using assms(2) disqualification_None by (metis option.exhaust)
  obtain task :: TaskQueueRow and q where "route render uuid now later env opts p (db, rr) =
       (Inr \<lparr>rt_stage = S_disqualified, rt_assigned_rep_id = None, rt_disqualification_reason = Some reason, rt_rescore_task_id = Some (tq_id task)\<rparr>,
        (updateProspectRouting now p S_disqualified None (Some reason) db)\<lparr>tasks := q\<rparr>, rr)"
    using disqualified_result [OF assms(1) reason] by blast
  then have db': "prospects db' = update_where (\<lambda>r. pr_id r = p) (routing_row now S_disqualified None (Some reason)) (prospects db)"
    using assms(3) by (simp add: updateProspectRouting_def)
  have "pr_assigned_rep_id r = None" if "r \<in> set (prospects db')" "pr_id r = p" for r
    using that unfolding db' by (elim in_update_whereE) (simp_all add: routing_row_def)
  then show ?thesis by (auto simp: getDisqualifiedLeads_def)
qed

text \<open>Routing an id that is no prospect answers "disqualified" and queues a task for it.\<close>

lemma unknown_prospect_routed:
  assumes "fresh uuid" "crm_wf db" "find_row pr_id p (prospects db) = None"
  shows "\<exists>(task :: TaskQueueRow) q. route render uuid now later env opts p (db, rr) =
    (Inr \<lparr>rt_stage = S_disqualified, rt_assigned_rep_id = None, rt_disqualification_reason = Some Kyc_not_verified,
          rt_rescore_task_id = Some (tq_id task)\<rparr>, db\<lparr>tasks := q\<rparr>, rr)"
proof -
  have none: "p \<notin> pr_id ` set (prospects db)" using assms(3) by (simp add: find_row_None_iff)
  then have "latest_kyc db p = None" using assms(2) by (auto simp: latest_kyc_def first_by_None active_kyc_def crm_wf_def)
  then have d: "disqualification env p db = Some Kyc_not_verified" by (simp add: disqualification_def fetchProspectStage_def assms(3))
  have same: "updateProspectRouting now p S_disqualified None (Some Kyc_not_verified) db = db"
    unfolding updateProspectRouting_def by (subst update_where_id) (use none in auto)
  show ?thesis using disqualified_result [OF assms(1) d, of render now later opts rr] by (simp only: same)
qed

text \<open>Routing a prospect that awaits review takes it out of the review: the reviewer's answer is then refused.\<close>

lemma routing_cancels_review:
  assumes "fresh uuid" "find_row pr_id p (prospects db) = Some r" "pr_stage r = S_kyc_manual_review"
    and "route render uuid now later env opts p (db, rr) = (res, db', rr')"
    and "canAccessManualReview (ke_superuser kenv) (actor_role db' u) u"
  shows "kyc_review render W uuid clk kenv (Some u) p body (db', rr') = (Not_in_review, db', rr')"
proof -
  have "disqualification env p db = Some Kyc_manual_review" by (simp add: disqualification_def fetchProspectStage_def assms(2,3))
  then obtain task :: TaskQueueRow and q where "route render uuid now later env opts p (db, rr) =
       (Inr \<lparr>rt_stage = S_disqualified, rt_assigned_rep_id = None, rt_disqualification_reason = Some Kyc_manual_review, rt_rescore_task_id = Some (tq_id task)\<rparr>,
        (updateProspectRouting now p S_disqualified None (Some Kyc_manual_review) db)\<lparr>tasks := q\<rparr>, rr)"
    using disqualified_result [OF assms(1)] by blast
  then have "find_row pr_id p (prospects db') = Some (routing_row now S_disqualified None (Some Kyc_manual_review) r)"
    using assms(2,4) by (auto simp: find_routed)
  then show ?thesis using assms(5) by (simp add: kyc_review_def routing_row_def)
qed

text \<open>A score that is not a number passes every threshold.\<close>

lemma NaN_qualifies:
  assumes "fetchProspectStage p db \<noteq> Some S_kyc_manual_review" "latest_kyc db p = Some k" "ky_verification_status k = K_verified"
    and "fetchLatestCltvScore p db = Some row" "sc_composite_score row = Some NaN"
  shows "qualifies env p db"
  using assms by (simp add: qualifies_def)

text \<open>On the scale of the scorer, 0 to 100, the default threshold of one half admits the lowest tier.\<close>

lemma tier_D_qualifies:
  assumes "tierA c = Finite 80" "tierB c = Finite 60" "tierC c = Finite 40" "QUALIFICATION_THRESHOLD env = None"
  shows "classifyTier (Finite 1) c = Tier_D \<and> \<not> num_less (Finite 1) (resolveQualificationThreshold env)"
  using assms by (simp add: classifyTier_def resolveQualificationThreshold_def)

text \<open>A disqualification finds the task of an earlier one, done or not, and queues nothing.\<close>

lemma rescore_not_queued_again:
  assumes "find_row idempotency_key (rescore_key p) (tasks db) = Some task" "\<not> qualifies env p db"
  shows "tasks (fst (snd (route render uuid now later env opts p (db, rr)))) = tasks db"
proof -
  obtain reason where "disqualification env p db = Some reason" using assms(2) disqualification_None by (metis option.exhaust)
  then show ?thesis using assms(1)
    by (simp add: route_def Let_def enqueueTaskWithClient_def enqueueTask_def updateProspectRouting_def)
qed

text \<open>A KYC trigger leaves a record without revenue or debt: the company sub-score of the next scoring is the neutral one half.\<close>

lemma trigger_forgets_company:
  assumes "insert_kyc uuid now p status checked (archive_kyc t p db) = Inr (i, db')" "status \<noteq> K_archived"
  shows "computeCompanySubScore log10 (company_snapshot (entity_kyc db' Prospect p)) = Finite (1 / 2)"
proof -
  have none: "filter (active_kyc p) (kyc_records (archive_kyc t p db)) = []" using filter_archived [of p p] by (simp add: archive_kyc_def)
  obtain row where row: "db' = (archive_kyc t p db)\<lparr>kyc_records := kyc_records (archive_kyc t p db) @ [row]\<rparr>"
    "active_kyc p row" "ky_annual_revenue_est row = None" "ky_debt_load_est row = None"
    using assms by (auto simp: insert_kyc_def Let_def insert_row_Inr active_kyc_def split: if_splits sum.splits)
  have "latest_kyc db' p = Some row" by (simp add: latest_kyc_def first_by_def row(1,2) none)
  then show ?thesis
    by (simp add: entity_kyc_def company_snapshot_def computeCompanySubScore_def company_components_def known_revenue_def
        opt_list_def num_average_def row)
qed

text \<open>A filter for another rep's queue meets the restriction to one's own: nothing is listed.\<close>

lemma other_rep_empty: "lf_rep_id f = Some other \<Longrightarrow> other \<noteq> repId \<Longrightarrow> getQueueLeads now clock nudge repId srt f db = []"
  by (auto simp: getQueueLeads_def queue_match_def filter_empty_conv)

section \<open>Witnesses\<close>

text \<open>Two verified prospects with scores, and two reps.\<close>

definition sample_prospect :: "string \<Rightarrow> RlProspectRow" where
  "sample_prospect p = \<lparr>pr_id = p, pr_company_name = ''Acme'', pr_industry = None, pr_sic_code = None, pr_stage = S_scored,
     pr_assigned_rep_id = None, pr_disqualification_reason = None, pr_disqualified_at = None, pr_created_at = 0, pr_updated_at = 0\<rparr>"

definition sample_kyc :: "string \<Rightarrow> KycRecordRow" where
  "sample_kyc p = \<lparr>ky_id = p, ky_prospect_id = p, ky_verification_status = K_verified, ky_funding_stage = None,
     ky_annual_revenue_est = None, ky_debt_load_est = None, ky_checked_at = None, ky_created_at = 0, ky_updated_at = 0\<rparr>"

definition sample_lead_score :: "string \<Rightarrow> CLTVScoreRow" where
  "sample_lead_score p = \<lparr>sc_id = p, sc_entity_id = p, sc_entity_type = Prospect, sc_macro_score = None, sc_industry_score = None,
     sc_company_score = None, sc_composite_score = Some (Finite 70), sc_tier = Some Tier_B, sc_score_version = ''v'',
     sc_macro_inputs_snapshot = None, sc_industry_inputs_snapshot = None, sc_company_inputs_snapshot = None,
     sc_rationale_macro = None, sc_rationale_industry = None, sc_rationale_company = None, sc_computed_at = 0, sc_created_at = 0\<rparr>"

definition sample_rep :: "string \<Rightarrow> entity_row" where
  "sample_rep i = \<lparr>ey_id = i, ey_type = ''user'', ey_role = Some ''sales_rep''\<rparr>"

definition sample_crm :: crm where
  "sample_crm = \<lparr>prospects = [sample_prospect ''a'', sample_prospect ''b''], kyc_records = [sample_kyc ''a'', sample_kyc ''b''],
     cltv_scores = [sample_lead_score ''a'', sample_lead_score ''b''], macro_indicators = [], benchmarks = [], crm_customers = [],
     crm_entities = [sample_rep ''r1'', sample_rep ''r2''], notifications = [], deals = [], activities = [], tasks = []\<rparr>"

definition default_env :: route_env where
  "default_env = \<lparr>QUALIFICATION_THRESHOLD = None, QUEUE_ASSIGN_MODE = None\<rparr>"

definition default_options :: RouteOptions where
  "default_options = \<lparr>manualRepId = None, systemUserId = ''system''\<rparr>"

lemma sample_crm_ok: "crm_ok sample_crm"
  by (simp add: crm_ok_def crm_wf_def rows_ok_def row_ok_def one_active_def active_kyc_def sample_crm_def sample_prospect_def
      sample_kyc_def sample_lead_score_def)

lemma sample_qualifies: "p \<in> {''a'', ''b''} \<Longrightarrow> qualifies default_env p sample_crm"
  by (auto simp: qualifies_def fetchProspectStage_def latest_kyc_def fetchLatestCltvScore_def first_by_def active_kyc_def
      sample_crm_def sample_prospect_def sample_kyc_def sample_lead_score_def default_env_def resolveQualificationThreshold_def)

lemma sample_reps: "set (fetchActiveSalesReps sample_crm) = {''r1'', ''r2''}" "length (fetchActiveSalesReps sample_crm) = 2"
  by (simp_all add: fetchActiveSalesReps_def sample_crm_def sample_rep_def)

theorem pipeline_lifecycle_witness:
  "\<exists>db' rr'. fold (crm_step (\<lambda>_ _. ''{}'')) [Route long_uuid 5 6 default_env default_options ''a'', Mark_read 7 ''x'' ''r1''] (sample_crm, 0) = (db', rr')
     \<and> crm_ok db' \<and> evolves_crm sample_crm db'"
proof -
  let ?ops = "[Route long_uuid 5 6 default_env default_options ''a'', Mark_read 7 ''x'' ''r1'']"
  obtain db' rr' where run: "fold (crm_step (\<lambda>_ _. ''{}'')) ?ops (sample_crm, 0) = (db', rr')" by (rule prod.exhaust)
  from pipeline_lifecycle [OF sample_crm_ok _ this] run show ?thesis by auto
qed

theorem route_outcome_witness:
  "\<exists>db'. find_row pr_id ''a'' (prospects db') = Some (routing_row 5 S_qualified (Some ''r1'') None (sample_prospect ''a''))
     \<and> snd (route (\<lambda>_ _. ''{}'') long_uuid 5 6 default_env default_options ''a'' (sample_crm, 0)) = (db', 1)"
proof -
  obtain res db' rr' where run: "route (\<lambda>_ _. ''{}'') long_uuid 5 6 default_env default_options ''a'' (sample_crm, 0) = (res, db', rr')"
    by (rule prod_cases3)
  have here: "find_row pr_id ''a'' (prospects sample_crm) = Some (sample_prospect ''a'')" by (simp add: sample_crm_def sample_prospect_def)
  have "fetchActiveSalesReps sample_crm = [''r1'', ''r2'']"
    by (simp add: fetchActiveSalesReps_def sample_crm_def sample_rep_def)
  then have "pick_rep default_env default_options sample_crm 0 = (Some ''r1'', 1)"
    by (simp add: pick_rep_def resolveQueueAssignMode_def default_env_def MAX_SAFE_INTEGER_def)
  then show ?thesis using route_outcome [OF fresh_long_uuid here run] sample_qualifies [of "''a''"] run by auto
qed

theorem round_robin_fair_witness:
  "count_list (map assigned (fst (route_run (\<lambda>_ _. ''{}'') long_uuid default_env default_options
     [(''a'', 1, 2), (''b'', 3, 4), (''b'', 5, 6), (''a'', 7, 8)] (sample_crm, 5)))) (Some ''r2'') = 2"
  by (rule round_robin_fair [OF fresh_long_uuid])
     (use sample_crm_ok sample_qualifies sample_reps in \<open>simp_all add: crm_ok_def resolveQueueAssignMode_def default_env_def MAX_SAFE_INTEGER_def
        sample_crm_def [THEN arg_cong, of crm_entities] sample_rep_def\<close>)

end
