(* ===== verification/Ledger.thy ===== *)
theory Ledger
  imports DB_Prelude
begin

text \<open>
  The accounts-receivable tables of \<^verbatim>\<open>src/packages/db/schema.sql\<close> and the constraints PostgreSQL
  enforces on them: primary and foreign keys, the trigger \<^verbatim>\<open>guard_invoice_status_transition\<close>,
  \<^verbatim>\<open>NUMERIC(18, 2)\<close> rounding and overflow, and the partial unique index
  \<^verbatim>\<open>rl_collection_cases_one_open_per_invoice\<close>. The SQL statements the components issue are the
  primitives \<open>sql_insert_*\<close> and \<open>sql_update_*\<close>; every constraint violation is an error value.

  Amounts are exact rationals: the columns are decimal, and the JavaScript numbers in between are
  idealised as exact. \<open>uuid\<close> stands for \<^verbatim>\<open>gen_random_uuid()\<close>, a function of the identifiers already
  in the table; \<open>fresh uuid\<close> is the hypothesis that it never repeats one.
\<close>

type_synonym money = rat

datatype app_error =
    DbErr db_error
  | NumericOverflow
  | Thrown string

section \<open>Rows\<close>

datatype InvoiceStatus =
    I_draft | I_sent | I_partial_paid | I_overdue | I_in_collection | I_paid | I_settled
  | I_written_off

datatype CollectionCaseStatus = C_open | C_resolved | C_escalated | C_written_off

datatype ResolutionType = R_paid | R_payment_plan | R_settlement | R_written_off | R_legal

datatype DunningActionType = Reminder_d1 | Second_notice_d7 | Firm_notice_d14 | Collection_d30

datatype PaymentPlanStatus = P_current | P_breached | P_completed | P_cancelled

datatype WriteOffApprovalStatus = W_pending_approval | W_approved | W_rejected

datatype ContactType = By_call | By_email | By_portal

record customer_row =
  cust_id :: string
  company_name :: string
  segment :: "string option"

record invoice_row =
  inv_id :: string
  inv_customer_id :: string
  inv_amount :: money
  inv_currency :: string
  inv_due_date :: "date option"
  inv_status :: InvoiceStatus
  inv_issued_at :: "timestamp option"
  inv_created_at :: timestamp
  inv_updated_at :: timestamp

record payment_row =
  pay_id :: string
  pay_invoice_id :: string
  pay_amount :: money
  pay_method :: "string option"
  pay_received_at :: timestamp
  pay_recorded_by :: "string option"
  pay_created_at :: timestamp

record dunning_row =
  dun_id :: string
  dun_invoice_id :: string
  dun_action_type :: DunningActionType
  dun_scheduled_at :: "timestamp option"
  dun_sent_at :: "timestamp option"
  dun_response :: "string option"
  dun_created_at :: timestamp

record case_row =
  cc_id :: string
  cc_invoice_id :: string
  cc_agent_id :: "string option"
  cc_status :: CollectionCaseStatus
  cc_escalation_level :: int
  cc_resolution_type :: "ResolutionType option"
  cc_opened_at :: timestamp
  cc_resolved_at :: "timestamp option"
  cc_created_at :: timestamp
  cc_updated_at :: timestamp

record write_off_row =
  wo_id :: string
  wo_case_id :: string
  wo_invoice_id :: string
  wo_customer_id :: string
  wo_proposed_by :: string
  wo_reviewed_by :: "string option"
  wo_settlement_amount :: money
  wo_implied_write_off_amount :: money
  wo_status :: WriteOffApprovalStatus
  wo_notes :: "string option"
  wo_review_notes :: "string option"
  wo_reviewed_at :: "timestamp option"
  wo_created_at :: timestamp
  wo_updated_at :: timestamp

record plan_row =
  pp_id :: string
  pp_case_id :: string
  pp_total_amount :: money
  pp_installment_count :: int
  pp_installment_amount :: money
  pp_next_due_date :: "date option"
  pp_status :: PaymentPlanStatus
  pp_created_at :: timestamp
  pp_updated_at :: timestamp

record contact_row =
  con_id :: string
  con_case_id :: string
  con_agent_id :: string
  con_type :: ContactType
  con_outcome :: string
  con_notes :: "string option"
  con_contacted_at :: timestamp
  con_created_at :: timestamp

record ledger =
  customers :: "customer_row list"
  invoices :: "invoice_row list"
  payments :: "payment_row list"
  dunning_actions :: "dunning_row list"
  cases :: "case_row list"
  write_offs :: "write_off_row list"
  plans :: "plan_row list"
  contacts :: "contact_row list"

definition empty_ledger :: ledger where
  "empty_ledger = \<lparr>customers = [], invoices = [], payments = [], dunning_actions = [], cases = [],
     write_offs = [], plans = [], contacts = []\<rparr>"

definition invoice_of :: "string \<Rightarrow> ledger \<Rightarrow> invoice_row option" where
  "invoice_of k db = find_row inv_id k (invoices db)"

definition case_of :: "string \<Rightarrow> ledger \<Rightarrow> case_row option" where
  "case_of k db = find_row cc_id k (cases db)"

definition customer_of :: "string \<Rightarrow> ledger \<Rightarrow> customer_row option" where
  "customer_of k db = find_row cust_id k (customers db)"

section \<open>Constraints\<close>

text \<open>The graph in \<^verbatim>\<open>guard_invoice_status_transition\<close>; a row may also keep its status.\<close>

fun invoice_successors :: "InvoiceStatus \<Rightarrow> InvoiceStatus list" where
  "invoice_successors I_draft = [I_sent]"
| "invoice_successors I_sent = [I_partial_paid, I_overdue]"
| "invoice_successors I_partial_paid = [I_overdue, I_in_collection]"
| "invoice_successors I_overdue = [I_in_collection]"
| "invoice_successors I_in_collection = [I_paid, I_settled, I_written_off]"
| "invoice_successors I_paid = []"
| "invoice_successors I_settled = []"
| "invoice_successors I_written_off = []"

definition guard_invoice_status_transition :: "InvoiceStatus \<Rightarrow> InvoiceStatus \<Rightarrow> bool" where
  "guard_invoice_status_transition old new \<longleftrightarrow> old = new \<or> new \<in> set (invoice_successors old)"

text \<open>\<^verbatim>\<open>NUMERIC(18, 2)\<close>: two decimals, ties away from zero, at most 16 digits before the point.\<close>

definition numeric_round :: "rat \<Rightarrow> money" where
  "numeric_round x =
     (if x < 0 then - of_int \<lfloor>- x * 100 + 1 / 2\<rfloor> / 100 else of_int \<lfloor>x * 100 + 1 / 2\<rfloor> / 100)"

definition numeric_18_2 :: "rat \<Rightarrow> app_error + money" where
  "numeric_18_2 x =
     (let y = numeric_round x in if \<bar>y\<bar> < 10 ^ 16 then Inr y else Inl NumericOverflow)"

definition one_open_case :: "case_row list \<Rightarrow> bool" where
  "one_open_case t \<longleftrightarrow> distinct (map cc_invoice_id (filter (\<lambda>c. cc_status c = C_open) t))"

definition db_res :: "db_error + 'a \<Rightarrow> app_error + 'a" where
  "db_res m = (case m of Inl e \<Rightarrow> Inl (DbErr e) | Inr a \<Rightarrow> Inr a)"

lemma db_res_simps [simp]: "db_res (Inl e) = Inl (DbErr e)" "db_res (Inr a) = Inr a"
  by (simp_all add: db_res_def)

lemma db_res_Inr_iff: "db_res m = Inr a \<longleftrightarrow> m = Inr a"
  by (cases m) auto

definition require :: "bool \<Rightarrow> app_error \<Rightarrow> app_error + unit" where
  "require b e = (if b then Inr () else Inl e)"

lemma require_Inr_iff [simp]: "require b e = Inr u \<longleftrightarrow> b"
  by (simp add: require_def)

definition references :: "string \<Rightarrow> string list \<Rightarrow> app_error + unit" where
  "references k ids = require (k \<in> set ids) (DbErr (ForeignKeyViolation k))"

lemma references_Inr_iff [simp]: "references k ids = Inr u \<longleftrightarrow> k \<in> set ids"
  by (simp add: references_def)

section \<open>Statements\<close>

definition sql_insert_invoice :: "invoice_row \<Rightarrow> ledger \<Rightarrow> app_error + ledger" where
  "sql_insert_invoice r db =
     bind_res (references (inv_customer_id r) (map cust_id (customers db))) (\<lambda>_.
     bind_res (db_res (insert_row inv_id r (invoices db))) (\<lambda>t. Inr (db\<lparr>invoices := t\<rparr>)))"

definition sql_insert_payment :: "payment_row \<Rightarrow> ledger \<Rightarrow> app_error + ledger" where
  "sql_insert_payment r db =
     bind_res (references (pay_invoice_id r) (map inv_id (invoices db))) (\<lambda>_.
     bind_res (db_res (insert_row pay_id r (payments db))) (\<lambda>t. Inr (db\<lparr>payments := t\<rparr>)))"

definition sql_insert_dunning :: "dunning_row \<Rightarrow> ledger \<Rightarrow> app_error + ledger" where
  "sql_insert_dunning r db =
     bind_res (references (dun_invoice_id r) (map inv_id (invoices db))) (\<lambda>_.
     bind_res (db_res (insert_row dun_id r (dunning_actions db)))
       (\<lambda>t. Inr (db\<lparr>dunning_actions := t\<rparr>)))"

definition sql_insert_case :: "case_row \<Rightarrow> ledger \<Rightarrow> app_error + ledger" where
  "sql_insert_case r db =
     bind_res (references (cc_invoice_id r) (map inv_id (invoices db))) (\<lambda>_.
     bind_res (db_res (insert_row cc_id r (cases db))) (\<lambda>t.
     bind_res (require (one_open_case t) (DbErr (UniqueViolation (cc_invoice_id r)))) (\<lambda>_.
       Inr (db\<lparr>cases := t\<rparr>))))"

definition sql_insert_write_off :: "write_off_row \<Rightarrow> ledger \<Rightarrow> app_error + ledger" where
  "sql_insert_write_off r db =
     bind_res (references (wo_case_id r) (map cc_id (cases db))) (\<lambda>_.
     bind_res (references (wo_invoice_id r) (map inv_id (invoices db))) (\<lambda>_.
     bind_res (references (wo_customer_id r) (map cust_id (customers db))) (\<lambda>_.
     bind_res (db_res (insert_row wo_id r (write_offs db))) (\<lambda>t. Inr (db\<lparr>write_offs := t\<rparr>)))))"

definition sql_insert_plan :: "plan_row \<Rightarrow> ledger \<Rightarrow> app_error + ledger" where
  "sql_insert_plan r db =
     bind_res (require (1 \<le> pp_installment_count r) (DbErr (CheckViolation ''installment_count''))) (\<lambda>_.
     bind_res (references (pp_case_id r) (map cc_id (cases db))) (\<lambda>_.
     bind_res (db_res (insert_row pp_id r (plans db))) (\<lambda>t. Inr (db\<lparr>plans := t\<rparr>))))"

definition sql_insert_contact :: "contact_row \<Rightarrow> ledger \<Rightarrow> app_error + ledger" where
  "sql_insert_contact r db =
     bind_res (references (con_case_id r) (map cc_id (cases db))) (\<lambda>_.
     bind_res (db_res (insert_row con_id r (contacts db))) (\<lambda>t. Inr (db\<lparr>contacts := t\<rparr>)))"

text \<open>\<^verbatim>\<open>UPDATE rl_invoices SET status = s, updated_at = NOW() WHERE id = k\<close>, under the trigger.\<close>

definition status_msg :: "InvoiceStatus \<Rightarrow> string" where
  "status_msg s = (case s of I_draft \<Rightarrow> ''draft'' | I_sent \<Rightarrow> ''sent'' | I_partial_paid \<Rightarrow> ''partial_paid''
     | I_overdue \<Rightarrow> ''overdue'' | I_in_collection \<Rightarrow> ''in_collection'' | I_paid \<Rightarrow> ''paid''
     | I_settled \<Rightarrow> ''settled'' | I_written_off \<Rightarrow> ''written_off'')"

definition set_status :: "timestamp \<Rightarrow> InvoiceStatus \<Rightarrow> invoice_row \<Rightarrow> invoice_row" where
  "set_status now s r = r\<lparr>inv_status := s, inv_updated_at := now\<rparr>"

definition sql_update_invoice ::
  "string \<Rightarrow> (invoice_row \<Rightarrow> invoice_row) \<Rightarrow> ledger \<Rightarrow> app_error + ledger" where
  "sql_update_invoice k f db =
     (case find (\<lambda>r. inv_id r = k \<and>
             \<not> guard_invoice_status_transition (inv_status r) (inv_status (f r))) (invoices db) of
        Some r \<Rightarrow> Inl (DbErr (CheckViolation (''invalid invoice status transition: '' @
          status_msg (inv_status r) @ '' to '' @ status_msg (inv_status (f r)) @
          '' (invoice id='' @ k @ '')'')))
      | None \<Rightarrow> Inr (db\<lparr>invoices := update_where (\<lambda>r. inv_id r = k) f (invoices db)\<rparr>))"

definition sql_update_invoice_status ::
  "timestamp \<Rightarrow> string \<Rightarrow> InvoiceStatus \<Rightarrow> ledger \<Rightarrow> app_error + ledger" where
  "sql_update_invoice_status now k s db = sql_update_invoice k (set_status now s) db"

definition sql_update_case :: "string \<Rightarrow> (case_row \<Rightarrow> case_row) \<Rightarrow> ledger \<Rightarrow> ledger" where
  "sql_update_case k f db = db\<lparr>cases := update_where (\<lambda>r. cc_id r = k) f (cases db)\<rparr>"

definition sql_update_plan :: "string \<Rightarrow> (plan_row \<Rightarrow> plan_row) \<Rightarrow> ledger \<Rightarrow> ledger" where
  "sql_update_plan k f db = db\<lparr>plans := update_where (\<lambda>r. pp_id r = k) f (plans db)\<rparr>"

definition sql_update_write_off :: "string \<Rightarrow> (write_off_row \<Rightarrow> write_off_row) \<Rightarrow> ledger \<Rightarrow> ledger" where
  "sql_update_write_off k f db = db\<lparr>write_offs := update_where (\<lambda>r. wo_id r = k) f (write_offs db)\<rparr>"

lemmas sql_insert_defs =
  sql_insert_invoice_def sql_insert_payment_def sql_insert_dunning_def sql_insert_case_def
  sql_insert_write_off_def sql_insert_plan_def sql_insert_contact_def

lemmas sql_update_defs = sql_update_case_def sql_update_plan_def sql_update_write_off_def

section \<open>The status graph\<close>

fun invoice_rank :: "InvoiceStatus \<Rightarrow> nat" where
  "invoice_rank I_draft = 0"
| "invoice_rank I_sent = 1"
| "invoice_rank I_partial_paid = 2"
| "invoice_rank I_overdue = 3"
| "invoice_rank I_in_collection = 4"
| "invoice_rank _ = 5"

definition terminal_status :: "InvoiceStatus \<Rightarrow> bool" where
  "terminal_status s \<longleftrightarrow> s \<in> {I_paid, I_settled, I_written_off}"

interpretation inv_graph: terminal_graph invoice_successors invoice_rank 5 terminal_status
proof unfold_locales
  fix s t
  show "t \<in> set (invoice_successors s) \<Longrightarrow> invoice_rank s < invoice_rank t" by (cases s) auto
  show "invoice_rank s \<le> 5" by (cases s) auto
  show "terminal_status s = (invoice_successors s = [])"
    by (cases s) (simp_all add: terminal_status_def)
qed

lemma guard_terminal: "terminal_status s \<Longrightarrow> guard_invoice_status_transition s t \<longleftrightarrow> s = t"
  by (auto simp: guard_invoice_status_transition_def inv_graph.terminal_iff)

section \<open>Well-formed ledgers\<close>

definition keys_ok :: "ledger \<Rightarrow> bool" where
  "keys_ok db \<longleftrightarrow> distinct (map cust_id (customers db)) \<and> distinct (map inv_id (invoices db))
     \<and> distinct (map pay_id (payments db)) \<and> distinct (map dun_id (dunning_actions db))
     \<and> distinct (map cc_id (cases db)) \<and> distinct (map wo_id (write_offs db))
     \<and> distinct (map pp_id (plans db)) \<and> distinct (map con_id (contacts db))"

definition refs_ok :: "ledger \<Rightarrow> bool" where
  "refs_ok db \<longleftrightarrow>
     (inv_customer_id ` set (invoices db) \<subseteq> cust_id ` set (customers db))
     \<and> (pay_invoice_id ` set (payments db) \<subseteq> inv_id ` set (invoices db))
     \<and> (dun_invoice_id ` set (dunning_actions db) \<subseteq> inv_id ` set (invoices db))
     \<and> (cc_invoice_id ` set (cases db) \<subseteq> inv_id ` set (invoices db))
     \<and> (wo_case_id ` set (write_offs db) \<subseteq> cc_id ` set (cases db))
     \<and> (wo_invoice_id ` set (write_offs db) \<subseteq> inv_id ` set (invoices db))
     \<and> (wo_customer_id ` set (write_offs db) \<subseteq> cust_id ` set (customers db))
     \<and> (pp_case_id ` set (plans db) \<subseteq> cc_id ` set (cases db))
     \<and> (con_case_id ` set (contacts db) \<subseteq> cc_id ` set (cases db))"

definition ledger_wf :: "ledger \<Rightarrow> bool" where
  "ledger_wf db \<longleftrightarrow> keys_ok db \<and> refs_ok db \<and> one_open_case (cases db)"

lemma ledger_wf_empty: "ledger_wf empty_ledger"
  by (simp add: ledger_wf_def keys_ok_def refs_ok_def one_open_case_def empty_ledger_def)

lemmas wf_defs = ledger_wf_def keys_ok_def refs_ok_def

lemma bind_res_InrE:
  assumes "bind_res m f = Inr b"
  obtains a where "m = Inr a" and "f a = Inr b"
  using assms by (auto simp: bind_res_Inr_iff)

lemma sql_insert_Inr_iffs:
  "sql_insert_invoice i db = Inr db' \<longleftrightarrow> inv_customer_id i \<in> cust_id ` set (customers db)
     \<and> inv_id i \<notin> inv_id ` set (invoices db) \<and> db' = db\<lparr>invoices := invoices db @ [i]\<rparr>"
  "sql_insert_payment p db = Inr db' \<longleftrightarrow> pay_invoice_id p \<in> inv_id ` set (invoices db)
     \<and> pay_id p \<notin> pay_id ` set (payments db) \<and> db' = db\<lparr>payments := payments db @ [p]\<rparr>"
  "sql_insert_dunning d db = Inr db' \<longleftrightarrow> dun_invoice_id d \<in> inv_id ` set (invoices db)
     \<and> dun_id d \<notin> dun_id ` set (dunning_actions db)
     \<and> db' = db\<lparr>dunning_actions := dunning_actions db @ [d]\<rparr>"
  "sql_insert_case c db = Inr db' \<longleftrightarrow> cc_invoice_id c \<in> inv_id ` set (invoices db)
     \<and> cc_id c \<notin> cc_id ` set (cases db) \<and> one_open_case (cases db @ [c])
     \<and> db' = db\<lparr>cases := cases db @ [c]\<rparr>"
  "sql_insert_write_off w db = Inr db' \<longleftrightarrow> wo_case_id w \<in> cc_id ` set (cases db)
     \<and> wo_invoice_id w \<in> inv_id ` set (invoices db) \<and> wo_customer_id w \<in> cust_id ` set (customers db)
     \<and> wo_id w \<notin> wo_id ` set (write_offs db) \<and> db' = db\<lparr>write_offs := write_offs db @ [w]\<rparr>"
  "sql_insert_plan l db = Inr db' \<longleftrightarrow> 1 \<le> pp_installment_count l \<and> pp_case_id l \<in> cc_id ` set (cases db)
     \<and> pp_id l \<notin> pp_id ` set (plans db) \<and> db' = db\<lparr>plans := plans db @ [l]\<rparr>"
  "sql_insert_contact n db = Inr db' \<longleftrightarrow> con_case_id n \<in> cc_id ` set (cases db)
     \<and> con_id n \<notin> con_id ` set (contacts db) \<and> db' = db\<lparr>contacts := contacts db @ [n]\<rparr>"
  by (auto simp: sql_insert_defs bind_res_Inr_iff db_res_Inr_iff insert_row_Inr)

lemma wf_sql_insert:
  assumes "ledger_wf db"
  shows "sql_insert_invoice i db = Inr db' \<Longrightarrow> ledger_wf db'"
    and "sql_insert_payment p db = Inr db' \<Longrightarrow> ledger_wf db'"
    and "sql_insert_dunning d db = Inr db' \<Longrightarrow> ledger_wf db'"
    and "sql_insert_case c db = Inr db' \<Longrightarrow> ledger_wf db'"
    and "sql_insert_write_off w db = Inr db' \<Longrightarrow> ledger_wf db'"
    and "sql_insert_plan l db = Inr db' \<Longrightarrow> ledger_wf db'"
    and "sql_insert_contact n db = Inr db' \<Longrightarrow> ledger_wf db'"
  using assms by (auto simp: sql_insert_Inr_iffs wf_defs)

lemma sql_update_invoice_Inr:
  "sql_update_invoice k f db = Inr db' \<longleftrightarrow>
     (\<forall>r \<in> set (invoices db). inv_id r = k \<longrightarrow>
        guard_invoice_status_transition (inv_status r) (inv_status (f r)))
     \<and> db' = db\<lparr>invoices := update_where (\<lambda>r. inv_id r = k) f (invoices db)\<rparr>"
  by (auto simp: sql_update_invoice_def find_None_iff split: option.splits dest: find_SomeD)

text \<open>An UPDATE of invoices that writes neither the keys nor the amount.\<close>

locale invoice_update = row_update "inv_id :: invoice_row \<Rightarrow> string" upd for upd +
  assumes customer_upd: "inv_customer_id (upd r) = inv_customer_id r"
    and amount_upd: "inv_amount (upd r) = inv_amount r"
begin

lemma wf_update: "ledger_wf db \<Longrightarrow> sql_update_invoice k upd db = Inr db' \<Longrightarrow> ledger_wf db'"
  by (simp add: sql_update_invoice_Inr wf_defs distinct_update image_update_where_same
      key_upd customer_upd)

end

interpretation set_status: invoice_update "set_status now s" for now s
  by unfold_locales (simp_all add: set_status_def)

lemma set_status_fields [simp]:
  "inv_status (set_status now s r) = s" "inv_id (set_status now s r) = inv_id r"
  "inv_amount (set_status now s r) = inv_amount r"
  "inv_customer_id (set_status now s r) = inv_customer_id r"
  "inv_due_date (set_status now s r) = inv_due_date r"
  by (simp_all add: set_status_def)

lemma wf_update_invoice_status:
  "ledger_wf db \<Longrightarrow> sql_update_invoice_status now k s db = Inr db' \<Longrightarrow> ledger_wf db'"
  by (simp add: sql_update_invoice_status_def set_status.wf_update)

text \<open>An UPDATE of cases that keeps the keys and never reopens a case.\<close>

locale case_update = row_update "cc_id :: case_row \<Rightarrow> string" upd for upd +
  assumes invoice_upd: "cc_invoice_id (upd r) = cc_invoice_id r"
    and not_reopened: "cc_status (upd r) = C_open \<Longrightarrow> cc_status r = C_open"
begin

lemma open_sublist:
  "cc_invoice_id ` set (filter (\<lambda>c. cc_status c = C_open) (update_where p upd t))
     \<subseteq> cc_invoice_id ` set (filter (\<lambda>c. cc_status c = C_open) t)"
  using invoice_upd not_reopened by (auto simp: set_update_where image_iff)

lemma one_open_update: "one_open_case t \<Longrightarrow> one_open_case (update_where p upd t)"
proof (induction t)
  case (Cons c t)
  then have IH: "one_open_case (update_where p upd t)"
    by (auto simp: one_open_case_def split: if_splits)
  show ?case
    using Cons.prems IH open_sublist [of p t] invoice_upd [of c] not_reopened [of c]
    by (auto simp: one_open_case_def update_where_def split: if_splits)
qed (simp add: update_where_def)

lemma wf_update: "ledger_wf db \<Longrightarrow> ledger_wf (sql_update_case k upd db)"
  by (simp add: sql_update_case_def wf_defs distinct_update image_update_where_same key_upd
      invoice_upd one_open_update)

end

lemma wf_update_plan:
  assumes "ledger_wf db" and "\<And>r. pp_id (f r) = pp_id r" and "\<And>r. pp_case_id (f r) = pp_case_id r"
  shows "ledger_wf (sql_update_plan k f db)"
  using assms
  by (simp add: sql_update_plan_def wf_defs map_update_where_same image_update_where_same)

lemma wf_update_write_off:
  assumes "ledger_wf db" and "\<And>r. wo_id (f r) = wo_id r" and "\<And>r. wo_case_id (f r) = wo_case_id r"
    and "\<And>r. wo_invoice_id (f r) = wo_invoice_id r" and "\<And>r. wo_customer_id (f r) = wo_customer_id r"
  shows "ledger_wf (sql_update_write_off k f db)"
  using assms
  by (simp add: sql_update_write_off_def wf_defs map_update_where_same image_update_where_same)

section \<open>How a ledger may evolve\<close>

text \<open>
  What every operation promises its callers: invoices are never deleted and keep their customer and
  amount, each invoice status moves along the trigger's graph, and the payment, dunning and contact
  logs are append-only.
\<close>

definition status_path :: "InvoiceStatus \<Rightarrow> InvoiceStatus \<Rightarrow> bool" where
  "status_path s t \<longleftrightarrow> (\<exists>ts. legal_path invoice_successors s ts \<and> last (s # ts) = t)"

definition evolves :: "ledger \<Rightarrow> ledger \<Rightarrow> bool" where
  "evolves db db' \<longleftrightarrow>
     (\<forall>k r. invoice_of k db = Some r \<longrightarrow> (\<exists>r'. invoice_of k db' = Some r'
        \<and> inv_amount r' = inv_amount r \<and> inv_customer_id r' = inv_customer_id r
        \<and> status_path (inv_status r) (inv_status r')))
     \<and> (\<exists>new. payments db' = payments db @ new)
     \<and> (\<exists>new. dunning_actions db' = dunning_actions db @ new)
     \<and> (\<exists>new. contacts db' = contacts db @ new)"

lemma status_path_refl [simp]: "status_path s s"
  unfolding status_path_def by (rule exI [of _ "[]"]) simp

lemma status_path_trans:
  assumes "status_path s t" and "status_path t u"
  shows "status_path s u"
proof -
  obtain ts us where "legal_path invoice_successors s ts" "last (s # ts) = t"
    and "legal_path invoice_successors t us" "last (t # us) = u"
    using assms by (auto simp: status_path_def)
  then have "legal_path invoice_successors s (ts @ us) \<and> last (s # ts @ us) = u"
    by (cases us) (auto simp: legal_path_append)
  then show ?thesis unfolding status_path_def by blast
qed

lemma status_path_guard: "guard_invoice_status_transition s t \<Longrightarrow> status_path s t"
  unfolding guard_invoice_status_transition_def
proof (elim disjE)
  assume "t \<in> set (invoice_successors s)"
  then show ?thesis unfolding status_path_def by (intro exI [of _ "[t]"]) simp
qed simp

lemma status_path_terminal: "terminal_status s \<Longrightarrow> status_path s t \<Longrightarrow> t = s"
  by (auto simp: status_path_def dest: inv_graph.terminal_stays)

lemma evolves_refl [simp, intro]: "evolves db db"
  by (auto simp: evolves_def)

lemma evolves_trans [trans]:
  assumes "evolves a b" and "evolves b c"
  shows "evolves a c"
proof -
  have "\<exists>r''. invoice_of k c = Some r'' \<and> inv_amount r'' = inv_amount r
      \<and> inv_customer_id r'' = inv_customer_id r \<and> status_path (inv_status r) (inv_status r'')"
    if found: "invoice_of k a = Some r" for k r
  proof -
    obtain r' where r': "invoice_of k b = Some r'" "inv_amount r' = inv_amount r"
      "inv_customer_id r' = inv_customer_id r" "status_path (inv_status r) (inv_status r')"
      using found assms(1) unfolding evolves_def by blast
    obtain r'' where "invoice_of k c = Some r''" "inv_amount r'' = inv_amount r'"
      "inv_customer_id r'' = inv_customer_id r'" "status_path (inv_status r') (inv_status r'')"
      using r'(1) assms(2) unfolding evolves_def by blast
    with r' status_path_trans show ?thesis by fastforce
  qed
  with assms show ?thesis by (auto simp: evolves_def)
qed

lemma evolves_sql_insert:
  "sql_insert_invoice i db = Inr db' \<Longrightarrow> evolves db db'"
  "sql_insert_payment p db = Inr db' \<Longrightarrow> evolves db db'"
  "sql_insert_dunning d db = Inr db' \<Longrightarrow> evolves db db'"
  "sql_insert_case c db = Inr db' \<Longrightarrow> evolves db db'"
  "sql_insert_write_off w db = Inr db' \<Longrightarrow> evolves db db'"
  "sql_insert_plan l db = Inr db' \<Longrightarrow> evolves db db'"
  "sql_insert_contact n db = Inr db' \<Longrightarrow> evolves db db'"
  by (auto simp: sql_insert_Inr_iffs evolves_def invoice_of_def find_row_append)

lemma evolves_sql_update:
  "evolves db (sql_update_case k f db)" "evolves db (sql_update_plan k g db)"
  "evolves db (sql_update_write_off k h db)"
  by (auto simp: sql_update_defs evolves_def invoice_of_def)

context invoice_update
begin

lemma invoice_of_update:
  assumes "sql_update_invoice k upd db = Inr db'"
  shows "invoice_of j db' = map_option (\<lambda>r. if inv_id r = k then upd r else r) (invoice_of j db)"
  using assms by (auto simp: sql_update_invoice_Inr invoice_of_def find_update)

lemma evolves_update: "sql_update_invoice k upd db = Inr db' \<Longrightarrow> evolves db db'"
  by (auto simp: evolves_def invoice_of_update amount_upd customer_upd)
     (auto simp: sql_update_invoice_Inr invoice_of_def dest!: find_row_SomeD intro: status_path_guard)

end

lemma evolves_update_invoice_status:
  "sql_update_invoice_status now k s db = Inr db' \<Longrightarrow> evolves db db'"
  by (simp add: sql_update_invoice_status_def set_status.evolves_update)

text \<open>The contract of an operation: it keeps the ledger well-formed and only evolves it.\<close>

definition keeps :: "ledger \<Rightarrow> ledger \<Rightarrow> bool" where
  "keeps db db' \<longleftrightarrow> (ledger_wf db \<longrightarrow> ledger_wf db' \<and> evolves db db')"

lemma keeps_refl [simp, intro]: "keeps db db"
  by (simp add: keeps_def)

lemma keeps_trans [trans]: "keeps a b \<Longrightarrow> keeps b c \<Longrightarrow> keeps a c"
  unfolding keeps_def by (blast intro: evolves_trans)

lemma keeps_stmts:
  "sql_insert_invoice i db = Inr db' \<Longrightarrow> keeps db db'"
  "sql_insert_payment p db = Inr db' \<Longrightarrow> keeps db db'"
  "sql_insert_dunning d db = Inr db' \<Longrightarrow> keeps db db'"
  "sql_insert_case c db = Inr db' \<Longrightarrow> keeps db db'"
  "sql_insert_write_off w db = Inr db' \<Longrightarrow> keeps db db'"
  "sql_insert_plan l db = Inr db' \<Longrightarrow> keeps db db'"
  "sql_insert_contact n db = Inr db' \<Longrightarrow> keeps db db'"
  "sql_update_invoice_status now k s db = Inr db' \<Longrightarrow> keeps db db'"
  unfolding keeps_def
  by (blast intro: wf_sql_insert evolves_sql_insert wf_update_invoice_status
      evolves_update_invoice_status)+

lemma keeps_update_plan:
  "(\<And>r. pp_id (f r) = pp_id r) \<Longrightarrow> (\<And>r. pp_case_id (f r) = pp_case_id r) \<Longrightarrow>
     keeps db (sql_update_plan k f db)"
  by (simp add: keeps_def wf_update_plan evolves_sql_update)

lemma keeps_update_write_off:
  "(\<And>r. wo_id (f r) = wo_id r) \<Longrightarrow> (\<And>r. wo_case_id (f r) = wo_case_id r) \<Longrightarrow>
     (\<And>r. wo_invoice_id (f r) = wo_invoice_id r) \<Longrightarrow> (\<And>r. wo_customer_id (f r) = wo_customer_id r) \<Longrightarrow>
     keeps db (sql_update_write_off k f db)"
  by (simp add: keeps_def wf_update_write_off evolves_sql_update)

context invoice_update
begin

lemma keeps_update: "sql_update_invoice k upd db = Inr db' \<Longrightarrow> keeps db db'"
  unfolding keeps_def using wf_update evolves_update by blast

end

context case_update
begin

lemma keeps_case: "keeps db (sql_update_case k upd db)"
  by (simp add: keeps_def wf_update evolves_sql_update)

end

lemma keeps_fold_res:
  assumes "\<And>x s s'. f x s = Inr s' \<Longrightarrow> keeps s s'" and "fold_res f xs db = Inr db'"
  shows "keeps db db'"
  using assms(2)
proof (induction xs arbitrary: db)
  case (Cons x xs)
  then obtain s where "f x db = Inr s" and "fold_res f xs s = Inr db'"
    by (auto simp: bind_res_Inr_iff)
  with Cons.IH assms(1) show ?case by (blast intro: keeps_trans)
qed simp

definition sound :: "(ledger \<Rightarrow> app_error + ('a \<times> ledger)) \<Rightarrow> bool" where
  "sound op \<longleftrightarrow> (\<forall>db a db'. op db = Inr (a, db') \<longrightarrow> keeps db db')"

lemma sound_commit: "sound op \<Longrightarrow> keeps db (commit db (op db))"
  by (cases "op db") (auto simp: sound_def)

end
