(* ===== verification/Invoices.thy ===== *)
theory Invoices
  imports Ledger
begin

text \<open>
  Invoice creation and payment recording, \<^verbatim>\<open>src/packages/db/invoices.ts\<close>: one definition per exported
  function, over the tables and constraints of theory Ledger. \<^verbatim>\<open>recordPayment\<close> is a transaction, so an
  error leaves the ledger as it was. The lemmas show the effect of each function on every branch and
  that each keeps the contract \<open>sound\<close> of theory Ledger.
\<close>

section \<open>Data\<close>

record Invoice =
  i_id :: string
  i_customer_id :: string
  i_customer_name :: string
  i_amount :: money
  i_currency :: string
  i_due_date :: "date option"
  i_status :: InvoiceStatus
  i_issued_at :: "timestamp option"
  i_created_at :: timestamp
  i_updated_at :: timestamp

record CreateInvoiceOptions =
  ci_customer_id :: string
  ci_amount :: money
  ci_currency :: "string option"
  ci_due_date :: "date option"
  ci_send :: "bool option"

record RecordPaymentOptions =
  rp_invoice_id :: string
  rp_amount :: money
  rp_method :: "string option"
  rp_received_at :: "timestamp option"
  rp_recorded_by :: "string option"

record ListInvoicesOptions =
  li_customer_id :: "string option"
  li_status :: "InvoiceStatus option"
  li_limit :: "int option"

section \<open>Operations\<close>

text \<open>The row of an invoice joined with its customer.\<close>

definition mapInvoiceRow :: "invoice_row \<Rightarrow> customer_row \<Rightarrow> Invoice" where
  "mapInvoiceRow r c = \<lparr>
     i_id = inv_id r, i_customer_id = inv_customer_id r, i_customer_name = company_name c,
     i_amount = inv_amount r, i_currency = inv_currency r, i_due_date = inv_due_date r,
     i_status = inv_status r, i_issued_at = inv_issued_at r,
     i_created_at = inv_created_at r, i_updated_at = inv_updated_at r\<rparr>"

definition getInvoice :: "string \<Rightarrow> ledger \<Rightarrow> Invoice option" where
  "getInvoice k db =
     Option.bind (invoice_of k db) (\<lambda>r.
     Option.bind (customer_of (inv_customer_id r) db) (\<lambda>c. Some (mapInvoiceRow r c)))"

definition mark_sent :: "timestamp \<Rightarrow> invoice_row \<Rightarrow> invoice_row" where
  "mark_sent now r = r\<lparr>inv_status := I_sent, inv_issued_at := Some now, inv_updated_at := now\<rparr>"

definition createInvoice ::
  "(string list \<Rightarrow> string) \<Rightarrow> timestamp \<Rightarrow> CreateInvoiceOptions \<Rightarrow> ledger
     \<Rightarrow> app_error + (Invoice \<times> ledger)" where
  "createInvoice uuid now opts db =
     (let k = uuid (map inv_id (invoices db)) in
      bind_res (numeric_18_2 (ci_amount opts)) (\<lambda>amount.
      bind_res (sql_insert_invoice \<lparr>
          inv_id = k, inv_customer_id = ci_customer_id opts, inv_amount = amount,
          inv_currency = (case ci_currency opts of None \<Rightarrow> ''USD'' | Some c \<Rightarrow> c),
          inv_due_date = ci_due_date opts, inv_status = I_draft, inv_issued_at = None,
          inv_created_at = now, inv_updated_at = now\<rparr> db) (\<lambda>db1.
      bind_res (if ci_send opts = Some True then sql_update_invoice k (mark_sent now) db1 else Inr db1) (\<lambda>db2.
        case getInvoice k db2 of
          None \<Rightarrow> Inl (Thrown (''Invoice '' @ k @ '' not found after insert''))
        | Some invoice \<Rightarrow> Inr (invoice, db2)))))"

definition joined_invoices :: "ledger \<Rightarrow> (invoice_row \<times> customer_row) list" where
  "joined_invoices db =
     concat (map (\<lambda>r. case customer_of (inv_customer_id r) db of None \<Rightarrow> [] | Some c \<Rightarrow> [(r, c)])
       (invoices db))"

text \<open>The four branches differ in the WHERE clause only; an empty customer id is falsy.\<close>

definition listInvoices :: "ListInvoicesOptions \<Rightarrow> ledger \<Rightarrow> app_error + Invoice list" where
  "listInvoices opts db =
     (let pick = (\<lambda>(r, c).
            (case li_customer_id opts of None \<Rightarrow> True | Some k \<Rightarrow> k = [] \<or> inv_customer_id r = k)
            \<and> (case li_status opts of None \<Rightarrow> True | Some s \<Rightarrow> inv_status r = s))
      in bind_res
           (db_res (sql_page (case li_limit opts of None \<Rightarrow> 100 | Some l \<Rightarrow> l) 0
             (sort_key (\<lambda>(r, c). - inv_created_at r) (filter pick (joined_invoices db)))))
           (\<lambda>rows. Inr (map (\<lambda>(r, c). mapInvoiceRow r c) rows)))"

definition total_paid :: "string \<Rightarrow> ledger \<Rightarrow> money" where
  "total_paid k db = sum_list (map pay_amount (filter (\<lambda>p. pay_invoice_id p = k) (payments db)))"

definition TERMINAL :: "InvoiceStatus list" where
  "TERMINAL = [I_paid, I_settled, I_written_off]"

fun STEPS_TO_PAID :: "InvoiceStatus \<Rightarrow> InvoiceStatus list" where
  "STEPS_TO_PAID I_draft = [I_sent, I_overdue, I_in_collection, I_paid]"
| "STEPS_TO_PAID I_sent = [I_overdue, I_in_collection, I_paid]"
| "STEPS_TO_PAID I_partial_paid = [I_overdue, I_in_collection, I_paid]"
| "STEPS_TO_PAID I_overdue = [I_in_collection, I_paid]"
| "STEPS_TO_PAID I_in_collection = [I_paid]"
| "STEPS_TO_PAID I_paid = []"
| "STEPS_TO_PAID I_settled = []"
| "STEPS_TO_PAID I_written_off = []"

definition PARTIAL_ALLOWED :: "InvoiceStatus list" where
  "PARTIAL_ALLOWED = [I_sent, I_overdue, I_in_collection]"

text \<open>The status part of the transaction, after the payment is in.\<close>

definition settle_status :: "timestamp \<Rightarrow> string \<Rightarrow> ledger \<Rightarrow> app_error + ledger" where
  "settle_status now k db =
     (case invoice_of k db of
        None \<Rightarrow> Inl (Thrown (''Invoice '' @ k @ '' not found''))
      | Some invRow \<Rightarrow>
          if inv_status invRow \<in> set TERMINAL then Inr db
          else if total_paid k db \<ge> inv_amount invRow then
            fold_res (\<lambda>s d. sql_update_invoice_status now k s d) (STEPS_TO_PAID (inv_status invRow)) db
          else if inv_status invRow \<in> set PARTIAL_ALLOWED then
            (if inv_status invRow = I_sent then sql_update_invoice_status now k I_partial_paid db else Inr db)
          else Inr db)"

definition recordPayment ::
  "(string list \<Rightarrow> string) \<Rightarrow> timestamp \<Rightarrow> RecordPaymentOptions \<Rightarrow> ledger
     \<Rightarrow> app_error + (payment_row \<times> ledger)" where
  "recordPayment uuid now opts db =
     bind_res (numeric_18_2 (rp_amount opts)) (\<lambda>amount.
     let payment = \<lparr>
           pay_id = uuid (map pay_id (payments db)), pay_invoice_id = rp_invoice_id opts,
           pay_amount = amount, pay_method = rp_method opts,
           pay_received_at = (case rp_received_at opts of None \<Rightarrow> now | Some t \<Rightarrow> t),
           pay_recorded_by = rp_recorded_by opts, pay_created_at = now\<rparr>
     in bind_res (sql_insert_payment payment db) (\<lambda>db1.
        bind_res (settle_status now (rp_invoice_id opts) db1) (\<lambda>db2. Inr (payment, db2))))"

definition listInvoicePayments :: "string \<Rightarrow> ledger \<Rightarrow> payment_row list" where
  "listInvoicePayments k db =
     sort_key (\<lambda>p. - pay_received_at p) (filter (\<lambda>p. pay_invoice_id p = k) (payments db))"

section \<open>Contracts\<close>

interpretation mark_sent: invoice_update "mark_sent now" for now
  by unfold_locales (simp_all add: mark_sent_def)

lemma keeps_settle_status:
  assumes "settle_status now k db = Inr db'"
  shows "keeps db db'"
  using assms keeps_fold_res [of "sql_update_invoice_status now k", OF keeps_stmts(8)] keeps_stmts(8)
  by (auto simp: settle_status_def split: option.splits if_splits)

lemma sound_recordPayment: "sound (recordPayment uuid now opts)"
  unfolding sound_def
  by (auto simp: recordPayment_def bind_res_Inr_iff Let_def
      intro: keeps_trans [OF keeps_stmts(2) keeps_settle_status])

lemma sound_createInvoice: "sound (createInvoice uuid now opts)"
  unfolding sound_def
  by (auto simp: createInvoice_def bind_res_Inr_iff Let_def
      intro: keeps_stmts(1) keeps_trans [OF keeps_stmts(1) mark_sent.keeps_update]
      split: option.splits if_splits)

section \<open>Recording a payment\<close>

lemma invoice_of_set_status:
  "sql_update_invoice_status now k s db = Inr db' \<Longrightarrow>
     invoice_of j db' = map_option (\<lambda>r. if inv_id r = k then set_status now s r else r) (invoice_of j db)"
  by (simp add: sql_update_invoice_status_def set_status.invoice_of_update)

lemma set_status_ok:
  assumes "ledger_wf db" and "invoice_of k db = Some r"
    and "guard_invoice_status_transition (inv_status r) s"
  shows "sql_update_invoice_status now k s db =
    Inr (db\<lparr>invoices := update_where (\<lambda>r. inv_id r = k) (set_status now s) (invoices db)\<rparr>)"
proof -
  have "x = r" if "x \<in> set (invoices db)" "inv_id x = k" for x
    using that assms(1,2) by (simp add: wf_defs invoice_of_def find_row_iff distinct_map inj_on_def)
  with assms(3) show ?thesis
    by (auto simp: sql_update_invoice_status_def sql_update_invoice_Inr)
qed

text \<open>Every path of the table is legal, so the trigger never stops a payment.\<close>

lemma STEPS_TO_PAID_legal: "legal_path invoice_successors s (STEPS_TO_PAID s)"
  by (cases s) simp_all

lemma STEPS_TO_PAID_ends: "\<not> terminal_status s \<Longrightarrow> last (s # STEPS_TO_PAID s) = I_paid"
  by (cases s) (simp_all add: terminal_status_def)

lemma fold_status_legal:
  assumes "ledger_wf db" and "invoice_of k db = Some r"
    and "legal_path invoice_successors (inv_status r) ss"
  shows "\<exists>t. fold_res (\<lambda>s d. sql_update_invoice_status now k s d) ss db = Inr (db\<lparr>invoices := t\<rparr>)
    \<and> find_row inv_id k t = Some (if ss = [] then r else set_status now (last ss) r)
    \<and> (\<forall>j. j \<noteq> k \<longrightarrow> find_row inv_id j t = invoice_of j db)"
  using assms
proof (induction ss arbitrary: db r)
  case Nil
  then show ?case by (intro exI [of _ "invoices db"]) (simp add: invoice_of_def)
next
  case (Cons s ss)
  let ?db = "db\<lparr>invoices := update_where (\<lambda>r. inv_id r = k) (set_status now s) (invoices db)\<rparr>"
  have upd: "sql_update_invoice_status now k s db = Inr ?db"
    using Cons.prems by (intro set_status_ok) (auto simp: guard_invoice_status_transition_def)
  then have "ledger_wf ?db" and inv: "invoice_of k ?db = Some (set_status now s r)"
    using Cons.prems wf_update_invoice_status invoice_of_set_status [OF upd, of k]
    by (auto simp: invoice_of_def dest: find_row_key)
  with Cons.IH [of ?db "set_status now s r"] Cons.prems(3) obtain t where t:
    "fold_res (\<lambda>s d. sql_update_invoice_status now k s d) ss ?db = Inr (?db\<lparr>invoices := t\<rparr>)"
    "find_row inv_id k t = Some (if ss = [] then set_status now s r
       else set_status now (last ss) (set_status now s r))"
    "\<forall>j. j \<noteq> k \<longrightarrow> find_row inv_id j t = invoice_of j ?db"
    by auto
  have "invoice_of j ?db = invoice_of j db" if "j \<noteq> k" for j
    using that by (simp add: invoice_of_def set_status.find_update_other)
  with t upd show ?case
    by (intro exI [of _ t]) (auto simp: set_status_def)
qed

text \<open>The status a payment leaves behind.\<close>

definition status_after_payment :: "InvoiceStatus \<Rightarrow> money \<Rightarrow> money \<Rightarrow> InvoiceStatus" where
  "status_after_payment s amount paid =
     (if terminal_status s then s else if amount \<le> paid then I_paid
      else if s = I_sent then I_partial_paid else s)"

lemma settle_status_spec:
  assumes "ledger_wf db" and "invoice_of k db = Some r"
  shows "\<exists>t r'. settle_status now k db = Inr (db\<lparr>invoices := t\<rparr>)
    \<and> find_row inv_id k t = Some r' \<and> inv_amount r' = inv_amount r
    \<and> inv_status r' = status_after_payment (inv_status r) (inv_amount r) (total_paid k db)
    \<and> (\<forall>j. j \<noteq> k \<longrightarrow> find_row inv_id j t = invoice_of j db)"
proof -
  let ?ss = "if terminal_status (inv_status r) then []
    else if inv_amount r \<le> total_paid k db then STEPS_TO_PAID (inv_status r)
    else if inv_status r = I_sent then [I_partial_paid] else []"
  have "legal_path invoice_successors (inv_status r) ?ss"
    using STEPS_TO_PAID_legal by simp
  from fold_status_legal [OF assms this, of now] obtain t where t:
    "fold_res (\<lambda>s d. sql_update_invoice_status now k s d) ?ss db = Inr (db\<lparr>invoices := t\<rparr>)"
    "find_row inv_id k t = Some (if ?ss = [] then r else set_status now (last ?ss) r)"
    "\<forall>j. j \<noteq> k \<longrightarrow> find_row inv_id j t = invoice_of j db"
    by blast
  have "settle_status now k db = fold_res (\<lambda>s d. sql_update_invoice_status now k s d) ?ss db"
    using assms(2) by (cases "sql_update_invoice_status now k I_partial_paid db")
      (auto simp: settle_status_def TERMINAL_def PARTIAL_ALLOWED_def terminal_status_def)
  moreover have "inv_status (if ?ss = [] then r else set_status now (last ?ss) r) =
      status_after_payment (inv_status r) (inv_amount r) (total_paid k db)"
    using STEPS_TO_PAID_ends [of "inv_status r"]
    by (auto simp: status_after_payment_def split: if_splits)
  ultimately show ?thesis using t by auto
qed

lemma settle_status_frame:
  assumes "ledger_wf db" and "invoice_of k db = Some r"
    and "settle_status now k db = Inr db'"
  shows "db' = db\<lparr>invoices := invoices db'\<rparr>"
proof -
  obtain t where "settle_status now k db = Inr (db\<lparr>invoices := t\<rparr>)"
    using settle_status_spec [OF assms(1,2)] by blast
  with assms(3) show ?thesis by auto
qed

text \<open>C9: Recording a payment against an existing invoice always succeeds (the status trigger never
  rejects the steps taken): the payment is appended, the invoice becomes \<^verbatim>\<open>paid\<close> when the payments
  cover its amount, a \<^verbatim>\<open>sent\<close> invoice otherwise becomes \<^verbatim>\<open>partial_paid\<close>, any other status stays, closed
  invoices stay closed, and nothing else in the ledger changes.\<close>

theorem record_payment_outcome:
  assumes "ledger_wf db" and "fresh uuid"
    and "invoice_of (rp_invoice_id opts) db = Some r"
    and "numeric_18_2 (rp_amount opts) = Inr amount"
  shows "\<exists>p db' r'. recordPayment uuid now opts db = Inr (p, db')
    \<and> pay_invoice_id p = rp_invoice_id opts \<and> pay_amount p = amount
    \<and> db' = db\<lparr>payments := payments db @ [p], invoices := invoices db'\<rparr>
    \<and> invoice_of (rp_invoice_id opts) db' = Some r'
    \<and> inv_status r' = (if terminal_status (inv_status r) then inv_status r
         else if inv_amount r \<le> total_paid (rp_invoice_id opts) db + amount then I_paid
         else if inv_status r = I_sent then I_partial_paid else inv_status r)
    \<and> (\<forall>k. k \<noteq> rp_invoice_id opts \<longrightarrow> invoice_of k db' = invoice_of k db)"
proof -
  let ?k = "rp_invoice_id opts"
  let ?p = "\<lparr>pay_id = uuid (map pay_id (payments db)), pay_invoice_id = ?k, pay_amount = amount,
    pay_method = rp_method opts, pay_received_at = (case rp_received_at opts of None \<Rightarrow> now | Some t \<Rightarrow> t),
    pay_recorded_by = rp_recorded_by opts, pay_created_at = now\<rparr>"
  let ?db1 = "db\<lparr>payments := payments db @ [?p]\<rparr>"
  have "?k \<in> inv_id ` set (invoices db)"
    using assms(3) find_row_None_iff [of inv_id ?k "invoices db"] by (simp add: invoice_of_def)
  moreover have "pay_id ?p \<notin> pay_id ` set (payments db)"
    using assms(2) by (simp add: fresh_def) (metis set_map)
  ultimately have ins: "sql_insert_payment ?p db = Inr ?db1"
    by (simp add: sql_insert_Inr_iffs)
  have wf1: "ledger_wf ?db1" using wf_sql_insert(2) [OF assms(1) ins] .
  have inv1: "invoice_of j ?db1 = invoice_of j db" for j by (simp add: invoice_of_def)
  have total: "total_paid ?k ?db1 = total_paid ?k db + amount" by (simp add: total_paid_def)
  obtain t r' where st: "settle_status now ?k ?db1 = Inr (?db1\<lparr>invoices := t\<rparr>)"
    "find_row inv_id ?k t = Some r'"
    "inv_status r' = status_after_payment (inv_status r) (inv_amount r) (total_paid ?k ?db1)"
    "\<forall>j. j \<noteq> ?k \<longrightarrow> find_row inv_id j t = invoice_of j ?db1"
    using settle_status_spec [OF wf1] inv1 assms(3) by metis
  have "recordPayment uuid now opts db = Inr (?p, ?db1\<lparr>invoices := t\<rparr>)"
    using assms(4) ins st(1) by (simp add: recordPayment_def Let_def)
  with st inv1 total show ?thesis
    by (intro exI [of _ ?p] exI [of _ "?db1\<lparr>invoices := t\<rparr>"] exI [of _ r'])
       (simp add: status_after_payment_def invoice_of_def)
qed

definition demo_ledger :: "InvoiceStatus \<Rightarrow> ledger" where
  "demo_ledger s = empty_ledger\<lparr>
     customers := [\<lparr>cust_id = ''c'', company_name = ''Acme'', segment = None\<rparr>],
     invoices := [\<lparr>inv_id = ''i'', inv_customer_id = ''c'', inv_amount = 100, inv_currency = ''USD'',
       inv_due_date = Some 0, inv_status = s, inv_issued_at = None, inv_created_at = 0,
       inv_updated_at = 0\<rparr>]\<rparr>"

lemma demo_ledger_wf: "ledger_wf (demo_ledger s)"
  by (simp add: demo_ledger_def empty_ledger_def wf_defs one_open_case_def)

definition demo_payment :: "money \<Rightarrow> RecordPaymentOptions" where
  "demo_payment a = \<lparr>rp_invoice_id = ''i'', rp_amount = a, rp_method = None, rp_received_at = None,
     rp_recorded_by = None\<rparr>"

lemma floor_half: "\<lfloor>of_int k + 1 / 2 :: rat\<rfloor> = k"
  by (simp add: floor_eq_iff)

lemma numeric_round_cents: "numeric_round (of_int k / 100) = of_int k / 100"
  using floor_half [of k] floor_half [of "- k"]
  by (simp add: numeric_round_def)

lemma numeric_18_2_cents:
  "\<bar>of_int k / 100 :: rat\<bar> < 10 ^ 16 \<Longrightarrow> numeric_18_2 (of_int k / 100) = Inr (of_int k / 100)"
  by (simp add: numeric_18_2_def numeric_round_cents Let_def)

theorem record_payment_outcome_witness:
  "\<exists>p db' r'. recordPayment long_uuid 7 (demo_payment 40) (demo_ledger I_sent) = Inr (p, db')
    \<and> invoice_of ''i'' db' = Some r' \<and> inv_status r' = I_partial_paid"
proof -
  have "numeric_18_2 40 = Inr 40"
    using numeric_18_2_cents [of 4000] by simp
  moreover obtain r where "invoice_of ''i'' (demo_ledger I_sent) = Some r"
    and "inv_status r = I_sent" "inv_amount r = 100"
    by (simp add: demo_ledger_def invoice_of_def)
  ultimately show ?thesis
    using record_payment_outcome [OF demo_ledger_wf fresh_long_uuid, of "demo_payment 40" I_sent r 40 7]
    by (auto simp: demo_payment_def demo_ledger_def empty_ledger_def total_paid_def terminal_status_def)
qed

text \<open>A created invoice can be read back: for an existing customer and an amount that fits the
  column, \<^verbatim>\<open>createInvoice\<close> succeeds, returns exactly what \<^verbatim>\<open>getInvoice\<close> then reads, with the amount
  rounded to cents, status \<^verbatim>\<open>sent\<close> with an issue time when asked to send and \<^verbatim>\<open>draft\<close> otherwise, and no
  existing invoice is affected.\<close>

theorem create_invoice_roundtrip:
  assumes "ledger_wf db" and "fresh uuid"
    and "customer_of (ci_customer_id opts) db = Some c"
    and "numeric_18_2 (ci_amount opts) = Inr amount"
  shows "\<exists>i db'. createInvoice uuid now opts db = Inr (i, db') \<and> getInvoice (i_id i) db' = Some i
    \<and> i_customer_id i = ci_customer_id opts \<and> i_customer_name i = company_name c
    \<and> i_amount i = amount \<and> i_due_date i = ci_due_date opts
    \<and> (if ci_send opts = Some True then i_status i = I_sent \<and> i_issued_at i = Some now
       else i_status i = I_draft \<and> i_issued_at i = None)
    \<and> invoice_of (i_id i) db = None
    \<and> (\<forall>k. k \<noteq> i_id i \<longrightarrow> getInvoice k db' = getInvoice k db)"
proof -
  let ?k = "uuid (map inv_id (invoices db))"
  let ?r = "\<lparr>inv_id = ?k, inv_customer_id = ci_customer_id opts, inv_amount = amount,
    inv_currency = (case ci_currency opts of None \<Rightarrow> ''USD'' | Some c \<Rightarrow> c),
    inv_due_date = ci_due_date opts, inv_status = I_draft, inv_issued_at = None,
    inv_created_at = now, inv_updated_at = now\<rparr>"
  let ?r' = "if ci_send opts = Some True then mark_sent now ?r else ?r"
  let ?db' = "db\<lparr>invoices := invoices db @ [?r']\<rparr>"
  have new: "?k \<notin> inv_id ` set (invoices db)"
    using assms(2) by (simp add: fresh_def) (metis set_map)
  moreover have "ci_customer_id opts \<in> cust_id ` set (customers db)"
    using assms(3) find_row_None_iff [of cust_id "ci_customer_id opts" "customers db"]
    by (simp add: customer_of_def)
  ultimately have ins: "sql_insert_invoice ?r db = Inr (db\<lparr>invoices := invoices db @ [?r]\<rparr>)"
    by (simp add: sql_insert_Inr_iffs)
  from new have new': "\<And>r. r \<in> set (invoices db) \<Longrightarrow> inv_id r \<noteq> ?k" by force
  have old: "update_where (\<lambda>r. inv_id r = ?k) f (invoices db) = invoices db" for f
    by (rule update_where_id) (use new in force)
  have upd: "sql_update_invoice ?k (mark_sent now) (db\<lparr>invoices := invoices db @ [?r]\<rparr>) =
      Inr (db\<lparr>invoices := invoices db @ [mark_sent now ?r]\<rparr>)"
    using new' old [of "mark_sent now"]
    by (auto simp: sql_update_invoice_Inr guard_invoice_status_transition_def mark_sent_def update_where_def)
  have none: "find_row inv_id ?k (invoices db) = None" using new by (simp add: find_row_None_iff)
  have get: "getInvoice ?k ?db' = Some (mapInvoiceRow ?r' c)"
    using none assms(3)
    by (simp add: getInvoice_def invoice_of_def customer_of_def find_row_append mark_sent_def)
  have run: "createInvoice uuid now opts db = Inr (mapInvoiceRow ?r' c, ?db')"
    using assms(4) ins upd get by (simp add: createInvoice_def Let_def split: if_splits)
  have others: "getInvoice j ?db' = getInvoice j db" if "j \<noteq> ?k" for j
    using that by (auto simp: getInvoice_def invoice_of_def customer_of_def find_row_append mark_sent_def
        split: option.splits)
  have id: "i_id (mapInvoiceRow ?r' c) = ?k" by (simp add: mapInvoiceRow_def mark_sent_def)
  show ?thesis
    by (rule exI [of _ "mapInvoiceRow ?r' c"], rule exI [of _ ?db'], unfold id, intro conjI)
       (use run get none others in \<open>simp_all add: mapInvoiceRow_def mark_sent_def invoice_of_def\<close>)
qed

theorem create_invoice_roundtrip_witness:
  "\<exists>i db'. createInvoice long_uuid 7 \<lparr>ci_customer_id = ''c'', ci_amount = 40, ci_currency = None,
       ci_due_date = None, ci_send = Some True\<rparr> (demo_ledger I_sent) = Inr (i, db')
     \<and> getInvoice (i_id i) db' = Some i \<and> i_status i = I_sent"
proof -
  have "numeric_18_2 40 = Inr 40"
    using numeric_18_2_cents [of 4000] by simp
  moreover obtain c where "customer_of ''c'' (demo_ledger I_sent) = Some c"
    by (simp add: demo_ledger_def customer_of_def)
  ultimately show ?thesis
    using create_invoice_roundtrip [OF demo_ledger_wf fresh_long_uuid,
        of "\<lparr>ci_customer_id = ''c'', ci_amount = 40, ci_currency = None, ci_due_date = None,
          ci_send = Some True\<rparr>" I_sent c 40 7]
    by auto
qed

end
