(* ===== verification/Dunning.thy ===== *)
theory Dunning
  imports Invoices
begin

text \<open>
  The dunning engine: the queries of \<^verbatim>\<open>src/packages/db/dunning.ts\<close> and the daily job of
  \<^verbatim>\<open>src/apps/server/src/cron/jobs/dunning-engine.ts\<close>. The job loops over the overdue invoices and, for
  each, over the milestones D+1, D+7, D+14 and D+30; the collection step runs in its own transaction
  whose failure is caught. Log lines and the stubbed e-mail dispatch have no effect on the state and are
  left out, as is the task the job enqueues at its end for the admin view.
\<close>

section \<open>Queries and statements\<close>

record OverdueInvoiceRow =
  od_id :: string
  od_customer_id :: string
  od_amount :: money
  od_due_date :: date
  od_status :: InvoiceStatus
  od_days_overdue :: int
  od_has_active_payment_plan :: bool

definition current_date :: "timestamp \<Rightarrow> date" where
  "current_date now = now div day"

text \<open>\<^verbatim>\<open>GREATEST(0, EXTRACT(DAY FROM (NOW() - due_date)))\<close>, in a UTC session.\<close>

definition days_overdue :: "timestamp \<Rightarrow> date \<Rightarrow> int" where
  "days_overdue now due = max 0 ((now - due * day) div day)"

definition has_active_payment_plan :: "string \<Rightarrow> ledger \<Rightarrow> bool" where
  "has_active_payment_plan k db \<longleftrightarrow>
     list_ex (\<lambda>c. cc_invoice_id c = k \<and> cc_status c = C_open \<and>
       list_ex (\<lambda>p. pp_case_id p = cc_id c \<and> pp_status p = P_current) (plans db)) (cases db)"

definition dunnable :: "timestamp \<Rightarrow> invoice_row \<Rightarrow> bool" where
  "dunnable now r \<longleftrightarrow>
     (case inv_due_date r of None \<Rightarrow> False | Some d \<Rightarrow> d < current_date now)
     \<and> inv_status r \<notin> {I_paid, I_settled, I_written_off, I_draft}"

definition overdue_row :: "timestamp \<Rightarrow> ledger \<Rightarrow> invoice_row \<Rightarrow> OverdueInvoiceRow" where
  "overdue_row now db r = \<lparr>
     od_id = inv_id r, od_customer_id = inv_customer_id r, od_amount = inv_amount r,
     od_due_date = the (inv_due_date r), od_status = inv_status r,
     od_days_overdue = days_overdue now (the (inv_due_date r)),
     od_has_active_payment_plan = has_active_payment_plan (inv_id r) db\<rparr>"

definition listOverdueInvoicesForDunning :: "timestamp \<Rightarrow> ledger \<Rightarrow> OverdueInvoiceRow list" where
  "listOverdueInvoicesForDunning now db =
     map (overdue_row now db)
       (sort_key (\<lambda>r. the (inv_due_date r)) (filter (dunnable now) (invoices db)))"

definition listDunningActions :: "string \<Rightarrow> ledger \<Rightarrow> dunning_row list" where
  "listDunningActions k db =
     sort_key dun_created_at (filter (\<lambda>a. dun_invoice_id a = k) (dunning_actions db))"

definition hasDunningAction :: "string \<Rightarrow> DunningActionType \<Rightarrow> ledger \<Rightarrow> bool" where
  "hasDunningAction k ty db \<longleftrightarrow>
     list_ex (\<lambda>a. dun_invoice_id a = k \<and> dun_action_type a = ty) (dunning_actions db)"

definition createDunningAction ::
  "(string list \<Rightarrow> string) \<Rightarrow> timestamp \<Rightarrow> string \<Rightarrow> DunningActionType \<Rightarrow> timestamp option \<Rightarrow>
     string option \<Rightarrow> ledger \<Rightarrow> app_error + (dunning_row \<times> ledger)" where
  "createDunningAction uuid now k ty scheduled_at response db =
     (let row = \<lparr>dun_id = uuid (map dun_id (dunning_actions db)), dun_invoice_id = k,
            dun_action_type = ty, dun_scheduled_at = scheduled_at, dun_sent_at = Some now,
            dun_response = response, dun_created_at = now\<rparr>
      in bind_res (sql_insert_dunning row db) (\<lambda>db'. Inr (row, db')))"

text \<open>The column defaults of \<^verbatim>\<open>INSERT INTO rl_collection_cases (invoice_id)\<close>.\<close>

definition new_case :: "(string list \<Rightarrow> string) \<Rightarrow> timestamp \<Rightarrow> string \<Rightarrow> ledger \<Rightarrow> case_row" where
  "new_case uuid now k db = \<lparr>
     cc_id = uuid (map cc_id (cases db)), cc_invoice_id = k, cc_agent_id = None, cc_status = C_open,
     cc_escalation_level = 0, cc_resolution_type = None, cc_opened_at = now, cc_resolved_at = None,
     cc_created_at = now, cc_updated_at = now\<rparr>"

definition enter_collection :: "timestamp \<Rightarrow> string \<Rightarrow> invoice_row \<Rightarrow> ledger \<Rightarrow> app_error + ledger" where
  "enter_collection now k invRow db =
     (if inv_status invRow \<noteq> I_in_collection
      then sql_update_invoice_status now k I_in_collection db else Inr db)"

definition open_case ::
  "(string list \<Rightarrow> string) \<Rightarrow> timestamp \<Rightarrow> string \<Rightarrow> ledger \<Rightarrow> app_error + (case_row \<times> ledger)" where
  "open_case uuid now k db =
     (case find (\<lambda>c. cc_invoice_id c = k \<and> cc_status c = C_open) (cases db) of
        Some c \<Rightarrow> Inr (c, db)
      | None \<Rightarrow>
          bind_res (sql_insert_case (new_case uuid now k db) db)
            (\<lambda>db'. Inr (new_case uuid now k db, db')))"

definition transitionInvoiceToCollection ::
  "(string list \<Rightarrow> string) \<Rightarrow> timestamp \<Rightarrow> string \<Rightarrow> ledger \<Rightarrow> app_error + (case_row \<times> ledger)" where
  "transitionInvoiceToCollection uuid now k db =
     (case invoice_of k db of
        None \<Rightarrow> Inl (Thrown (''Invoice '' @ k @ '' not found''))
      | Some invRow \<Rightarrow> bind_res (enter_collection now k invRow db) (open_case uuid now k))"

section \<open>The job\<close>

record DunningMilestone =
  ms_action_type :: DunningActionType
  ms_min_days :: int
  ms_label :: string

definition DUNNING_MILESTONES :: "DunningMilestone list" where
  "DUNNING_MILESTONES = [
     \<lparr>ms_action_type = Reminder_d1, ms_min_days = 1, ms_label = ''D+1 friendly reminder''\<rparr>,
     \<lparr>ms_action_type = Second_notice_d7, ms_min_days = 7, ms_label = ''D+7 second notice''\<rparr>,
     \<lparr>ms_action_type = Firm_notice_d14, ms_min_days = 14, ms_label = ''D+14 firm notice + AM alert''\<rparr>,
     \<lparr>ms_action_type = Collection_d30, ms_min_days = 30, ms_label = ''D+30 collection case''\<rparr>]"

definition resolveNextMilestone ::
  "int \<Rightarrow> DunningActionType list \<Rightarrow> DunningMilestone option" where
  "resolveNextMilestone daysOverdue existing =
     find (\<lambda>m. daysOverdue \<ge> ms_min_days m \<and> ms_action_type m \<notin> set existing) DUNNING_MILESTONES"

record DunningStats =
  ds_actions_created :: nat
  ds_invoices_skipped :: nat
  ds_cases_opened :: nat

type_synonym dunning_state = "DunningActionType list \<times> ledger \<times> DunningStats"

text \<open>One milestone of one invoice: the body of the inner loop. The job opens no transaction of its own, so an error
  comes with the ledger the statements before it left.\<close>

definition dunning_milestone ::
  "(string list \<Rightarrow> string) \<Rightarrow> timestamp \<Rightarrow> OverdueInvoiceRow \<Rightarrow> DunningMilestone \<Rightarrow> dunning_state
     \<Rightarrow> (app_error \<times> ledger) + dunning_state" where
  "dunning_milestone uuid now row m s =
     (case s of (existing, db, st) \<Rightarrow>
        if od_days_overdue row < ms_min_days m then Inr s
        else if ms_action_type m \<in> set existing then Inr s
        else
          (let (db1, st1) =
             (if ms_action_type m = Collection_d30 then
                (case transitionInvoiceToCollection uuid now (od_id row) db of
                   Inr (c, db') \<Rightarrow> (db', st\<lparr>ds_cases_opened := ds_cases_opened st + 1\<rparr>)
                 | Inl e \<Rightarrow> (db, st))
              else (db, st))
           in case createDunningAction uuid now (od_id row) (ms_action_type m) (Some now) None db1 of
                Inl e \<Rightarrow> Inl (e, db1)
              | Inr (a, db2) \<Rightarrow> Inr (ms_action_type m # existing, db2,
                   st1\<lparr>ds_actions_created := ds_actions_created st1 + 1\<rparr>)))"

definition dunning_invoice ::
  "(string list \<Rightarrow> string) \<Rightarrow> timestamp \<Rightarrow> OverdueInvoiceRow \<Rightarrow> ledger \<times> DunningStats
     \<Rightarrow> (app_error \<times> ledger) + (ledger \<times> DunningStats)" where
  "dunning_invoice uuid now row s =
     (case s of (db, st) \<Rightarrow>
        if od_has_active_payment_plan row
        then Inr (db, st\<lparr>ds_invoices_skipped := ds_invoices_skipped st + 1\<rparr>)
        else
          (let existing = filter (\<lambda>ty. hasDunningAction (od_id row) ty db)
                            (map ms_action_type DUNNING_MILESTONES)
           in bind_res (fold_res (dunning_milestone uuid now row) DUNNING_MILESTONES (existing, db, st))
                (\<lambda>(e, db', st'). Inr (db', st'))))"

definition dunningEngineJob ::
  "(string list \<Rightarrow> string) \<Rightarrow> timestamp \<Rightarrow> ledger \<Rightarrow> (app_error \<times> ledger) + (DunningStats \<times> ledger)" where
  "dunningEngineJob uuid now db =
     bind_res (fold_res (dunning_invoice uuid now) (listOverdueInvoicesForDunning now db)
        (db, \<lparr>ds_actions_created = 0, ds_invoices_skipped = 0, ds_cases_opened = 0\<rparr>))
       (\<lambda>(db', st). Inr (st, db'))"

section \<open>Opening a collection case\<close>

lemma keeps_open_case: "open_case uuid now k db = Inr (c, db') \<Longrightarrow> keeps db db'"
  using keeps_stmts(4) by (auto simp: open_case_def bind_res_Inr_iff split: option.splits)

lemma keeps_enter_collection: "enter_collection now k r db = Inr db' \<Longrightarrow> keeps db db'"
  using keeps_stmts(8) by (auto simp: enter_collection_def split: if_splits)

lemma keeps_transition:
  "transitionInvoiceToCollection uuid now k db = Inr (c, db') \<Longrightarrow> keeps db db'"
  by (auto simp: transitionInvoiceToCollection_def bind_res_Inr_iff split: option.splits
      intro: keeps_trans keeps_enter_collection keeps_open_case)

lemma sound_transition: "sound (transitionInvoiceToCollection uuid now k)"
  unfolding sound_def using keeps_transition by blast

lemma keeps_create: "createDunningAction uuid now k ty sched resp db = Inr (a, db') \<Longrightarrow> keeps db db'"
  by (auto simp: createDunningAction_def bind_res_Inr_iff Let_def intro: keeps_stmts(3))

text \<open>A loop that keeps a relation to the ledger it started from, whether it ends or fails.\<close>

lemma fold_res_outcome:
  assumes "\<And>x s. x \<in> set xs \<Longrightarrow> P s \<Longrightarrow> case f x s of Inl e \<Rightarrow> Q e | Inr s' \<Rightarrow> P s'" and "P s"
  shows "case fold_res f xs s of Inl e \<Rightarrow> Q e | Inr s' \<Rightarrow> P s'"
  using assms
proof (induction xs arbitrary: s)
  case (Cons x xs)
  from Cons.prems have "case f x s of Inl e \<Rightarrow> Q e | Inr s' \<Rightarrow> P s'" by simp
  with Cons.IH Cons.prems(1) show ?case by (cases "f x s") simp_all
qed simp

lemma keeps_milestone:
  assumes "keeps db0 (fst (snd s))"
  shows "case dunning_milestone uuid now row m s of Inl e \<Rightarrow> keeps db0 (snd e) | Inr s' \<Rightarrow> keeps db0 (fst (snd s'))"
proof -
  obtain existing db st where s: "s = (existing, db, st)" by (cases s)
  define t where "t = (if ms_action_type m = Collection_d30 then
    (case transitionInvoiceToCollection uuid now (od_id row) db of
       Inr (c, db') \<Rightarrow> (db', st\<lparr>ds_cases_opened := ds_cases_opened st + 1\<rparr>) | Inl e \<Rightarrow> (db, st)) else (db, st))"
  have "keeps db (fst t)" using keeps_transition by (auto simp: t_def split: sum.splits)
  then have "keeps db0 (fst t)" using assms keeps_trans s by force
  then show ?thesis using assms
    by (auto simp: s dunning_milestone_def t_def [symmetric] split: sum.splits prod.splits intro: keeps_trans keeps_create)
qed

lemma keeps_dunning_invoice:
  assumes "keeps db0 (fst s)"
  shows "case dunning_invoice uuid now row s of Inl e \<Rightarrow> keeps db0 (snd e) | Inr s' \<Rightarrow> keeps db0 (fst s')"
proof -
  obtain db st where s: "s = (db, st)" by (cases s)
  let ?ex = "filter (\<lambda>ty. hasDunningAction (od_id row) ty db) (map ms_action_type DUNNING_MILESTONES)"
  have "case fold_res (dunning_milestone uuid now row) DUNNING_MILESTONES (?ex, db, st) of
      Inl e \<Rightarrow> keeps db0 (snd e) | Inr s' \<Rightarrow> keeps db0 (fst (snd s'))"
    by (rule fold_res_outcome) (use keeps_milestone assms s in auto)
  then show ?thesis using assms by (cases "fold_res (dunning_milestone uuid now row) DUNNING_MILESTONES (?ex, db, st)") (auto simp: s dunning_invoice_def)
qed

fun job_ledger :: "(app_error \<times> ledger) + (DunningStats \<times> ledger) \<Rightarrow> ledger" where
  "job_ledger (Inl (e, db)) = db"
| "job_ledger (Inr (st, db)) = db"

lemma keeps_dunningEngineJob: "keeps db (job_ledger (dunningEngineJob uuid now db))"
proof -
  let ?s = "(db, \<lparr>ds_actions_created = 0, ds_invoices_skipped = 0, ds_cases_opened = 0\<rparr>)"
  have "case fold_res (dunning_invoice uuid now) (listOverdueInvoicesForDunning now db) ?s of
      Inl e \<Rightarrow> keeps db (snd e) | Inr s' \<Rightarrow> keeps db (fst s')"
    by (rule fold_res_outcome) (use keeps_dunning_invoice in auto)
  then show ?thesis by (cases "fold_res (dunning_invoice uuid now) (listOverdueInvoicesForDunning now db) ?s") (auto simp: dunningEngineJob_def)
qed

lemma one_open_case_snoc:
  "one_open_case (t @ [c]) \<longleftrightarrow> one_open_case t \<and>
     (cc_status c = C_open \<longrightarrow> (\<forall>x \<in> set t. cc_status x = C_open \<longrightarrow> cc_invoice_id x \<noteq> cc_invoice_id c))"
  by (cases "cc_status c = C_open") (auto simp: one_open_case_def image_iff)

definition has_open_case :: "string \<Rightarrow> ledger \<Rightarrow> bool" where
  "has_open_case k db \<longleftrightarrow> (\<exists>c \<in> set (cases db). cc_invoice_id c = k \<and> cc_status c = C_open)"

lemma open_case_spec:
  assumes "ledger_wf db" and "fresh uuid" and "k \<in> inv_id ` set (invoices db)"
  shows "\<exists>c. open_case uuid now k db =
      Inr (c, if has_open_case k db then db else db\<lparr>cases := cases db @ [c]\<rparr>)
    \<and> cc_invoice_id c = k \<and> cc_status c = C_open \<and> (has_open_case k db \<longrightarrow> c \<in> set (cases db))
    \<and> (\<not> has_open_case k db \<longrightarrow> cc_id c \<notin> cc_id ` set (cases db))"
proof (cases "find (\<lambda>c. cc_invoice_id c = k \<and> cc_status c = C_open) (cases db)")
  case (Some c)
  with find_SomeD [OF Some] show ?thesis by (auto simp: open_case_def has_open_case_def)
next
  case None
  then have no: "\<not> has_open_case k db" by (auto simp: find_None_iff has_open_case_def)
  have id: "cc_id (new_case uuid now k db) \<notin> cc_id ` set (cases db)"
    using assms(2) by (simp add: new_case_def fresh_def) (metis set_map)
  moreover have "one_open_case (cases db @ [new_case uuid now k db])"
    using assms(1) no by (auto simp: one_open_case_snoc ledger_wf_def new_case_def has_open_case_def)
  ultimately have "sql_insert_case (new_case uuid now k db) db =
      Inr (db\<lparr>cases := cases db @ [new_case uuid now k db]\<rparr>)"
    using assms(3) by (simp add: sql_insert_Inr_iffs new_case_def)
  with None no id show ?thesis
    by (intro exI [of _ "new_case uuid now k db"]) (simp add: open_case_def new_case_def)
qed

lemma enter_collection_ok:
  assumes "ledger_wf db" and "invoice_of k db = Some r"
    and "inv_status r \<in> {I_partial_paid, I_overdue, I_in_collection}"
  shows "\<exists>t r'. enter_collection now k r db = Inr (db\<lparr>invoices := t\<rparr>)
    \<and> find_row inv_id k t = Some r' \<and> inv_status r' = I_in_collection
    \<and> inv_due_date r' = inv_due_date r \<and> map inv_id t = map inv_id (invoices db)
    \<and> (\<forall>j. j \<noteq> k \<longrightarrow> find_row inv_id j t = invoice_of j db)"
proof (cases "inv_status r = I_in_collection")
  case True
  with assms(2) show ?thesis
    by (intro exI [of _ "invoices db"] exI [of _ r]) (simp add: enter_collection_def invoice_of_def)
next
  case False
  have "guard_invoice_status_transition (inv_status r) I_in_collection"
    using assms(3) by (auto simp: guard_invoice_status_transition_def)
  from set_status_ok [OF assms(1,2) this] False assms(2) show ?thesis
    by (intro exI [of _ "update_where (\<lambda>r. inv_id r = k) (set_status now I_in_collection) (invoices db)"]
        exI [of _ "set_status now I_in_collection r"])
       (simp add: enter_collection_def invoice_of_def set_status.find_update_self
        set_status.find_update_other set_status.keys_update)
qed

lemma enter_collection_fails:
  assumes "invoice_of k db = Some r" and "inv_status r \<notin> {I_partial_paid, I_overdue, I_in_collection}"
  shows "\<exists>e. enter_collection now k r db = Inl e"
proof -
  have "\<not> guard_invoice_status_transition (inv_status r) I_in_collection"
    using assms(2) by (cases "inv_status r") (simp_all add: guard_invoice_status_transition_def)
  with assms show ?thesis
    by (cases "sql_update_invoice_status now k I_in_collection db")
       (auto simp: enter_collection_def sql_update_invoice_status_def sql_update_invoice_Inr
        invoice_of_def dest: find_row_SomeD)
qed

lemma transition_fails:
  assumes "invoice_of k db = Some r" and "inv_status r \<notin> {I_partial_paid, I_overdue, I_in_collection}"
  shows "\<exists>e. transitionInvoiceToCollection uuid now k db = Inl e"
  using enter_collection_fails [OF assms, of now] assms(1)
  by (auto simp: transitionInvoiceToCollection_def)

lemma transition_spec:
  assumes "ledger_wf db" and "fresh uuid" and "invoice_of k db = Some r"
    and "inv_status r \<in> {I_partial_paid, I_overdue, I_in_collection}"
  shows "\<exists>c t r'. transitionInvoiceToCollection uuid now k db =
      Inr (c, db\<lparr>invoices := t, cases := (if has_open_case k db then cases db else cases db @ [c])\<rparr>)
    \<and> find_row inv_id k t = Some r' \<and> inv_status r' = I_in_collection
    \<and> inv_due_date r' = inv_due_date r \<and> map inv_id t = map inv_id (invoices db)
    \<and> (\<forall>j. j \<noteq> k \<longrightarrow> find_row inv_id j t = invoice_of j db)
    \<and> cc_invoice_id c = k \<and> cc_status c = C_open
    \<and> (if has_open_case k db then c \<in> set (cases db) else cc_id c \<notin> cc_id ` set (cases db))"
proof -
  obtain t r' where t: "enter_collection now k r db = Inr (db\<lparr>invoices := t\<rparr>)"
    "find_row inv_id k t = Some r'" "inv_status r' = I_in_collection"
    "inv_due_date r' = inv_due_date r" "map inv_id t = map inv_id (invoices db)"
    "\<forall>j. j \<noteq> k \<longrightarrow> find_row inv_id j t = invoice_of j db"
    using enter_collection_ok [OF assms(1,3,4)] by blast
  let ?db1 = "db\<lparr>invoices := t\<rparr>"
  have "ledger_wf ?db1"
    using keeps_enter_collection [OF t(1)] assms(1) by (simp add: keeps_def)
  moreover have "k \<in> inv_id ` set (invoices ?db1)"
    using t(2) by (auto dest: find_row_SomeD)
  moreover have open_iff: "has_open_case k ?db1 = has_open_case k db"
    by (simp add: has_open_case_def)
  ultimately obtain c where "open_case uuid now k ?db1 =
      Inr (c, if has_open_case k db then ?db1 else ?db1\<lparr>cases := cases db @ [c]\<rparr>)"
    "cc_invoice_id c = k" "cc_status c = C_open" "has_open_case k db \<longrightarrow> c \<in> set (cases db)"
    "\<not> has_open_case k db \<longrightarrow> cc_id c \<notin> cc_id ` set (cases db)"
    using open_case_spec [of ?db1 uuid k now] assms(2) by auto
  with t assms(3) show ?thesis
    by (intro exI [of _ c] exI [of _ t] exI [of _ r'])
       (auto simp: transitionInvoiceToCollection_def)
qed

section \<open>The effect of a run\<close>

definition acts :: "ledger \<Rightarrow> (string \<times> DunningActionType) list" where
  "acts db = map (\<lambda>a. (dun_invoice_id a, dun_action_type a)) (dunning_actions db)"

lemma hasDunningAction_iff: "hasDunningAction k ty db \<longleftrightarrow> (k, ty) \<in> set (acts db)"
  by (auto simp: hasDunningAction_def acts_def list_ex_iff)

definition collectable :: "string \<Rightarrow> ledger \<Rightarrow> bool" where
  "collectable k db \<longleftrightarrow> (case invoice_of k db of None \<Rightarrow> False
     | Some r \<Rightarrow> inv_status r \<in> {I_partial_paid, I_overdue, I_in_collection})"

text \<open>What a run leaves alone: which invoices are dunned, since when, and which are paused.\<close>

definition dun_frame :: "ledger \<Rightarrow> ledger \<Rightarrow> bool" where
  "dun_frame db db' \<longleftrightarrow>
     map (\<lambda>r. (inv_id r, inv_due_date r, inv_status r \<in> {I_paid, I_settled, I_written_off, I_draft})) (invoices db')
       = map (\<lambda>r. (inv_id r, inv_due_date r, inv_status r \<in> {I_paid, I_settled, I_written_off, I_draft})) (invoices db)
     \<and> (\<forall>k. has_active_payment_plan k db' = has_active_payment_plan k db)"

definition status_of :: "string \<Rightarrow> ledger \<Rightarrow> InvoiceStatus option" where
  "status_of k db = map_option inv_status (invoice_of k db)"

lemma invoice_exists_iff: "k \<in> inv_id ` set (invoices db) \<longleftrightarrow> status_of k db \<noteq> None"
  using find_row_None_iff [of inv_id k "invoices db"] by (simp add: status_of_def invoice_of_def)

lemma collectable_status:
  "collectable k db \<longleftrightarrow> status_of k db \<in> Some ` {I_partial_paid, I_overdue, I_in_collection}"
  by (auto simp: collectable_def status_of_def split: option.splits)

text \<open>The effect of recording the set \<open>D\<close> of actions.\<close>

definition escalated :: "(string \<times> DunningActionType) set \<Rightarrow> ledger \<Rightarrow> string \<Rightarrow> bool" where
  "escalated D db k \<longleftrightarrow>
     (k, Collection_d30) \<in> D \<and> (k, Collection_d30) \<notin> set (acts db) \<and> collectable k db"

definition dun_effect :: "(string \<times> DunningActionType) set \<Rightarrow> ledger \<Rightarrow> ledger \<Rightarrow> bool" where
  "dun_effect D db db' \<longleftrightarrow> ledger_wf db' \<and> set (acts db') = set (acts db) \<union> D
     \<and> (distinct (acts db) \<longrightarrow> distinct (acts db'))
     \<and> (\<forall>k. status_of k db' = (if escalated D db k then Some I_in_collection else status_of k db))
     \<and> (\<forall>k. has_open_case k db' \<longleftrightarrow> has_open_case k db \<or> escalated D db k)
     \<and> dun_frame db db'"

lemma dun_effect_done: "ledger_wf db \<Longrightarrow> D \<subseteq> set (acts db) \<Longrightarrow> dun_effect D db db"
  by (auto simp: dun_effect_def escalated_def dun_frame_def)

lemma dun_effect_trans:
  assumes "dun_effect D a b" and "dun_effect E b c"
  shows "dun_effect (D \<union> E) a c"
proof -
  have "escalated (D \<union> E) a k \<longleftrightarrow> escalated D a k \<or> escalated E b k" for k
    using assms(1) by (auto simp: dun_effect_def escalated_def collectable_status)
  moreover have "escalated D a k \<Longrightarrow> \<not> escalated E b k" for k
    using assms(1) by (auto simp: dun_effect_def escalated_def)
  ultimately show ?thesis
    using assms by (auto simp: dun_effect_def dun_frame_def)
qed

lemma createDunningAction_ok:
  assumes "ledger_wf db" and "fresh uuid" and "k \<in> inv_id ` set (invoices db)"
  shows "\<exists>a. createDunningAction uuid now k ty sched resp db =
      Inr (a, db\<lparr>dunning_actions := dunning_actions db @ [a]\<rparr>)
    \<and> dun_invoice_id a = k \<and> dun_action_type a = ty
    \<and> ledger_wf (db\<lparr>dunning_actions := dunning_actions db @ [a]\<rparr>)"
proof -
  let ?a = "\<lparr>dun_id = uuid (map dun_id (dunning_actions db)), dun_invoice_id = k,
    dun_action_type = ty, dun_scheduled_at = sched, dun_sent_at = Some now,
    dun_response = resp, dun_created_at = now\<rparr>"
  have "dun_id ?a \<notin> dun_id ` set (dunning_actions db)"
    using assms(2) by (simp add: fresh_def) (metis set_map)
  then have ins: "sql_insert_dunning ?a db = Inr (db\<lparr>dunning_actions := dunning_actions db @ [?a]\<rparr>)"
    using assms(3) by (simp add: sql_insert_Inr_iffs)
  show ?thesis
    using ins wf_sql_insert(3) [OF assms(1) ins] by (auto simp: createDunningAction_def Let_def)
qed

lemma create_effect:
  assumes "ledger_wf db" and "fresh uuid" and "k \<in> inv_id ` set (invoices db)"
    and "(k, ty) \<notin> set (acts db)" and "ty \<noteq> Collection_d30 \<or> \<not> collectable k db"
  shows "\<exists>a db'. createDunningAction uuid now k ty sched resp db = Inr (a, db')
    \<and> dun_effect {(k, ty)} db db'"
proof -
  obtain a where "createDunningAction uuid now k ty sched resp db =
      Inr (a, db\<lparr>dunning_actions := dunning_actions db @ [a]\<rparr>)"
    "dun_invoice_id a = k" "dun_action_type a = ty"
    "ledger_wf (db\<lparr>dunning_actions := dunning_actions db @ [a]\<rparr>)"
    using createDunningAction_ok [OF assms(1-3)] by blast
  moreover from this have "dun_effect {(k, ty)} db (db\<lparr>dunning_actions := dunning_actions db @ [a]\<rparr>)"
    using assms(4,5)
    by (auto simp: dun_effect_def escalated_def acts_def status_of_def invoice_of_def
        has_open_case_def dun_frame_def has_active_payment_plan_def)
  ultimately show ?thesis by blast
qed

lemma enter_collection_frame:
  assumes "enter_collection now k r db = Inr db'"
  shows "dun_frame db db' \<and> dunning_actions db' = dunning_actions db \<and> cases db' = cases db
    \<and> plans db' = plans db"
proof -
  have closed: "inv_status x \<notin> {I_paid, I_settled, I_written_off, I_draft}"
    if "guard_invoice_status_transition (inv_status x) I_in_collection" for x :: invoice_row
    using that by (cases "inv_status x") (auto simp: guard_invoice_status_transition_def)
  show ?thesis
    using assms closed
    by (auto simp: enter_collection_def sql_update_invoice_status_def sql_update_invoice_Inr
        dun_frame_def has_active_payment_plan_def update_where_def split: if_splits)
qed

lemma no_plan_for_new_case:
  assumes "ledger_wf db" and "cc_id c \<notin> cc_id ` set (cases db)"
  shows "has_active_payment_plan k (db\<lparr>cases := cases db @ [c]\<rparr>) = has_active_payment_plan k db"
proof -
  have "\<forall>p \<in> set (plans db). pp_case_id p \<noteq> cc_id c"
    using assms unfolding wf_defs by (metis image_eqI subsetD)
  then show ?thesis by (auto simp: has_active_payment_plan_def list_ex_iff)
qed

lemma transition_effect:
  assumes "ledger_wf db" and "fresh uuid" and "collectable k db"
  shows "\<exists>c db'. transitionInvoiceToCollection uuid now k db = Inr (c, db') \<and> ledger_wf db'
    \<and> acts db' = acts db \<and> dun_frame db db'
    \<and> (\<forall>j. status_of j db' = (if j = k then Some I_in_collection else status_of j db))
    \<and> (\<forall>j. has_open_case j db' \<longleftrightarrow> has_open_case j db \<or> j = k)"
proof -
  obtain r where r: "invoice_of k db = Some r"
    "inv_status r \<in> {I_partial_paid, I_overdue, I_in_collection}"
    using assms(3) by (auto simp: collectable_def split: option.splits)
  obtain t r' where t: "enter_collection now k r db = Inr (db\<lparr>invoices := t\<rparr>)"
    "find_row inv_id k t = Some r'" "inv_status r' = I_in_collection"
    "\<forall>j. j \<noteq> k \<longrightarrow> find_row inv_id j t = invoice_of j db"
    using enter_collection_ok [OF assms(1) r] by blast
  let ?db1 = "db\<lparr>invoices := t\<rparr>"
  have wf1: "ledger_wf ?db1"
    using keeps_enter_collection [OF t(1)] assms(1) by (simp add: keeps_def)
  have frame1: "dun_frame db ?db1" using enter_collection_frame [OF t(1)] by simp
  have "k \<in> inv_id ` set (invoices ?db1)" using t(2) by (auto dest: find_row_SomeD)
  then obtain c where c: "open_case uuid now k ?db1 =
      Inr (c, if has_open_case k ?db1 then ?db1 else ?db1\<lparr>cases := cases ?db1 @ [c]\<rparr>)"
    "cc_invoice_id c = k" "cc_status c = C_open"
    "\<not> has_open_case k ?db1 \<longrightarrow> cc_id c \<notin> cc_id ` set (cases ?db1)"
    using open_case_spec [OF wf1 assms(2)] by blast
  let ?db2 = "if has_open_case k ?db1 then ?db1 else ?db1\<lparr>cases := cases ?db1 @ [c]\<rparr>"
  have wf2: "ledger_wf ?db2" using keeps_open_case [OF c(1)] wf1 by (simp add: keeps_def)
  have frame2: "dun_frame db ?db2"
    using frame1 no_plan_for_new_case [OF wf1] c(4) by (auto simp: dun_frame_def)
  have stat: "status_of j ?db2 = (if j = k then Some I_in_collection else status_of j db)" for j
    using t(2-4) by (simp add: status_of_def invoice_of_def)
  have opn: "has_open_case j ?db2 \<longleftrightarrow> has_open_case j db \<or> j = k" for j
    using c(2,3) by (auto simp: has_open_case_def)
  have run: "transitionInvoiceToCollection uuid now k db = Inr (c, ?db2)"
    using r(1) t(1) c(1) by (simp add: transitionInvoiceToCollection_def)
  have "acts ?db2 = acts db" by (simp add: acts_def)
  with run wf2 frame2 stat opn show ?thesis by blast
qed

lemma escalate_effect:
  assumes "ledger_wf db" and "fresh uuid" and "collectable k db"
    and "(k, Collection_d30) \<notin> set (acts db)"
  shows "\<exists>c db1 a db2. transitionInvoiceToCollection uuid now k db = Inr (c, db1)
    \<and> createDunningAction uuid now k Collection_d30 sched resp db1 = Inr (a, db2)
    \<and> dun_effect {(k, Collection_d30)} db db2"
proof -
  obtain c db1 where 1: "transitionInvoiceToCollection uuid now k db = Inr (c, db1)" "ledger_wf db1"
    "acts db1 = acts db" "dun_frame db db1"
    "\<forall>j. status_of j db1 = (if j = k then Some I_in_collection else status_of j db)"
    "\<forall>j. has_open_case j db1 \<longleftrightarrow> has_open_case j db \<or> j = k"
    using transition_effect [OF assms(1-3)] by blast
  have "k \<in> inv_id ` set (invoices db1)"
    using 1(5) by (auto simp: invoice_exists_iff)
  then obtain a where a: "createDunningAction uuid now k Collection_d30 sched resp db1 =
      Inr (a, db1\<lparr>dunning_actions := dunning_actions db1 @ [a]\<rparr>)"
    "dun_invoice_id a = k" "dun_action_type a = Collection_d30"
    "ledger_wf (db1\<lparr>dunning_actions := dunning_actions db1 @ [a]\<rparr>)"
    using createDunningAction_ok [OF 1(2) assms(2)] by blast
  let ?db2 = "db1\<lparr>dunning_actions := dunning_actions db1 @ [a]\<rparr>"
  have same: "status_of j ?db2 = status_of j db1" "has_open_case j ?db2 = has_open_case j db1"
    "has_active_payment_plan j ?db2 = has_active_payment_plan j db1" for j
    by (simp_all add: status_of_def invoice_of_def has_open_case_def has_active_payment_plan_def)
  have ac: "acts ?db2 = acts db @ [(k, Collection_d30)]"
    using 1(3) a(2,3) by (simp add: acts_def)
  have "dun_effect {(k, Collection_d30)} db ?db2"
    unfolding dun_effect_def ac using a(4) 1(4-6) assms(3,4)
    by (simp add: escalated_def dun_frame_def same) blast
  with 1(1) a(1) show ?thesis by blast
qed

text \<open>The actions due for a listed invoice.\<close>

definition due_for :: "OverdueInvoiceRow \<Rightarrow> DunningMilestone list \<Rightarrow> (string \<times> DunningActionType) set" where
  "due_for row ms =
     (\<lambda>m. (od_id row, ms_action_type m)) ` {m \<in> set ms. ms_min_days m \<le> od_days_overdue row}"

lemma milestone_effect:
  assumes "ledger_wf db" and "fresh uuid" and "status_of (od_id row) db \<noteq> None"
    and "set ex = {ty. (od_id row, ty) \<in> set (acts db)}"
  shows "\<exists>ex' db' st'. dunning_milestone uuid now row m (ex, db, st) = Inr (ex', db', st')
    \<and> dun_effect (due_for row [m]) db db' \<and> set ex' = {ty. (od_id row, ty) \<in> set (acts db')}"
proof (cases "od_days_overdue row < ms_min_days m \<or> ms_action_type m \<in> set ex")
  case True
  then have "dunning_milestone uuid now row m (ex, db, st) = Inr (ex, db, st)"
    by (auto simp: dunning_milestone_def)
  moreover have "dun_effect (due_for row [m]) db db"
    using True assms(4) by (intro dun_effect_done [OF assms(1)]) (auto simp: due_for_def)
  ultimately show ?thesis using assms(4) by blast
next
  case False
  let ?k = "od_id row" and ?ty = "ms_action_type m"
  from False have due: "due_for row [m] = {(?k, ?ty)}" by (auto simp: due_for_def)
  from False assms(4) have new: "(?k, ?ty) \<notin> set (acts db)" by simp
  have result: ?thesis if "dunning_milestone uuid now row m (ex, db, st) = Inr (?ty # ex, db', st')"
    and "dun_effect {(?k, ?ty)} db db'" for db' st'
    by (rule exI [of _ "?ty # ex"], rule exI [of _ db'], rule exI [of _ st'])
       (use that due assms(4) in \<open>auto simp: dun_effect_def\<close>)
  show ?thesis
  proof (cases "?ty = Collection_d30 \<and> collectable ?k db")
    case True
    then obtain c db1 a db2 where "transitionInvoiceToCollection uuid now ?k db = Inr (c, db1)"
      "createDunningAction uuid now ?k ?ty (Some now) None db1 = Inr (a, db2)"
      "dun_effect {(?k, ?ty)} db db2"
      using escalate_effect [OF assms(1,2)] new by metis
    with False True result [of db2] show ?thesis by (simp add: dunning_milestone_def)
  next
    case no: False
    obtain r where r: "invoice_of ?k db = Some r" using assms(3) by (auto simp: status_of_def)
    have fails: "\<exists>e. transitionInvoiceToCollection uuid now ?k db = Inl e" if "?ty = Collection_d30"
      using that no r transition_fails [OF r] by (simp add: collectable_def)
    obtain a db' where "createDunningAction uuid now ?k ?ty (Some now) None db = Inr (a, db')"
      "dun_effect {(?k, ?ty)} db db'"
      using create_effect [OF assms(1,2) _ new] no assms(3) by (metis invoice_exists_iff)
    with False fails result [of db'] show ?thesis by (cases "?ty = Collection_d30") (auto simp: dunning_milestone_def)
  qed
qed

lemma due_for_Cons: "due_for row (m # ms) = due_for row [m] \<union> due_for row ms"
  by (auto simp: due_for_def)

lemma dun_effect_exists: "dun_effect D db db' \<Longrightarrow> status_of k db \<noteq> None \<Longrightarrow> status_of k db' \<noteq> None"
  by (auto simp: dun_effect_def)

lemma dun_effect_wf: "dun_effect D db db' \<Longrightarrow> ledger_wf db'"
  by (simp add: dun_effect_def)

lemma milestones_effect:
  assumes "ledger_wf db" and "fresh uuid" and "status_of (od_id row) db \<noteq> None"
    and "set ex = {ty. (od_id row, ty) \<in> set (acts db)}"
  shows "\<exists>ex' db' st'. fold_res (dunning_milestone uuid now row) ms (ex, db, st) = Inr (ex', db', st')
    \<and> dun_effect (due_for row ms) db db'"
  using assms(1,3,4)
proof (induction ms arbitrary: ex db st)
  case Nil
  then show ?case by (auto simp: due_for_def intro: dun_effect_done)
next
  case (Cons m ms)
  obtain ex1 db1 st1 where 1: "dunning_milestone uuid now row m (ex, db, st) = Inr (ex1, db1, st1)"
    "dun_effect (due_for row [m]) db db1" "set ex1 = {ty. (od_id row, ty) \<in> set (acts db1)}"
    using milestone_effect [OF Cons.prems(1) assms(2) Cons.prems(2,3)] by blast
  then obtain ex2 db2 st2 where
    "fold_res (dunning_milestone uuid now row) ms (ex1, db1, st1) = Inr (ex2, db2, st2)"
    "dun_effect (due_for row ms) db1 db2"
    using Cons.IH [OF dun_effect_wf [OF 1(2)] dun_effect_exists [OF 1(2) Cons.prems(2)] 1(3), of st1]
    by blast
  with 1 dun_effect_trans [OF 1(2)] show ?case
    unfolding due_for_Cons [of row m ms] by simp
qed

definition due_rows :: "OverdueInvoiceRow list \<Rightarrow> (string \<times> DunningActionType) set" where
  "due_rows rows = (\<Union>row \<in> {row \<in> set rows. \<not> od_has_active_payment_plan row}. due_for row DUNNING_MILESTONES)"

definition due_actions :: "timestamp \<Rightarrow> ledger \<Rightarrow> (string \<times> DunningActionType) set" where
  "due_actions now db = due_rows (listOverdueInvoicesForDunning now db)"

lemma all_action_types: "ty \<in> ms_action_type ` set DUNNING_MILESTONES"
  by (cases ty) (simp_all add: DUNNING_MILESTONES_def)

lemma invoice_effect:
  assumes "ledger_wf db" and "fresh uuid" and "status_of (od_id row) db \<noteq> None"
  shows "\<exists>db' st'. dunning_invoice uuid now row (db, st) = Inr (db', st')
    \<and> dun_effect (due_rows [row]) db db'"
proof (cases "od_has_active_payment_plan row")
  case True
  then show ?thesis
    using assms(1) by (auto simp: dunning_invoice_def due_rows_def intro: dun_effect_done)
next
  case False
  let ?ex = "filter (\<lambda>ty. hasDunningAction (od_id row) ty db) (map ms_action_type DUNNING_MILESTONES)"
  have "set ?ex = {ty. (od_id row, ty) \<in> set (acts db)}"
    using all_action_types by (auto simp: hasDunningAction_iff)
  moreover have "due_rows [row] = due_for row DUNNING_MILESTONES"
    using False by (auto simp: due_rows_def)
  ultimately show ?thesis
    using milestones_effect [OF assms, of ?ex now DUNNING_MILESTONES st] False
    by (auto simp: dunning_invoice_def Let_def)
qed

lemma rows_effect:
  assumes "ledger_wf db" and "fresh uuid" and "\<forall>row \<in> set rows. status_of (od_id row) db \<noteq> None"
  shows "\<exists>db' st'. fold_res (dunning_invoice uuid now) rows (db, st) = Inr (db', st')
    \<and> dun_effect (due_rows rows) db db'"
  using assms(1,3)
proof (induction rows arbitrary: db st)
  case Nil
  then show ?case by (auto simp: due_rows_def intro: dun_effect_done)
next
  case (Cons row rows)
  obtain db1 st1 where 1: "dunning_invoice uuid now row (db, st) = Inr (db1, st1)"
    "dun_effect (due_rows [row]) db db1"
    using invoice_effect [OF Cons.prems(1) assms(2)] Cons.prems(2) by force
  then obtain db2 st2 where "fold_res (dunning_invoice uuid now) rows (db1, st1) = Inr (db2, st2)"
    "dun_effect (due_rows rows) db1 db2"
    using Cons.IH [OF dun_effect_wf [OF 1(2)]] Cons.prems(2) dun_effect_exists [OF 1(2)]
    by (metis list.set_intros(2))
  moreover have "due_rows (row # rows) = due_rows [row] \<union> due_rows rows"
    by (auto simp: due_rows_def)
  ultimately show ?case using 1 dun_effect_trans [OF 1(2)] by simp
qed

lemma listed_exist:
  "row \<in> set (listOverdueInvoicesForDunning now db) \<Longrightarrow> status_of (od_id row) db \<noteq> None"
  unfolding invoice_exists_iff [symmetric]
  by (auto simp: listOverdueInvoicesForDunning_def overdue_row_def)

lemma job_effect:
  assumes "ledger_wf db" and "fresh uuid"
  shows "\<exists>st db'. dunningEngineJob uuid now db = Inr (st, db') \<and> dun_effect (due_actions now db) db db'"
proof -
  have "\<forall>row \<in> set (listOverdueInvoicesForDunning now db). status_of (od_id row) db \<noteq> None"
    using listed_exist by blast
  from rows_effect [OF assms this, of now "\<lparr>ds_actions_created = 0, ds_invoices_skipped = 0,
      ds_cases_opened = 0\<rparr>"]
  show ?thesis by (elim exE conjE) (simp add: dunningEngineJob_def due_actions_def)
qed

section \<open>Properties\<close>

lemma rows_idle:
  assumes "due_rows rows \<subseteq> set (acts db)"
  shows "\<exists>n. fold_res (dunning_invoice uuid now) rows (db, st) =
    Inr (db, st\<lparr>ds_invoices_skipped := n\<rparr>)"
  using assms
proof (induction rows arbitrary: st)
  case Nil
  then show ?case by (intro exI [of _ "ds_invoices_skipped st"]) simp
next
  case (Cons row rows)
  have rest: "due_rows rows \<subseteq> set (acts db)" using Cons.prems by (auto simp: due_rows_def)
  have "\<exists>n. dunning_invoice uuid now row (db, st) = Inr (db, st\<lparr>ds_invoices_skipped := n\<rparr>)"
  proof (cases "od_has_active_payment_plan row")
    case True
    then show ?thesis by (auto simp: dunning_invoice_def)
  next
    case False
    then have sub: "due_for row DUNNING_MILESTONES \<subseteq> set (acts db)"
      using Cons.prems by (auto simp: due_rows_def)
    let ?ex = "filter (\<lambda>ty. hasDunningAction (od_id row) ty db) (map ms_action_type DUNNING_MILESTONES)"
    have "dunning_milestone uuid now row m (?ex, db, st) = Inr (?ex, db, st)"
      if m: "m \<in> set DUNNING_MILESTONES" for m
    proof (cases "od_days_overdue row < ms_min_days m")
      case False
      then have "(od_id row, ms_action_type m) \<in> due_for row DUNNING_MILESTONES"
        using m by (auto simp: due_for_def)
      with sub m have "ms_action_type m \<in> set ?ex" by (auto simp: hasDunningAction_iff)
      then show ?thesis by (simp add: dunning_milestone_def)
    qed (simp add: dunning_milestone_def)
    then have "fold_res (dunning_milestone uuid now row) DUNNING_MILESTONES (?ex, db, st) = Inr (?ex, db, st)"
      by (rule fold_res_skip)
    with False show ?thesis
      by (intro exI [of _ "ds_invoices_skipped st"]) (simp add: dunning_invoice_def Let_def)
  qed
  then obtain n where "dunning_invoice uuid now row (db, st) = Inr (db, st\<lparr>ds_invoices_skipped := n\<rparr>)" ..
  with Cons.IH [OF rest, of "st\<lparr>ds_invoices_skipped := n\<rparr>"] show ?case by simp
qed

text \<open>What is due, read off the tables: the invoice is past due and neither closed nor a draft, no
  current payment plan on an open case pauses it, and enough days have passed.\<close>

fun milestone_days :: "DunningActionType \<Rightarrow> int" where
  "milestone_days Reminder_d1 = 1"
| "milestone_days Second_notice_d7 = 7"
| "milestone_days Firm_notice_d14 = 14"
| "milestone_days Collection_d30 = 30"

definition dunning_due :: "timestamp \<Rightarrow> ledger \<Rightarrow> string \<Rightarrow> DunningActionType \<Rightarrow> bool" where
  "dunning_due now db k ty \<longleftrightarrow> (\<exists>r \<in> set (invoices db). inv_id r = k \<and> dunnable now r
     \<and> \<not> has_active_payment_plan k db \<and> milestone_days ty \<le> days_overdue now (the (inv_due_date r)))"

lemma milestone_iff:
  "(\<exists>m \<in> set DUNNING_MILESTONES. ms_action_type m = ty \<and> ms_min_days m \<le> d) \<longleftrightarrow> milestone_days ty \<le> d"
  by (cases ty) (simp_all add: DUNNING_MILESTONES_def)

lemma due_actions_iff: "(k, ty) \<in> due_actions now db \<longleftrightarrow> dunning_due now db k ty"
proof -
  have "(k, ty) \<in> due_actions now db \<longleftrightarrow> (\<exists>r \<in> set (invoices db). dunnable now r \<and> inv_id r = k
      \<and> \<not> has_active_payment_plan (inv_id r) db \<and> (\<exists>m \<in> set DUNNING_MILESTONES. ms_action_type m = ty
      \<and> ms_min_days m \<le> days_overdue now (the (inv_due_date r))))"
    by (auto simp: due_actions_def due_rows_def due_for_def listOverdueInvoicesForDunning_def
        overdue_row_def)
  then show ?thesis by (auto simp: dunning_due_def milestone_iff)
qed

lemma dunning_due_rows:
  "dunning_due now db k ty \<longleftrightarrow> (\<exists>d. (k, Some d, False) \<in> set (map (\<lambda>r. (inv_id r, inv_due_date r,
       inv_status r \<in> {I_paid, I_settled, I_written_off, I_draft})) (invoices db))
     \<and> d < current_date now \<and> \<not> has_active_payment_plan k db \<and> milestone_days ty \<le> days_overdue now d)"
proof
  assume "dunning_due now db k ty"
  then show "\<exists>d. (k, Some d, False) \<in> set (map (\<lambda>r. (inv_id r, inv_due_date r,
       inv_status r \<in> {I_paid, I_settled, I_written_off, I_draft})) (invoices db))
     \<and> d < current_date now \<and> \<not> has_active_payment_plan k db \<and> milestone_days ty \<le> days_overdue now d"
    by (auto simp: dunning_due_def dunnable_def image_iff split: option.splits) force+
next
  assume "\<exists>d. (k, Some d, False) \<in> set (map (\<lambda>r. (inv_id r, inv_due_date r,
       inv_status r \<in> {I_paid, I_settled, I_written_off, I_draft})) (invoices db))
     \<and> d < current_date now \<and> \<not> has_active_payment_plan k db \<and> milestone_days ty \<le> days_overdue now d"
  then obtain d r where "r \<in> set (invoices db)" "inv_id r = k" "inv_due_date r = Some d"
    "inv_status r \<notin> {I_paid, I_settled, I_written_off, I_draft}" "d < current_date now"
    "\<not> has_active_payment_plan k db" "milestone_days ty \<le> days_overdue now d"
    by (force simp: image_iff)
  then show "dunning_due now db k ty"
    unfolding dunning_due_def dunnable_def by (intro bexI [of _ r]) auto
qed

lemma dun_frame_due:
  assumes "dun_frame db db'"
  shows "due_actions now db' = due_actions now db"
proof -
  have "dunning_due now db' k ty = dunning_due now db k ty" for k ty
    using assms unfolding dun_frame_def dunning_due_rows by presburger
  then show ?thesis by (auto simp: due_actions_iff)
qed

text \<open>The new actions of a run that takes the invoices in the order \<open>rs\<close>: invoice by invoice, and for each by milestone.\<close>

definition dunning_agenda :: "timestamp \<Rightarrow> ledger \<Rightarrow> invoice_row list \<Rightarrow> (string \<times> DunningActionType) list" where
  "dunning_agenda now db rs =
     concat (map (\<lambda>r. map (Pair (inv_id r)) (filter (\<lambda>ty. \<not> has_active_payment_plan (inv_id r) db
         \<and> milestone_days ty \<le> days_overdue now (the (inv_due_date r)) \<and> (inv_id r, ty) \<notin> set (acts db))
         [Reminder_d1, Second_notice_d7, Firm_notice_d14, Collection_d30])) rs)"

lemma acts_enter_collection: "enter_collection now k r db = Inr db' \<Longrightarrow> acts db' = acts db"
  by (auto simp: enter_collection_def acts_def sql_update_invoice_status_def sql_update_invoice_Inr
      split: if_splits option.splits)

lemma acts_transition: "transitionInvoiceToCollection uuid now k db = Inr (c, db') \<Longrightarrow> acts db' = acts db"
  by (auto simp: transitionInvoiceToCollection_def bind_res_Inr_iff open_case_def sql_insert_Inr_iffs acts_def
      dest!: acts_enter_collection split: option.splits)

lemma acts_create:
  "createDunningAction uuid now k ty sched resp db = Inr (a, db') \<Longrightarrow> acts db' = acts db @ [(k, ty)]"
  by (auto simp: createDunningAction_def bind_res_Inr_iff sql_insert_Inr_iffs acts_def Let_def)

definition fires :: "OverdueInvoiceRow \<Rightarrow> DunningActionType set \<Rightarrow> DunningMilestone \<Rightarrow> bool" where
  "fires row ex m \<longleftrightarrow> ms_min_days m \<le> od_days_overdue row \<and> ms_action_type m \<notin> ex"

lemma milestone_order:
  assumes "dunning_milestone uuid now row m (ex, db, st) = Inr (ex', db', st')"
  shows "acts db' = acts db @ (if fires row (set ex) m then [(od_id row, ms_action_type m)] else [])
    \<and> set ex' \<subseteq> insert (ms_action_type m) (set ex) \<and> set ex \<subseteq> set ex'"
  using assms
  by (auto simp: dunning_milestone_def fires_def split: if_splits sum.splits prod.splits dest!: acts_create acts_transition)

lemma milestones_order:
  assumes "fold_res (dunning_milestone uuid now row) ms (ex, db, st) = Inr (ex', db', st')"
    and "distinct (map ms_action_type ms)"
  shows "acts db' = acts db @ map (\<lambda>m. (od_id row, ms_action_type m)) (filter (fires row (set ex)) ms)"
  using assms
proof (induction ms arbitrary: ex db st)
  case (Cons m ms)
  obtain ex1 db1 st1 where 1: "dunning_milestone uuid now row m (ex, db, st) = Inr (ex1, db1, st1)"
    "fold_res (dunning_milestone uuid now row) ms (ex1, db1, st1) = Inr (ex', db', st')"
    using Cons.prems(1) by (auto simp: bind_res_Inr_iff)
  have "fires row (set ex1) x = fires row (set ex) x" if "x \<in> set ms" for x
  proof -
    have "ms_action_type x \<noteq> ms_action_type m" using Cons.prems(2) that by (metis distinct.simps(2) image_eqI list.set_map list.simps(9))
    then show ?thesis using milestone_order [OF 1(1)] unfolding fires_def by blast
  qed
  then have "filter (fires row (set ex1)) ms = filter (fires row (set ex)) ms" by (intro filter_cong refl)
  with Cons.IH [OF 1(2)] milestone_order [OF 1(1)] Cons.prems(2) show ?case by simp
qed simp

definition row_agenda :: "(string \<times> DunningActionType) set \<Rightarrow> OverdueInvoiceRow \<Rightarrow> (string \<times> DunningActionType) list" where
  "row_agenda A row = (if od_has_active_payment_plan row then []
     else map (\<lambda>m. (od_id row, ms_action_type m)) (filter (fires row {ty. (od_id row, ty) \<in> A}) DUNNING_MILESTONES))"

lemma invoice_order:
  assumes "dunning_invoice uuid now row (db, st) = Inr (db', st')"
  shows "acts db' = acts db @ row_agenda (set (acts db)) row"
proof (cases "od_has_active_payment_plan row")
  case False
  let ?ex = "filter (\<lambda>ty. hasDunningAction (od_id row) ty db) (map ms_action_type DUNNING_MILESTONES)"
  have "set ?ex = {ty. (od_id row, ty) \<in> set (acts db)}"
    using all_action_types by (auto simp: hasDunningAction_iff)
  moreover have "distinct (map ms_action_type DUNNING_MILESTONES)" by (simp add: DUNNING_MILESTONES_def)
  moreover obtain ex' where "fold_res (dunning_milestone uuid now row) DUNNING_MILESTONES (?ex, db, st) = Inr (ex', db', st')"
    using assms False by (auto simp: dunning_invoice_def bind_res_Inr_iff Let_def)
  ultimately show ?thesis using milestones_order False by (metis row_agenda_def)
qed (use assms in \<open>simp add: dunning_invoice_def row_agenda_def\<close>)

lemma rows_order:
  assumes "fold_res (dunning_invoice uuid now) rows (db, st) = Inr (db', st')" and "distinct (map od_id rows)"
  shows "acts db' = acts db @ concat (map (row_agenda (set (acts db))) rows)"
  using assms
proof (induction rows arbitrary: db st)
  case (Cons row rows)
  obtain db1 st1 where 1: "dunning_invoice uuid now row (db, st) = Inr (db1, st1)"
    "fold_res (dunning_invoice uuid now) rows (db1, st1) = Inr (db', st')"
    using Cons.prems(1) by (auto simp: bind_res_Inr_iff)
  have "row_agenda (set (acts db1)) r = row_agenda (set (acts db)) r" if "r \<in> set rows" for r
  proof -
    have "od_id r \<noteq> od_id row" using Cons.prems(2) that by (metis distinct.simps(2) image_eqI list.set_map list.simps(9))
    then have "{ty. (od_id r, ty) \<in> set (acts db1)} = {ty. (od_id r, ty) \<in> set (acts db)}"
      unfolding invoice_order [OF 1(1)] by (auto simp: row_agenda_def)
    then show ?thesis by (simp add: row_agenda_def)
  qed
  then have same: "map (row_agenda (set (acts db1))) rows = map (row_agenda (set (acts db))) rows" by simp
  have "acts db' = acts db1 @ concat (map (row_agenda (set (acts db1))) rows)" using Cons.IH [OF 1(2)] Cons.prems(2) by simp
  also have "\<dots> = acts db @ concat (map (row_agenda (set (acts db))) (row # rows))"
    unfolding same by (simp add: invoice_order [OF 1(1)])
  finally show ?case .
qed simp

lemma job_order:
  assumes "dunningEngineJob uuid now db = Inr (st, db')" and "distinct (map inv_id (invoices db))"
  shows "acts db' = acts db @ dunning_agenda now db
    (sort_key (\<lambda>r. the (inv_due_date r)) (filter (dunnable now) (invoices db)))"
proof -
  let ?s = "\<lparr>ds_actions_created = 0, ds_invoices_skipped = 0, ds_cases_opened = 0\<rparr>"
  let ?rs = "sort_key (\<lambda>r. the (inv_due_date r)) (filter (dunnable now) (invoices db))"
  have run: "fold_res (dunning_invoice uuid now) (listOverdueInvoicesForDunning now db) (db, ?s) = Inr (db', st)"
    using assms(1) by (auto simp: dunningEngineJob_def bind_res_Inr_iff)
  have "distinct (map inv_id (filter (dunnable now) (invoices db)))" using assms(2) by (rule distinct_map_filter)
  then have ids: "distinct (map od_id (listOverdueInvoicesForDunning now db))"
    by (simp add: listOverdueInvoicesForDunning_def comp_def overdue_row_def distinct_map)
  have "row_agenda (set (acts db)) (overdue_row now db r) = map (Pair (inv_id r)) (filter (\<lambda>ty. \<not> has_active_payment_plan (inv_id r) db
         \<and> milestone_days ty \<le> days_overdue now (the (inv_due_date r)) \<and> (inv_id r, ty) \<notin> set (acts db))
         [Reminder_d1, Second_notice_d7, Firm_notice_d14, Collection_d30])" for r
    by (simp add: row_agenda_def overdue_row_def fires_def DUNNING_MILESTONES_def)
  then show ?thesis
    using rows_order [OF run ids] by (simp add: listOverdueInvoicesForDunning_def comp_def dunning_agenda_def)
qed

text \<open>C10: The dunning engine never fails on a well-formed ledger and is exact: a run appends, in this order, the actions
  that are due (milestone reached, invoice open, not paused by a current payment plan) and not recorded yet, invoice by
  invoice by due date, those of one due date in whatever order the query gives them, and for each invoice from D+1 to D+30;
  so afterwards an action is recorded if and only if it was
  recorded before or is due, and no invoice ever has two actions of a type.\<close>

theorem dunning_exact:
  assumes "ledger_wf db" and "fresh uuid" and "distinct (acts db)"
  shows "\<exists>st db'. dunningEngineJob uuid now db = Inr (st, db') \<and> ledger_wf db' \<and> distinct (acts db')
    \<and> (\<exists>rs. mset rs = mset (filter (dunnable now) (invoices db)) \<and> sorted (map (\<lambda>r. the (inv_due_date r)) rs)
         \<and> acts db' = acts db @ dunning_agenda now db rs)
    \<and> (\<forall>k ty. hasDunningAction k ty db' \<longleftrightarrow> hasDunningAction k ty db \<or> dunning_due now db k ty)"
proof -
  obtain st db' where run: "dunningEngineJob uuid now db = Inr (st, db')" and "dun_effect (due_actions now db) db db'"
    using job_effect [OF assms(1,2), of now] by blast
  moreover have ids: "distinct (map inv_id (invoices db))" using assms(1) by (simp add: wf_defs)
  moreover have "\<exists>rs. mset rs = mset (filter (dunnable now) (invoices db)) \<and> sorted (map (\<lambda>r. the (inv_due_date r)) rs)
      \<and> acts db' = acts db @ dunning_agenda now db rs"
    using job_order [OF run ids] by (intro exI conjI) simp_all
  ultimately show ?thesis using assms(3)
    by (intro exI [of _ st] exI [of _ db']) (auto simp: dun_effect_def hasDunningAction_iff due_actions_iff)
qed

text \<open>A second run at the same time changes nothing: it records no action and opens no case,
  whichever identifiers the database would have drawn.\<close>

theorem dunning_idempotent:
  assumes "ledger_wf db" and "fresh uuid" and "dunningEngineJob uuid now db = Inr (st, db')"
  shows "\<exists>st'. dunningEngineJob uuid' now db' = Inr (st', db')
    \<and> ds_actions_created st' = 0 \<and> ds_cases_opened st' = 0"
proof -
  have eff: "dun_effect (due_actions now db) db db'"
    using job_effect [OF assms(1,2), of now] assms(3) by auto
  then have "due_actions now db' \<subseteq> set (acts db')"
    using dun_frame_due [of db db' now] by (auto simp: dun_effect_def)
  then have "due_rows (listOverdueInvoicesForDunning now db') \<subseteq> set (acts db')"
    by (simp add: due_actions_def)
  from rows_idle [OF this, of uuid' now
      "\<lparr>ds_actions_created = 0, ds_invoices_skipped = 0, ds_cases_opened = 0\<rparr>"]
  show ?thesis by (auto simp: dunningEngineJob_def)
qed

theorem dunning_exact_witness:
  "\<exists>st db'. dunningEngineJob long_uuid (8 * day) (demo_ledger I_sent) = Inr (st, db')
    \<and> acts db' = [(''i'', Reminder_d1), (''i'', Second_notice_d7)]"
proof -
  obtain st db' rs where run: "dunningEngineJob long_uuid (8 * day) (demo_ledger I_sent) = Inr (st, db')"
    and rs: "mset rs = mset (filter (dunnable (8 * day)) (invoices (demo_ledger I_sent)))"
    and acts: "acts db' = acts (demo_ledger I_sent) @ dunning_agenda (8 * day) (demo_ledger I_sent) rs"
    using dunning_exact [OF demo_ledger_wf fresh_long_uuid, of I_sent "8 * day"] by (auto simp: acts_def demo_ledger_def empty_ledger_def)
  from rs have "rs = invoices (demo_ledger I_sent)"
    by (simp add: demo_ledger_def empty_ledger_def dunnable_def current_date_def day_def second_def)
  then have "acts db' = [(''i'', Reminder_d1), (''i'', Second_notice_d7)]" unfolding acts
    by (simp add: demo_ledger_def empty_ledger_def acts_def dunning_agenda_def
        dunnable_def current_date_def days_overdue_def day_def second_def has_active_payment_plan_def)
  with run show ?thesis by blast
qed

theorem dunning_idempotent_witness:
  "\<exists>st db' st'. dunningEngineJob long_uuid (8 * day) (demo_ledger I_sent) = Inr (st, db')
    \<and> dunningEngineJob long_uuid (8 * day) db' = Inr (st', db') \<and> ds_actions_created st' = 0"
proof -
  obtain st db' where run: "dunningEngineJob long_uuid (8 * day) (demo_ledger I_sent) = Inr (st, db')"
    using job_effect [OF demo_ledger_wf fresh_long_uuid] by blast
  from dunning_idempotent [OF demo_ledger_wf fresh_long_uuid run, of long_uuid] run
  show ?thesis by blast
qed

lemma one_open_unique:
  "one_open_case t \<Longrightarrow> x \<in> set t \<Longrightarrow> y \<in> set t \<Longrightarrow> cc_status x = C_open \<Longrightarrow> cc_status y = C_open \<Longrightarrow>
     cc_invoice_id x = cc_invoice_id y \<Longrightarrow> x = y"
  by (auto simp: one_open_case_def distinct_map inj_on_def)

lemma not_collectable_fails:
  assumes "\<not> collectable k db"
  shows "\<exists>e. transitionInvoiceToCollection uuid now k db = Inl e"
proof (cases "invoice_of k db")
  case (Some r)
  with assms transition_fails [OF Some] show ?thesis by (simp add: collectable_def)
qed (simp add: transitionInvoiceToCollection_def)

lemma transition_case:
  assumes "transitionInvoiceToCollection uuid now k db = Inr (c, db')"
  shows "c \<in> set (cases db') \<and> cc_invoice_id c = k \<and> cc_status c = C_open"
  using assms
  by (auto simp: transitionInvoiceToCollection_def bind_res_Inr_iff open_case_def sql_insert_Inr_iffs
      new_case_def split: option.splits dest: find_SomeD)

lemma transition_again:
  assumes "status_of k db = Some I_in_collection"
    and "{x \<in> set (cases db). cc_invoice_id x = k \<and> cc_status x = C_open} = {c}"
  shows "transitionInvoiceToCollection uuid now k db = Inr (c, db)"
proof -
  obtain r where "invoice_of k db = Some r" "inv_status r = I_in_collection"
    using assms(1) by (auto simp: status_of_def)
  moreover obtain c' where c': "find (\<lambda>c. cc_invoice_id c = k \<and> cc_status c = C_open) (cases db) = Some c'"
    using assms(2) by (cases "find (\<lambda>c. cc_invoice_id c = k \<and> cc_status c = C_open) (cases db)")
      (auto simp: find_None_iff)
  moreover have "c' = c" using find_SomeD [OF c'] assms(2) by blast
  ultimately show ?thesis
    by (simp add: transitionInvoiceToCollection_def enter_collection_def open_case_def)
qed

text \<open>Moving an invoice to collection succeeds exactly when its status is \<^verbatim>\<open>partial_paid\<close>,
  \<^verbatim>\<open>overdue\<close> or \<^verbatim>\<open>in_collection\<close>. The invoice is then in collection and the returned case is its only
  open case, and calling again returns the same case and changes nothing.\<close>

theorem transition_to_collection:
  assumes "ledger_wf db" and "fresh uuid"
  shows "((\<exists>c db'. transitionInvoiceToCollection uuid now k db = Inr (c, db')) \<longleftrightarrow> collectable k db)
    \<and> (\<forall>c db'. transitionInvoiceToCollection uuid now k db = Inr (c, db') \<longrightarrow>
      status_of k db' = Some I_in_collection
      \<and> {x \<in> set (cases db'). cc_invoice_id x = k \<and> cc_status x = C_open} = {c}
      \<and> transitionInvoiceToCollection uuid' now' k db' = Inr (c, db'))"
proof -
  have iff: "(\<exists>c db'. transitionInvoiceToCollection uuid now k db = Inr (c, db')) \<longleftrightarrow> collectable k db"
    using transition_effect [OF assms, of k now] not_collectable_fails [of k db uuid now] by force
  have "status_of k db' = Some I_in_collection
      \<and> {x \<in> set (cases db'). cc_invoice_id x = k \<and> cc_status x = C_open} = {c}
      \<and> transitionInvoiceToCollection uuid' now' k db' = Inr (c, db')"
    if run: "transitionInvoiceToCollection uuid now k db = Inr (c, db')" for c db'
  proof -
    have wf: "ledger_wf db'" using keeps_transition [OF run] assms(1) by (simp add: keeps_def)
    have st: "status_of k db' = Some I_in_collection"
      using transition_effect [OF assms, of k now] iff run by auto
    have "c \<in> set (cases db')" "cc_invoice_id c = k" "cc_status c = C_open"
      using transition_case [OF run] by simp_all
    with wf have only: "{x \<in> set (cases db'). cc_invoice_id x = k \<and> cc_status x = C_open} = {c}"
      by (auto simp: ledger_wf_def intro: one_open_unique)
    with st show ?thesis using transition_again by simp
  qed
  with iff show ?thesis by blast
qed

theorem transition_to_collection_witness:
  "\<exists>c db'. transitionInvoiceToCollection long_uuid 0 ''i'' (demo_ledger I_overdue) = Inr (c, db')
    \<and> status_of ''i'' db' = Some I_in_collection
    \<and> transitionInvoiceToCollection long_uuid 9 ''i'' db' = Inr (c, db')"
proof -
  have "collectable ''i'' (demo_ledger I_overdue)"
    by (simp add: demo_ledger_def collectable_def invoice_of_def)
  then show ?thesis
    using transition_to_collection [OF demo_ledger_wf fresh_long_uuid, of 0 "''i''" I_overdue long_uuid 9]
    by blast
qed

text \<open>What a run does to the invoices: an invoice that newly reaches D+30 moves to
  \<^verbatim>\<open>in_collection\<close> and has an open case, provided its status is \<^verbatim>\<open>partial_paid\<close>, \<^verbatim>\<open>overdue\<close> or
  \<^verbatim>\<open>in_collection\<close>; every other invoice keeps its status and gains no open case.\<close>

theorem dunning_collects:
  assumes "ledger_wf db" and "fresh uuid"
  shows "\<exists>st db'. dunningEngineJob uuid now db = Inr (st, db') \<and> (\<forall>k.
    let new = dunning_due now db k Collection_d30 \<and> \<not> hasDunningAction k Collection_d30 db
              \<and> collectable k db
    in status_of k db' = (if new then Some I_in_collection else status_of k db)
       \<and> (has_open_case k db' \<longleftrightarrow> has_open_case k db \<or> new))"
  using job_effect [OF assms, of now]
  by (auto simp: dun_effect_def escalated_def hasDunningAction_iff due_actions_iff Let_def)

theorem dunning_collects_witness:
  "\<exists>st db'. dunningEngineJob long_uuid (40 * day) (demo_ledger I_partial_paid) = Inr (st, db')
    \<and> status_of ''i'' db' = Some I_in_collection \<and> has_open_case ''i'' db'"
proof -
  have "dunning_due (40 * day) (demo_ledger I_partial_paid) ''i'' Collection_d30"
    "\<not> hasDunningAction ''i'' Collection_d30 (demo_ledger I_partial_paid)"
    "collectable ''i'' (demo_ledger I_partial_paid)"
    by (auto simp: demo_ledger_def empty_ledger_def hasDunningAction_def dunning_due_def collectable_def
      invoice_of_def dunnable_def current_date_def days_overdue_def day_def second_def has_active_payment_plan_def)
  then show ?thesis
    using dunning_collects [OF demo_ledger_wf fresh_long_uuid, of "40 * day" I_partial_paid]
    by (metis (lifting))
qed

definition dunning_runs ::
  "(string list \<Rightarrow> string) \<Rightarrow> timestamp list \<Rightarrow> ledger \<Rightarrow> (app_error \<times> ledger) + ledger" where
  "dunning_runs uuid ts db =
     fold_res (\<lambda>now d. bind_res (dunningEngineJob uuid now d) (\<lambda>(st, d'). Inr d')) ts db"

lemma runs_leave_dunned:
  assumes "ledger_wf db" and "fresh uuid" and "hasDunningAction k Collection_d30 db"
  shows "\<exists>db'. dunning_runs uuid ts db = Inr db' \<and> status_of k db' = status_of k db
    \<and> has_open_case k db' = has_open_case k db \<and> hasDunningAction k Collection_d30 db'"
  using assms(1,3)
proof (induction ts arbitrary: db)
  case (Cons t ts)
  obtain st db1 where run: "dunningEngineJob uuid t db = Inr (st, db1)"
    and eff: "dun_effect (due_actions t db) db db1"
    using job_effect [OF Cons.prems(1) assms(2)] by blast
  have "\<not> escalated (due_actions t db) db k"
    using Cons.prems(2) by (simp add: escalated_def hasDunningAction_iff)
  with eff have same: "status_of k db1 = status_of k db" "has_open_case k db1 = has_open_case k db"
    "ledger_wf db1" "hasDunningAction k Collection_d30 db1"
    using Cons.prems(2) by (simp_all add: dun_effect_def hasDunningAction_iff)
  from Cons.IH [OF same(3,4)] run same(1,2) show ?case by (simp add: dunning_runs_def)
qed (simp add: dunning_runs_def)

text \<open>A \<^verbatim>\<open>sent\<close> invoice that reaches D+30 is never collected by the engine: the run records
  \<^verbatim>\<open>collection_d30\<close> although the move to collection was refused, and no later sequence of runs, at
  whatever times, changes its status or opens a case for it.\<close>

theorem sent_never_collected:
  assumes "ledger_wf db" and "fresh uuid" and "status_of k db = Some I_sent"
    and "dunning_due now db k Collection_d30" and "\<not> has_open_case k db"
  shows "\<exists>db'. dunning_runs uuid (now # ts) db = Inr db' \<and> hasDunningAction k Collection_d30 db'
    \<and> status_of k db' = Some I_sent \<and> \<not> has_open_case k db'"
proof -
  obtain st db1 where run: "dunningEngineJob uuid now db = Inr (st, db1)"
    and eff: "dun_effect (due_actions now db) db db1"
    using job_effect [OF assms(1,2)] by blast
  have "\<not> escalated (due_actions now db) db k"
    using assms(3) by (auto simp: escalated_def collectable_status)
  with eff assms(3-5) have "status_of k db1 = Some I_sent" "\<not> has_open_case k db1" "ledger_wf db1"
    "hasDunningAction k Collection_d30 db1"
    by (simp_all add: dun_effect_def hasDunningAction_iff due_actions_iff)
  with runs_leave_dunned [of db1 uuid k ts] assms(2) run show ?thesis
    by (auto simp: dunning_runs_def)
qed

theorem sent_never_collected_witness:
  "\<exists>db'. dunning_runs long_uuid [40 * day, 41 * day, 400 * day] (demo_ledger I_sent) = Inr db'
    \<and> status_of ''i'' db' = Some I_sent \<and> \<not> has_open_case ''i'' db'"
proof -
  have "dunning_due (40 * day) (demo_ledger I_sent) ''i'' Collection_d30"
    "\<not> has_open_case ''i'' (demo_ledger I_sent)" "status_of ''i'' (demo_ledger I_sent) = Some I_sent"
    by (auto simp: demo_ledger_def empty_ledger_def dunning_due_def has_open_case_def status_of_def
      invoice_of_def dunnable_def current_date_def days_overdue_def day_def second_def has_active_payment_plan_def)
  from sent_never_collected [OF demo_ledger_wf fresh_long_uuid this(3,1,2), of "[41 * day, 400 * day]"]
  show ?thesis by blast
qed

end
