(* ===== verification/Payment_Plans.thy ===== *)
theory Payment_Plans
  imports Dunning JS_Numbers
begin

text \<open>
  Payment plans, \<^verbatim>\<open>src/packages/db/payment-plans.ts\<close>: the installment schedule derived from the
  recorded payments, plan creation, the status change with its effect on the case and the invoice, and
  the daily reconciliation. Dates are days, so a \<^verbatim>\<open>YYYY-MM-DD\<close> argument is \<open>Day d\<close> and any string of
  another form is \<open>Malformed\<close>. A number of the code stands for the decimal it is written as: amounts of whole cents are
  exact rationals, which sums, differences, comparisons and the rounding to cents of binary64 agree with up to 10^13; the one
  amount that is no whole number of cents, the quotient an installment is rounded from, is computed in binary64
  (\<open>installment_share\<close>). \<^verbatim>\<open>reconcilePaymentPlanLifecycle\<close> runs one
  transaction per plan, so its model returns the ledger also when it throws.
\<close>

section \<open>Data\<close>

datatype PaymentPlanInstallmentStatus = Inst_paid | Inst_unpaid

record PaymentPlanSummary =
  ps_id :: string
  ps_collection_case_id :: string
  ps_total_amount :: money
  ps_installment_count :: int
  ps_installment_amount :: money
  ps_next_due_date :: "date option"
  ps_status :: PaymentPlanStatus
  ps_created_at :: timestamp
  ps_updated_at :: timestamp

record PaymentPlanInstallment =
  in_installment_number :: int
  in_due_date :: date
  in_amount :: money
  in_status :: PaymentPlanInstallmentStatus
  in_paid_amount :: money

record PaymentPlanDetail = PaymentPlanSummary +
  pd_collection_case :: case_row
  pd_invoice :: invoice_row
  pd_customer :: customer_row
  pd_installments :: "PaymentPlanInstallment list"
  pd_payment_total :: money
  pd_paid_installment_count :: nat

datatype date_text = Malformed | Day date

record CreatePaymentPlanOptions =
  cp_collection_case_id :: string
  cp_total_amount :: rat
  cp_installment_count :: int
  cp_first_due_date :: date_text

record PaymentPlanLifecycleResult =
  pl_completed :: "string list"
  pl_breached :: "string list"

record PlanState =
  st_paidInstallmentCount :: nat
  st_fullyPaid :: bool
  st_breached :: bool
  st_next_due_date :: "date option"

section \<open>The schedule\<close>

text \<open>\<^verbatim>\<open>Math.round\<close> rounds ties up.\<close>

definition roundCurrency :: "rat \<Rightarrow> money" where
  "roundCurrency v = of_int \<lfloor>v * 100 + 1 / 2\<rfloor> / 100"

text \<open>\<^verbatim>\<open>roundCurrency(total_amount / installment_count)\<close>: the quotient is not a whole number of cents, so the rounding of
  each operation to binary64 shows.\<close>

definition installment_share :: "rat \<Rightarrow> int \<Rightarrow> money" where
  "installment_share total_amount installment_count =
     of_int \<lfloor>fl (fl (fl total_amount / of_int installment_count) * 100) + 1 / 2\<rfloor> / 100"

definition addDays :: "date \<Rightarrow> int \<Rightarrow> date" where
  "addDays d n = d + n"

record InstallmentOptions =
  io_total_amount :: money
  io_installment_count :: int
  io_installment_amount :: money
  io_first_due_date :: date
  io_payment_total :: money

definition due_amount :: "InstallmentOptions \<Rightarrow> int \<Rightarrow> money" where
  "due_amount opts i =
     (if i = io_installment_count opts - 1
      then roundCurrency (io_total_amount opts - io_installment_amount opts * of_int (io_installment_count opts - 1))
      else roundCurrency (io_installment_amount opts))"

text \<open>The loop from index \<open>i\<close> with \<open>n\<close> rounds left.\<close>

fun installments_from ::
  "InstallmentOptions \<Rightarrow> nat \<Rightarrow> int \<Rightarrow> money \<Rightarrow> PaymentPlanInstallment list" where
  "installments_from opts 0 i remainingPaid = []"
| "installments_from opts (Suc n) i remainingPaid =
     (let dueAmount = due_amount opts i;
          paid_amount = min dueAmount (max 0 remainingPaid)
      in \<lparr>in_installment_number = i + 1, in_due_date = addDays (io_first_due_date opts) (i * 30),
           in_amount = dueAmount,
           in_status = (if paid_amount \<ge> dueAmount then Inst_paid else Inst_unpaid),
           in_paid_amount = roundCurrency paid_amount\<rparr>
         # installments_from opts n (i + 1) (roundCurrency (remainingPaid - paid_amount)))"

definition buildPaymentPlanInstallments :: "InstallmentOptions \<Rightarrow> PaymentPlanInstallment list" where
  "buildPaymentPlanInstallments opts =
     installments_from opts (nat (io_installment_count opts)) 0 (roundCurrency (io_payment_total opts))"

definition summarizePaymentPlanRow :: "plan_row \<Rightarrow> PaymentPlanSummary" where
  "summarizePaymentPlanRow row = \<lparr>
     ps_id = pp_id row, ps_collection_case_id = pp_case_id row, ps_total_amount = pp_total_amount row,
     ps_installment_count = pp_installment_count row, ps_installment_amount = pp_installment_amount row,
     ps_next_due_date = pp_next_due_date row, ps_status = pp_status row,
     ps_created_at = pp_created_at row, ps_updated_at = pp_updated_at row\<rparr>"

definition derivePlanState ::
  "timestamp \<Rightarrow> 'a PaymentPlanSummary_scheme \<Rightarrow> money \<Rightarrow> PaymentPlanInstallment list \<Rightarrow> PlanState" where
  "derivePlanState now summary payment_total installments =
     (let totalPaid = roundCurrency payment_total;
          paidInstallmentCount = length (filter (\<lambda>i. in_status i = Inst_paid) installments);
          fullyPaid = (totalPaid \<ge> roundCurrency (ps_total_amount summary)
            \<or> int paidInstallmentCount \<ge> ps_installment_count summary);
          firstUnpaid = find (\<lambda>i. in_status i = Inst_unpaid) installments;
          today = current_date now
      in \<lparr>st_paidInstallmentCount = paidInstallmentCount, st_fullyPaid = fullyPaid,
           st_breached = (case firstUnpaid of None \<Rightarrow> False | Some i \<Rightarrow> in_due_date i < today \<and> \<not> fullyPaid),
           st_next_due_date = (if fullyPaid then None else map_option in_due_date firstUnpaid)\<rparr>)"

section \<open>Queries\<close>

definition plan_of :: "string \<Rightarrow> ledger \<Rightarrow> plan_row option" where
  "plan_of k db = find_row pp_id k (plans db)"

definition fetchPlanDetailRows ::
  "string \<Rightarrow> ledger \<Rightarrow> (plan_row \<times> case_row \<times> invoice_row \<times> customer_row) option" where
  "fetchPlanDetailRows planId db =
     Option.bind (plan_of planId db) (\<lambda>pp.
     Option.bind (case_of (pp_case_id pp) db) (\<lambda>cc.
     Option.bind (invoice_of (cc_invoice_id cc) db) (\<lambda>i.
     Option.bind (customer_of (inv_customer_id i) db) (\<lambda>c. Some (pp, cc, i, c)))))"

definition fetchPlanPayments :: "string \<Rightarrow> ledger \<Rightarrow> payment_row list" where
  "fetchPlanPayments planId db =
     sort_key (\<lambda>p. (pay_received_at p, pay_created_at p))
       (concat (map (\<lambda>p. concat (map (\<lambda>cc. concat (map (\<lambda>pp.
            if cc_invoice_id cc = pay_invoice_id p \<and> pp_case_id pp = cc_id cc \<and> pp_id pp = planId
            then [p] else []) (plans db))) (cases db))) (payments db)))"

definition buildDetailFromRows ::
  "timestamp \<Rightarrow> plan_row \<times> case_row \<times> invoice_row \<times> customer_row \<Rightarrow> payment_row list \<Rightarrow> PaymentPlanDetail" where
  "buildDetailFromRows now row pays =
     (case row of (pp, cc, i, c) \<Rightarrow>
       let summary = summarizePaymentPlanRow pp;
           payment_total = roundCurrency (sum_list (map pay_amount pays));
           installments = buildPaymentPlanInstallments \<lparr>
             io_total_amount = ps_total_amount summary, io_installment_count = ps_installment_count summary,
             io_installment_amount = ps_installment_amount summary,
             io_first_due_date = (case ps_next_due_date summary of Some d \<Rightarrow> d | None \<Rightarrow> pp_created_at pp div day),
             io_payment_total = payment_total\<rparr>;
           lifecycle = derivePlanState now summary payment_total installments
       in PaymentPlanSummary.extend (summary\<lparr>ps_next_due_date := st_next_due_date lifecycle\<rparr>)
            (PaymentPlanDetail.fields cc i c installments payment_total (st_paidInstallmentCount lifecycle)))"

definition listPaymentPlansForCase :: "string \<Rightarrow> ledger \<Rightarrow> PaymentPlanSummary list" where
  "listPaymentPlansForCase collectionCaseId db =
     map summarizePaymentPlanRow
       (sort_key (\<lambda>p. - pp_created_at p) (filter (\<lambda>p. pp_case_id p = collectionCaseId) (plans db)))"

definition getPaymentPlanDetail :: "timestamp \<Rightarrow> string \<Rightarrow> ledger \<Rightarrow> PaymentPlanDetail option" where
  "getPaymentPlanDetail now planId db =
     (case fetchPlanDetailRows planId db of
        None \<Rightarrow> None
      | Some row \<Rightarrow> Some (buildDetailFromRows now row (fetchPlanPayments planId db)))"

section \<open>Mutations\<close>

text \<open>Creating a plan reads first and then inserts, in one transaction at READ COMMITTED that locks no row: what it reads
  may have changed when it inserts. \<open>plan_check\<close> is the part up to the second SELECT, \<open>plan_insert\<close> the rest.\<close>

definition has_current_plan :: "string \<Rightarrow> ledger \<Rightarrow> bool" where
  "has_current_plan caseId db \<longleftrightarrow> list_ex (\<lambda>p. pp_case_id p = caseId \<and> pp_status p = P_current) (plans db)"

definition plan_check :: "timestamp \<Rightarrow> CreatePaymentPlanOptions \<Rightarrow> ledger \<Rightarrow> app_error + date" where
  "plan_check now opts db =
     bind_res (require (0 < cp_total_amount opts) (Thrown ''total_amount must be a positive number'')) (\<lambda>_.
     bind_res (require (1 \<le> cp_installment_count opts)
       (Thrown ''installment_count must be an integer greater than or equal to 1'')) (\<lambda>_.
     case cp_first_due_date opts of
       Malformed \<Rightarrow> Inl (Thrown ''first_due_date must be a YYYY-MM-DD date string'')
     | Day first_due_date \<Rightarrow>
         bind_res (require (current_date now \<le> first_due_date) (Thrown ''first_due_date cannot be in the past'')) (\<lambda>_.
         bind_res (require (case_of (cp_collection_case_id opts) db \<noteq> None) (Thrown ''Collection case not found'')) (\<lambda>_.
         bind_res (require (\<not> has_current_plan (cp_collection_case_id opts) db)
           (Thrown ''An active payment plan already exists for this collection case'')) (\<lambda>_. Inr first_due_date)))))"

definition plan_insert ::
  "(string list \<Rightarrow> string) \<Rightarrow> timestamp \<Rightarrow> CreatePaymentPlanOptions \<Rightarrow> date \<Rightarrow> ledger
     \<Rightarrow> app_error + (PaymentPlanDetail \<times> ledger)" where
  "plan_insert uuid now opts first_due_date db =
     (let installmentAmount = installment_share (cp_total_amount opts) (cp_installment_count opts);
          k = uuid (map pp_id (plans db))
      in bind_res (numeric_18_2 (cp_total_amount opts)) (\<lambda>total.
         bind_res (numeric_18_2 installmentAmount) (\<lambda>inst.
         bind_res (sql_insert_plan \<lparr>pp_id = k, pp_case_id = cp_collection_case_id opts,
             pp_total_amount = total, pp_installment_count = cp_installment_count opts,
             pp_installment_amount = inst, pp_next_due_date = Some first_due_date,
             pp_status = P_current, pp_created_at = now, pp_updated_at = now\<rparr> db) (\<lambda>db'.
         case getPaymentPlanDetail now k db' of
           None \<Rightarrow> Inl (Thrown ''Payment plan not found after insert'')
         | Some detail \<Rightarrow> Inr (detail, db')))))"

text \<open>A call that no other transaction comes between.\<close>

definition createPaymentPlan ::
  "(string list \<Rightarrow> string) \<Rightarrow> timestamp \<Rightarrow> CreatePaymentPlanOptions \<Rightarrow> ledger
     \<Rightarrow> app_error + (PaymentPlanDetail \<times> ledger)" where
  "createPaymentPlan uuid now opts db =
     bind_res (plan_check now opts db) (\<lambda>first_due_date. plan_insert uuid now opts first_due_date db)"

lemmas create_plan_defs = createPaymentPlan_def plan_check_def plan_insert_def has_current_plan_def

definition set_plan_status :: "timestamp \<Rightarrow> PaymentPlanStatus \<Rightarrow> plan_row \<Rightarrow> plan_row" where
  "set_plan_status now s r = r\<lparr>pp_status := s, pp_updated_at := now\<rparr>"

definition resolve_by_plan :: "timestamp \<Rightarrow> case_row \<Rightarrow> case_row" where
  "resolve_by_plan now c = c\<lparr>cc_status := C_resolved, cc_resolution_type := Some R_payment_plan,
     cc_resolved_at := (case cc_resolved_at c of None \<Rightarrow> Some now | Some t \<Rightarrow> Some t),
     cc_updated_at := now\<rparr>"

definition complete_plan :: "timestamp \<Rightarrow> string \<Rightarrow> PaymentPlanDetail \<Rightarrow> ledger \<Rightarrow> app_error + ledger" where
  "complete_plan now planId detail db =
     (if pd_payment_total detail < ps_total_amount detail
      then Inl (Thrown ''Payment plan cannot be marked completed before it is fully paid'')
      else sql_update_invoice_status now (cc_invoice_id (pd_collection_case detail)) I_paid
             (sql_update_case (ps_collection_case_id detail) (resolve_by_plan now)
               (sql_update_plan planId (set_plan_status now P_completed) db)))"

text \<open>The statuses the parameter's type admits: \<^verbatim>\<open>Exclude<PaymentPlanStatus, 'cancelled'>\<close>;
  \<^verbatim>\<open>current\<close> writes nothing.\<close>

definition updatePaymentPlanStatus ::
  "timestamp \<Rightarrow> string \<Rightarrow> PaymentPlanStatus \<Rightarrow> ledger \<Rightarrow> app_error + (PaymentPlanDetail option \<times> ledger)" where
  "updatePaymentPlanStatus now planId s db =
     (case getPaymentPlanDetail now planId db of
        None \<Rightarrow> Inr (None, db)
      | Some detail \<Rightarrow>
          bind_res
            (if s = P_completed then complete_plan now planId detail db
             else if s = P_breached then Inr (sql_update_plan planId (set_plan_status now P_breached) db)
             else Inr db)
            (\<lambda>db'. Inr (getPaymentPlanDetail now planId db', db')))"

text \<open>One plan of the sweep; \<open>None\<close> in the result means nothing was written.\<close>

definition reconcile_plan ::
  "timestamp \<Rightarrow> string \<Rightarrow> ledger \<Rightarrow> app_error + (PaymentPlanStatus option \<times> ledger)" where
  "reconcile_plan now planId db =
     (case getPaymentPlanDetail now planId db of
        None \<Rightarrow> Inr (None, db)
      | Some detail \<Rightarrow>
          (let state = derivePlanState now detail (pd_payment_total detail) (pd_installments detail) in
           if st_fullyPaid state then
             (if ps_status detail \<noteq> P_completed then
                bind_res (updatePaymentPlanStatus now (ps_id detail) P_completed db)
                  (\<lambda>(d, db'). Inr (Some P_completed, db'))
              else Inr (None, db))
           else if ps_status detail = P_current \<and> st_breached state then
             bind_res (updatePaymentPlanStatus now (ps_id detail) P_breached db)
               (\<lambda>(d, db'). Inr (Some P_breached, db'))
           else Inr (None, db)))"

fun reconcile_loop ::
  "timestamp \<Rightarrow> string list \<Rightarrow> PaymentPlanLifecycleResult \<Rightarrow> ledger
     \<Rightarrow> (app_error + PaymentPlanLifecycleResult) \<times> ledger" where
  "reconcile_loop now [] res db = (Inr res, db)"
| "reconcile_loop now (k # ks) res db =
     (case reconcile_plan now k db of
        Inl e \<Rightarrow> (Inl e, db)
      | Inr (change, db') \<Rightarrow>
          reconcile_loop now ks
            (case change of
               Some P_completed \<Rightarrow> res\<lparr>pl_completed := pl_completed res @ [k]\<rparr>
             | Some P_breached \<Rightarrow> res\<lparr>pl_breached := pl_breached res @ [k]\<rparr>
             | _ \<Rightarrow> res) db')"

definition live_plans :: "ledger \<Rightarrow> string list" where
  "live_plans db =
     map pp_id (sort_key pp_created_at (filter (\<lambda>p. pp_status p \<in> {P_current, P_breached}) (plans db)))"

definition reconcilePaymentPlanLifecycle ::
  "timestamp \<Rightarrow> ledger \<Rightarrow> (app_error + PaymentPlanLifecycleResult) \<times> ledger" where
  "reconcilePaymentPlanLifecycle now db =
     reconcile_loop now (live_plans db) \<lparr>pl_completed = [], pl_breached = []\<rparr> db"

section \<open>The schedule in closed form\<close>

definition cents :: "rat \<Rightarrow> bool" where
  "cents x \<longleftrightarrow> (\<exists>k. x = of_int k / 100)"

lemma centsI: "cents (of_int k / 100)"
  by (auto simp: cents_def)

lemma roundCurrency_cents [simp]: "cents x \<Longrightarrow> roundCurrency x = x"
  using floor_half by (auto simp: cents_def roundCurrency_def)

lemma cents_round [simp]: "cents (roundCurrency x)"
  by (auto simp: cents_def roundCurrency_def)

lemma cents_share [simp]: "cents (installment_share x n)"
  by (auto simp: cents_def installment_share_def)

lemma cents_0 [simp]: "cents 0"
  using centsI [of 0] by simp

lemma cents_add [simp]: "cents x \<Longrightarrow> cents y \<Longrightarrow> cents (x + y)"
  by (auto simp: cents_def) (metis of_int_add add_divide_distrib)

lemma cents_diff [simp]: "cents x \<Longrightarrow> cents y \<Longrightarrow> cents (x - y)"
  by (auto simp: cents_def) (metis of_int_diff diff_divide_distrib)

lemma cents_mult_int [simp]:
  assumes "cents x"
  shows "cents (x * of_int n)"
proof -
  obtain k where "x = of_int k / 100" using assms by (auto simp: cents_def)
  then have "x * of_int n = of_int (k * n) / 100" by simp
  then show ?thesis by (simp only: centsI)
qed

lemma cents_min_max [simp]: "cents x \<Longrightarrow> cents y \<Longrightarrow> cents (min x y)" "cents x \<Longrightarrow> cents y \<Longrightarrow> cents (max x y)"
  by (auto simp: min_def max_def)

lemma cents_sum_list: "(\<And>x. x \<in> set xs \<Longrightarrow> cents x) \<Longrightarrow> cents (sum_list xs)"
  by (induction xs) auto

text \<open>The amount due at index \<open>i\<close>, and installment \<open>i\<close> read directly off the payment total.\<close>

definition plain_due :: "InstallmentOptions \<Rightarrow> int \<Rightarrow> money" where
  "plain_due opts i =
     (if i = io_installment_count opts - 1
      then io_total_amount opts - io_installment_amount opts * of_int (io_installment_count opts - 1)
      else io_installment_amount opts)"

definition plain_installment :: "InstallmentOptions \<Rightarrow> int \<Rightarrow> PaymentPlanInstallment" where
  "plain_installment opts i =
     (let due = plain_due opts i;
          paid = min due (max 0 (io_payment_total opts - io_installment_amount opts * of_int i))
      in \<lparr>in_installment_number = i + 1, in_due_date = io_first_due_date opts + 30 * i, in_amount = due,
          in_status = (if due \<le> paid then Inst_paid else Inst_unpaid), in_paid_amount = paid\<rparr>)"

definition cent_options :: "InstallmentOptions \<Rightarrow> bool" where
  "cent_options opts \<longleftrightarrow> cents (io_total_amount opts) \<and> cents (io_installment_amount opts)
     \<and> cents (io_payment_total opts) \<and> 0 \<le> io_installment_amount opts"

lemma due_amount_plain: "cent_options opts \<Longrightarrow> due_amount opts i = plain_due opts i"
  by (simp add: due_amount_def plain_due_def cent_options_def del: of_int_diff)

lemma cents_plain_due [simp]: "cent_options opts \<Longrightarrow> cents (plain_due opts i)"
  by (simp add: plain_due_def cent_options_def del: of_int_diff)

lemma installments_from_plain:
  assumes "cent_options opts" and "i + int n = io_installment_count opts" and "cents rem"
    and "n \<noteq> 0 \<Longrightarrow> max 0 rem = max 0 (io_payment_total opts - io_installment_amount opts * of_int i)"
  shows "installments_from opts n i rem = map (\<lambda>j. plain_installment opts (i + int j)) [0..<n]"
  using assms(2-4)
proof (induction n arbitrary: i rem)
  case (Suc n)
  let ?a = "io_installment_amount opts" and ?P = "io_payment_total opts"
  let ?paid = "min (plain_due opts i) (max 0 rem)"
  have rem: "max 0 rem = max 0 (?P - ?a * of_int i)" using Suc.prems(3) by simp
  have c: "cents ?paid" "cents (rem - ?paid)" using assms(1) Suc.prems(2) by simp_all
  have step: "max 0 (rem - ?paid) = max 0 (?P - ?a * of_int (i + 1))" if "n \<noteq> 0"
  proof -
    have "plain_due opts i = ?a" using that Suc.prems(1) by (auto simp: plain_due_def)
    moreover have "0 \<le> ?a" using assms(1) by (simp add: cent_options_def)
    ultimately show ?thesis using rem by (auto simp: max_def min_def algebra_simps split: if_splits)
  qed
  have "installments_from opts n (i + 1) (rem - ?paid) =
      map (\<lambda>j. plain_installment opts (i + 1 + int j)) [0..<n]"
    using Suc.IH [of "i + 1" "rem - ?paid"] Suc.prems(1) c(2) step by simp
  moreover have "\<lparr>in_installment_number = i + 1, in_due_date = addDays (io_first_due_date opts) (i * 30),
      in_amount = plain_due opts i, in_status = if plain_due opts i \<le> ?paid then Inst_paid else Inst_unpaid,
      in_paid_amount = ?paid\<rparr> = plain_installment opts i"
    by (simp add: plain_installment_def rem addDays_def Let_def)
  ultimately show ?case
    using c by (simp add: Let_def due_amount_plain [OF assms(1)] upt_conv_Cons map_Suc_upt [symmetric]
        comp_def algebra_simps del: upt_Suc)
qed simp

lemma build_plain:
  assumes "cent_options opts" and "0 \<le> io_installment_count opts"
  shows "buildPaymentPlanInstallments opts =
    map (\<lambda>j. plain_installment opts (int j)) [0..<nat (io_installment_count opts)]"
proof -
  have c: "cents (io_payment_total opts)" using assms(1) by (simp add: cent_options_def)
  have "installments_from opts (nat (io_installment_count opts)) 0 (io_payment_total opts) =
      map (\<lambda>j. plain_installment opts (0 + int j)) [0..<nat (io_installment_count opts)]"
    using assms c by (intro installments_from_plain) simp_all
  with c show ?thesis by (simp add: buildPaymentPlanInstallments_def)
qed

lemma upt_last: "0 < n \<Longrightarrow> [0..<n] = [0..<n - 1] @ [n - 1]"
  by (cases n) simp_all

lemma sum_plain_due:
  assumes "1 \<le> io_installment_count opts"
  shows "(\<Sum>j\<leftarrow>[0..<nat (io_installment_count opts)]. plain_due opts (int j)) = io_total_amount opts"
proof -
  let ?n = "nat (io_installment_count opts)"
  have "(\<Sum>j\<leftarrow>[0..<?n - 1]. plain_due opts (int j)) = (\<Sum>j\<leftarrow>[0..<?n - 1]. io_installment_amount opts)"
    by (intro arg_cong [where f = sum_list] map_cong) (auto simp: plain_due_def)
  with assms show ?thesis
    by (simp add: upt_last [of ?n] plain_due_def of_nat_diff sum_list_triv algebra_simps)
qed

lemma split_share:
  "0 \<le> x \<Longrightarrow> 0 \<le> y \<Longrightarrow> min x (max 0 p) + min y (max 0 (p - x)) = min (x + y) (max (0::rat) p)"
  by (simp add: min_def max_def)

lemma sum_equal_shares:
  "0 \<le> (a::rat) \<Longrightarrow> (\<Sum>j\<leftarrow>[0..<n]. min a (max 0 (p - a * of_nat j))) = min (a * of_nat n) (max 0 p)"
proof (induction n)
  case (Suc n)
  then show ?case using split_share [of "a * of_nat n" a p] by (simp add: algebra_simps)
qed simp

lemma sum_plain_paid:
  assumes "1 \<le> io_installment_count opts" and "0 \<le> io_installment_amount opts"
    and "io_installment_amount opts * of_int (io_installment_count opts - 1) \<le> io_total_amount opts"
  shows "(\<Sum>j\<leftarrow>[0..<nat (io_installment_count opts)]. in_paid_amount (plain_installment opts (int j))) =
    min (io_total_amount opts) (max 0 (io_payment_total opts))"
proof -
  obtain m where m: "io_installment_count opts = int m + 1"
    using assms(1) by (metis add.commute zle_iff_zadd)
  let ?a = "io_installment_amount opts" and ?P = "io_payment_total opts" and ?T = "io_total_amount opts"
  have n: "nat (io_installment_count opts) = Suc m" using m by simp
  have "(\<Sum>j\<leftarrow>[0..<m]. in_paid_amount (plain_installment opts (int j))) =
      (\<Sum>j\<leftarrow>[0..<m]. min ?a (max 0 (?P - ?a * of_nat j)))"
    by (intro arg_cong [where f = sum_list] map_cong)
       (auto simp: plain_installment_def plain_due_def Let_def m)
  also have "\<dots> = min (?a * of_nat m) (max 0 ?P)"
    by (rule sum_equal_shares [OF assms(2)])
  finally have init: "(\<Sum>j\<leftarrow>[0..<m]. in_paid_amount (plain_installment opts (int j))) =
      min (?a * of_nat m) (max 0 ?P)" .
  have last: "in_paid_amount (plain_installment opts (int m)) = min (?T - ?a * of_nat m) (max 0 (?P - ?a * of_nat m))"
    by (simp add: plain_installment_def plain_due_def Let_def m)
  have "0 \<le> ?T - ?a * of_nat m" "0 \<le> ?a * of_nat m" using assms(2,3) m by simp_all
  then show ?thesis
    using split_share [of "?a * of_nat m" "?T - ?a * of_nat m" ?P] by (simp add: n init last)
qed

text \<open>The installment schedule is exact to the cent: one installment per period, thirty days apart,
  whose amounts sum to the plan total; each is covered by the payments from the oldest on, and the
  covered amounts sum to what was paid, up to the total (when rounding leaves the last one non-negative).\<close>

theorem installment_schedule:
  assumes "cents (io_total_amount opts)" and "cents (io_installment_amount opts)"
    and "cents (io_payment_total opts)" and "0 \<le> io_installment_amount opts"
    and "1 \<le> io_installment_count opts"
  shows "let is = buildPaymentPlanInstallments opts in
    map in_due_date is = map (\<lambda>j. io_first_due_date opts + 30 * int j) [0..<nat (io_installment_count opts)]
    \<and> sum_list (map in_amount is) = io_total_amount opts
    \<and> (\<forall>i \<in> set is. in_paid_amount i \<le> in_amount i
        \<and> (in_status i = Inst_paid \<longleftrightarrow> in_paid_amount i = in_amount i))
    \<and> (io_installment_amount opts * of_int (io_installment_count opts - 1) \<le> io_total_amount opts
        \<longrightarrow> sum_list (map in_paid_amount is) = min (io_total_amount opts) (max 0 (io_payment_total opts)))"
proof -
  let ?js = "[0..<nat (io_installment_count opts)]"
  have plain: "buildPaymentPlanInstallments opts = map (\<lambda>j. plain_installment opts (int j)) ?js"
    using assms by (intro build_plain) (simp_all add: cent_options_def)
  have dates: "map in_due_date (buildPaymentPlanInstallments opts) =
      map (\<lambda>j. io_first_due_date opts + 30 * int j) ?js"
    by (simp add: plain plain_installment_def Let_def comp_def)
  have "map in_amount (buildPaymentPlanInstallments opts) = map (\<lambda>j. plain_due opts (int j)) ?js"
    by (simp add: plain plain_installment_def Let_def comp_def)
  then have amounts: "sum_list (map in_amount (buildPaymentPlanInstallments opts)) = io_total_amount opts"
    using sum_plain_due [OF assms(5)] by metis
  have "map in_paid_amount (buildPaymentPlanInstallments opts) =
      map (\<lambda>j. in_paid_amount (plain_installment opts (int j))) ?js"
    by (simp add: plain comp_def)
  then have paid: "sum_list (map in_paid_amount (buildPaymentPlanInstallments opts)) =
      min (io_total_amount opts) (max 0 (io_payment_total opts))"
    if "io_installment_amount opts * of_int (io_installment_count opts - 1) \<le> io_total_amount opts"
    using sum_plain_paid [OF assms(5,4) that] by metis
  have "\<forall>i \<in> set (buildPaymentPlanInstallments opts). in_paid_amount i \<le> in_amount i
      \<and> (in_status i = Inst_paid \<longleftrightarrow> in_paid_amount i = in_amount i)"
    by (auto simp: plain plain_installment_def Let_def)
  with dates amounts paid show ?thesis by (simp add: Let_def)
qed

definition demo_installments :: "money \<Rightarrow> InstallmentOptions" where
  "demo_installments paid = \<lparr>io_total_amount = 100, io_installment_count = 3,
     io_installment_amount = 3333 / 100, io_first_due_date = 0, io_payment_total = paid\<rparr>"

lemma cents_numeral [simp]: "cents (numeral n)" "cents (numeral n / 100)"
  using cents_mult_int [OF centsI [of 100], of "numeral n"] centsI [of "numeral n"] by simp_all

theorem installment_schedule_witness:
  "sum_list (map in_amount (buildPaymentPlanInstallments (demo_installments 40))) = 100
   \<and> sum_list (map in_paid_amount (buildPaymentPlanInstallments (demo_installments 40))) = 40"
  using installment_schedule [of "demo_installments 40"] by (simp add: demo_installments_def Let_def)

section \<open>The state of a plan\<close>

text \<open>What should have been paid once installment \<open>i\<close> is due.\<close>

definition owed_by :: "InstallmentOptions \<Rightarrow> nat \<Rightarrow> money" where
  "owed_by opts i = (if int i = io_installment_count opts - 1 then io_total_amount opts
     else io_installment_amount opts * of_nat (Suc i))"

definition behind :: "InstallmentOptions \<Rightarrow> nat \<Rightarrow> bool" where
  "behind opts i \<longleftrightarrow> int i < io_installment_count opts \<and> io_payment_total opts < owed_by opts i"

lemma unpaid_iff:
  assumes "cent_options opts" and "int i < io_installment_count opts"
  shows "in_status (plain_installment opts (int i)) = Inst_unpaid \<longleftrightarrow>
    (if int i = io_installment_count opts - 1
     then io_installment_amount opts * of_nat i < io_total_amount opts \<and> io_payment_total opts < io_total_amount opts
     else 0 < io_installment_amount opts \<and> io_payment_total opts < io_installment_amount opts * of_nat (Suc i))"
proof (cases "int i = io_installment_count opts - 1")
  case True
  then have "io_installment_count opts = int i + 1" by simp
  then show ?thesis by (auto simp: plain_installment_def plain_due_def Let_def)
next
  case False
  then show ?thesis by (auto simp: plain_installment_def plain_due_def Let_def algebra_simps)
qed

lemma unpaid_behind:
  assumes "cent_options opts" and "int i < io_installment_count opts"
    and "in_status (plain_installment opts (int i)) = Inst_unpaid"
  shows "behind opts i"
  using assms unpaid_iff [OF assms(1,2)] by (auto simp: behind_def owed_by_def split: if_splits)

lemma least_behind_unpaid:
  assumes "cent_options opts" and "0 < io_total_amount opts" and "0 \<le> io_payment_total opts"
    and "behind opts i" and "\<And>j. j < i \<Longrightarrow> \<not> behind opts j"
  shows "in_status (plain_installment opts (int i)) = Inst_unpaid"
proof (cases "int i = io_installment_count opts - 1")
  case True
  have "io_installment_amount opts * of_nat i < io_total_amount opts"
  proof (cases i)
    case (Suc j)
    then have "\<not> behind opts j" using assms(5) by simp
    then show ?thesis using True assms(4) Suc by (auto simp: behind_def owed_by_def)
  qed (use assms(2) in simp)
  with True assms(4) show ?thesis using unpaid_iff [OF assms(1), of i] by (simp add: behind_def owed_by_def)
next
  case False
  then have "io_payment_total opts < io_installment_amount opts * of_nat (Suc i)"
    using assms(4) by (simp add: behind_def owed_by_def)
  moreover from this have "io_installment_amount opts \<noteq> 0" using assms(3) by auto
  ultimately show ?thesis
    using unpaid_iff [OF assms(1), of i] False assms(1,4) by (simp add: behind_def cent_options_def)
qed

lemma behind_total:
  "io_payment_total opts < io_total_amount opts \<Longrightarrow> 1 \<le> io_installment_count opts \<Longrightarrow>
     behind opts (nat (io_installment_count opts - 1))"
  by (simp add: behind_def owed_by_def)

lemma find_map_upt:
  assumes "i < n" and "P (f i)" and "\<And>j. j < i \<Longrightarrow> \<not> P (f j)"
  shows "find P (map f [0..<n]) = Some (f i)"
  using assms by (auto simp: find_Some_iff)

lemma first_unpaid:
  assumes "cent_options opts" and "0 < io_total_amount opts" and "0 \<le> io_payment_total opts"
    and "1 \<le> io_installment_count opts" and "io_payment_total opts < io_total_amount opts"
  shows "find (\<lambda>i. in_status i = Inst_unpaid) (buildPaymentPlanInstallments opts) =
    Some (plain_installment opts (int (LEAST i. behind opts i)))"
    and "behind opts (LEAST i. behind opts i)"
proof -
  have some: "behind opts (nat (io_installment_count opts - 1))" using assms(4,5) by (rule behind_total [rotated])
  then show b: "behind opts (LEAST i. behind opts i)" by (rule LeastI)
  have least: "\<not> behind opts j" if "j < (LEAST i. behind opts i)" for j
    using that by (rule not_less_Least)
  have "in_status (plain_installment opts (int j)) \<noteq> Inst_unpaid" if "j < (LEAST i. behind opts i)" for j
    using unpaid_behind [OF assms(1), of j] least [OF that] b that by (auto simp: behind_def)
  then show "find (\<lambda>i. in_status i = Inst_unpaid) (buildPaymentPlanInstallments opts) =
    Some (plain_installment opts (int (LEAST i. behind opts i)))"
    using assms(4) b least_behind_unpaid [OF assms(1-3) b least]
    by (simp add: build_plain [OF assms(1)] behind_def find_map_upt [where f = "\<lambda>j. plain_installment opts (int j)"]
        nat_less_iff zless_nat_eq_int_zless)
qed

lemma all_paid_count:
  assumes "cent_options opts" and "0 < io_total_amount opts" and "0 \<le> io_payment_total opts"
    and "1 \<le> io_installment_count opts" and "io_payment_total opts < io_total_amount opts"
  shows "int (length (filter (\<lambda>i. in_status i = Inst_paid) (buildPaymentPlanInstallments opts)))
    < io_installment_count opts"
proof -
  obtain x where "find (\<lambda>i. in_status i = Inst_unpaid) (buildPaymentPlanInstallments opts) = Some x"
    using first_unpaid(1) [OF assms] by blast
  then have "x \<in> set (buildPaymentPlanInstallments opts)" "\<not> in_status x = Inst_paid"
    by (auto dest: find_SomeD)
  then have "length (filter (\<lambda>i. in_status i = Inst_paid) (buildPaymentPlanInstallments opts)) <
      length (buildPaymentPlanInstallments opts)"
    by (rule length_filter_less)
  then show ?thesis using assms(4) by (simp add: build_plain [OF assms(1)])
qed

lemma plan_state_facts:
  assumes "cents (io_total_amount opts)" and "cents (io_installment_amount opts)"
    and "cents (io_payment_total opts)" and "0 \<le> io_installment_amount opts"
    and "1 \<le> io_installment_count opts" and "0 \<le> io_payment_total opts"
    and "ps_total_amount s = io_total_amount opts" and "ps_installment_count s = io_installment_count opts"
  shows "let state = derivePlanState now s (io_payment_total opts) (buildPaymentPlanInstallments opts) in
    (st_fullyPaid state \<longleftrightarrow> io_total_amount opts \<le> io_payment_total opts)
    \<and> (st_breached state \<longleftrightarrow> io_payment_total opts < io_total_amount opts
        \<and> (\<exists>i. behind opts i \<and> io_first_due_date opts + 30 * int i < current_date now))
    \<and> st_next_due_date state = (if io_total_amount opts \<le> io_payment_total opts then None
        else Some (io_first_due_date opts + 30 * int (LEAST i. behind opts i)))"
proof (cases "io_total_amount opts \<le> io_payment_total opts")
  case True
  with assms show ?thesis by (auto simp: derivePlanState_def Let_def split: option.splits)
next
  case False
  have c: "cent_options opts" using assms by (simp add: cent_options_def)
  have lt: "io_payment_total opts < io_total_amount opts" and pos: "0 < io_total_amount opts"
    using False assms(6) by simp_all
  let ?i = "LEAST i. behind opts i"
  have date: "in_due_date (plain_installment opts (int i)) = io_first_due_date opts + 30 * int i" for i
    by (simp add: plain_installment_def Let_def)
  have "(\<exists>i. behind opts i \<and> io_first_due_date opts + 30 * int i < current_date now) \<longleftrightarrow>
      io_first_due_date opts + 30 * int ?i < current_date now"
  proof
    assume "\<exists>i. behind opts i \<and> io_first_due_date opts + 30 * int i < current_date now"
    then obtain i where "behind opts i" "io_first_due_date opts + 30 * int i < current_date now" by blast
    moreover from this have "?i \<le> i" by (simp add: Least_le)
    ultimately show "io_first_due_date opts + 30 * int ?i < current_date now" by linarith
  qed (use first_unpaid(2) [OF c pos assms(6,5) lt] in blast)
  with all_paid_count [OF c pos assms(6,5) lt] first_unpaid(1) [OF c pos assms(6,5) lt] assms(1,3,7,8) lt
  show ?thesis by (simp add: derivePlanState_def Let_def date)
qed

text \<open>The derived state of a plan is exact. It counts as fully paid if and only if the payments reach
  the total; it is breached if and only if they do not and on some past due date they did not cover what
  was owed by then; the next due date is that of the first installment they do not cover.\<close>

theorem plan_state_exact:
  assumes "cents (io_total_amount opts)" and "cents (io_installment_amount opts)"
    and "cents (io_payment_total opts)" and "0 \<le> io_installment_amount opts"
    and "1 \<le> io_installment_count opts" and "0 \<le> io_payment_total opts"
    and "ps_total_amount s = io_total_amount opts" and "ps_installment_count s = io_installment_count opts"
  shows "let state = derivePlanState now s (io_payment_total opts) (buildPaymentPlanInstallments opts) in
    (st_fullyPaid state \<longleftrightarrow> io_total_amount opts \<le> io_payment_total opts)
    \<and> (st_breached state \<longleftrightarrow> io_payment_total opts < io_total_amount opts
        \<and> (\<exists>i. behind opts i \<and> io_first_due_date opts + 30 * int i < current_date now))
    \<and> st_next_due_date state = (if io_total_amount opts \<le> io_payment_total opts then None
        else Some (io_first_due_date opts + 30 * int (LEAST i. behind opts i)))"
  using assms by (rule plan_state_facts)

theorem plan_state_exact_witness:
  "let state = derivePlanState (31 * day) (summarizePaymentPlanRow \<lparr>pp_id = ''p'', pp_case_id = ''k'',
        pp_total_amount = 100, pp_installment_count = 3, pp_installment_amount = 3333 / 100,
        pp_next_due_date = Some 0, pp_status = P_current, pp_created_at = 0, pp_updated_at = 0\<rparr>) 40
        (buildPaymentPlanInstallments (demo_installments 40))
   in \<not> st_fullyPaid state \<and> st_breached state"
proof -
  have "behind (demo_installments 40) 1 \<and> io_first_due_date (demo_installments 40) + 30 * int 1 < current_date (31 * day)"
    by (simp add: demo_installments_def behind_def owed_by_def current_date_def day_def second_def)
  then have "\<exists>i. behind (demo_installments 40) i \<and>
      io_first_due_date (demo_installments 40) + 30 * int i < current_date (31 * day)" by blast
  with plan_state_exact [of "demo_installments 40" "summarizePaymentPlanRow \<lparr>pp_id = ''p'', pp_case_id = ''k'',
        pp_total_amount = 100, pp_installment_count = 3, pp_installment_amount = 3333 / 100,
        pp_next_due_date = Some 0, pp_status = P_current, pp_created_at = 0, pp_updated_at = 0\<rparr>" "31 * day"]
  show ?thesis by (simp add: demo_installments_def summarizePaymentPlanRow_def Let_def)
qed

section \<open>Contracts\<close>

interpretation resolve_by_plan: case_update "resolve_by_plan now" for now
  by unfold_locales (simp_all add: resolve_by_plan_def)

interpretation set_plan_status: row_update pp_id "set_plan_status now s" for now s
  by unfold_locales (simp add: set_plan_status_def)

lemma set_plan_status_fields [simp]:
  "pp_id (set_plan_status now s r) = pp_id r" "pp_case_id (set_plan_status now s r) = pp_case_id r"
  "pp_status (set_plan_status now s r) = s" "pp_total_amount (set_plan_status now s r) = pp_total_amount r"
  "pp_installment_amount (set_plan_status now s r) = pp_installment_amount r"
  "pp_installment_count (set_plan_status now s r) = pp_installment_count r"
  by (simp_all add: set_plan_status_def)

lemma keeps_complete_plan:
  assumes "complete_plan now k d db = Inr db'"
  shows "keeps db db'"
proof -
  have "keeps db (sql_update_plan k (set_plan_status now P_completed) db)"
    by (rule keeps_update_plan) simp_all
  also have "keeps \<dots> (sql_update_case (ps_collection_case_id d) (resolve_by_plan now) \<dots>)"
    by (rule resolve_by_plan.keeps_case)
  also have "keeps \<dots> db'"
    using assms by (auto simp: complete_plan_def split: if_splits intro: keeps_stmts(8))
  finally show ?thesis .
qed

lemma sound_updatePaymentPlanStatus: "sound (updatePaymentPlanStatus now k s)"
  unfolding sound_def
  by (auto simp: updatePaymentPlanStatus_def bind_res_Inr_iff split: option.splits if_splits
      intro: keeps_complete_plan keeps_update_plan)

lemma sound_plan_insert: "sound (plan_insert uuid now opts first_due_date)"
  unfolding sound_def
  by (auto simp: plan_insert_def bind_res_Inr_iff Let_def split: option.splits intro: keeps_stmts(6))

lemma sound_createPaymentPlan: "sound (createPaymentPlan uuid now opts)"
  using sound_plan_insert [of uuid now opts] by (auto simp: sound_def createPaymentPlan_def bind_res_Inr_iff)

lemma sound_reconcile_plan: "sound (reconcile_plan now k)"
  using sound_updatePaymentPlanStatus [of now] unfolding sound_def
  by (fastforce simp: reconcile_plan_def bind_res_Inr_iff Let_def split: option.splits if_splits)

lemma keeps_reconcile_loop: "keeps db (snd (reconcile_loop now ks res db))"
proof (induction ks arbitrary: res db)
  case (Cons k ks)
  show ?case
  proof (cases "reconcile_plan now k db")
    case (Inr p)
    then obtain ch db' where p: "reconcile_plan now k db = Inr (ch, db')" by (cases p) auto
    with sound_reconcile_plan have "keeps db db'" by (auto simp: sound_def)
    with p Cons.IH show ?thesis by (auto intro: keeps_trans)
  qed simp
qed simp

lemma keeps_reconcile: "keeps db (snd (reconcilePaymentPlanLifecycle now db))"
  by (simp add: reconcilePaymentPlanLifecycle_def keeps_reconcile_loop)

section \<open>Reading a plan\<close>

definition plan_paid :: "string \<Rightarrow> ledger \<Rightarrow> money" where
  "plan_paid k db = roundCurrency (sum_list (map pay_amount (fetchPlanPayments k db)))"

definition plan_options :: "plan_row \<Rightarrow> money \<Rightarrow> InstallmentOptions" where
  "plan_options pp paid = \<lparr>io_total_amount = pp_total_amount pp,
     io_installment_count = pp_installment_count pp, io_installment_amount = pp_installment_amount pp,
     io_first_due_date = (case pp_next_due_date pp of Some d \<Rightarrow> d | None \<Rightarrow> pp_created_at pp div day),
     io_payment_total = paid\<rparr>"

definition plan_late :: "timestamp \<Rightarrow> plan_row \<Rightarrow> money \<Rightarrow> bool" where
  "plan_late now pp paid \<longleftrightarrow> paid < pp_total_amount pp
     \<and> (\<exists>i. behind (plan_options pp paid) i
          \<and> io_first_due_date (plan_options pp paid) + 30 * int i < current_date now)"

text \<open>Amounts as the columns and the API admit them.\<close>

definition money_ok :: "ledger \<Rightarrow> bool" where
  "money_ok db \<longleftrightarrow> (\<forall>p \<in> set (payments db). 0 \<le> pay_amount p)
     \<and> (\<forall>p \<in> set (plans db). cents (pp_total_amount p) \<and> cents (pp_installment_amount p)
          \<and> 0 \<le> pp_installment_amount p \<and> 1 \<le> pp_installment_count p)"

lemma roundCurrency_nonneg: "0 \<le> x \<Longrightarrow> 0 \<le> roundCurrency x"
  by (simp add: roundCurrency_def)

lemma plan_paid_nonneg:
  assumes "money_ok db"
  shows "0 \<le> plan_paid k db"
proof -
  have "\<forall>p \<in> set (fetchPlanPayments k db). 0 \<le> pay_amount p"
    using assms by (auto simp: fetchPlanPayments_def money_ok_def split: if_splits)
  then have "0 \<le> sum_list (map pay_amount (fetchPlanPayments k db))"
    by (intro sum_list_nonneg) auto
  then show ?thesis by (simp add: plan_paid_def roundCurrency_nonneg)
qed

lemma cents_plan_paid [simp]: "cents (plan_paid k db)"
  by (simp add: plan_paid_def)

lemma plan_detail:
  assumes "ledger_wf db" and "plan_of k db = Some pp"
  shows "\<exists>cc i c. case_of (pp_case_id pp) db = Some cc \<and> invoice_of (cc_invoice_id cc) db = Some i
    \<and> fetchPlanDetailRows k db = Some (pp, cc, i, c)"
proof -
  have "pp \<in> set (plans db)" using assms(2) by (auto simp: plan_of_def dest: find_row_SomeD)
  then have "pp_case_id pp \<in> cc_id ` set (cases db)" using assms(1) by (auto simp: wf_defs)
  then obtain cc where cc: "case_of (pp_case_id pp) db = Some cc"
    using find_row_None_iff [of cc_id "pp_case_id pp" "cases db"] by (auto simp: case_of_def)
  then have "cc \<in> set (cases db)" by (auto simp: case_of_def dest: find_row_SomeD)
  then have "cc_invoice_id cc \<in> inv_id ` set (invoices db)" using assms(1) by (auto simp: wf_defs)
  then obtain i where i: "invoice_of (cc_invoice_id cc) db = Some i"
    using find_row_None_iff [of inv_id "cc_invoice_id cc" "invoices db"] by (auto simp: invoice_of_def)
  then have "i \<in> set (invoices db)" by (auto simp: invoice_of_def dest: find_row_SomeD)
  then have "inv_customer_id i \<in> cust_id ` set (customers db)" using assms(1) by (auto simp: wf_defs)
  then obtain c where "customer_of (inv_customer_id i) db = Some c"
    using find_row_None_iff [of cust_id "inv_customer_id i" "customers db"] by (auto simp: customer_of_def)
  with assms(2) cc i show ?thesis by (simp add: fetchPlanDetailRows_def)
qed

lemma derivePlanState_cong:
  "ps_total_amount s = ps_total_amount s' \<Longrightarrow> ps_installment_count s = ps_installment_count s' \<Longrightarrow>
     derivePlanState now s p is = derivePlanState now s' p is"
  by (simp add: derivePlanState_def)

lemma buildDetail_fields:
  assumes "buildDetailFromRows now (pp, cc, i, c) pays = d"
  shows "ps_id d = pp_id pp" "ps_status d = pp_status pp" "ps_total_amount d = pp_total_amount pp"
    "ps_installment_count d = pp_installment_count pp" "ps_collection_case_id d = pp_case_id pp"
    "pd_collection_case d = cc" "pd_payment_total d = roundCurrency (sum_list (map pay_amount pays))"
    "pd_installments d = buildPaymentPlanInstallments (plan_options pp (pd_payment_total d))"
  using assms
  by (auto simp: buildDetailFromRows_def Let_def plan_options_def summarizePaymentPlanRow_def
      PaymentPlanSummary.extend_def PaymentPlanDetail.fields_def)

lemma getPaymentPlanDetail_Some:
  assumes "ledger_wf db" and "plan_of k db = Some pp"
  shows "\<exists>d. getPaymentPlanDetail now k db = Some d \<and> ps_id d = k \<and> ps_status d = pp_status pp
    \<and> ps_total_amount d = pp_total_amount pp \<and> ps_collection_case_id d = pp_case_id pp
    \<and> case_of (pp_case_id pp) db = Some (pd_collection_case d)
    \<and> invoice_of (cc_invoice_id (pd_collection_case d)) db \<noteq> None
    \<and> pd_payment_total d = plan_paid k db
    \<and> derivePlanState now d (pd_payment_total d) (pd_installments d) =
        derivePlanState now (summarizePaymentPlanRow pp) (plan_paid k db)
          (buildPaymentPlanInstallments (plan_options pp (plan_paid k db)))"
proof -
  obtain cc i c where rows: "case_of (pp_case_id pp) db = Some cc" "invoice_of (cc_invoice_id cc) db = Some i"
    "fetchPlanDetailRows k db = Some (pp, cc, i, c)"
    using plan_detail [OF assms] by blast
  have "pp_id pp = k" using assms(2) by (auto simp: plan_of_def dest: find_row_SomeD)
  let ?d = "buildDetailFromRows now (pp, cc, i, c) (fetchPlanPayments k db)"
  note d = buildDetail_fields [OF refl, of now pp cc i c "fetchPlanPayments k db"]
  have "derivePlanState now ?d (pd_payment_total ?d) (pd_installments ?d) =
      derivePlanState now (summarizePaymentPlanRow pp) (plan_paid k db)
        (buildPaymentPlanInstallments (plan_options pp (plan_paid k db)))"
    unfolding d(8) d(7) plan_paid_def
    by (rule derivePlanState_cong) (simp_all add: d(3,4) summarizePaymentPlanRow_def)
  with rows d \<open>pp_id pp = k\<close> show ?thesis
    by (intro exI [of _ ?d]) (simp add: getPaymentPlanDetail_def plan_paid_def)
qed

lemma plan_state:
  assumes "money_ok db" and "pp \<in> set (plans db)"
  shows "let state = derivePlanState now (summarizePaymentPlanRow pp) (plan_paid k db)
        (buildPaymentPlanInstallments (plan_options pp (plan_paid k db)))
    in (st_fullyPaid state \<longleftrightarrow> pp_total_amount pp \<le> plan_paid k db)
       \<and> (st_breached state \<longleftrightarrow> plan_late now pp (plan_paid k db))"
  using plan_state_facts [of "plan_options pp (plan_paid k db)" "summarizePaymentPlanRow pp" now]
    assms plan_paid_nonneg [OF assms(1)]
  by (simp add: plan_options_def summarizePaymentPlanRow_def money_ok_def plan_late_def Let_def)

section \<open>One plan of the sweep\<close>

text \<open>The status a plan should have after a sweep, and the plans whose completion the invoice blocks.\<close>

definition plan_verdict :: "timestamp \<Rightarrow> ledger \<Rightarrow> plan_row \<Rightarrow> PaymentPlanStatus" where
  "plan_verdict now db pp =
     (if pp_status pp \<notin> {P_current, P_breached} then pp_status pp
      else if pp_total_amount pp \<le> plan_paid (pp_id pp) db then P_completed
      else if pp_status pp = P_current \<and> plan_late now pp (plan_paid (pp_id pp) db) then P_breached
      else pp_status pp)"

definition plan_invoice_status :: "ledger \<Rightarrow> plan_row \<Rightarrow> InvoiceStatus option" where
  "plan_invoice_status db pp = Option.bind (case_of (pp_case_id pp) db) (\<lambda>c. status_of (cc_invoice_id c) db)"

definition plan_blocked :: "ledger \<Rightarrow> plan_row \<Rightarrow> bool" where
  "plan_blocked db pp \<longleftrightarrow> pp_status pp \<in> {P_current, P_breached}
     \<and> pp_total_amount pp \<le> plan_paid (pp_id pp) db
     \<and> plan_invoice_status db pp \<notin> Some ` {I_in_collection, I_paid}"

text \<open>What one step of the sweep leaves alone.\<close>

definition completable :: "string \<Rightarrow> ledger \<Rightarrow> bool" where
  "completable j db \<longleftrightarrow> status_of j db \<in> Some ` {I_in_collection, I_paid}"

lemma plan_blocked_alt:
  "plan_blocked db pp \<longleftrightarrow> pp_status pp \<in> {P_current, P_breached}
     \<and> pp_total_amount pp \<le> plan_paid (pp_id pp) db
     \<and> (case map_option cc_invoice_id (case_of (pp_case_id pp) db) of
          None \<Rightarrow> True | Some j \<Rightarrow> \<not> completable j db)"
  by (cases "case_of (pp_case_id pp) db")
     (auto simp: plan_blocked_def plan_invoice_status_def completable_def)

definition same_view :: "string \<Rightarrow> ledger \<Rightarrow> ledger \<Rightarrow> bool" where
  "same_view k db db' \<longleftrightarrow> payments db' = payments db
     \<and> map (\<lambda>p. (pp_id p, pp_case_id p)) (plans db') = map (\<lambda>p. (pp_id p, pp_case_id p)) (plans db)
     \<and> map (\<lambda>c. (cc_id c, cc_invoice_id c)) (cases db') = map (\<lambda>c. (cc_id c, cc_invoice_id c)) (cases db)
     \<and> (\<forall>j. j \<noteq> k \<longrightarrow> plan_of j db' = plan_of j db)
     \<and> map (\<lambda>p. (pp_total_amount p, pp_installment_amount p, pp_installment_count p)) (plans db') =
         map (\<lambda>p. (pp_total_amount p, pp_installment_amount p, pp_installment_count p)) (plans db)
     \<and> (\<forall>j. completable j db \<longrightarrow> completable j db')"

lemma fetchPlanPayments_cong:
  assumes "payments db' = payments db"
    and "map (\<lambda>p. (pp_id p, pp_case_id p)) (plans db') = map (\<lambda>p. (pp_id p, pp_case_id p)) (plans db)"
    and "map (\<lambda>c. (cc_id c, cc_invoice_id c)) (cases db') = map (\<lambda>c. (cc_id c, cc_invoice_id c)) (cases db)"
  shows "fetchPlanPayments k db' = fetchPlanPayments k db"
proof -
  have "fetchPlanPayments k d = sort_key (\<lambda>p. (pay_received_at p, pay_created_at p))
      (concat (map (\<lambda>p. concat (map (\<lambda>(cid, inv). concat (map (\<lambda>(pid, pcase).
        if inv = pay_invoice_id p \<and> pcase = cid \<and> pid = k then [p] else [])
          (map (\<lambda>p. (pp_id p, pp_case_id p)) (plans d))))
        (map (\<lambda>c. (cc_id c, cc_invoice_id c)) (cases d)))) (payments d)))" for d
    by (simp add: fetchPlanPayments_def comp_def)
  with assms show ?thesis by presburger
qed

lemma same_view_paid: "same_view k db db' \<Longrightarrow> plan_paid j db' = plan_paid j db"
  by (simp add: same_view_def plan_paid_def fetchPlanPayments_cong [of db' db])

lemma find_row_map_eq:
  assumes "map (\<lambda>r. (key r, f r)) t' = map (\<lambda>r. (key r, f r)) t"
  shows "map_option f (find_row key k t') = map_option f (find_row key k t)"
  using assms
proof (induction t' arbitrary: t)
  case (Cons r t')
  then show ?case by (cases t) auto
qed simp

lemma same_view_unblocked:
  assumes "same_view k db db'" and "\<not> plan_blocked db pp"
  shows "\<not> plan_blocked db' pp"
proof -
  have "map_option cc_invoice_id (case_of (pp_case_id pp) db') = map_option cc_invoice_id (case_of (pp_case_id pp) db)"
    unfolding case_of_def by (rule find_row_map_eq) (use assms(1) in \<open>simp add: same_view_def\<close>)
  then show ?thesis
    using assms same_view_paid [OF assms(1)]
    by (auto simp: plan_blocked_alt same_view_def split: option.splits)
qed

lemma plan_of_update:
  "plan_of j (sql_update_plan k (set_plan_status now s) db) =
     map_option (\<lambda>p. if pp_id p = k then set_plan_status now s p else p) (plan_of j db)"
  by (simp add: plan_of_def sql_update_plan_def set_plan_status.find_update)

lemma same_view_update_plan: "same_view k db (sql_update_plan k (set_plan_status now s) db)"
proof -
  have "plan_of j (sql_update_plan k (set_plan_status now s) db) = plan_of j db" if "j \<noteq> k" for j
    using that by (simp add: plan_of_def sql_update_plan_def set_plan_status.find_update_other)
  then show ?thesis
    by (auto simp: same_view_def sql_update_plan_def map_update_where_same completable_def status_of_def
        invoice_of_def)
qed

lemma complete_plan_ok:
  assumes "ledger_wf db" and "plan_of k db = Some pp" and "getPaymentPlanDetail now k db = Some d"
    and "pp_total_amount pp \<le> plan_paid k db"
    and "plan_invoice_status db pp \<in> Some ` {I_in_collection, I_paid}"
  shows "\<exists>db'. complete_plan now k d db = Inr db' \<and> ledger_wf db' \<and> same_view k db db'
    \<and> plan_of k db' = Some (set_plan_status now P_completed pp)
    \<and> case_of (pp_case_id pp) db' = map_option (resolve_by_plan now) (case_of (pp_case_id pp) db)
    \<and> plan_invoice_status db' pp = Some I_paid"
proof -
  have d: "ps_total_amount d = pp_total_amount pp" "ps_collection_case_id d = pp_case_id pp"
    "case_of (pp_case_id pp) db = Some (pd_collection_case d)" "pd_payment_total d = plan_paid k db"
    using getPaymentPlanDetail_Some [OF assms(1,2), of now] assms(3) by auto
  let ?i = "cc_invoice_id (pd_collection_case d)"
  let ?db1 = "sql_update_plan k (set_plan_status now P_completed) db"
  let ?db2 = "sql_update_case (pp_case_id pp) (resolve_by_plan now) ?db1"
  have wf2: "ledger_wf ?db2"
    by (intro resolve_by_plan.wf_update wf_update_plan assms(1)) simp_all
  obtain r where r: "invoice_of ?i db = Some r" "inv_status r \<in> {I_in_collection, I_paid}"
    using assms(5) d(3) by (auto simp: plan_invoice_status_def status_of_def)
  then have r2: "invoice_of ?i ?db2 = Some r"
    by (simp add: invoice_of_def sql_update_case_def sql_update_plan_def)
  have guard: "guard_invoice_status_transition (inv_status r) I_paid"
    using r(2) by (auto simp: guard_invoice_status_transition_def)
  let ?db3 = "?db2\<lparr>invoices := update_where (\<lambda>r. inv_id r = ?i) (set_status now I_paid) (invoices ?db2)\<rparr>"
  have upd: "sql_update_invoice_status now ?i I_paid ?db2 = Inr ?db3"
    by (rule set_status_ok [OF wf2 r2 guard])
  then have run: "complete_plan now k d db = Inr ?db3" using d assms(4) by (simp add: complete_plan_def)
  have wf3: "ledger_wf ?db3" using keeps_complete_plan [OF run] assms(1) by (simp add: keeps_def)
  have id: "cc_id (pd_collection_case d) = pp_case_id pp" "pp_id pp = k"
    using d(3) assms(2) by (auto simp: case_of_def plan_of_def dest: find_row_SomeD)
  have case3: "case_of (pp_case_id pp) ?db3 = Some (resolve_by_plan now (pd_collection_case d))"
    using d(3) by (simp add: case_of_def sql_update_case_def sql_update_plan_def resolve_by_plan.find_update_self)
  have stat: "status_of j ?db3 = (if j = ?i then Some I_paid else status_of j db)" for j
    using r(1) by (auto simp: status_of_def invoice_of_def sql_update_case_def sql_update_plan_def
        set_status.find_update_self set_status.find_update_other)
  have "plan_of j ?db3 = plan_of j ?db1" for j by (simp add: plan_of_def sql_update_case_def)
  then have plan3: "plan_of k ?db3 = Some (set_plan_status now P_completed pp)"
    using assms(2) id(2) by (simp add: plan_of_update)
  have "same_view k db ?db3"
    using same_view_update_plan [of k db now P_completed] stat
    by (auto simp: same_view_def completable_def plan_of_def sql_update_case_def sql_update_plan_def
        map_update_where_same resolve_by_plan_def)
  moreover have "plan_invoice_status ?db3 pp = Some I_paid"
    using case3 stat [of ?i] by (simp add: plan_invoice_status_def resolve_by_plan_def)
  ultimately show ?thesis using run wf3 case3 plan3 d(3) by auto
qed

lemma reconcile_plan_ok:
  assumes "ledger_wf db" and "money_ok db" and "plan_of k db = Some pp"
    and "pp_status pp \<in> {P_current, P_breached}" and "\<not> plan_blocked db pp"
  shows "\<exists>ch db' pp'. reconcile_plan now k db = Inr (ch, db') \<and> ledger_wf db' \<and> same_view k db db'
    \<and> plan_of k db' = Some pp' \<and> pp_status pp' = plan_verdict now db pp"
proof -
  obtain d where d: "getPaymentPlanDetail now k db = Some d" "ps_id d = k" "ps_status d = pp_status pp"
    "derivePlanState now d (pd_payment_total d) (pd_installments d) =
      derivePlanState now (summarizePaymentPlanRow pp) (plan_paid k db)
        (buildPaymentPlanInstallments (plan_options pp (plan_paid k db)))"
    using getPaymentPlanDetail_Some [OF assms(1,3), of now] by blast
  have pp: "pp \<in> set (plans db)" "pp_id pp = k"
    using assms(3) by (auto simp: plan_of_def dest: find_row_SomeD)
  note state = plan_state [OF assms(2) pp(1), of now k, unfolded Let_def, folded d(4)]
  consider (full) "pp_total_amount pp \<le> plan_paid k db"
    | (late) "\<not> pp_total_amount pp \<le> plan_paid k db" "pp_status pp = P_current" "plan_late now pp (plan_paid k db)"
    | (idle) "\<not> pp_total_amount pp \<le> plan_paid k db" "\<not> (pp_status pp = P_current \<and> plan_late now pp (plan_paid k db))"
    by blast
  then show ?thesis
  proof cases
    case full
    then have "plan_invoice_status db pp \<in> Some ` {I_in_collection, I_paid}"
      using assms(4,5) pp(2) by (auto simp: plan_blocked_def)
    from complete_plan_ok [OF assms(1,3) d(1) full this] obtain db' where "complete_plan now k d db = Inr db'"
      "ledger_wf db'" "same_view k db db'" "plan_of k db' = Some (set_plan_status now P_completed pp)" by blast
    then show ?thesis using full state d assms(4) pp(2)
      by (auto simp: reconcile_plan_def updatePaymentPlanStatus_def plan_verdict_def Let_def)
  next
    case late
    let ?db' = "sql_update_plan k (set_plan_status now P_breached) db"
    have "ledger_wf ?db'" by (rule wf_update_plan [OF assms(1)]) simp_all
    moreover have "plan_of k ?db' = Some (set_plan_status now P_breached pp)"
      using assms(3) pp(2) by (simp add: plan_of_update)
    ultimately show ?thesis using late state d pp(2) same_view_update_plan
      by (auto simp: reconcile_plan_def updatePaymentPlanStatus_def plan_verdict_def Let_def)
  next
    case idle
    have "same_view k db db" by (simp add: same_view_def)
    then show ?thesis using idle state d pp(2) assms(1,3,4)
      by (auto simp: reconcile_plan_def plan_verdict_def Let_def)
  qed
qed

lemma same_view_money_ok:
  assumes "same_view k db db'" and "money_ok db"
  shows "money_ok db'"
proof -
  have "money_ok d \<longleftrightarrow> (\<forall>p \<in> set (payments d). 0 \<le> pay_amount p)
      \<and> (\<forall>(t, a, n) \<in> set (map (\<lambda>p. (pp_total_amount p, pp_installment_amount p, pp_installment_count p)) (plans d)).
          cents t \<and> cents a \<and> 0 \<le> a \<and> 1 \<le> n)" for d
    by (auto simp: money_ok_def)
  note alt = this
  have "payments db' = payments db"
    "map (\<lambda>p. (pp_total_amount p, pp_installment_amount p, pp_installment_count p)) (plans db') =
     map (\<lambda>p. (pp_total_amount p, pp_installment_amount p, pp_installment_count p)) (plans db)"
    using assms(1) by (simp_all add: same_view_def)
  with assms(2) show ?thesis unfolding alt [of db] alt [of db'] by simp
qed

lemma same_view_verdict: "same_view k db db' \<Longrightarrow> plan_verdict now db' pp = plan_verdict now db pp"
  by (simp add: plan_verdict_def same_view_paid)

lemma reconcile_loop_ok:
  assumes "ledger_wf db" and "money_ok db" and "distinct ks"
    and "\<And>k. k \<in> set ks \<Longrightarrow> \<exists>pp. plan_of k db = Some pp \<and> pp_status pp \<in> {P_current, P_breached}
          \<and> \<not> plan_blocked db pp"
  shows "\<exists>res' db'. reconcile_loop now ks res db = (Inr res', db') \<and> ledger_wf db'
    \<and> (\<forall>j pp. plan_of j db = Some pp \<longrightarrow> (\<exists>pp'. plan_of j db' = Some pp'
        \<and> pp_status pp' = (if j \<in> set ks then plan_verdict now db pp else pp_status pp)))"
  using assms
proof (induction ks arbitrary: db res)
  case (Cons k ks)
  obtain pp where pp: "plan_of k db = Some pp" "pp_status pp \<in> {P_current, P_breached}" "\<not> plan_blocked db pp"
    using Cons.prems(4) by auto
  obtain ch db1 pp1 where 1: "reconcile_plan now k db = Inr (ch, db1)" "ledger_wf db1" "same_view k db db1"
    "plan_of k db1 = Some pp1" "pp_status pp1 = plan_verdict now db pp"
    using reconcile_plan_ok [OF Cons.prems(1,2) pp] by blast
  have other: "plan_of j db1 = plan_of j db" if "j \<noteq> k" for j using that 1(3) by (simp add: same_view_def)
  have "\<exists>pp. plan_of j db1 = Some pp \<and> pp_status pp \<in> {P_current, P_breached} \<and> \<not> plan_blocked db1 pp"
    if j: "j \<in> set ks" for j
  proof -
    have "j \<noteq> k" using j Cons.prems(3) by auto
    then show ?thesis
      using j Cons.prems(4) [of j] other [of j] same_view_unblocked [OF 1(3)] by (metis list.set_intros(2))
  qed
  from Cons.IH [OF 1(2) same_view_money_ok [OF 1(3) Cons.prems(2)] _ this] Cons.prems(3)
  obtain res' db' where 2: "reconcile_loop now ks (case ch of
        Some P_completed \<Rightarrow> res\<lparr>pl_completed := pl_completed res @ [k]\<rparr>
      | Some P_breached \<Rightarrow> res\<lparr>pl_breached := pl_breached res @ [k]\<rparr> | _ \<Rightarrow> res) db1 = (Inr res', db')"
    "ledger_wf db'" "\<forall>j pp. plan_of j db1 = Some pp \<longrightarrow> (\<exists>pp'. plan_of j db' = Some pp'
        \<and> pp_status pp' = (if j \<in> set ks then plan_verdict now db1 pp else pp_status pp))"
    by fastforce
  have "\<exists>pp'. plan_of j db' = Some pp' \<and> pp_status pp' = (if j \<in> set (k # ks) then plan_verdict now db q else pp_status q)"
    if q: "plan_of j db = Some q" for j q
  proof (cases "j = k")
    case True
    with q pp(1) have "q = pp" by simp
    moreover have "k \<notin> set ks" using Cons.prems(3) by simp
    ultimately show ?thesis using True 1(4,5) 2(3) by (metis list.set_intros(1))
  next
    case False
    then have "plan_of j db1 = Some q" using q other by simp
    from 2(3) [rule_format, OF this] False show ?thesis
      by (cases "j \<in> set ks") (simp_all add: same_view_verdict [OF 1(3)])
  qed
  with 1(1) 2(1,2) show ?case by simp
qed auto

lemma live_plans_distinct: "ledger_wf db \<Longrightarrow> distinct (live_plans db)"
  by (simp add: live_plans_def wf_defs distinct_map inj_on_def)

lemma live_plans_iff:
  assumes "ledger_wf db" and "plan_of k db = Some pp"
  shows "k \<in> set (live_plans db) \<longleftrightarrow> pp_status pp \<in> {P_current, P_breached}"
proof -
  have "pp \<in> set (plans db)" "pp_id pp = k" using assms(2) by (auto simp: plan_of_def dest: find_row_SomeD)
  moreover have "x = pp" if "x \<in> set (plans db)" "pp_id x = k" for x
    using that assms by (simp add: plan_of_def wf_defs find_row_iff distinct_map inj_on_def)
  moreover have "k \<in> set (live_plans db) \<longleftrightarrow>
      (\<exists>x. x \<in> set (plans db) \<and> pp_id x = k \<and> pp_status x \<in> {P_current, P_breached})"
    by (auto simp: live_plans_def)
  ultimately show ?thesis by blast
qed

text \<open>C11: The daily reconciliation gives every plan the status it should have: on a ledger where no fully
  paid live plan is blocked by its invoice, the sweep succeeds, completes exactly the live plans whose
  payments reach the total, breaches exactly the current ones that are late, and leaves the others alone.\<close>

theorem reconcile_exact:
  assumes "ledger_wf db" and "money_ok db" and "\<forall>pp \<in> set (plans db). \<not> plan_blocked db pp"
  shows "\<exists>res db'. reconcilePaymentPlanLifecycle now db = (Inr res, db')
    \<and> (\<forall>k pp. plan_of k db = Some pp \<longrightarrow>
        (\<exists>pp'. plan_of k db' = Some pp' \<and> pp_status pp' = plan_verdict now db pp))"
proof -
  have live: "\<exists>pp. plan_of k db = Some pp \<and> pp_status pp \<in> {P_current, P_breached} \<and> \<not> plan_blocked db pp"
    if k: "k \<in> set (live_plans db)" for k
  proof -
    obtain pp where "pp \<in> set (plans db)" "pp_id pp = k" "pp_status pp \<in> {P_current, P_breached}"
      using k by (auto simp: live_plans_def)
    with assms(1,3) show ?thesis by (auto simp: plan_of_def wf_defs find_row_SomeI)
  qed
  obtain res db' where run: "reconcilePaymentPlanLifecycle now db = (Inr res, db')"
    "\<forall>j pp. plan_of j db = Some pp \<longrightarrow> (\<exists>pp'. plan_of j db' = Some pp'
        \<and> pp_status pp' = (if j \<in> set (live_plans db) then plan_verdict now db pp else pp_status pp))"
    using reconcile_loop_ok [OF assms(1,2) live_plans_distinct [OF assms(1)] live]
    unfolding reconcilePaymentPlanLifecycle_def by meson
  have "(if k \<in> set (live_plans db) then plan_verdict now db pp else pp_status pp) = plan_verdict now db pp"
    if "plan_of k db = Some pp" for k pp
    using live_plans_iff [OF assms(1) that] by (simp add: plan_verdict_def)
  with run show ?thesis by metis
qed

lemma complete_plan_blocked:
  assumes "ps_total_amount d = pp_total_amount pp" and "ps_collection_case_id d = pp_case_id pp"
    and "case_of (pp_case_id pp) db = Some (pd_collection_case d)"
    and "invoice_of (cc_invoice_id (pd_collection_case d)) db \<noteq> None" and "pd_payment_total d = plan_paid k db"
    and "plan_invoice_status db pp \<notin> Some ` {I_in_collection, I_paid}"
  shows "\<exists>e. complete_plan now k d db = Inl e"
proof -
  let ?i = "cc_invoice_id (pd_collection_case d)"
  obtain r where r: "invoice_of ?i db = Some r" using assms(4) by auto
  have "inv_status r \<notin> {I_in_collection, I_paid}"
    using assms(3,6) r by (auto simp: plan_invoice_status_def status_of_def)
  then have guard: "\<not> guard_invoice_status_transition (inv_status r) I_paid"
    by (cases "inv_status r") (simp_all add: guard_invoice_status_transition_def)
  let ?db2 = "sql_update_case (pp_case_id pp) (resolve_by_plan now) (sql_update_plan k (set_plan_status now P_completed) db)"
  have "invoices ?db2 = invoices db" by (simp add: sql_update_case_def sql_update_plan_def)
  then have "\<exists>e. sql_update_invoice_status now ?i I_paid ?db2 = Inl e"
    using r guard by (cases "sql_update_invoice_status now ?i I_paid ?db2")
      (auto simp: sql_update_invoice_status_def sql_update_invoice_Inr invoice_of_def dest: find_row_SomeD)
  then show ?thesis using assms(2) by (auto simp: complete_plan_def)
qed

text \<open>One blocked plan stops the sweep: when the first live plan is fully paid but its invoice is
  settled, written off or not in collection, the sweep throws and no plan is completed or breached.\<close>

theorem blocked_plan_stops_sweep:
  assumes "ledger_wf db" and "money_ok db" and "live_plans db = k # ks"
    and "plan_of k db = Some pp" and "plan_blocked db pp"
  shows "\<exists>e. reconcilePaymentPlanLifecycle now db = (Inl e, db)"
proof -
  obtain d where d: "getPaymentPlanDetail now k db = Some d" "ps_id d = k" "ps_status d = pp_status pp"
    "ps_total_amount d = pp_total_amount pp" "ps_collection_case_id d = pp_case_id pp"
    "case_of (pp_case_id pp) db = Some (pd_collection_case d)"
    "invoice_of (cc_invoice_id (pd_collection_case d)) db \<noteq> None" "pd_payment_total d = plan_paid k db"
    "derivePlanState now d (pd_payment_total d) (pd_installments d) =
      derivePlanState now (summarizePaymentPlanRow pp) (plan_paid k db)
        (buildPaymentPlanInstallments (plan_options pp (plan_paid k db)))"
    using getPaymentPlanDetail_Some [OF assms(1,4), of now] by blast
  have pp: "pp \<in> set (plans db)" "pp_id pp = k"
    using assms(4) by (auto simp: plan_of_def dest: find_row_SomeD)
  obtain e where "complete_plan now k d db = Inl e"
    using complete_plan_blocked [OF d(4-8)] assms(5) pp(2) by (auto simp: plan_blocked_def)
  with d plan_state [OF assms(2) pp(1), of now k, unfolded Let_def, folded d(9)] assms(3,5) pp(2)
  show ?thesis
    by (auto simp: reconcilePaymentPlanLifecycle_def reconcile_plan_def updatePaymentPlanStatus_def plan_blocked_def Let_def)
qed

text \<open>A ledger with one invoice in the given status, an open case and one current plan of 100 in three
  parts that starts on day 0, with one payment recorded.\<close>

definition demo_case :: case_row where
  "demo_case = \<lparr>cc_id = ''k'', cc_invoice_id = ''i'', cc_agent_id = None, cc_status = C_open,
     cc_escalation_level = 0, cc_resolution_type = None, cc_opened_at = 0, cc_resolved_at = None,
     cc_created_at = 0, cc_updated_at = 0\<rparr>"

definition demo_plan :: plan_row where
  "demo_plan = \<lparr>pp_id = ''p'', pp_case_id = ''k'', pp_total_amount = 100, pp_installment_count = 3,
     pp_installment_amount = 3333 / 100, pp_next_due_date = Some 0, pp_status = P_current,
     pp_created_at = 0, pp_updated_at = 0\<rparr>"

definition demo_plan_ledger :: "InvoiceStatus \<Rightarrow> money \<Rightarrow> ledger" where
  "demo_plan_ledger s paid = (demo_ledger s)\<lparr>cases := [demo_case], plans := [demo_plan],
     payments := [\<lparr>pay_id = ''y'', pay_invoice_id = ''i'', pay_amount = paid, pay_method = None,
       pay_received_at = 0, pay_recorded_by = None, pay_created_at = 0\<rparr>]\<rparr>"

lemmas demo_plan_defs = demo_plan_ledger_def demo_ledger_def empty_ledger_def demo_case_def demo_plan_def

lemma demo_plan_ledger_wf: "ledger_wf (demo_plan_ledger s paid)"
  by (simp add: demo_plan_defs wf_defs one_open_case_def)

lemma demo_plan_ledger_money: "0 \<le> paid \<Longrightarrow> money_ok (demo_plan_ledger s paid)"
  by (simp add: demo_plan_defs money_ok_def)

lemma demo_plan_paid: "cents paid \<Longrightarrow> plan_paid ''p'' (demo_plan_ledger s paid) = paid"
  by (simp add: demo_plan_defs plan_paid_def fetchPlanPayments_def)

theorem reconcile_exact_witness:
  "\<exists>res db' pp'. reconcilePaymentPlanLifecycle 0 (demo_plan_ledger I_in_collection 100) = (Inr res, db')
    \<and> plan_of ''p'' db' = Some pp' \<and> pp_status pp' = P_completed"
proof -
  let ?db = "demo_plan_ledger I_in_collection 100"
  have paid: "plan_paid ''p'' ?db = 100" using demo_plan_paid [of 100] by simp
  have plan: "plan_of ''p'' ?db = Some demo_plan" by (simp add: demo_plan_defs plan_of_def)
  have "\<forall>pp \<in> set (plans ?db). \<not> plan_blocked ?db pp"
    by (simp add: demo_plan_defs plan_blocked_def plan_invoice_status_def case_of_def status_of_def invoice_of_def)
  moreover have "money_ok ?db" by (rule demo_plan_ledger_money) simp
  ultimately obtain res db' pp' where "reconcilePaymentPlanLifecycle 0 ?db = (Inr res, db')" "plan_of ''p'' db' = Some pp'"
    "pp_status pp' = plan_verdict 0 ?db demo_plan"
    using reconcile_exact [OF demo_plan_ledger_wf, of I_in_collection 100 0] plan by blast
  moreover have "plan_verdict 0 ?db demo_plan = P_completed"
    using paid by (simp add: plan_verdict_def demo_plan_def)
  ultimately show ?thesis by auto
qed

theorem blocked_plan_stops_sweep_witness:
  "\<exists>e. reconcilePaymentPlanLifecycle 0 (demo_plan_ledger I_settled 100) = (Inl e, demo_plan_ledger I_settled 100)"
proof -
  let ?db = "demo_plan_ledger I_settled 100"
  have paid: "plan_paid ''p'' ?db = 100" using demo_plan_paid [of 100] by simp
  have "live_plans ?db = [''p'']" "plan_of ''p'' ?db = Some demo_plan"
    by (simp_all add: demo_plan_defs live_plans_def plan_of_def)
  moreover have "plan_invoice_status ?db demo_plan = Some I_settled"
    by (simp add: demo_plan_defs plan_invoice_status_def case_of_def status_of_def invoice_of_def)
  then have "plan_blocked ?db demo_plan" using paid by (simp add: plan_blocked_def demo_plan_def)
  ultimately show ?thesis
    using blocked_plan_stops_sweep [OF demo_plan_ledger_wf demo_plan_ledger_money] by simp
qed

section \<open>Creating and completing plans\<close>

definition plan_accepted :: "timestamp \<Rightarrow> CreatePaymentPlanOptions \<Rightarrow> ledger \<Rightarrow> bool" where
  "plan_accepted now opts db \<longleftrightarrow> 0 < cp_total_amount opts \<and> 1 \<le> cp_installment_count opts
     \<and> (\<exists>d. cp_first_due_date opts = Day d \<and> current_date now \<le> d)
     \<and> case_of (cp_collection_case_id opts) db \<noteq> None
     \<and> (\<forall>p \<in> set (plans db). pp_case_id p = cp_collection_case_id opts \<longrightarrow> pp_status p \<noteq> P_current)
     \<and> (\<exists>t. numeric_18_2 (cp_total_amount opts) = Inr t)
     \<and> (\<exists>a. numeric_18_2 (installment_share (cp_total_amount opts) (cp_installment_count opts)) = Inr a)"

lemma case_exists_iff: "case_of k db \<noteq> None \<longleftrightarrow> k \<in> cc_id ` set (cases db)"
  using find_row_None_iff [of cc_id k "cases db"] by (simp add: case_of_def)

lemma createPaymentPlan_InrD:
  assumes "createPaymentPlan uuid now opts db = Inr (d, db')"
  shows "plan_accepted now opts db \<and> (\<exists>p. db' = db\<lparr>plans := plans db @ [p]\<rparr>
    \<and> pp_case_id p = cp_collection_case_id opts \<and> pp_status p = P_current
    \<and> pp_id p \<notin> pp_id ` set (plans db) \<and> getPaymentPlanDetail now (pp_id p) db' = Some d
    \<and> numeric_18_2 (cp_total_amount opts) = Inr (pp_total_amount p)
    \<and> numeric_18_2 (installment_share (cp_total_amount opts) (cp_installment_count opts)) =
        Inr (pp_installment_amount p)
    \<and> pp_installment_count p = cp_installment_count opts
    \<and> Some (cp_first_due_date opts) = map_option Day (pp_next_due_date p))"
  using assms
  by (auto simp: create_plan_defs plan_accepted_def bind_res_Inr_iff Let_def list_ex_iff
      sql_insert_Inr_iffs split: date_text.splits option.splits)

lemma new_plan_readable:
  assumes "ledger_wf db" and "ledger_wf (db\<lparr>plans := plans db @ [p]\<rparr>)"
  shows "\<exists>d. getPaymentPlanDetail now (pp_id p) (db\<lparr>plans := plans db @ [p]\<rparr>) = Some d"
proof -
  let ?db = "db\<lparr>plans := plans db @ [p]\<rparr>"
  have "plan_of (pp_id p) ?db = Some p"
    unfolding plan_of_def by (rule find_row_SomeI) (use assms(2) in \<open>simp_all add: wf_defs\<close>)
  from getPaymentPlanDetail_Some [OF assms(2) this] show ?thesis by blast
qed

lemma createPaymentPlan_ok:
  assumes "ledger_wf db" and "fresh uuid" and "plan_accepted now opts db"
  shows "\<exists>d db'. createPaymentPlan uuid now opts db = Inr (d, db')"
proof -
  obtain day0 t a where acc: "0 < cp_total_amount opts" "1 \<le> cp_installment_count opts"
    "cp_first_due_date opts = Day day0" "current_date now \<le> day0"
    "case_of (cp_collection_case_id opts) db \<noteq> None"
    "\<forall>p \<in> set (plans db). pp_case_id p = cp_collection_case_id opts \<longrightarrow> pp_status p \<noteq> P_current"
    "numeric_18_2 (cp_total_amount opts) = Inr t"
    "numeric_18_2 (installment_share (cp_total_amount opts) (cp_installment_count opts)) = Inr a"
    using assms(3) by (auto simp: plan_accepted_def)
  let ?p = "\<lparr>pp_id = uuid (map pp_id (plans db)), pp_case_id = cp_collection_case_id opts,
    pp_total_amount = t, pp_installment_count = cp_installment_count opts, pp_installment_amount = a,
    pp_next_due_date = Some day0, pp_status = P_current, pp_created_at = now, pp_updated_at = now\<rparr>"
  have new: "uuid (map pp_id (plans db)) \<notin> pp_id ` set (plans db)"
    using assms(2) by (simp add: fresh_def) (metis set_map)
  have ins: "sql_insert_plan ?p db = Inr (db\<lparr>plans := plans db @ [?p]\<rparr>)"
    using new acc(2,5) by (simp add: sql_insert_Inr_iffs case_exists_iff [symmetric])
  obtain d where "getPaymentPlanDetail now (pp_id ?p) (db\<lparr>plans := plans db @ [?p]\<rparr>) = Some d"
    using new_plan_readable [OF assms(1) wf_sql_insert(6) [OF assms(1) ins]] by blast
  with acc ins show ?thesis
    by (simp add: create_plan_defs require_def list_ex_iff Let_def)
qed

text \<open>A plan is created exactly when the request is valid: a positive total, at least one installment,
  a first due date that is not in the past, an existing case with no current plan, and amounts that fit
  their columns. The ledger then has exactly one more plan, current, and it can be read back.\<close>

theorem create_plan_exact:
  assumes "ledger_wf db" and "fresh uuid"
  shows "((\<exists>d db'. createPaymentPlan uuid now opts db = Inr (d, db')) \<longleftrightarrow> plan_accepted now opts db)
    \<and> (\<forall>d db'. createPaymentPlan uuid now opts db = Inr (d, db') \<longrightarrow>
        (\<exists>p. db' = db\<lparr>plans := plans db @ [p]\<rparr> \<and> pp_case_id p = cp_collection_case_id opts
          \<and> pp_status p = P_current \<and> pp_id p \<notin> pp_id ` set (plans db)
          \<and> getPaymentPlanDetail now (pp_id p) db' = Some d))"
  using createPaymentPlan_ok [OF assms, of now opts] createPaymentPlan_InrD [of uuid now opts db] by blast

definition demo_plan_request :: "money \<Rightarrow> int \<Rightarrow> CreatePaymentPlanOptions" where
  "demo_plan_request tot n = \<lparr>cp_collection_case_id = ''k'', cp_total_amount = tot,
     cp_installment_count = n, cp_first_due_date = Day 0\<rparr>"

definition demo_case_ledger :: "InvoiceStatus \<Rightarrow> ledger" where
  "demo_case_ledger s = (demo_ledger s)\<lparr>cases := [demo_case]\<rparr>"

lemma demo_case_ledger_wf: "ledger_wf (demo_case_ledger s)"
  by (simp add: demo_case_ledger_def demo_ledger_def empty_ledger_def demo_case_def wf_defs one_open_case_def)

lemma numeric_cents: "cents x \<Longrightarrow> \<bar>x\<bar> < 10 ^ 16 \<Longrightarrow> numeric_18_2 x = Inr x"
  unfolding cents_def using numeric_18_2_cents by blast

lemma demo_plan_accepted:
  assumes "cents tot" "0 < tot" "tot < 10 ^ 16" "1 \<le> n"
    and "installment_share tot n = a" "\<bar>a\<bar> < 10 ^ 16"
  shows "plan_accepted 0 (demo_plan_request tot n) (demo_case_ledger s)"
proof -
  have "numeric_18_2 tot = Inr tot" using assms(1-3) by (intro numeric_cents) simp_all
  moreover have "numeric_18_2 (installment_share tot n) = Inr a"
    using cents_share [of tot n] assms(6) unfolding assms(5) by (intro numeric_cents)
  ultimately show ?thesis using assms(2,4)
    by (simp add: plan_accepted_def demo_plan_request_def demo_case_ledger_def demo_ledger_def empty_ledger_def
        demo_case_def case_of_def current_date_def)
qed

text \<open>The share of 2.01 in two is half a cent over a dollar, and its product with 100 in binary64 is below the tie.\<close>

lemma demo_shares: "installment_share 100 3 = 3333 / 100" "installment_share 1 150 = 1 / 100" "installment_share (201 / 100) 2 = 1"
  by code_simp+

theorem create_plan_exact_witness:
  "\<exists>d db' p. createPaymentPlan long_uuid 0 (demo_plan_request 100 3) (demo_case_ledger I_in_collection) = Inr (d, db')
    \<and> plans db' = [p] \<and> pp_status p = P_current"
proof -
  from demo_plan_accepted [OF _ _ _ _ demo_shares(1)]
  have "plan_accepted 0 (demo_plan_request 100 3) (demo_case_ledger I_in_collection)" by simp
  then obtain d db' p where "createPaymentPlan long_uuid 0 (demo_plan_request 100 3) (demo_case_ledger I_in_collection) = Inr (d, db')"
    "db' = (demo_case_ledger I_in_collection)\<lparr>plans := plans (demo_case_ledger I_in_collection) @ [p]\<rparr>"
    "pp_status p = P_current"
    using create_plan_exact [OF demo_case_ledger_wf fresh_long_uuid,
        of 0 "demo_plan_request 100 3" I_in_collection] by blast
  then show ?thesis by (simp add: demo_case_ledger_def demo_ledger_def empty_ledger_def)
qed

text \<open>Rounding the installment amount up can make the last installment negative: a plan of 1.00 in
  150 installments is accepted, and its last installment is -0.49.\<close>

theorem last_installment_negative:
  "\<exists>d db'. createPaymentPlan long_uuid 0 (demo_plan_request 1 150) (demo_case_ledger I_in_collection) = Inr (d, db')
    \<and> in_amount (last (pd_installments d)) = - 49 / 100"
proof -
  let ?db = "demo_case_ledger I_in_collection" and ?opts = "demo_plan_request 1 150"
  have inst: "installment_share 1 150 = 1 / 100" by (rule demo_shares(2))
  have one: "cents 1" using centsI [of 100] by simp
  from demo_plan_accepted [OF one _ _ _ inst] have acc: "plan_accepted 0 ?opts ?db" by simp
  obtain d db' where run: "createPaymentPlan long_uuid 0 ?opts ?db = Inr (d, db')"
    using createPaymentPlan_ok [OF demo_case_ledger_wf fresh_long_uuid acc] by blast
  from createPaymentPlan_InrD [OF run] obtain p where p: "db' = ?db\<lparr>plans := plans ?db @ [p]\<rparr>"
    "getPaymentPlanDetail 0 (pp_id p) db' = Some d" "numeric_18_2 1 = Inr (pp_total_amount p)"
    "numeric_18_2 (1 / 100) = Inr (pp_installment_amount p)" "pp_installment_count p = 150"
    using inst by (auto simp: demo_plan_request_def simp del: eq_divide_eq_numeral1)
  have amounts: "pp_total_amount p = 1" "pp_installment_amount p = 1 / 100"
    using p(3,4) numeric_18_2_cents [of 100] numeric_18_2_cents [of 1] by simp_all
  have "ledger_wf db'"
    using sound_createPaymentPlan run demo_case_ledger_wf by (auto simp: sound_def keeps_def)
  moreover have "plan_of (pp_id p) db' = Some p"
    using p(1) by (simp add: plan_of_def demo_case_ledger_def demo_ledger_def empty_ledger_def)
  ultimately obtain cc i c where "fetchPlanDetailRows (pp_id p) db' = Some (p, cc, i, c)"
    using plan_detail by blast
  then have d: "d = buildDetailFromRows 0 (p, cc, i, c) (fetchPlanPayments (pp_id p) db')"
    using p(2) by (simp add: getPaymentPlanDetail_def)
  let ?o = "plan_options p (pd_payment_total d)"
  have "pd_installments d = buildPaymentPlanInstallments ?o" "cents (pd_payment_total d)"
    using buildDetail_fields(7,8) [OF d [symmetric]] by simp_all
  moreover have "cent_options ?o" using amounts calculation(2) one centsI [of 1]
    by (simp add: cent_options_def plan_options_def del: eq_divide_eq_numeral1)
  ultimately have "pd_installments d = map (\<lambda>j. plain_installment ?o (int j)) [0..<150]"
    using p(5) build_plain [of ?o] by (simp add: plan_options_def)
  then have "in_amount (last (pd_installments d)) = in_amount (plain_installment ?o 149)"
    by (simp add: last_map)
  also have "\<dots> = - 49 / 100"
    using amounts p(5)
    by (simp add: plain_installment_def plain_due_def plan_options_def Let_def del: eq_divide_eq_numeral1)
  finally show ?thesis using run by blast
qed

text \<open>Completing a plan succeeds exactly when the payments reach its total and its invoice is in
  collection or paid. The plan is then completed, its case resolved by payment plan and its invoice paid;
  otherwise an error is thrown and the transaction writes nothing.\<close>

theorem complete_plan_outcome:
  assumes "ledger_wf db" and "plan_of k db = Some pp"
  shows "if pp_total_amount pp \<le> plan_paid k db \<and> plan_invoice_status db pp \<in> {Some I_in_collection, Some I_paid}
    then \<exists>r db' pp' c. updatePaymentPlanStatus now k P_completed db = Inr (r, db')
      \<and> plan_of k db' = Some pp' \<and> pp_status pp' = P_completed
      \<and> case_of (pp_case_id pp) db' = Some c \<and> cc_status c = C_resolved
      \<and> cc_resolution_type c = Some R_payment_plan \<and> plan_invoice_status db' pp = Some I_paid
    else \<exists>e. updatePaymentPlanStatus now k P_completed db = Inl e"
proof -
  obtain d where d: "getPaymentPlanDetail now k db = Some d" "ps_total_amount d = pp_total_amount pp"
    "ps_collection_case_id d = pp_case_id pp" "case_of (pp_case_id pp) db = Some (pd_collection_case d)"
    "invoice_of (cc_invoice_id (pd_collection_case d)) db \<noteq> None" "pd_payment_total d = plan_paid k db"
    using getPaymentPlanDetail_Some [OF assms, of now] by blast
  show ?thesis
  proof (cases "pp_total_amount pp \<le> plan_paid k db \<and> plan_invoice_status db pp \<in> {Some I_in_collection, Some I_paid}")
    case True
    then obtain db' where "complete_plan now k d db = Inr db'"
      "plan_of k db' = Some (set_plan_status now P_completed pp)"
      "case_of (pp_case_id pp) db' = map_option (resolve_by_plan now) (case_of (pp_case_id pp) db)"
      "plan_invoice_status db' pp = Some I_paid"
      using complete_plan_ok [OF assms d(1)] by auto
    with True d show ?thesis by (simp add: updatePaymentPlanStatus_def resolve_by_plan_def)
  next
    case False
    have "\<exists>e. complete_plan now k d db = Inl e"
      using complete_plan_blocked [OF d(2-6)] False d(2,6)
      by (cases "pp_total_amount pp \<le> plan_paid k db") (auto simp: complete_plan_def)
    with False d(1) show ?thesis by (auto simp: updatePaymentPlanStatus_def)
  qed
qed

theorem complete_plan_outcome_witness:
  "\<exists>r db' pp'. updatePaymentPlanStatus 5 ''p'' P_completed (demo_plan_ledger I_in_collection 100) = Inr (r, db')
     \<and> plan_of ''p'' db' = Some pp' \<and> pp_status pp' = P_completed"
proof -
  let ?db = "demo_plan_ledger I_in_collection 100"
  have plan: "plan_of ''p'' ?db = Some demo_plan" by (simp add: demo_plan_defs plan_of_def)
  have "plan_invoice_status ?db demo_plan = Some I_in_collection"
    by (simp add: demo_plan_defs plan_invoice_status_def case_of_def status_of_def invoice_of_def)
  moreover have "pp_total_amount demo_plan \<le> plan_paid ''p'' ?db"
    using demo_plan_paid [of 100] by (simp add: demo_plan_def)
  ultimately show ?thesis using complete_plan_outcome [OF demo_plan_ledger_wf plan, of 5] by auto
qed

section \<open>At most one current plan per case\<close>

definition one_current_plan :: "ledger \<Rightarrow> bool" where
  "one_current_plan db \<longleftrightarrow> distinct (map pp_case_id (filter (\<lambda>p. pp_status p = P_current) (plans db)))"

lemma one_current_update:
  assumes "one_current_plan db" and "s \<noteq> P_current"
    and "plans db' = update_where q (set_plan_status now s) (plans db)"
  shows "one_current_plan db'"
proof -
  have "distinct (map pp_case_id (filter (\<lambda>p. pp_status p = P_current) (update_where q (set_plan_status now s) t)))
      \<and> set (filter (\<lambda>p. pp_status p = P_current) (update_where q (set_plan_status now s) t))
          \<subseteq> set (filter (\<lambda>p. pp_status p = P_current) t)"
    if "distinct (map pp_case_id (filter (\<lambda>p. pp_status p = P_current) t))" for t
    using that
  proof (induction t)
    case (Cons p t)
    then show ?case using assms(2) by (fastforce simp: update_where_def split: if_splits)
  qed (simp add: update_where_def)
  with assms(1,3) show ?thesis by (simp add: one_current_plan_def)
qed

lemma one_current_status:
  assumes "one_current_plan db" and "updatePaymentPlanStatus now k s db = Inr (r, db')"
  shows "one_current_plan db'"
proof -
  have "plans db' = plans db \<or> (\<exists>s'. s' \<noteq> P_current \<and>
      plans db' = update_where (\<lambda>r. pp_id r = k) (set_plan_status now s') (plans db))"
    using assms(2)
    by (auto simp: updatePaymentPlanStatus_def complete_plan_def bind_res_Inr_iff sql_update_invoice_status_def
        sql_update_invoice_Inr sql_update_case_def sql_update_plan_def split: option.splits if_splits)
  with assms(1) one_current_update show ?thesis by (metis one_current_plan_def)
qed

lemma one_current_create:
  assumes "one_current_plan db" and "createPaymentPlan uuid now opts db = Inr (d, db')"
  shows "one_current_plan db'"
  using createPaymentPlan_InrD [OF assms(2)] assms(1)
  by (auto simp: one_current_plan_def plan_accepted_def)

lemma one_current_loop: "one_current_plan db \<Longrightarrow> one_current_plan (snd (reconcile_loop now ks res db))"
proof (induction ks arbitrary: res db)
  case (Cons k ks)
  show ?case
  proof (cases "reconcile_plan now k db")
    case (Inr p)
    then obtain ch db1 where p: "reconcile_plan now k db = Inr (ch, db1)" by (cases p) auto
    then have "one_current_plan db1"
      using Cons.prems one_current_status
      by (fastforce simp: reconcile_plan_def bind_res_Inr_iff Let_def split: option.splits if_splits)
    with p Cons.IH show ?thesis by simp
  qed (simp add: Cons.prems)
qed simp

lemma plan_insert_InrD:
  assumes "plan_insert uuid now opts first db = Inr (d, db')"
  obtains p where "db' = db\<lparr>plans := plans db @ [p]\<rparr>" and "pp_case_id p = cp_collection_case_id opts"
    and "pp_status p = P_current"
  using assms by (auto simp: plan_insert_def bind_res_Inr_iff Let_def sql_insert_Inr_iffs split: option.splits)

lemma plan_insert_unique:
  assumes "one_current_plan db" and "plan_insert uuid now opts first db = Inr (d, db')"
  shows "one_current_plan db' \<longleftrightarrow> \<not> has_current_plan (cp_collection_case_id opts) db"
proof -
  obtain p where "db' = db\<lparr>plans := plans db @ [p]\<rparr>" "pp_case_id p = cp_collection_case_id opts" "pp_status p = P_current"
    using assms(2) by (rule plan_insert_InrD)
  with assms(1) show ?thesis by (auto simp: one_current_plan_def has_current_plan_def list_ex_iff image_iff)
qed

text \<open>C37: A case never has two current payment plans as long as creations run one at a time: a call of
  \<open>createPaymentPlan\<close>, a change of a plan's status and the reconciliation sweep, also when it ends in an error, all keep
  that. The check of \<open>createPaymentPlan\<close> locks nothing and no index forbids a second current plan, so when other
  transactions commit between its check and its insert, the insert keeps the rule exactly if none of them has made a plan of
  the case current; otherwise the case has two current plans.\<close>

theorem current_plan_unique:
  assumes "one_current_plan db"
  shows "(\<forall>d db'. createPaymentPlan uuid now opts db = Inr (d, db') \<longrightarrow> one_current_plan db')
    \<and> (\<forall>r db'. updatePaymentPlanStatus now k s db = Inr (r, db') \<longrightarrow> one_current_plan db')
    \<and> one_current_plan (snd (reconcilePaymentPlanLifecycle now db))
    \<and> (\<forall>db0 first d db'. plan_check now opts db0 = Inr first \<and> plan_insert uuid now opts first db = Inr (d, db') \<longrightarrow>
         (one_current_plan db' \<longleftrightarrow> \<not> has_current_plan (cp_collection_case_id opts) db))"
  using one_current_create [OF assms] one_current_status [OF assms] one_current_loop [OF assms] plan_insert_unique [OF assms]
  by (auto simp: reconcilePaymentPlanLifecycle_def)

lemma create_plan_steps:
  "createPaymentPlan uuid now opts db = Inr (d, db') \<longleftrightarrow>
     (\<exists>first. plan_check now opts db = Inr first \<and> plan_insert uuid now opts first db = Inr (d, db'))"
  by (auto simp: createPaymentPlan_def bind_res_Inr_iff)

lemma plan_insert_again:
  assumes "ledger_wf db" and "fresh uuid" and "plan_check now opts db = Inr first"
    and "plan_insert uuid now opts first db = Inr (d, db')"
  shows "\<exists>d2 db2. plan_insert uuid now opts first db' = Inr (d2, db2)"
proof -
  have run: "createPaymentPlan uuid now opts db = Inr (d, db')" using assms(3,4) by (auto simp: create_plan_steps)
  then have wf: "ledger_wf db'" using sound_createPaymentPlan assms(1) by (auto simp: sound_def keeps_def)
  obtain p t a where p: "db' = db\<lparr>plans := plans db @ [p]\<rparr>" "numeric_18_2 (cp_total_amount opts) = Inr t"
    "numeric_18_2 (installment_share (cp_total_amount opts) (cp_installment_count opts)) = Inr a"
    "case_of (cp_collection_case_id opts) db' \<noteq> None" "1 \<le> cp_installment_count opts"
    using createPaymentPlan_InrD [OF run] by (auto simp: plan_accepted_def case_of_def)
  let ?p = "\<lparr>pp_id = uuid (map pp_id (plans db')), pp_case_id = cp_collection_case_id opts,
    pp_total_amount = t, pp_installment_count = cp_installment_count opts, pp_installment_amount = a,
    pp_next_due_date = Some first, pp_status = P_current, pp_created_at = now, pp_updated_at = now\<rparr>"
  have new: "uuid (map pp_id (plans db')) \<notin> pp_id ` set (plans db')"
    using assms(2) by (simp add: fresh_def) (metis set_map)
  have ins: "sql_insert_plan ?p db' = Inr (db'\<lparr>plans := plans db' @ [?p]\<rparr>)"
    using new p(4,5) by (simp add: sql_insert_Inr_iffs case_exists_iff [symmetric])
  obtain d2 where "getPaymentPlanDetail now (pp_id ?p) (db'\<lparr>plans := plans db' @ [?p]\<rparr>) = Some d2"
    using new_plan_readable [OF wf wf_sql_insert(6) [OF wf ins]] by blast
  with p(2,3) ins show ?thesis by (simp add: plan_insert_def Let_def)
qed

text \<open>One call keeps the rule; the same request sent twice, both checks before both inserts, breaks it.\<close>

theorem current_plan_unique_witness:
  "\<exists>first d db1 d2 db2. createPaymentPlan long_uuid 0 (demo_plan_request 100 3) (demo_case_ledger I_in_collection) = Inr (d, db1)
    \<and> one_current_plan db1 \<and> plan_check 0 (demo_plan_request 100 3) (demo_case_ledger I_in_collection) = Inr first
    \<and> plan_insert long_uuid 0 (demo_plan_request 100 3) first db1 = Inr (d2, db2) \<and> \<not> one_current_plan db2"
proof -
  let ?db = "demo_case_ledger I_in_collection" and ?opts = "demo_plan_request 100 3"
  from demo_plan_accepted [OF _ _ _ _ demo_shares(1)] have "plan_accepted 0 ?opts ?db" by simp
  from createPaymentPlan_ok [OF demo_case_ledger_wf fresh_long_uuid this]
  obtain first d db1 where run: "createPaymentPlan long_uuid 0 ?opts ?db = Inr (d, db1)"
    "plan_check 0 ?opts ?db = Inr first" "plan_insert long_uuid 0 ?opts first ?db = Inr (d, db1)"
    unfolding create_plan_steps by blast
  have "one_current_plan ?db"
    by (simp add: one_current_plan_def demo_case_ledger_def demo_ledger_def empty_ledger_def)
  from current_plan_unique [OF this] run(1) have one: "one_current_plan db1" by blast
  obtain d2 db2 where second: "plan_insert long_uuid 0 ?opts first db1 = Inr (d2, db2)"
    using plan_insert_again [OF demo_case_ledger_wf fresh_long_uuid run(2,3)] by blast
  obtain p where "plans db1 = plans ?db @ [p]" "pp_case_id p = cp_collection_case_id ?opts" "pp_status p = P_current"
    using run(3) by (auto elim!: plan_insert_InrD)
  then have "has_current_plan (cp_collection_case_id ?opts) db1" by (simp add: has_current_plan_def)
  with current_plan_unique [OF one, of long_uuid 0 ?opts] run(2) second have "\<not> one_current_plan db2" by blast
  with run(1,2) one second show ?thesis by blast
qed

end
