(* ===== verification/Approvals.thy ===== *)
theory Approvals
  imports Ledger
begin

text \<open>
  M-of-N approvals for privileged operations, \<^verbatim>\<open>src/packages/db/approvals.ts\<close>, with the check of
  \<^verbatim>\<open>src/apps/server/src/security/approval-middleware.ts\<close>. \<open>castVote\<close> and \<open>markExecuted\<close> are defined from
  their single statements, because the code issues those outside a transaction: the second half of the
  theory runs them statement by statement, interleaved. A failing call writes nothing: every error comes
  before the first write. The audit callback, whose failures are caught, is left out.
\<close>

section \<open>Data\<close>

datatype ApprovalStatus = A_pending | A_approved | A_rejected | A_executed

datatype VoteDecision = V_approved | V_rejected

definition PRIVILEGED_OPERATIONS :: "string list" where
  "PRIVILEGED_OPERATIONS = [''root_key_rotate'', ''bulk_export'', ''enable_worm'']"

record ApprovalRequest =
  ar_id :: string
  ar_operation_type :: string
  ar_payload :: json
  ar_requested_by :: string
  ar_required_approvals :: int
  ar_status :: ApprovalStatus
  ar_created_at :: timestamp
  ar_updated_at :: timestamp

record ApprovalVote =
  av_id :: string
  av_request_id :: string
  av_approver_id :: string
  av_decision :: VoteDecision
  av_comment :: "string option"
  av_created_at :: timestamp

record approvals_db =
  requests :: "ApprovalRequest list"
  votes :: "ApprovalVote list"

record ApprovalRequestWithVotes =
  rv_request :: ApprovalRequest
  rv_votes :: "ApprovalVote list"
  rv_approval_count :: nat
  rv_rejection_count :: nat

record CreateApprovalRequestInput =
  cr_operation_type :: string
  cr_payload :: json
  cr_requested_by :: string
  cr_required_approvals :: "int option"

record CastVoteInput =
  cv_request_id :: string
  cv_approver_id :: string
  cv_decision :: VoteDecision
  cv_comment :: "string option"

record CastVoteResult =
  cv_vote :: ApprovalVote
  cv_request :: ApprovalRequest
  cv_quorum_reached :: bool

record ListApprovalRequestsOptions =
  la_status :: "ApprovalStatus option"
  la_operation_type :: "string option"
  la_limit :: "int option"
  la_offset :: "int option"

section \<open>Operations\<close>

definition request_of :: "string \<Rightarrow> approvals_db \<Rightarrow> ApprovalRequest option" where
  "request_of k db = find_row ar_id k (requests db)"

definition createApprovalRequest ::
  "(string list \<Rightarrow> string) \<Rightarrow> timestamp \<Rightarrow> CreateApprovalRequestInput \<Rightarrow> approvals_db
     \<Rightarrow> app_error + (ApprovalRequest \<times> approvals_db)" where
  "createApprovalRequest uuid now input db =
     bind_res (require (cr_operation_type input \<in> set PRIVILEGED_OPERATIONS)
       (Thrown (''Unknown privileged operation type: '' @ cr_operation_type input))) (\<lambda>_.
     let requiredApprovals = (case cr_required_approvals input of None \<Rightarrow> 2 | Some m \<Rightarrow> m) in
     bind_res (require (1 \<le> requiredApprovals) (Thrown ''required_approvals must be at least 1'')) (\<lambda>_.
     let row = \<lparr>ar_id = uuid (map ar_id (requests db)), ar_operation_type = cr_operation_type input,
           ar_payload = cr_payload input, ar_requested_by = cr_requested_by input,
           ar_required_approvals = requiredApprovals, ar_status = A_pending, ar_created_at = now,
           ar_updated_at = now\<rparr>
     in bind_res (db_res (insert_row ar_id row (requests db))) (\<lambda>t. Inr (row, db\<lparr>requests := t\<rparr>))))"

text \<open>The statements of \<open>castVote\<close>, in order: the locking SELECT with the checks on its row, the INSERT
  under the foreign key and \<^verbatim>\<open>UNIQUE (request_id, approver_id)\<close>, the COUNT that decides the new status,
  and the UPDATE.\<close>

definition vote_check :: "string \<Rightarrow> approvals_db \<Rightarrow> app_error + ApprovalRequest" where
  "vote_check k db =
     (case request_of k db of
        None \<Rightarrow> Inl (Thrown (''Approval request not found: '' @ k))
      | Some request \<Rightarrow>
          if ar_status request \<noteq> A_pending then Inl (Thrown (''Approval request '' @ k @ '' is not pending''))
          else Inr request)"

definition vote_insert ::
  "(string list \<Rightarrow> string) \<Rightarrow> timestamp \<Rightarrow> CastVoteInput \<Rightarrow> approvals_db \<Rightarrow> app_error + (ApprovalVote \<times> approvals_db)" where
  "vote_insert uuid now input db =
     (let vote = \<lparr>av_id = uuid (map av_id (votes db)), av_request_id = cv_request_id input,
            av_approver_id = cv_approver_id input, av_decision = cv_decision input,
            av_comment = cv_comment input, av_created_at = now\<rparr>
      in bind_res (references (cv_request_id input) (map ar_id (requests db))) (\<lambda>_.
         bind_res (require (\<not> list_ex (\<lambda>v. av_request_id v = cv_request_id input
             \<and> av_approver_id v = cv_approver_id input) (votes db))
           (DbErr (UniqueViolation (cv_approver_id input)))) (\<lambda>_.
         bind_res (db_res (insert_row av_id vote (votes db))) (\<lambda>t. Inr (vote, db\<lparr>votes := t\<rparr>)))))"

definition approval_count :: "string \<Rightarrow> approvals_db \<Rightarrow> nat" where
  "approval_count k db = length (filter (\<lambda>v. av_request_id v = k \<and> av_decision v = V_approved) (votes db))"

definition vote_status :: "CastVoteInput \<Rightarrow> ApprovalRequest \<Rightarrow> approvals_db \<Rightarrow> ApprovalStatus" where
  "vote_status input request db =
     (if cv_decision input = V_rejected then A_rejected
      else if int (approval_count (cv_request_id input) db) \<ge> ar_required_approvals request then A_approved
      else A_pending)"

definition set_request_status :: "timestamp \<Rightarrow> ApprovalStatus \<Rightarrow> ApprovalRequest \<Rightarrow> ApprovalRequest" where
  "set_request_status now s r = r\<lparr>ar_status := s, ar_updated_at := now\<rparr>"

definition update_request :: "timestamp \<Rightarrow> string \<Rightarrow> ApprovalStatus \<Rightarrow> approvals_db \<Rightarrow> approvals_db" where
  "update_request now k s db =
     db\<lparr>requests := update_where (\<lambda>r. ar_id r = k) (set_request_status now s) (requests db)\<rparr>"

definition castVote ::
  "(string list \<Rightarrow> string) \<Rightarrow> timestamp \<Rightarrow> CastVoteInput \<Rightarrow> approvals_db \<Rightarrow> app_error + (CastVoteResult \<times> approvals_db)" where
  "castVote uuid now input db =
     bind_res (vote_check (cv_request_id input) db) (\<lambda>request.
     bind_res (vote_insert uuid now input db) (\<lambda>(vote, db1).
       let newStatus = vote_status input request db1 in
       if newStatus \<noteq> A_pending then
         Inr (\<lparr>cv_vote = vote, cv_request = set_request_status now newStatus request,
               cv_quorum_reached = (newStatus = A_approved)\<rparr>,
              update_request now (cv_request_id input) newStatus db1)
       else Inr (\<lparr>cv_vote = vote, cv_request = request, cv_quorum_reached = False\<rparr>, db1)))"

definition execute_check :: "string \<Rightarrow> approvals_db \<Rightarrow> app_error + ApprovalRequest" where
  "execute_check k db =
     (case request_of k db of
        None \<Rightarrow> Inl (Thrown (''Approval request not found: '' @ k))
      | Some request \<Rightarrow>
          if ar_status request \<noteq> A_approved then Inl (Thrown (''Approval request '' @ k @ '' cannot be executed''))
          else Inr request)"

definition markExecuted :: "timestamp \<Rightarrow> string \<Rightarrow> approvals_db \<Rightarrow> app_error + (ApprovalRequest \<times> approvals_db)" where
  "markExecuted now k db =
     bind_res (execute_check k db) (\<lambda>request.
       Inr (set_request_status now A_executed request, update_request now k A_executed db))"

definition getApprovalRequest :: "string \<Rightarrow> approvals_db \<Rightarrow> ApprovalRequestWithVotes option" where
  "getApprovalRequest k db =
     (case request_of k db of
        None \<Rightarrow> None
      | Some request \<Rightarrow>
          (let vs = sort_key av_created_at (filter (\<lambda>v. av_request_id v = k) (votes db))
           in Some \<lparr>rv_request = request, rv_votes = vs,
                rv_approval_count = length (filter (\<lambda>v. av_decision v = V_approved) vs),
                rv_rejection_count = length (filter (\<lambda>v. av_decision v = V_rejected) vs)\<rparr>))"

text \<open>An empty operation type is falsy and filters nothing.\<close>

definition listApprovalRequests ::
  "ListApprovalRequestsOptions \<Rightarrow> approvals_db \<Rightarrow> app_error + ApprovalRequest list" where
  "listApprovalRequests options db =
     (let pick = (\<lambda>r. (case la_status options of None \<Rightarrow> True | Some s \<Rightarrow> ar_status r = s)
            \<and> (case la_operation_type options of None \<Rightarrow> True | Some t \<Rightarrow> t = [] \<or> ar_operation_type r = t))
      in db_res (sql_page (min (case la_limit options of None \<Rightarrow> 50 | Some l \<Rightarrow> l) 200)
           (case la_offset options of None \<Rightarrow> 0 | Some n \<Rightarrow> n)
           (sort_key (\<lambda>r. - ar_created_at r) (filter pick (requests db)))))"

definition assertApproved :: "string \<Rightarrow> approvals_db \<Rightarrow> app_error + ApprovalRequest" where
  "assertApproved k db =
     (case request_of k db of
        None \<Rightarrow> Inl (Thrown (''Approval request not found: '' @ k))
      | Some request \<Rightarrow>
          if ar_status request = A_executed
          then Inl (Thrown (''Approval request '' @ k @ '' has already been executed and cannot be reused''))
          else if ar_status request \<noteq> A_approved then Inl (Thrown (''Privileged operation blocked: '' @ k))
          else Inr request)"

text \<open>The middleware: \<open>None\<close> stands for the 403 response.\<close>

definition requireApproval :: "string option \<Rightarrow> string \<Rightarrow> approvals_db \<Rightarrow> ApprovalRequest option" where
  "requireApproval header operationType db =
     (case header of
        None \<Rightarrow> None
      | Some requestId \<Rightarrow>
          if requestId = [] then None
          else (case assertApproved requestId db of
                  Inl e \<Rightarrow> None
                | Inr request \<Rightarrow> if ar_operation_type request \<noteq> operationType then None else Some request))"

section \<open>One call at a time\<close>

interpretation set_request_status: row_update ar_id "set_request_status now s" for now s
  by unfold_locales (simp add: set_request_status_def)

lemma set_request_status_fields [simp]:
  "ar_id (set_request_status now s r) = ar_id r" "ar_status (set_request_status now s r) = s"
  "ar_required_approvals (set_request_status now s r) = ar_required_approvals r"
  by (simp_all add: set_request_status_def)

definition empty_approvals :: approvals_db where
  "empty_approvals = \<lparr>requests = [], votes = []\<rparr>"

definition rejected_vote :: "string \<Rightarrow> approvals_db \<Rightarrow> bool" where
  "rejected_vote k db \<longleftrightarrow> (\<exists>v \<in> set (votes db). av_request_id v = k \<and> av_decision v = V_rejected)"

definition ap_wf :: "approvals_db \<Rightarrow> bool" where
  "ap_wf db \<longleftrightarrow> distinct (map ar_id (requests db))
     \<and> distinct (map (\<lambda>v. (av_request_id v, av_approver_id v)) (votes db))
     \<and> (\<forall>v \<in> set (votes db). av_request_id v \<in> ar_id ` set (requests db))"

definition rejections_final :: "approvals_db \<Rightarrow> bool" where
  "rejections_final db \<longleftrightarrow> (\<forall>r \<in> set (requests db). rejected_vote (ar_id r) db \<longrightarrow> ar_status r = A_rejected)"

datatype ap_op =
    Create "string list \<Rightarrow> string" timestamp CreateApprovalRequestInput
  | Cast "string list \<Rightarrow> string" timestamp CastVoteInput
  | Execute timestamp string

fun ap_step :: "ap_op \<Rightarrow> approvals_db \<Rightarrow> approvals_db" where
  "ap_step (Create uuid now input) db = commit db (createApprovalRequest uuid now input db)"
| "ap_step (Cast uuid now input) db = commit db (castVote uuid now input db)"
| "ap_step (Execute now k) db = commit db (markExecuted now k db)"

lemma create_InrD:
  assumes "createApprovalRequest uuid now input db = Inr (r, db')"
  shows "db' = db\<lparr>requests := requests db @ [r]\<rparr> \<and> ar_id r \<notin> ar_id ` set (requests db)
    \<and> ar_status r = A_pending \<and> 1 \<le> ar_required_approvals r"
  using assms by (auto simp: createApprovalRequest_def bind_res_Inr_iff Let_def db_res_Inr_iff insert_row_Inr)

lemma vote_insert_InrD:
  assumes "vote_insert uuid now input db = Inr (v, db')"
  shows "db' = db\<lparr>votes := votes db @ [v]\<rparr> \<and> av_request_id v = cv_request_id input
    \<and> av_approver_id v = cv_approver_id input \<and> av_decision v = cv_decision input
    \<and> cv_request_id input \<in> ar_id ` set (requests db)
    \<and> (\<forall>w \<in> set (votes db). (av_request_id w, av_approver_id w) \<noteq> (cv_request_id input, cv_approver_id input))"
  using assms
  by (auto simp: vote_insert_def bind_res_Inr_iff Let_def db_res_Inr_iff insert_row_Inr list_ex_iff)

lemma vote_check_InrD:
  "vote_check k db = Inr r \<Longrightarrow> request_of k db = Some r \<and> ar_status r = A_pending"
  by (auto simp: vote_check_def split: option.splits if_splits)

lemma execute_check_InrD:
  "execute_check k db = Inr r \<Longrightarrow> request_of k db = Some r \<and> ar_status r = A_approved"
  by (auto simp: execute_check_def split: option.splits if_splits)

lemma castVote_InrD:
  assumes "castVote uuid now input db = Inr (res, db')"
  shows "\<exists>r v db1. vote_check (cv_request_id input) db = Inr r \<and> vote_insert uuid now input db = Inr (v, db1)
    \<and> db' = (if vote_status input r db1 = A_pending then db1
        else update_request now (cv_request_id input) (vote_status input r db1) db1)"
proof -
  obtain r v db1 where 1: "vote_check (cv_request_id input) db = Inr r" "vote_insert uuid now input db = Inr (v, db1)"
    using assms by (auto simp: castVote_def bind_res_Inr_iff)
  with assms have "db' = (if vote_status input r db1 = A_pending then db1
      else update_request now (cv_request_id input) (vote_status input r db1) db1)"
    by (simp add: castVote_def Let_def split: if_splits)
  with 1 show ?thesis by blast
qed

lemma ap_wf_update: "ap_wf (update_request now k s db) \<longleftrightarrow> ap_wf db"
  by (simp add: ap_wf_def update_request_def set_request_status.distinct_update image_update_where_same)

lemma ap_wf_insert: "ap_wf db \<Longrightarrow> vote_insert uuid now input db = Inr (v, db') \<Longrightarrow> ap_wf db'"
  by (fastforce simp: ap_wf_def dest!: vote_insert_InrD)

lemma ap_wf_create: "ap_wf db \<Longrightarrow> createApprovalRequest uuid now input db = Inr (r, db') \<Longrightarrow> ap_wf db'"
  by (auto simp: ap_wf_def dest!: create_InrD)

lemma request_unique:
  assumes "ap_wf db" and "request_of k db = Some r" and "x \<in> set (requests db)" and "ar_id x = k"
  shows "x = r"
  using assms by (simp add: ap_wf_def request_of_def find_row_iff distinct_map inj_on_def)

definition ap_inv :: "approvals_db \<Rightarrow> bool" where
  "ap_inv db \<longleftrightarrow> ap_wf db \<and> rejections_final db"

lemma ap_inv_cast:
  assumes "ap_inv db" and "castVote uuid now input db = Inr (res, db')"
  shows "ap_inv db'"
proof -
  let ?k = "cv_request_id input"
  obtain r v db1 where 1: "vote_check ?k db = Inr r" "vote_insert uuid now input db = Inr (v, db1)"
    "db' = (if vote_status input r db1 = A_pending then db1 else update_request now ?k (vote_status input r db1) db1)"
    using castVote_InrD [OF assms(2)] by blast
  note v = vote_insert_InrD [OF 1(2)]
  have wf: "ap_wf db" "ap_wf db1" using assms(1) ap_wf_insert [OF _ 1(2)] by (auto simp: ap_inv_def)
  have r: "request_of ?k db = Some r" "ar_status r = A_pending" using vote_check_InrD [OF 1(1)] by auto
  then have mem: "r \<in> set (requests db)" "ar_id r = ?k" by (auto simp: request_of_def dest: find_row_SomeD)
  have none: "\<not> rejected_vote ?k db" using assms(1) mem r(2) by (auto simp: ap_inv_def rejections_final_def)
  have rej: "rejected_vote j db1 \<longleftrightarrow> rejected_vote j db \<or> j = ?k \<and> cv_decision input = V_rejected" for j
    using v by (auto simp: rejected_vote_def)
  have "ar_status x = A_rejected" if x: "x \<in> set (requests db')" "rejected_vote (ar_id x) db'" for x
  proof (cases "ar_id x = ?k")
    case True
    have "rejected_vote (ar_id x) db1" using x(2) 1(3) by (auto simp: rejected_vote_def update_request_def split: if_splits)
    then have "cv_decision input = V_rejected" using rej none True by simp
    then have "db' = update_request now ?k A_rejected db1" using 1(3) by (simp add: vote_status_def)
    then show ?thesis using x(1) True by (auto simp: update_request_def elim: in_update_whereE)
  next
    case False
    then have "x \<in> set (requests db)" "rejected_vote (ar_id x) db"
      using x 1(3) v rej
      by (auto simp: rejected_vote_def update_request_def set_update_where split: if_splits)
    then show ?thesis using assms(1) by (auto simp: ap_inv_def rejections_final_def)
  qed
  then show ?thesis using wf 1(3) by (auto simp: ap_inv_def rejections_final_def ap_wf_update)
qed

lemma ap_inv_execute:
  assumes "ap_inv db" and "markExecuted now k db = Inr (res, db')"
  shows "ap_inv db'"
proof -
  obtain r where r: "request_of k db = Some r" "ar_status r = A_approved" "db' = update_request now k A_executed db"
    using assms(2) execute_check_InrD by (auto simp: markExecuted_def bind_res_Inr_iff)
  then have "r \<in> set (requests db)" "ar_id r = k" by (auto simp: request_of_def dest: find_row_SomeD)
  then have "\<not> rejected_vote k db" using assms(1) r(2) by (auto simp: ap_inv_def rejections_final_def)
  then show ?thesis
    using assms(1) r(3)
    by (auto simp: ap_inv_def ap_wf_update) 
       (auto simp: rejections_final_def rejected_vote_def update_request_def set_update_where)
qed

lemma ap_inv_create:
  assumes "ap_inv db" and "createApprovalRequest uuid now input db = Inr (r, db')"
  shows "ap_inv db'"
proof -
  note r = create_InrD [OF assms(2)]
  have "\<not> rejected_vote (ar_id r) db" using assms(1) r unfolding ap_inv_def ap_wf_def rejected_vote_def by metis
  then show ?thesis
    using assms(1) r ap_wf_create [OF _ assms(2)] by (auto simp: ap_inv_def rejections_final_def rejected_vote_def)
qed

interpretation ap: invariant_system ap_step "\<lambda>_. True" "\<lambda>db. ap_inv db \<and> (b \<longrightarrow> rejected_vote k db)" for k b
proof unfold_locales
  fix db op
  assume inv: "ap_inv db \<and> (b \<longrightarrow> rejected_vote k db)"
  have grow: "set (votes db) \<subseteq> set (votes (ap_step op db))"
  proof (cases op)
    case (Create uuid now input)
    then show ?thesis by (cases "createApprovalRequest uuid now input db") (auto dest: create_InrD)
  next
    case (Cast uuid now input)
    then show ?thesis
      by (cases "castVote uuid now input db")
         (auto simp: update_request_def dest!: castVote_InrD vote_insert_InrD)
  next
    case (Execute now j)
    then show ?thesis
      by (cases "markExecuted now j db") (auto simp: markExecuted_def bind_res_Inr_iff update_request_def)
  qed
  have "ap_inv (ap_step op db)"
  proof (cases op)
    case (Create uuid now input)
    then show ?thesis using inv ap_inv_create by (cases "createApprovalRequest uuid now input db") auto
  next
    case (Cast uuid now input)
    then show ?thesis using inv ap_inv_cast by (cases "castVote uuid now input db") auto
  next
    case (Execute now j)
    then show ?thesis using inv ap_inv_execute by (cases "markExecuted now j db") auto
  qed
  with inv grow show "ap_inv (ap_step op db) \<and> (b \<longrightarrow> rejected_vote k (ap_step op db))"
    by (auto simp: rejected_vote_def)
qed

lemma ap_inv_empty: "ap_inv empty_approvals"
  by (simp add: ap_inv_def ap_wf_def rejections_final_def empty_approvals_def)

text \<open>With calls that do not overlap, a single rejection blocks a request for good: once a rejecting
  vote on it is recorded, no further sequence of requests, votes and executions makes \<^verbatim>\<open>assertApproved\<close>
  or the middleware let the operation through.\<close>

theorem rejection_blocks:
  assumes "rejected_vote k (fold ap_step ops empty_approvals)"
  shows "let db = fold ap_step ops' (fold ap_step ops empty_approvals)
    in (\<exists>e. assertApproved k db = Inl e) \<and> requireApproval (Some k) t db = None"
proof -
  let ?db = "fold ap_step ops' (fold ap_step ops empty_approvals)"
  have "ap_inv (fold ap_step ops empty_approvals)"
    using ap.run_inv [of empty_approvals False k ops] ap_inv_empty by (simp add: list_all_iff)
  then have "ap_inv ?db \<and> rejected_vote k ?db"
    using ap.run_inv [of "fold ap_step ops empty_approvals" True k ops'] assms by (simp add: list_all_iff)
  then have "ar_status r = A_rejected" if "request_of k ?db = Some r" for r
    using that by (auto simp: ap_inv_def rejections_final_def request_of_def dest!: find_row_SomeD)
  then have "\<exists>e. assertApproved k ?db = Inl e"
    by (auto simp: assertApproved_def split: option.splits)
  then show ?thesis by (auto simp: requireApproval_def Let_def)
qed

text \<open>One request for a bulk export, and votes on it.\<close>

definition demo_request :: "int \<Rightarrow> CreateApprovalRequestInput" where
  "demo_request m = \<lparr>cr_operation_type = ''bulk_export'', cr_payload = [], cr_requested_by = ''u'',
     cr_required_approvals = Some m\<rparr>"

definition demo_vote :: "string \<Rightarrow> VoteDecision \<Rightarrow> CastVoteInput" where
  "demo_vote a d = \<lparr>cv_request_id = ''x'', cv_approver_id = a, cv_decision = d, cv_comment = None\<rparr>"

lemmas demo_approval_simps = demo_request_def demo_vote_def empty_approvals_def createApprovalRequest_def
  PRIVILEGED_OPERATIONS_def require_def references_def insert_row_def long_uuid_def castVote_def vote_check_def
  vote_insert_def vote_status_def request_of_def update_request_def approval_count_def update_where_def
  set_request_status_def Let_def

theorem rejection_blocks_witness:
  "\<exists>e. assertApproved ''x'' (fold ap_step [Cast long_uuid 3 (demo_vote ''b'' V_approved), Execute 4 ''x'']
     (fold ap_step [Create long_uuid 1 (demo_request 1), Cast long_uuid 2 (demo_vote ''a'' V_rejected)]
       empty_approvals)) = Inl e"
proof -
  have "rejected_vote ''x'' (fold ap_step [Create long_uuid 1 (demo_request 1),
      Cast long_uuid 2 (demo_vote ''a'' V_rejected)] empty_approvals)"
    by (simp add: demo_approval_simps rejected_vote_def)
  from rejection_blocks [OF this, unfolded Let_def] show ?thesis by blast
qed

text \<open>The outcome of a vote on a pending request. A first vote of an approver is recorded, and
  nothing else changes but the request's status: a rejection makes it rejected, an approval makes it
  approved exactly when the recorded approvals reach the required number. A second vote by the same
  approver, or a vote on a request that is not pending, is an error.\<close>

theorem cast_vote_outcome:
  assumes "request_of (cv_request_id input) db = Some r" and "fresh uuid"
  shows "if ar_status r \<noteq> A_pending \<or> (\<exists>v \<in> set (votes db). av_request_id v = cv_request_id input
      \<and> av_approver_id v = cv_approver_id input)
    then \<exists>e. castVote uuid now input db = Inl e
    else \<exists>res db' r'. castVote uuid now input db = Inr (res, db')
      \<and> votes db' = votes db @ [cv_vote res] \<and> av_approver_id (cv_vote res) = cv_approver_id input
      \<and> request_of (cv_request_id input) db' = Some r'
      \<and> ar_status r' = (if cv_decision input = V_rejected then A_rejected
          else if ar_required_approvals r \<le> int (Suc (approval_count (cv_request_id input) db)) then A_approved
          else A_pending)
      \<and> (\<forall>k. k \<noteq> cv_request_id input \<longrightarrow> request_of k db' = request_of k db)"
proof -
  let ?k = "cv_request_id input"
  have mem: "?k \<in> ar_id ` set (requests db)"
    using assms(1) find_row_SomeD [of ar_id ?k "requests db" r] unfolding request_of_def by (metis imageI)
  show ?thesis
  proof (cases "ar_status r \<noteq> A_pending \<or> (\<exists>v \<in> set (votes db). av_request_id v = ?k \<and> av_approver_id v = cv_approver_id input)")
    case True
    then show ?thesis
      using assms(1) mem by (auto simp: castVote_def vote_check_def vote_insert_def require_def references_def
          list_ex_iff Let_def)
  next
    case False
    let ?v = "\<lparr>av_id = uuid (map av_id (votes db)), av_request_id = ?k, av_approver_id = cv_approver_id input,
      av_decision = cv_decision input, av_comment = cv_comment input, av_created_at = now\<rparr>"
    let ?db1 = "db\<lparr>votes := votes db @ [?v]\<rparr>"
    have "uuid (map av_id (votes db)) \<notin> av_id ` set (votes db)"
      using assms(2) by (simp add: fresh_def) (metis set_map)
    then have ins: "vote_insert uuid now input db = Inr (?v, ?db1)"
      using mem False by (auto simp: vote_insert_def Let_def require_def references_def list_ex_iff insert_row_def)
    have chk: "vote_check ?k db = Inr r" using assms(1) False by (simp add: vote_check_def)
    let ?s = "vote_status input r ?db1"
    let ?db' = "if ?s = A_pending then ?db1 else update_request now ?k ?s ?db1"
    have s: "?s = (if cv_decision input = V_rejected then A_rejected
        else if ar_required_approvals r \<le> int (Suc (approval_count ?k db)) then A_approved else A_pending)"
      by (cases "cv_decision input") (simp_all add: vote_status_def approval_count_def)
    obtain res where run: "castVote uuid now input db = Inr (res, ?db')" "cv_vote res = ?v"
      using ins chk by (cases "?s = A_pending") (simp_all add: castVote_def Let_def)
    have upd: "request_of ?k ?db' = Some (if ?s = A_pending then r else set_request_status now ?s r)"
      using assms(1) by (simp add: request_of_def update_request_def set_request_status.find_update_self)
    have other: "\<forall>j. j \<noteq> ?k \<longrightarrow> request_of j ?db' = request_of j db"
      by (simp add: request_of_def update_request_def set_request_status.find_update_other)
    have st: "ar_status (if ?s = A_pending then r else set_request_status now ?s r) = ?s" using False by simp
    have vs: "votes ?db' = votes db @ [cv_vote res]" using run(2) by (simp add: update_request_def)
    have "\<exists>res db' r'. castVote uuid now input db = Inr (res, db')
      \<and> votes db' = votes db @ [cv_vote res] \<and> av_approver_id (cv_vote res) = cv_approver_id input
      \<and> request_of ?k db' = Some r' \<and> ar_status r' = ?s \<and> (\<forall>k. k \<noteq> ?k \<longrightarrow> request_of k db' = request_of k db)"
      by (rule exI [of _ res], rule exI [of _ ?db'], rule exI, intro conjI, rule run(1), rule vs,
          simp add: run(2), rule upd, rule st, rule other)
    then show ?thesis unfolding s if_not_P [OF False] .
  qed
qed

theorem cast_vote_outcome_witness:
  "\<exists>res db' r'. castVote long_uuid 2 (demo_vote ''a'' V_approved)
      (ap_step (Create long_uuid 1 (demo_request 1)) empty_approvals) = Inr (res, db')
    \<and> request_of ''x'' db' = Some r' \<and> ar_status r' = A_approved"
proof -
  let ?db = "ap_step (Create long_uuid 1 (demo_request 1)) empty_approvals"
  obtain r where "request_of ''x'' ?db = Some r" "ar_status r = A_pending" "ar_required_approvals r = 1" "votes ?db = []"
    by (simp add: demo_approval_simps)
  then show ?thesis
    using cast_vote_outcome [of "demo_vote ''a'' V_approved" ?db r long_uuid 2] fresh_long_uuid
    by (auto simp: demo_vote_def)
qed

section \<open>Overlapping calls\<close>

text \<open>A call in progress and how far it has come. The lock of \<^verbatim>\<open>SELECT ... FOR UPDATE\<close> ends with its
  statement, so other calls may run between any two statements.\<close>

datatype ap_thread = T_vote CastVoteInput | T_execute string

datatype ap_pc = P_start | P_checked ApprovalRequest | P_inserted ApprovalRequest | P_counted ApprovalStatus | P_done

fun thread_step ::
  "(string list \<Rightarrow> string) \<Rightarrow> timestamp \<Rightarrow> ap_thread \<Rightarrow> ap_pc \<Rightarrow> approvals_db \<Rightarrow> ap_pc \<times> approvals_db" where
  "thread_step uuid now (T_vote input) P_start db =
     (case vote_check (cv_request_id input) db of Inl e \<Rightarrow> (P_done, db) | Inr r \<Rightarrow> (P_checked r, db))"
| "thread_step uuid now (T_vote input) (P_checked r) db =
     (case vote_insert uuid now input db of Inl e \<Rightarrow> (P_done, db) | Inr (v, db') \<Rightarrow> (P_inserted r, db'))"
| "thread_step uuid now (T_vote input) (P_inserted r) db = (P_counted (vote_status input r db), db)"
| "thread_step uuid now (T_vote input) (P_counted s) db =
     (P_done, if s \<noteq> A_pending then update_request now (cv_request_id input) s db else db)"
| "thread_step uuid now (T_execute k) P_start db =
     (case execute_check k db of Inl e \<Rightarrow> (P_done, db) | Inr r \<Rightarrow> (P_checked r, db))"
| "thread_step uuid now (T_execute k) (P_checked r) db = (P_done, update_request now k A_executed db)"
| "thread_step uuid now t pc db = (P_done, db)"

text \<open>Run alone, the statements of a vote are \<open>castVote\<close>, and those of an execution \<open>markExecuted\<close>.\<close>

fun run_alone ::
  "(string list \<Rightarrow> string) \<Rightarrow> timestamp \<Rightarrow> ap_thread \<Rightarrow> nat \<Rightarrow> ap_pc \<times> approvals_db \<Rightarrow> ap_pc \<times> approvals_db" where
  "run_alone uuid now t 0 c = c"
| "run_alone uuid now t (Suc n) (pc, db) = run_alone uuid now t n (thread_step uuid now t pc db)"

lemma run_alone_castVote:
  "run_alone uuid now (T_vote input) 4 (P_start, db) = (P_done, commit db (castVote uuid now input db))"
proof (cases "vote_check (cv_request_id input) db")
  case (Inl e)
  then show ?thesis by (simp add: castVote_def eval_nat_numeral)
next
  case (Inr r)
  then show ?thesis
    by (cases "vote_insert uuid now input db") (auto simp: castVote_def Let_def eval_nat_numeral)
qed

lemma run_alone_markExecuted:
  "run_alone uuid now (T_execute k) 2 (P_start, db) = (P_done, commit db (markExecuted now k db))"
  by (cases "execute_check k db") (simp_all add: markExecuted_def eval_nat_numeral)

type_synonym ap_conf = "(ap_thread \<times> ap_pc) list \<times> approvals_db"

inductive interleave :: "ap_conf \<Rightarrow> ap_conf \<Rightarrow> bool" where
  Spawn: "interleave (ts, db) (ts @ [(t, P_start)], db)"
| Request: "createApprovalRequest uuid now input db = Inr (r, db') \<Longrightarrow> interleave (ts, db) (ts, db')"
| Step: "i < length ts \<Longrightarrow> ts ! i = (t, pc) \<Longrightarrow> thread_step uuid now t pc db = (pc', db') \<Longrightarrow>
     interleave (ts, db) (ts[i := (t, pc')], db')"

text \<open>Requests keep their threshold and votes are only added.\<close>

definition grows :: "approvals_db \<Rightarrow> approvals_db \<Rightarrow> bool" where
  "grows db db' \<longleftrightarrow> (\<exists>new. votes db' = votes db @ new)
     \<and> (\<forall>k r. request_of k db = Some r \<longrightarrow>
          (\<exists>r'. request_of k db' = Some r' \<and> ar_required_approvals r' = ar_required_approvals r))"

definition quorum :: "string \<Rightarrow> approvals_db \<Rightarrow> bool" where
  "quorum k db \<longleftrightarrow> (\<exists>r. request_of k db = Some r \<and> ar_required_approvals r \<le> int (approval_count k db))"

lemma grows_required:
  "grows db db' \<Longrightarrow> request_of k db = Some r \<Longrightarrow>
     \<exists>r'. request_of k db' = Some r' \<and> ar_required_approvals r' = ar_required_approvals r"
  by (simp add: grows_def)

lemma quorum_grows: "grows db db' \<Longrightarrow> quorum k db \<Longrightarrow> quorum k db'"
  unfolding grows_def quorum_def by (fastforce simp: approval_count_def)

lemma grows_refl [simp]: "grows db db"
  by (simp add: grows_def)

lemma grows_update: "grows db (update_request now k s db)"
  by (auto simp: grows_def update_request_def request_of_def set_request_status.find_update)

lemma grows_insert: "vote_insert uuid now input db = Inr (v, db') \<Longrightarrow> grows db db'"
  by (auto simp: grows_def request_of_def dest!: vote_insert_InrD)

lemma grows_create: "createApprovalRequest uuid now input db = Inr (r, db') \<Longrightarrow> grows db db'"
  by (auto simp: grows_def request_of_def find_row_append dest!: create_InrD)

text \<open>What a call in progress may rely on.\<close>

fun pc_ok :: "approvals_db \<Rightarrow> ap_thread \<times> ap_pc \<Rightarrow> bool" where
  "pc_ok db (T_vote input, P_checked r) = (\<exists>r'. request_of (cv_request_id input) db = Some r'
     \<and> ar_required_approvals r' = ar_required_approvals r)"
| "pc_ok db (T_vote input, P_inserted r) = (\<exists>r'. request_of (cv_request_id input) db = Some r'
     \<and> ar_required_approvals r' = ar_required_approvals r)"
| "pc_ok db (T_vote input, P_counted s) = (s \<in> {A_pending, A_rejected} \<or> s = A_approved \<and> quorum (cv_request_id input) db)"
| "pc_ok db (T_execute k, P_checked r) = quorum k db"
| "pc_ok db _ = True"

definition status_ok :: "approvals_db \<Rightarrow> bool" where
  "status_ok db \<longleftrightarrow> (\<forall>k r. request_of k db = Some r \<longrightarrow> ar_status r \<in> {A_approved, A_executed} \<longrightarrow> quorum k db)"

definition conf_ok :: "ap_conf \<Rightarrow> bool" where
  "conf_ok c = (case c of (ts, db) \<Rightarrow> ap_wf db \<and> status_ok db \<and> (\<forall>x \<in> set ts. pc_ok db x))"

lemma pc_ok_grows: "grows db db' \<Longrightarrow> pc_ok db x \<Longrightarrow> pc_ok db' x"
  by (induction db x rule: pc_ok.induct) (auto dest: quorum_grows grows_required)

lemma status_ok_update:
  assumes "status_ok db" and "s \<in> {A_approved, A_executed} \<Longrightarrow> quorum k db"
  shows "status_ok (update_request now k s db)"
proof -
  have "quorum j (update_request now k s db)"
    if "request_of j (update_request now k s db) = Some r" "ar_status r \<in> {A_approved, A_executed}" for j r
  proof (cases "j = k")
    case True
    then show ?thesis
      using that assms(2) quorum_grows [OF grows_update]
      by (auto simp: request_of_def update_request_def set_request_status.find_update_self)
  next
    case False
    then show ?thesis
      using that assms(1) quorum_grows [OF grows_update]
      by (auto simp: status_ok_def request_of_def update_request_def set_request_status.find_update_other)
  qed
  then show ?thesis by (auto simp: status_ok_def)
qed

lemma thread_step_ok:
  assumes "ap_wf db" and "status_ok db" and "pc_ok db (t, pc)" and "thread_step uuid now t pc db = (pc', db')"
  shows "ap_wf db' \<and> status_ok db' \<and> grows db db' \<and> pc_ok db' (t, pc')"
proof (cases t)
  case (T_vote input)
  show ?thesis
  proof (cases pc)
    case P_start
    then show ?thesis using assms T_vote by (auto split: sum.splits dest: vote_check_InrD)
  next
    case (P_checked r)
    show ?thesis
    proof (cases "vote_insert uuid now input db")
      case (Inl e)
      then show ?thesis using assms T_vote P_checked by auto
    next
      case (Inr p)
      then obtain v db1 where ins: "vote_insert uuid now input db = Inr (v, db1)" by (cases p) auto
      then have "status_ok db1"
        using assms(2) quorum_grows [OF grows_insert [OF ins]] vote_insert_InrD [OF ins]
        by (auto simp: status_ok_def request_of_def)
      then show ?thesis
        using ins assms T_vote P_checked ap_wf_insert [OF assms(1) ins] grows_insert [OF ins]
          pc_ok_grows [OF grows_insert [OF ins], of "(T_vote input, P_inserted r)"] by auto
    qed
  next
    case (P_inserted r)
    then show ?thesis using assms T_vote by (auto simp: vote_status_def quorum_def)
  next
    case (P_counted s)
    then show ?thesis
      using assms T_vote grows_update status_ok_update [OF assms(2), of s] by (auto simp: ap_wf_update)
  qed (use assms T_vote in auto)
next
  case (T_execute k)
  show ?thesis
  proof (cases pc)
    case P_start
    then show ?thesis using assms T_execute by (auto simp: status_ok_def split: sum.splits dest!: execute_check_InrD)
  next
    case (P_checked r)
    then show ?thesis
      using assms T_execute grows_update status_ok_update [OF assms(2), of A_executed] by (auto simp: ap_wf_update)
  qed (use assms T_execute in auto)
qed

lemma interleave_ok: "interleave c c' \<Longrightarrow> conf_ok c \<Longrightarrow> conf_ok c'"
proof (induction rule: interleave.induct)
  case (Request uuid now input db r db' ts)
  note new = create_InrD [OF Request(1)] and grow = grows_create [OF Request(1)]
  have "quorum k db'" if "request_of k db' = Some x" "ar_status x \<in> {A_approved, A_executed}" for k x
  proof -
    have "request_of k db = Some x"
      using that new by (auto simp: request_of_def find_row_append split: option.splits if_splits)
    with that(2) Request(2) show ?thesis
      by (auto simp: conf_ok_def status_ok_def intro: quorum_grows [OF grow])
  qed
  then have "status_ok db'" by (simp add: status_ok_def)
  with Request show ?case
    by (auto simp: conf_ok_def intro: ap_wf_create [OF _ Request(1)] pc_ok_grows [OF grow])
next
  case (Step i ts t pc uuid now db pc' db')
  have "(t, pc) \<in> set ts" using Step(1,2) nth_mem by fastforce
  with Step(4) have "pc_ok db (t, pc)" by (simp add: conf_ok_def)
  with Step have ok: "ap_wf db' \<and> status_ok db' \<and> grows db db' \<and> pc_ok db' (t, pc')"
    by (intro thread_step_ok) (auto simp: conf_ok_def)
  have "pc_ok db' x" if "x \<in> set (ts[i := (t, pc')])" for x
  proof -
    have "x = (t, pc') \<or> x \<in> set ts" using that set_update_subset_insert [of ts i "(t, pc')"] by blast
    then show ?thesis using ok Step(4) pc_ok_grows [of db db' x] by (auto simp: conf_ok_def)
  qed
  with ok show ?case by (simp add: conf_ok_def)
qed (auto simp: conf_ok_def)

lemma reachable_ok: "interleave\<^sup>*\<^sup>* ([], empty_approvals) c \<Longrightarrow> conf_ok c"
proof (induction rule: rtranclp_induct)
  case base
  then show ?case by (simp add: conf_ok_def ap_wf_def status_ok_def empty_approvals_def request_of_def)
qed (rule interleave_ok)

definition approvers :: "string \<Rightarrow> approvals_db \<Rightarrow> string set" where
  "approvers k db = av_approver_id ` {v \<in> set (votes db). av_request_id v = k \<and> av_decision v = V_approved}"

lemma approvers_card:
  assumes "ap_wf db"
  shows "card (approvers k db) = approval_count k db"
proof -
  let ?vs = "filter (\<lambda>v. av_request_id v = k \<and> av_decision v = V_approved) (votes db)"
  have "distinct (map (\<lambda>v. (av_request_id v, av_approver_id v)) ?vs)"
    using assms by (simp add: ap_wf_def distinct_map_filter)
  then have inj: "distinct ?vs" "inj_on (\<lambda>v. (av_request_id v, av_approver_id v)) (set ?vs)"
    by (simp_all only: distinct_map)
  have "inj_on av_approver_id (set ?vs)"
  proof (rule inj_onI)
    fix x y
    assume "x \<in> set ?vs" "y \<in> set ?vs" "av_approver_id x = av_approver_id y"
    moreover from this have "av_request_id x = av_request_id y" by simp
    ultimately show "x = y" using inj(2) by (simp add: inj_on_def)
  qed
  with inj(1) have "distinct (map av_approver_id ?vs)" by (simp only: distinct_map)
  then have "card (set (map av_approver_id ?vs)) = length ?vs" using distinct_card by fastforce
  then show ?thesis by (simp add: approvers_def approval_count_def)
qed

text \<open>C4: Quorum holds even when calls overlap. However the statements of any number of votes and
  executions interleave, a request that is approved or executed has approving votes of at least the
  required number of distinct approvers.\<close>

theorem quorum_enforced:
  assumes "interleave\<^sup>*\<^sup>* ([], empty_approvals) (ts, db)" and "request_of k db = Some r"
    and "ar_status r \<in> {A_approved, A_executed}"
  shows "ar_required_approvals r \<le> int (card (approvers k db))"
proof -
  have ok: "ap_wf db" "status_ok db" using reachable_ok [OF assms(1)] by (auto simp: conf_ok_def)
  with assms(2,3) show ?thesis by (auto simp: status_ok_def quorum_def approvers_card)
qed

text \<open>A schedule: which call runs its next statement.\<close>

fun run_schedule :: "timestamp \<Rightarrow> nat list \<Rightarrow> ap_conf \<Rightarrow> ap_conf" where
  "run_schedule now [] c = c"
| "run_schedule now (i # is) (ts, db) =
     (let (t, pc) = ts ! i; (pc', db') = thread_step long_uuid now t pc db
      in run_schedule now is (if i < length ts then (ts[i := (t, pc')], db') else (ts, db)))"

lemma run_schedule_reachable: "interleave\<^sup>*\<^sup>* c (run_schedule now is c)"
proof (induction now "is" c rule: run_schedule.induct)
  case (2 now i "is" ts db)
  obtain t pc where t: "ts ! i = (t, pc)" by (cases "ts ! i")
  obtain pc' db' where s: "thread_step long_uuid now t pc db = (pc', db')" by fastforce
  have "interleave\<^sup>*\<^sup>* (ts, db) (if i < length ts then (ts[i := (t, pc')], db') else (ts, db))"
    using interleave.Step [OF _ t s] by auto
  moreover have "interleave\<^sup>*\<^sup>* (if i < length ts then (ts[i := (t, pc')], db') else (ts, db))
      (run_schedule now (i # is) (ts, db))"
    using 2 t s by simp
  ultimately show ?case by (rule rtranclp_trans)
qed simp

definition race_start :: ap_conf where
  "race_start = ([(T_vote (demo_vote ''a'' V_rejected), P_start), (T_vote (demo_vote ''b'' V_approved), P_start)],
     ap_step (Create long_uuid 1 (demo_request 1)) empty_approvals)"

lemma race_start_reachable: "interleave\<^sup>*\<^sup>* ([], empty_approvals) race_start"
proof -
  let ?db = "ap_step (Create long_uuid 1 (demo_request 1)) empty_approvals"
  have "interleave ([], empty_approvals) ([], ?db)"
    by (rule interleave.Request [of long_uuid 1 "demo_request 1"]) (simp add: demo_approval_simps)
  moreover have "interleave ([], ?db) ([(T_vote (demo_vote ''a'' V_rejected), P_start)], ?db)"
    using interleave.Spawn [of "[]"] by simp
  moreover have "interleave ([(T_vote (demo_vote ''a'' V_rejected), P_start)], ?db) race_start"
    using interleave.Spawn [of "[(T_vote (demo_vote ''a'' V_rejected), P_start)]"] by (simp add: race_start_def)
  ultimately show ?thesis by (meson converse_rtranclp_into_rtranclp rtranclp.rtrancl_refl)
qed

text \<open>When calls overlap, a rejection does not block: two approvers vote on a request that needs one
  approval, both calls read it as pending, the rejection is stored first and the approval then overwrites
  it. The request ends approved with a rejecting vote on record, and the middleware lets the operation
  through.\<close>

theorem vote_race:
  "\<exists>ts db r. interleave\<^sup>*\<^sup>* ([], empty_approvals) (ts, db) \<and> rejected_vote ''x'' db
    \<and> requireApproval (Some ''x'') ''bulk_export'' db = Some r"
proof -
  let ?c = "run_schedule 2 [0, 1, 0, 0, 0, 1, 1, 1] race_start"
  have "interleave\<^sup>*\<^sup>* ([], empty_approvals) ?c"
    using race_start_reachable run_schedule_reachable by (rule rtranclp_trans)
  moreover have "rejected_vote ''x'' (snd ?c)" "\<exists>r. requireApproval (Some ''x'') ''bulk_export'' (snd ?c) = Some r"
    by (simp_all add: race_start_def demo_approval_simps rejected_vote_def requireApproval_def assertApproved_def)
  ultimately show ?thesis by (metis prod.collapse)
qed

theorem quorum_enforced_witness:
  "\<exists>r. request_of ''x'' (snd (run_schedule 2 [1, 1, 1, 1] race_start)) = Some r \<and> ar_status r = A_approved
     \<and> ar_required_approvals r \<le> int (card (approvers ''x'' (snd (run_schedule 2 [1, 1, 1, 1] race_start))))"
proof -
  let ?c = "run_schedule 2 [1, 1, 1, 1] race_start"
  have reach: "interleave\<^sup>*\<^sup>* ([], empty_approvals) (fst ?c, snd ?c)"
    using race_start_reachable run_schedule_reachable [of race_start 2 "[1, 1, 1, 1]"] by (simp add: rtranclp_trans)
  obtain r where "request_of ''x'' (snd ?c) = Some r" "ar_status r = A_approved"
    by (simp add: race_start_def demo_approval_simps)
  with quorum_enforced [OF reach] show ?thesis by auto
qed

end
