(* ===== verification/Retention.thy ===== *)
theory Retention
  imports Approvals
begin

text \<open>
  Keeping and deleting ground-truth records: legal holds with four-eyes removal
  (\<^verbatim>\<open>src/packages/db/legal-hold.ts\<close>), retention policies and the controlled deletion path
  (\<^verbatim>\<open>retention-engine.ts\<close>), ingestion with retention metadata (\<^verbatim>\<open>retention-store.ts\<close>), the nightly scan
  (\<^verbatim>\<open>retention-scheduler.ts\<close>), WORM mode (\<^verbatim>\<open>worm-mode.ts\<close>) with the tenant policy rows it reads
  (\<^verbatim>\<open>tenant-policies.ts\<close>), and the triggers \<^verbatim>\<open>guard_retention_floor\<close> and \<^verbatim>\<open>guard_worm_update\<close> of \<^verbatim>\<open>schema.sql\<close>.

  None of these functions opens a transaction, so an operation returns its outcome beside the tables, and
  the effect of the statements before a failing one stays. A call reads one clock value \<open>now\<close>; a JavaScript
  \<^verbatim>\<open>Date\<close> keeps milliseconds where the database keeps microseconds (\<open>js_date\<close>). A day is 24 hours, as in a
  UTC session. Audit callbacks whose failures the code catches are left out; the one of
  \<^verbatim>\<open>assignRetentionPolicyToTenant\<close> is not caught and is a parameter.
\<close>

section \<open>Data\<close>

datatype LegalHoldStatus = H_active | H_pending_removal | H_removed

datatype RemovalRequestStatus = Q_pending | Q_approved | Q_rejected

record LegalHold =
  lh_id :: string
  lh_tenant_id :: string
  lh_placed_by :: string
  lh_reason :: string
  lh_status :: LegalHoldStatus
  lh_placed_at :: timestamp
  lh_removed_at :: "timestamp option"

record LegalHoldRemovalRequest =
  rr_id :: string
  rr_hold_id :: string
  rr_requested_by :: string
  rr_co_approved_by :: "string option"
  rr_status :: RemovalRequestStatus
  rr_created_at :: timestamp
  rr_resolved_at :: "timestamp option"

record LegalHoldWithRemovalRequest =
  hw_hold :: LegalHold
  hw_pending_removal_request :: "LegalHoldRemovalRequest option"

record RetentionPolicy =
  rp_name :: string
  rp_description :: string
  rp_retentionFloorDays :: int

record RetentionPolicyEntityOverride =
  ro_policy_name :: string
  ro_entity_type :: string
  ro_retentionFloorDays :: int
  ro_description :: string

record TenantRetentionPolicy =
  td_tenantId :: string
  td_retentionClass :: string
  td_legalHoldDefault :: bool

record policy_assignment =
  pa_id :: string
  pa_tenant_id :: string
  pa_policy_name :: string
  pa_actor_id :: string
  pa_previous_policy :: "string option"
  pa_assigned_at :: timestamp

record TenantPolicyRow =
  tk_id :: string
  tk_tenant_id :: "string option"
  tk_key :: string
  tk_value :: string
  tk_created_at :: timestamp
  tk_updated_at :: timestamp

record entity_row =
  en_id :: string
  en_type :: string
  en_properties :: json
  en_tenant_id :: "string option"
  en_retention_class :: "string option"
  en_legal_hold :: "bool option"
  en_created_at :: timestamp

record retention_db =
  entity_types :: "string list"
  entities :: "entity_row list"
  holds :: "LegalHold list"
  removals :: "LegalHoldRemovalRequest list"
  policies :: "RetentionPolicy list"
  overrides :: "RetentionPolicyEntityOverride list"
  tenant_defaults :: "TenantRetentionPolicy list"
  assignments :: "policy_assignment list"
  tenant_policies :: "TenantPolicyRow list"

datatype retention_error =
    LegalHoldInsufficientRoleError string "string option"
  | LegalHoldNotFoundError string
  | LegalHoldFourEyesViolationError
  | LegalHoldStatusError string LegalHoldStatus LegalHoldStatus
  | LegalHoldRemovalRequestNotFoundError string
  | UnknownRetentionPolicyError string
  | RetentionFloorNotReachedError string string timestamp
  | HoldInForce string
  | InsufficientRoleError string "string option"
  | MissingTenantRetentionPolicyError string
  | WormApprovalRequiredError string
  | AuditWriteFailed
  | FloorTrigger string
  | RetentionDb db_error

type_synonym 'a ret = "(retention_error + 'a) \<times> retention_db"

definition officer :: "string option \<Rightarrow> bool option \<Rightarrow> bool" where
  "officer role superuser \<longleftrightarrow> superuser = Some True \<or> role = Some ''compliance_officer''"

section \<open>Legal holds\<close>

record PlaceLegalHoldInput =
  pl_tenantId :: string
  pl_placedBy :: string
  pl_actorRole :: "string option"
  pl_reason :: "string option"
  pl_isSuperuser :: "bool option"

definition placeLegalHold ::
  "(string list \<Rightarrow> string) \<Rightarrow> timestamp \<Rightarrow> PlaceLegalHoldInput \<Rightarrow> retention_db \<Rightarrow> LegalHold ret" where
  "placeLegalHold uuid now input db =
     (if \<not> officer (pl_actorRole input) (pl_isSuperuser input)
      then (Inl (LegalHoldInsufficientRoleError (pl_placedBy input) (pl_actorRole input)), db)
      else (let hold = \<lparr>lh_id = uuid (map lh_id (holds db)), lh_tenant_id = pl_tenantId input,
                  lh_placed_by = pl_placedBy input,
                  lh_reason = (case pl_reason input of None \<Rightarrow> [] | Some r \<Rightarrow> r),
                  lh_status = H_active, lh_placed_at = now, lh_removed_at = None\<rparr>
            in case insert_row lh_id hold (holds db) of
                 Inl e \<Rightarrow> (Inl (RetentionDb e), db)
               | Inr t \<Rightarrow> (Inr hold, db\<lparr>holds := t\<rparr>)))"

definition getLegalHold :: "string \<Rightarrow> retention_db \<Rightarrow> LegalHoldWithRemovalRequest option" where
  "getLegalHold k db =
     map_option (\<lambda>hold. \<lparr>hw_hold = hold, hw_pending_removal_request =
         first_by (\<lambda>r. - rr_created_at r) (\<lambda>r. rr_hold_id r = k \<and> rr_status r = Q_pending) (removals db)\<rparr>)
       (find_row lh_id k (holds db))"

record ListLegalHoldsOptions =
  ll_tenantId :: "string option"
  ll_status :: "LegalHoldStatus option"
  ll_limit :: "int option"
  ll_offset :: "int option"

definition page_limit :: "int option \<Rightarrow> int" where
  "page_limit l = min (case l of None \<Rightarrow> 50 | Some n \<Rightarrow> n) 200"

definition page_offset :: "int option \<Rightarrow> int" where
  "page_offset n = (case n of None \<Rightarrow> 0 | Some k \<Rightarrow> k)"

text \<open>An empty tenant filter is falsy and filters nothing.\<close>

definition listLegalHolds :: "ListLegalHoldsOptions \<Rightarrow> retention_db \<Rightarrow> db_error + LegalHold list" where
  "listLegalHolds options db =
     (let pick = (\<lambda>h. (case ll_tenantId options of None \<Rightarrow> True | Some t \<Rightarrow> t = [] \<or> lh_tenant_id h = t)
            \<and> (case ll_status options of None \<Rightarrow> True | Some s \<Rightarrow> lh_status h = s))
      in sql_page (page_limit (ll_limit options)) (page_offset (ll_offset options))
           (sort_key (\<lambda>h. - lh_placed_at h) (filter pick (holds db))))"

text \<open>\<^verbatim>\<open>legal_hold_removal_requests\<close> is unique in its id and in \<^verbatim>\<open>(hold_id, status, requested_by)\<close>; an UPDATE of the
  status is checked against the other rows.\<close>

definition removal_key :: "LegalHoldRemovalRequest \<Rightarrow> string \<times> RemovalRequestStatus \<times> string" where
  "removal_key r = (rr_hold_id r, rr_status r, rr_requested_by r)"

definition insert_removal ::
  "LegalHoldRemovalRequest \<Rightarrow> LegalHoldRemovalRequest list \<Rightarrow> db_error + LegalHoldRemovalRequest list" where
  "insert_removal r t =
     (if removal_key r \<in> removal_key ` set t then Inl (UniqueViolation (rr_requested_by r)) else insert_row rr_id r t)"

definition resolve_removal ::
  "timestamp \<Rightarrow> RemovalRequestStatus \<Rightarrow> string option \<Rightarrow> LegalHoldRemovalRequest \<Rightarrow> LegalHoldRemovalRequest" where
  "resolve_removal now s approver r = r\<lparr>rr_status := s, rr_resolved_at := Some now,
     rr_co_approved_by := (case approver of None \<Rightarrow> rr_co_approved_by r | Some a \<Rightarrow> Some a)\<rparr>"

definition update_removal ::
  "timestamp \<Rightarrow> RemovalRequestStatus \<Rightarrow> string option \<Rightarrow> LegalHoldRemovalRequest \<Rightarrow> LegalHoldRemovalRequest list
     \<Rightarrow> db_error + LegalHoldRemovalRequest list" where
  "update_removal now s approver r t =
     (if list_ex (\<lambda>q. rr_id q \<noteq> rr_id r \<and> removal_key q = (rr_hold_id r, s, rr_requested_by r)) t
      then Inl (UniqueViolation (rr_requested_by r))
      else Inr (update_where (\<lambda>q. rr_id q = rr_id r) (resolve_removal now s approver) t))"

definition set_hold_status :: "LegalHoldStatus \<Rightarrow> LegalHold \<Rightarrow> LegalHold" where
  "set_hold_status s h = h\<lparr>lh_status := s\<rparr>"

definition lift_hold :: "timestamp \<Rightarrow> LegalHold \<Rightarrow> LegalHold" where
  "lift_hold now h = h\<lparr>lh_status := H_removed, lh_removed_at := Some now\<rparr>"

definition update_hold :: "string \<Rightarrow> (LegalHold \<Rightarrow> LegalHold) \<Rightarrow> retention_db \<Rightarrow> retention_db" where
  "update_hold k f db = db\<lparr>holds := update_where (\<lambda>h. lh_id h = k) f (holds db)\<rparr>"

record RequestHoldRemovalInput =
  rq_holdId :: string
  rq_requestedBy :: string
  rq_actorRole :: "string option"
  rq_isSuperuser :: "bool option"

definition requestHoldRemoval ::
  "(string list \<Rightarrow> string) \<Rightarrow> timestamp \<Rightarrow> RequestHoldRemovalInput \<Rightarrow> retention_db
     \<Rightarrow> LegalHoldRemovalRequest ret" where
  "requestHoldRemoval uuid now input db =
     (if \<not> officer (rq_actorRole input) (rq_isSuperuser input)
      then (Inl (LegalHoldInsufficientRoleError (rq_requestedBy input) (rq_actorRole input)), db)
      else case find_row lh_id (rq_holdId input) (holds db) of
        None \<Rightarrow> (Inl (LegalHoldNotFoundError (rq_holdId input)), db)
      | Some hold \<Rightarrow>
          if lh_status hold \<noteq> H_active
          then (Inl (LegalHoldStatusError (rq_holdId input) H_active (lh_status hold)), db)
          else (let db1 = update_hold (rq_holdId input) (set_hold_status H_pending_removal) db;
                    r = \<lparr>rr_id = uuid (map rr_id (removals db)), rr_hold_id = rq_holdId input,
                      rr_requested_by = rq_requestedBy input, rr_co_approved_by = None, rr_status = Q_pending,
                      rr_created_at = now, rr_resolved_at = None\<rparr>
                in case insert_removal r (removals db) of
                     Inl e \<Rightarrow> (Inl (RetentionDb e), db1)
                   | Inr t \<Rightarrow> (Inr r, db1\<lparr>removals := t\<rparr>)))"

record ResolveHoldRemovalInput =
  rs_removalRequestId :: string
  rs_actor :: string
  rs_actorRole :: "string option"
  rs_isSuperuser :: "bool option"

definition pending_removal :: "string \<Rightarrow> retention_db \<Rightarrow> LegalHoldRemovalRequest option" where
  "pending_removal k db =
     (case find_row rr_id k (removals db) of
        Some r \<Rightarrow> if rr_status r = Q_pending then Some r else None
      | None \<Rightarrow> None)"

text \<open>The foreign key makes the hold of a request exist, so the row the UPDATE returns is there.\<close>

definition approveHoldRemoval ::
  "timestamp \<Rightarrow> ResolveHoldRemovalInput \<Rightarrow> retention_db \<Rightarrow> LegalHold option ret" where
  "approveHoldRemoval now input db =
     (if \<not> officer (rs_actorRole input) (rs_isSuperuser input)
      then (Inl (LegalHoldInsufficientRoleError (rs_actor input) (rs_actorRole input)), db)
      else case pending_removal (rs_removalRequestId input) db of
        None \<Rightarrow> (Inl (LegalHoldRemovalRequestNotFoundError (rs_removalRequestId input)), db)
      | Some r \<Rightarrow>
          if rr_requested_by r = rs_actor input then (Inl LegalHoldFourEyesViolationError, db)
          else case update_removal (js_date now) Q_approved (Some (rs_actor input)) r (removals db) of
                 Inl e \<Rightarrow> (Inl (RetentionDb e), db)
               | Inr t \<Rightarrow>
                   (let db' = update_hold (rr_hold_id r) (lift_hold (js_date now)) (db\<lparr>removals := t\<rparr>)
                    in (Inr (find_row lh_id (rr_hold_id r) (holds db')), db')))"

definition rejectHoldRemoval ::
  "timestamp \<Rightarrow> ResolveHoldRemovalInput \<Rightarrow> retention_db \<Rightarrow> LegalHold option ret" where
  "rejectHoldRemoval now input db =
     (if \<not> officer (rs_actorRole input) (rs_isSuperuser input)
      then (Inl (LegalHoldInsufficientRoleError (rs_actor input) (rs_actorRole input)), db)
      else case pending_removal (rs_removalRequestId input) db of
        None \<Rightarrow> (Inl (LegalHoldRemovalRequestNotFoundError (rs_removalRequestId input)), db)
      | Some r \<Rightarrow>
          case update_removal (js_date now) Q_rejected None r (removals db) of
            Inl e \<Rightarrow> (Inl (RetentionDb e), db)
          | Inr t \<Rightarrow>
              (let db' = update_hold (rr_hold_id r) (set_hold_status H_active) (db\<lparr>removals := t\<rparr>)
               in (Inr (find_row lh_id (rr_hold_id r) (holds db')), db')))"

definition in_force :: "LegalHold \<Rightarrow> bool" where
  "in_force h \<longleftrightarrow> lh_status h \<in> {H_active, H_pending_removal}"

definition hasActiveLegalHold :: "string \<Rightarrow> retention_db \<Rightarrow> bool" where
  "hasActiveLegalHold tenant db =
     (0 < length (filter (\<lambda>h. lh_tenant_id h = tenant \<and> in_force h) (holds db)))"

definition listPendingRemovalRequests ::
  "int option \<Rightarrow> int option \<Rightarrow> retention_db \<Rightarrow> db_error + (LegalHoldRemovalRequest \<times> LegalHold) list" where
  "listPendingRemovalRequests lmt ofs db =
     sql_page (page_limit lmt) (page_offset ofs)
       (sort_key (\<lambda>(r, h). rr_created_at r)
         (concat (map (\<lambda>r. map (\<lambda>h. (r, h)) (filter (\<lambda>h. lh_id h = rr_hold_id r) (holds db)))
            (filter (\<lambda>r. rr_status r = Q_pending) (removals db)))))"

section \<open>Retention policies\<close>

definition lookupRetentionPolicy :: "string \<Rightarrow> retention_db \<Rightarrow> retention_error + RetentionPolicy" where
  "lookupRetentionPolicy name db =
     (case find_row rp_name name (policies db) of
        None \<Rightarrow> Inl (UnknownRetentionPolicyError name)
      | Some p \<Rightarrow> Inr p)"

text \<open>The overrides are grouped by policy in the order of the second query.\<close>

definition listRetentionPolicies :: "retention_db \<Rightarrow> (RetentionPolicy \<times> RetentionPolicyEntityOverride list) list" where
  "listRetentionPolicies db =
     (let os = sort_key (\<lambda>q. (ro_policy_name q, ro_entity_type q)) (overrides db)
      in map (\<lambda>p. (p, filter (\<lambda>q. ro_policy_name q = rp_name p) os)) (sort_key rp_name (policies db)))"

definition set_override :: "int \<Rightarrow> string \<Rightarrow> RetentionPolicyEntityOverride \<Rightarrow> RetentionPolicyEntityOverride" where
  "set_override days descr q = q\<lparr>ro_retentionFloorDays := days, ro_description := descr\<rparr>"

definition setEntityTypeRetentionOverride ::
  "string \<Rightarrow> string \<Rightarrow> int \<Rightarrow> string \<Rightarrow> retention_db \<Rightarrow> unit ret" where
  "setEntityTypeRetentionOverride policyName entityType days descr db =
     (case lookupRetentionPolicy policyName db of
        Inl e \<Rightarrow> (Inl e, db)
      | Inr p \<Rightarrow>
          if days < 0 then (Inl (RetentionDb (CheckViolation ''retention_floor_days'')), db)
          else (let hit = (\<lambda>q. ro_policy_name q = policyName \<and> ro_entity_type q = entityType)
                in (Inr (), db\<lparr>overrides :=
                     (if list_ex hit (overrides db) then update_where hit (set_override days descr) (overrides db)
                      else overrides db @ [\<lparr>ro_policy_name = policyName, ro_entity_type = entityType,
                             ro_retentionFloorDays = days, ro_description = descr\<rparr>])\<rparr>)))"

record AssignRetentionPolicyInput =
  as_tenantId :: string
  as_policyName :: string
  as_actorId :: string
  as_actorRole :: "string option"
  as_isSuperuser :: "bool option"
  as_auditWriter :: "bool option" \<comment> \<open>\<open>None\<close>: no writer; \<open>Some ok\<close>: a writer that returns or throws\<close>

definition set_class :: "string \<Rightarrow> TenantRetentionPolicy \<Rightarrow> TenantRetentionPolicy" where
  "set_class c t = t\<lparr>td_retentionClass := c\<rparr>"

definition assignRetentionPolicyToTenant ::
  "(string list \<Rightarrow> string) \<Rightarrow> timestamp \<Rightarrow> AssignRetentionPolicyInput \<Rightarrow> retention_db \<Rightarrow> unit ret" where
  "assignRetentionPolicyToTenant uuid now input db =
     (if \<not> officer (as_actorRole input) (as_isSuperuser input)
      then (Inl (InsufficientRoleError (as_actorId input) (as_actorRole input)), db)
      else case lookupRetentionPolicy (as_policyName input) db of
        Inl e \<Rightarrow> (Inl e, db)
      | Inr p \<Rightarrow>
          (let t = as_tenantId input;
               previous = find_row td_tenantId t (tenant_defaults db)
           in if as_auditWriter input = Some False then (Inl AuditWriteFailed, db)
              else (let db1 = db\<lparr>tenant_defaults := (case previous of
                          Some q \<Rightarrow> update_where (\<lambda>q. td_tenantId q = t) (set_class (as_policyName input)) (tenant_defaults db)
                        | None \<Rightarrow> tenant_defaults db @ [\<lparr>td_tenantId = t, td_retentionClass = as_policyName input,
                            td_legalHoldDefault = False\<rparr>])\<rparr>;
                        a = \<lparr>pa_id = uuid (map pa_id (assignments db)), pa_tenant_id = t,
                          pa_policy_name = as_policyName input, pa_actor_id = as_actorId input,
                          pa_previous_policy = map_option td_retentionClass previous, pa_assigned_at = js_date now\<rparr>
                    in case insert_row pa_id a (assignments db) of
                         Inl e \<Rightarrow> (Inl (RetentionDb e), db1)
                       | Inr u \<Rightarrow> (Inr (), db1\<lparr>assignments := u\<rparr>))))"

text \<open>\<open>floor_end\<close> is the instant \<^verbatim>\<open>created_at + retention_floor_days * INTERVAL '1 day'\<close> of a classified entity.\<close>

definition floor_days :: "entity_row \<Rightarrow> retention_db \<Rightarrow> int option" where
  "floor_days e db =
     (case en_retention_class e of
        None \<Rightarrow> None
      | Some c \<Rightarrow> map_option rp_retentionFloorDays (find_row rp_name c (policies db)))"

definition guard_retention_floor :: "timestamp \<Rightarrow> entity_row \<Rightarrow> retention_db \<Rightarrow> bool" where
  "guard_retention_floor now e db =
     (case floor_days e db of
        None \<Rightarrow> True
      | Some days \<Rightarrow> \<not> now < en_created_at e + days * day)"

record floor_check =
  fc_blocked :: bool
  fc_eligibleAt :: "timestamp option"
  fc_legalHoldActive :: bool

definition not_blocked :: floor_check where
  "not_blocked = \<lparr>fc_blocked = False, fc_eligibleAt = None, fc_legalHoldActive = False\<rparr>"

text \<open>Empty strings are falsy: no tenant, no class.\<close>

definition truthy :: "string option \<Rightarrow> string option" where
  "truthy s = (if s = Some [] then None else s)"

definition held :: "entity_row \<Rightarrow> retention_db \<Rightarrow> bool" where
  "held e db = (case truthy (en_tenant_id e) of None \<Rightarrow> False | Some t \<Rightarrow> hasActiveLegalHold t db)"

definition isWithinRetentionFloor :: "timestamp \<Rightarrow> string \<Rightarrow> retention_db \<Rightarrow> floor_check" where
  "isWithinRetentionFloor now k db =
     (case find_row en_id k (entities db) of
        None \<Rightarrow> not_blocked
      | Some e \<Rightarrow>
          if held e db then \<lparr>fc_blocked = True, fc_eligibleAt = None, fc_legalHoldActive = True\<rparr>
          else if truthy (en_retention_class e) = None then not_blocked
          else (case floor_days e db of
                  None \<Rightarrow> not_blocked
                | Some floorDays \<Rightarrow>
                    (let eligibleAt = js_date (en_created_at e) + floorDays * day
                     in \<lparr>fc_blocked = js_date now < eligibleAt, fc_eligibleAt = Some eligibleAt,
                         fc_legalHoldActive = False\<rparr>)))"

text \<open>\<^verbatim>\<open>DELETE FROM entities WHERE id = k\<close> under the trigger; all references to entities cascade.\<close>

definition delete_entity :: "timestamp \<Rightarrow> string \<Rightarrow> retention_db \<Rightarrow> unit ret" where
  "delete_entity now k db =
     (if list_all (\<lambda>e. guard_retention_floor now e db) (filter (\<lambda>e. en_id e = k) (entities db))
      then (Inr (), db\<lparr>entities := filter (\<lambda>e. en_id e \<noteq> k) (entities db)\<rparr>)
      else (Inl (FloorTrigger k), db))"

definition deleteEntityPastRetention :: "timestamp \<Rightarrow> string \<Rightarrow> retention_db \<Rightarrow> unit ret" where
  "deleteEntityPastRetention now k db =
     (case find_row en_id k (entities db) of
        None \<Rightarrow> (Inr (), db)
      | Some e \<Rightarrow>
          (let c = isWithinRetentionFloor now k db
           in if fc_blocked c \<and> fc_legalHoldActive c then (Inl (HoldInForce k), db)
              else case (fc_blocked c, fc_eligibleAt c) of
                     (True, Some t) \<Rightarrow> (Inl (RetentionFloorNotReachedError k
                        (case en_retention_class e of None \<Rightarrow> [] | Some s \<Rightarrow> s) t), db)
                   | _ \<Rightarrow> delete_entity now k db))"

section \<open>Ingestion with retention metadata\<close>

definition lookupTenantDefaultPolicy :: "string \<Rightarrow> retention_db \<Rightarrow> retention_error + TenantRetentionPolicy" where
  "lookupTenantDefaultPolicy tenant db =
     (case find_row td_tenantId tenant (tenant_defaults db) of
        None \<Rightarrow> Inl (MissingTenantRetentionPolicyError tenant)
      | Some p \<Rightarrow> Inr p)"

record WriteEntityInput =
  we_id :: string
  we_tenantId :: string
  we_properties :: json

record WriteEntityResult =
  wr_id :: string
  wr_tenantId :: string
  wr_retentionClass :: string
  wr_legalHold :: bool

definition write_with_retention ::
  "string \<Rightarrow> timestamp \<Rightarrow> WriteEntityInput \<Rightarrow> retention_db \<Rightarrow> WriteEntityResult ret" where
  "write_with_retention type now input db =
     (case lookupTenantDefaultPolicy (we_tenantId input) db of
        Inl e \<Rightarrow> (Inl e, db)
      | Inr policy \<Rightarrow>
          (let row = \<lparr>en_id = we_id input, en_type = type, en_properties = we_properties input,
                 en_tenant_id = Some (we_tenantId input), en_retention_class = Some (td_retentionClass policy),
                 en_legal_hold = Some (td_legalHoldDefault policy), en_created_at = now\<rparr>
           in if type \<notin> set (entity_types db) then (Inl (RetentionDb (ForeignKeyViolation type)), db)
              else case insert_row en_id row (entities db) of
                     Inl e \<Rightarrow> (Inl (RetentionDb e), db)
                   | Inr t \<Rightarrow> (Inr \<lparr>wr_id = we_id input, wr_tenantId = we_tenantId input,
                        wr_retentionClass = td_retentionClass policy, wr_legalHold = td_legalHoldDefault policy\<rparr>,
                       db\<lparr>entities := t\<rparr>)))"

definition writeEmailWithRetention :: "timestamp \<Rightarrow> WriteEntityInput \<Rightarrow> retention_db \<Rightarrow> WriteEntityResult ret" where
  "writeEmailWithRetention = write_with_retention ''email''"

definition writeCorpusChunkWithRetention :: "timestamp \<Rightarrow> WriteEntityInput \<Rightarrow> retention_db \<Rightarrow> WriteEntityResult ret" where
  "writeCorpusChunkWithRetention = write_with_retention ''corpus_chunk''"

section \<open>The nightly scan\<close>

record RetentionDeleteResult =
  dr_entityId :: string
  dr_entityType :: string
  dr_tenantId :: "string option"
  dr_retentionClass :: "string option"
  dr_error :: "retention_error option" \<comment> \<open>\<open>None\<close>: deleted\<close>

record RetentionSchedulerSummary =
  ss_deletedCount :: nat
  ss_skippedCount :: nat
  ss_results :: "RetentionDeleteResult list"

text \<open>The eligibility query; here an empty tenant is a tenant.\<close>

definition eligible :: "timestamp \<Rightarrow> retention_db \<Rightarrow> entity_row \<Rightarrow> bool" where
  "eligible now db e \<longleftrightarrow>
     (case floor_days e db of None \<Rightarrow> False | Some days \<Rightarrow> now \<ge> en_created_at e + days * day)
     \<and> en_legal_hold e \<noteq> Some True
     \<and> (case en_tenant_id e of None \<Rightarrow> True
          | Some t \<Rightarrow> \<not> list_ex (\<lambda>h. lh_tenant_id h = t \<and> in_force h) (holds db))"

definition eligibleRows :: "timestamp \<Rightarrow> nat \<Rightarrow> retention_db \<Rightarrow> entity_row list" where
  "eligibleRows now batchSize db = take batchSize (sort_key en_created_at (filter (eligible now db) (entities db)))"

fun scan_rows :: "timestamp \<Rightarrow> entity_row list \<Rightarrow> retention_db \<Rightarrow> RetentionDeleteResult list \<times> retention_db" where
  "scan_rows now [] db = ([], db)"
| "scan_rows now (e # es) db =
     (let (outcome, db1) = deleteEntityPastRetention now (en_id e) db;
          r = \<lparr>dr_entityId = en_id e, dr_entityType = en_type e, dr_tenantId = en_tenant_id e,
            dr_retentionClass = en_retention_class e,
            dr_error = (case outcome of Inl err \<Rightarrow> Some err | Inr _ \<Rightarrow> None)\<rparr>;
          (rs, db2) = scan_rows now es db1
      in (r # rs, db2))"

definition runRetentionScheduler :: "timestamp \<Rightarrow> nat \<Rightarrow> retention_db \<Rightarrow> RetentionSchedulerSummary \<times> retention_db" where
  "runRetentionScheduler now batchSize db =
     (let (results, db') = scan_rows now (eligibleRows now batchSize db) db
      in (\<lparr>ss_deletedCount = length (filter (\<lambda>r. dr_error r = None) results),
           ss_skippedCount = length (filter (\<lambda>r. dr_error r \<noteq> None) results), ss_results = results\<rparr>, db'))"

section \<open>WORM mode\<close>

definition POLICY_WORM_MODE :: string where
  "POLICY_WORM_MODE = ''worm_mode''"

definition getTenantPolicy :: "string \<Rightarrow> string option \<Rightarrow> retention_db \<Rightarrow> string option" where
  "getTenantPolicy key tenant db =
     (let row = (\<lambda>t. find (\<lambda>p. tk_key p = key \<and> tk_tenant_id p = t) (tenant_policies db))
      in case (case truthy tenant of None \<Rightarrow> None | Some t \<Rightarrow> row (Some t)) of
           Some p \<Rightarrow> Some (tk_value p)
         | None \<Rightarrow> map_option tk_value (row None))"

definition set_policy_value :: "timestamp \<Rightarrow> string \<Rightarrow> TenantPolicyRow \<Rightarrow> TenantPolicyRow" where
  "set_policy_value now v p = p\<lparr>tk_value := v, tk_updated_at := now\<rparr>"

definition upsertTenantPolicy ::
  "(string list \<Rightarrow> string) \<Rightarrow> timestamp \<Rightarrow> string \<Rightarrow> string \<Rightarrow> string option \<Rightarrow> retention_db \<Rightarrow> unit ret" where
  "upsertTenantPolicy uuid now key value tenant db =
     (let hit = (\<lambda>p. tk_tenant_id p = tenant \<and> tk_key p = key)
      in if list_ex hit (tenant_policies db)
         then (Inr (), db\<lparr>tenant_policies := update_where hit (set_policy_value now value) (tenant_policies db)\<rparr>)
         else case insert_row tk_id \<lparr>tk_id = uuid (map tk_id (tenant_policies db)), tk_tenant_id = tenant, tk_key = key,
                  tk_value = value, tk_created_at = now, tk_updated_at = now\<rparr> (tenant_policies db) of
                Inl e \<Rightarrow> (Inl (RetentionDb e), db)
              | Inr t \<Rightarrow> (Inr (), db\<lparr>tenant_policies := t\<rparr>))"

definition isWormEnabled :: "string \<Rightarrow> retention_db \<Rightarrow> bool" where
  "isWormEnabled tenant db \<longleftrightarrow> getTenantPolicy POLICY_WORM_MODE (Some tenant) db = Some ''true''"

record EnableWormInput =
  ew_tenantId :: string
  ew_approvalRequestId :: string
  ew_actorId :: string
  ew_actorRole :: "string option"
  ew_isSuperuser :: "bool option"

definition enableWorm ::
  "(string list \<Rightarrow> string) \<Rightarrow> timestamp \<Rightarrow> EnableWormInput \<Rightarrow> approvals_db \<Rightarrow> retention_db \<Rightarrow> unit ret" where
  "enableWorm uuid now input approvals db =
     (if \<not> officer (ew_actorRole input) (ew_isSuperuser input)
      then (Inl (InsufficientRoleError (ew_actorId input) (ew_actorRole input)), db)
      else case assertApproved (ew_approvalRequestId input) approvals of
        Inl e \<Rightarrow> (Inl (WormApprovalRequiredError (ew_tenantId input)), db)
      | Inr request \<Rightarrow>
          if ar_operation_type request \<noteq> ''enable_worm''
          then (Inl (WormApprovalRequiredError (ew_tenantId input)), db)
          else upsertTenantPolicy uuid now POLICY_WORM_MODE ''true'' (Some (ew_tenantId input)) db)"

definition checkWormUpdateGuard :: "timestamp \<Rightarrow> string \<Rightarrow> retention_db \<Rightarrow> bool \<times> timestamp option" where
  "checkWormUpdateGuard now k db =
     (case find_row en_id k (entities db) of
        None \<Rightarrow> (False, None)
      | Some e \<Rightarrow>
          (case (truthy (en_tenant_id e), truthy (en_retention_class e)) of
             (Some t, Some c) \<Rightarrow>
               if \<not> isWormEnabled t db then (False, None)
               else (case floor_days e db of
                       None \<Rightarrow> (False, None)
                     | Some floorDays \<Rightarrow>
                         (let eligibleAt = js_date (en_created_at e) + floorDays * day
                          in (js_date now < eligibleAt, Some eligibleAt)))
           | _ \<Rightarrow> (False, None)))"

text \<open>The trigger reads the tenant's own row only.\<close>

definition guard_worm_update :: "timestamp \<Rightarrow> entity_row \<Rightarrow> retention_db \<Rightarrow> bool" where
  "guard_worm_update now e db =
     (case (en_tenant_id e, floor_days e db) of
        (Some t, Some days) \<Rightarrow>
          map_option tk_value (find (\<lambda>p. tk_key p = ''worm_mode'' \<and> tk_tenant_id p = Some t) (tenant_policies db))
            \<noteq> Some ''true'' \<or> \<not> now < en_created_at e + days * day
      | _ \<Rightarrow> True)"

section \<open>Sequences of operations\<close>

datatype ret_op =
    Place_hold "string list \<Rightarrow> string" timestamp PlaceLegalHoldInput
  | Request_removal "string list \<Rightarrow> string" timestamp RequestHoldRemovalInput
  | Approve_removal timestamp ResolveHoldRemovalInput
  | Reject_removal timestamp ResolveHoldRemovalInput
  | Write_email timestamp WriteEntityInput
  | Write_chunk timestamp WriteEntityInput
  | Delete_past timestamp string
  | Scan timestamp nat
  | Assign_policy "string list \<Rightarrow> string" timestamp AssignRetentionPolicyInput
  | Set_override string string int string
  | Enable_worm "string list \<Rightarrow> string" timestamp EnableWormInput approvals_db

fun ret_step :: "ret_op \<Rightarrow> retention_db \<Rightarrow> retention_db" where
  "ret_step (Place_hold uuid now input) db = snd (placeLegalHold uuid now input db)"
| "ret_step (Request_removal uuid now input) db = snd (requestHoldRemoval uuid now input db)"
| "ret_step (Approve_removal now input) db = snd (approveHoldRemoval now input db)"
| "ret_step (Reject_removal now input) db = snd (rejectHoldRemoval now input db)"
| "ret_step (Write_email now input) db = snd (writeEmailWithRetention now input db)"
| "ret_step (Write_chunk now input) db = snd (writeCorpusChunkWithRetention now input db)"
| "ret_step (Delete_past now k) db = snd (deleteEntityPastRetention now k db)"
| "ret_step (Scan now n) db = snd (runRetentionScheduler now n db)"
| "ret_step (Assign_policy uuid now input) db = snd (assignRetentionPolicyToTenant uuid now input db)"
| "ret_step (Set_override p t days descr) db = snd (setEntityTypeRetentionOverride p t days descr db)"
| "ret_step (Enable_worm uuid now input approvals) db = snd (enableWorm uuid now input approvals db)"

definition ret_wf :: "retention_db \<Rightarrow> bool" where
  "ret_wf db \<longleftrightarrow> distinct (map en_id (entities db)) \<and> distinct (map rr_id (removals db))"

text \<open>What each operation leaves alone.\<close>

lemma update_hold_frame [simp]:
  "entities (update_hold k f db) = entities db" "removals (update_hold k f db) = removals db"
  "policies (update_hold k f db) = policies db"
  "holds (update_hold k f db) = update_where (\<lambda>h. lh_id h = k) f (holds db)"
  by (simp_all add: update_hold_def)

definition same_holds :: "retention_db \<Rightarrow> retention_db \<Rightarrow> bool" where
  "same_holds db db' \<longleftrightarrow> holds db' = holds db \<and> removals db' = removals db \<and> policies db' = policies db"

definition same_entities :: "retention_db \<Rightarrow> retention_db \<Rightarrow> bool" where
  "same_entities db db' \<longleftrightarrow> entities db' = entities db \<and> policies db' = policies db"

lemma hold_ops_frame:
  "same_entities db (snd (placeLegalHold uuid now li db))"
  "same_entities db (snd (requestHoldRemoval uuid now qi db))"
  "same_entities db (snd (approveHoldRemoval now si db))"
  "same_entities db (snd (rejectHoldRemoval now si db))"
  "same_entities db (snd (assignRetentionPolicyToTenant uuid now ai db))"
  "same_entities db (snd (setEntityTypeRetentionOverride p t days descr db))"
  "same_entities db (snd (enableWorm uuid now wi approvals db))"
  by (simp_all add: same_entities_def placeLegalHold_def requestHoldRemoval_def approveHoldRemoval_def rejectHoldRemoval_def
      assignRetentionPolicyToTenant_def setEntityTypeRetentionOverride_def enableWorm_def upsertTenantPolicy_def
      Let_def split: sum.splits option.splits if_splits)

lemma delete_entity_frame: "same_holds db (snd (delete_entity now k db))"
  by (simp add: same_holds_def delete_entity_def)

lemma delete_past_frame: "same_holds db (snd (deleteEntityPastRetention now k db))"
  using delete_entity_frame
  by (simp add: same_holds_def deleteEntityPastRetention_def Let_def split: option.splits prod.splits bool.splits)

lemma same_holds_trans: "same_holds a b \<Longrightarrow> same_holds b c \<Longrightarrow> same_holds a c"
  by (simp add: same_holds_def)

lemma scan_frame: "same_holds db (snd (scan_rows now es db))"
proof (induction es arbitrary: db)
  case (Cons e es)
  show ?case
    using same_holds_trans [OF delete_past_frame Cons.IH, of db now "en_id e"]
    by (simp add: Let_def case_prod_unfold)
qed (simp add: same_holds_def)

lemma entity_ops_frame:
  "same_holds db (snd (writeEmailWithRetention now wi db))"
  "same_holds db (snd (writeCorpusChunkWithRetention now wi db))"
  "same_holds db (snd (runRetentionScheduler now n db))"
  "same_holds db (snd (assignRetentionPolicyToTenant uuid now ai db))"
  "same_holds db (snd (setEntityTypeRetentionOverride p t days descr db))"
  "same_holds db (snd (enableWorm uuid now ei approvals db))"
proof -
  show "same_holds db (snd (runRetentionScheduler now n db))"
    using scan_frame by (simp add: runRetentionScheduler_def Let_def case_prod_unfold)
qed (simp_all add: same_holds_def writeEmailWithRetention_def writeCorpusChunkWithRetention_def write_with_retention_def
    assignRetentionPolicyToTenant_def setEntityTypeRetentionOverride_def enableWorm_def upsertTenantPolicy_def
    Let_def split: sum.splits option.splits if_splits)

lemma delete_entity_cases:
  "snd (delete_entity now k db) = db
   \<or> snd (delete_entity now k db) = db\<lparr>entities := filter (\<lambda>e. en_id e \<noteq> k) (entities db)\<rparr>
     \<and> (\<forall>e \<in> set (entities db). en_id e = k \<longrightarrow> guard_retention_floor now e db)"
  by (simp add: delete_entity_def list_all_iff)

lemma delete_past_entities:
  "entities (snd (deleteEntityPastRetention now k db)) = entities db
   \<or> entities (snd (deleteEntityPastRetention now k db)) = filter (\<lambda>e. en_id e \<noteq> k) (entities db)
     \<and> (\<forall>e \<in> set (entities db). en_id e = k \<longrightarrow> guard_retention_floor now e db)
     \<and> (\<exists>e. find_row en_id k (entities db) = Some e \<and> \<not> held e db)"
proof (cases "find_row en_id k (entities db)")
  case None
  then show ?thesis by (simp add: deleteEntityPastRetention_def)
next
  case (Some e)
  show ?thesis
  proof (cases "held e db")
    case True
    then show ?thesis by (simp add: deleteEntityPastRetention_def isWithinRetentionFloor_def Some)
  next
    case False
    let ?c = "isWithinRetentionFloor now k db"
    have "\<not> fc_legalHoldActive ?c"
      using False by (simp add: isWithinRetentionFloor_def Some not_blocked_def Let_def split: option.splits)
    then have "snd (deleteEntityPastRetention now k db) = db
        \<or> deleteEntityPastRetention now k db = delete_entity now k db"
      by (auto simp: deleteEntityPastRetention_def Some Let_def split: option.splits bool.splits)
    then show ?thesis using False Some delete_entity_cases [of now k db] by force
  qed
qed

lemma held_cong: "same_holds db db' \<Longrightarrow> held e db' = held e db"
  by (simp add: same_holds_def held_def hasActiveLegalHold_def split: option.splits)

lemma floor_days_cong: "policies db' = policies db \<Longrightarrow> floor_days e db' = floor_days e db"
  by (simp add: floor_days_def split: option.splits)

lemma guard_floor_cong: "policies db' = policies db \<Longrightarrow> guard_retention_floor now e db' = guard_retention_floor now e db"
  using floor_days_cong [of db' db e] by (simp add: guard_retention_floor_def)

text \<open>An entity that a hold or the trigger protects stays through a deletion and through a scan.\<close>

definition kept :: "timestamp \<Rightarrow> entity_row \<Rightarrow> retention_db \<Rightarrow> bool" where
  "kept now e db \<longleftrightarrow> held e db \<or> \<not> guard_retention_floor now e db"

lemma kept_cong: "same_holds db db' \<Longrightarrow> kept now e db' = kept now e db"
  using held_cong [of db db' e] guard_floor_cong [of db' db now e] by (simp add: kept_def same_holds_def)

lemma ret_wf_delete: "ret_wf db \<Longrightarrow> ret_wf (snd (deleteEntityPastRetention now k db))"
  using delete_past_entities [of now k db] delete_past_frame [of db now k]
  by (auto simp: ret_wf_def same_holds_def distinct_map_filter)

lemma delete_past_keeps:
  assumes "ret_wf db" and "e \<in> set (entities db)" and "kept now e db"
  shows "e \<in> set (entities (snd (deleteEntityPastRetention now k db)))"
proof (cases "en_id e = k")
  case True
  then have "find_row en_id k (entities db) = Some e"
    using assms(1,2) by (auto simp: ret_wf_def find_row_iff)
  then show ?thesis using delete_past_entities [of now k db] assms(2,3) True by (auto simp: kept_def)
next
  case False
  then show ?thesis using delete_past_entities [of now k db] assms(2) by auto
qed

lemma scan_keeps:
  assumes "ret_wf db" and "e \<in> set (entities db)" and "kept now e db"
  shows "e \<in> set (entities (snd (scan_rows now es db)))"
  using assms
proof (induction es arbitrary: db)
  case (Cons x es)
  let ?db = "snd (deleteEntityPastRetention now (en_id x) db)"
  have "e \<in> set (entities (snd (scan_rows now es ?db)))"
    using Cons.prems
    by (intro Cons.IH ret_wf_delete delete_past_keeps) (simp_all add: kept_cong [OF delete_past_frame])
  then show ?case by (simp add: Let_def case_prod_unfold)
qed simp

lemma ret_wf_scan: "ret_wf db \<Longrightarrow> ret_wf (snd (scan_rows now es db))"
proof (induction es arbitrary: db)
  case (Cons x es)
  then show ?case by (simp add: Let_def case_prod_unfold ret_wf_delete)
qed simp

lemma write_keeps:
  assumes "ret_wf db"
  shows "ret_wf (snd (write_with_retention type now input db))"
    and "set (entities db) \<subseteq> set (entities (snd (write_with_retention type now input db)))"
  using assms
  by (auto simp: write_with_retention_def ret_wf_def Let_def insert_row_Inr split: sum.splits)

interpretation resolve_removal: row_update rr_id "resolve_removal now s a" for now s a
  by unfold_locales (simp add: resolve_removal_def)

lemma update_removal_Inr:
  assumes "update_removal now s a r t = Inr t'"
  shows "t' = update_where (\<lambda>q. rr_id q = rr_id r) (resolve_removal now s a) t"
    and "\<And>q. q \<in> set t \<Longrightarrow> removal_key q = (rr_hold_id r, s, rr_requested_by r) \<Longrightarrow> rr_id q = rr_id r"
  using assms by (auto simp: update_removal_def list_ex_iff split: if_splits)

lemma pending_removal_SomeD:
  "pending_removal k db = Some r \<Longrightarrow> r \<in> set (removals db) \<and> rr_id r = k \<and> rr_status r = Q_pending"
  by (auto simp: pending_removal_def dest: find_row_SomeD split: option.splits if_splits)

lemma ret_wf_holds:
  "ret_wf db \<Longrightarrow> ret_wf (snd (placeLegalHold uuid now li db))"
  "ret_wf db \<Longrightarrow> ret_wf (snd (requestHoldRemoval uuid now qi db))"
  "ret_wf db \<Longrightarrow> ret_wf (snd (approveHoldRemoval now si db))"
  "ret_wf db \<Longrightarrow> ret_wf (snd (rejectHoldRemoval now si db))"
  by (auto simp: ret_wf_def placeLegalHold_def requestHoldRemoval_def approveHoldRemoval_def rejectHoldRemoval_def
      insert_removal_def insert_row_Inr Let_def resolve_removal.distinct_update
      dest!: update_removal_Inr(1) split: sum.splits option.splits if_splits)

lemma ret_wf_frame: "same_holds db db' \<Longrightarrow> same_entities db db' \<Longrightarrow> ret_wf db \<Longrightarrow> ret_wf db'"
  by (simp add: same_holds_def same_entities_def ret_wf_def)

lemmas ret_wf_config = ret_wf_frame [OF entity_ops_frame(4) hold_ops_frame(5)]
  ret_wf_frame [OF entity_ops_frame(5) hold_ops_frame(6)] ret_wf_frame [OF entity_ops_frame(6) hold_ops_frame(7)]

lemma ret_wf_run: "ret_wf db \<Longrightarrow> ret_wf (snd (runRetentionScheduler now n db))"
  using ret_wf_scan by (simp add: runRetentionScheduler_def Let_def case_prod_unfold)

lemma ret_wf_step: "ret_wf db \<Longrightarrow> ret_wf (ret_step op db)"
  by (cases op) (simp_all add: ret_wf_holds ret_wf_delete ret_wf_run ret_wf_config writeEmailWithRetention_def
      writeCorpusChunkWithRetention_def write_keeps)

text \<open>The instant an operation runs; setting an override reads no clock.\<close>

fun ret_now :: "ret_op \<Rightarrow> timestamp option" where
  "ret_now (Delete_past now k) = Some now"
| "ret_now (Scan now n) = Some now"
| "ret_now _ = None"

lemma step_keeps:
  assumes "ret_wf db" and "e \<in> set (entities db)" and "\<And>now. ret_now op = Some now \<Longrightarrow> kept now e db"
  shows "e \<in> set (entities (ret_step op db))"
proof (cases op)
  case (Scan now n)
  then show ?thesis
    using scan_keeps [OF assms(1,2)] assms(3) by (simp add: runRetentionScheduler_def Let_def case_prod_unfold)
next
  case (Delete_past now k)
  then show ?thesis using delete_past_keeps [OF assms(1,2)] assms(3) by simp
next
  case (Write_email now wi)
  then show ?thesis using write_keeps(2) [OF assms(1)] assms(2) by (auto simp: writeEmailWithRetention_def)
next
  case (Write_chunk now wi)
  then show ?thesis using write_keeps(2) [OF assms(1)] assms(2) by (auto simp: writeCorpusChunkWithRetention_def)
qed (use assms(2) hold_ops_frame in \<open>simp_all add: same_entities_def\<close>)

section \<open>Protection by holds and floors\<close>

definition two_officers :: "string \<Rightarrow> retention_db \<Rightarrow> bool" where
  "two_officers k db \<longleftrightarrow> (\<exists>r \<in> set (removals db). rr_hold_id r = k \<and> rr_status r = Q_approved
     \<and> (\<exists>b. rr_co_approved_by r = Some b \<and> b \<noteq> rr_requested_by r))"

definition hold_in_force :: "string \<Rightarrow> string \<Rightarrow> retention_db \<Rightarrow> bool" where
  "hold_in_force k t db \<longleftrightarrow> (\<exists>h \<in> set (holds db). lh_id h = k \<and> lh_tenant_id h = t \<and> in_force h)"

lemma two_officers_insert:
  "two_officers k db \<Longrightarrow> removals db' = removals db @ rs \<Longrightarrow> two_officers k db'"
  by (auto simp: two_officers_def)

lemma two_officers_same: "removals db' = removals db \<Longrightarrow> two_officers k db' = two_officers k db"
  by (simp add: two_officers_def)

lemma two_officers_update:
  assumes "ret_wf db" and "two_officers k db" and "pending_removal j db = Some r"
    and "removals db' = update_where (\<lambda>q. rr_id q = rr_id r) (resolve_removal now s a) (removals db)"
  shows "two_officers k db'"
proof -
  obtain q where q: "q \<in> set (removals db)" "rr_hold_id q = k" "rr_status q = Q_approved"
    "\<exists>b. rr_co_approved_by q = Some b \<and> b \<noteq> rr_requested_by q"
    using assms(2) by (auto simp: two_officers_def)
  have "rr_id q \<noteq> rr_id r"
    using q(1,3) pending_removal_SomeD [OF assms(3)] assms(1) by (auto simp: ret_wf_def distinct_map inj_on_def)
  then have "q \<in> set (removals db')" using q(1) assms(4) by (simp add: set_update_where)
  with q show ?thesis by (auto simp: two_officers_def)
qed

lemma in_force_update:
  assumes "hold_in_force k t db" and "holds db' = update_where (\<lambda>h. lh_id h = j) f (holds db)"
    and "j = k \<Longrightarrow> \<exists>s. s \<noteq> H_removed \<and> f = set_hold_status s"
  shows "hold_in_force k t db'"
proof -
  obtain h where h: "h \<in> set (holds db)" "lh_id h = k" "lh_tenant_id h = t" "in_force h"
    using assms(1) by (auto simp: hold_in_force_def)
  let ?h = "if lh_id h = j then f h else h"
  have "?h \<in> set (holds db')" using h(1) by (simp add: assms(2) set_update_where)
  moreover have "lh_id ?h = k \<and> lh_tenant_id ?h = t \<and> in_force ?h"
  proof (cases "lh_id h = j")
    case True
    then obtain s where "s \<noteq> H_removed" "f = set_hold_status s" using h(2) assms(3) by auto
    with True h show ?thesis by (cases s) (simp_all add: set_hold_status_def in_force_def)
  qed (use h in simp)
  ultimately show ?thesis unfolding hold_in_force_def by blast
qed

lemma request_cases:
  "snd (requestHoldRemoval uuid now qi db) = db
   \<or> holds (snd (requestHoldRemoval uuid now qi db))
       = update_where (\<lambda>h. lh_id h = rq_holdId qi) (set_hold_status H_pending_removal) (holds db)
     \<and> (\<exists>rs. removals (snd (requestHoldRemoval uuid now qi db)) = removals db @ rs)"
  by (auto simp: requestHoldRemoval_def Let_def insert_removal_def insert_row_Inr
      split: option.splits sum.splits if_splits)

lemma request_effect:
  "hold_in_force k t db \<Longrightarrow> hold_in_force k t (snd (requestHoldRemoval uuid now qi db))"
  "two_officers k db \<Longrightarrow> two_officers k (snd (requestHoldRemoval uuid now qi db))"
proof -
  show "hold_in_force k t (snd (requestHoldRemoval uuid now qi db))" if "hold_in_force k t db"
    using request_cases [of uuid now qi db] in_force_update [OF that] that by (metis LegalHoldStatus.distinct(5))
  show "two_officers k (snd (requestHoldRemoval uuid now qi db))" if "two_officers k db"
    using request_cases [of uuid now qi db] two_officers_insert [OF that] that by metis
qed

lemma place_effect:
  "hold_in_force k t db \<Longrightarrow> hold_in_force k t (snd (placeLegalHold uuid now li db))"
  "two_officers k db \<Longrightarrow> two_officers k (snd (placeLegalHold uuid now li db))"
  by (auto simp: placeLegalHold_def Let_def insert_row_Inr hold_in_force_def two_officers_def split: sum.splits)

lemma reject_cases:
  "snd (rejectHoldRemoval now si db) = db
   \<or> (\<exists>r. pending_removal (rs_removalRequestId si) db = Some r
      \<and> removals (snd (rejectHoldRemoval now si db))
        = update_where (\<lambda>q. rr_id q = rr_id r) (resolve_removal (js_date now) Q_rejected None) (removals db)
      \<and> holds (snd (rejectHoldRemoval now si db))
        = update_where (\<lambda>h. lh_id h = rr_hold_id r) (set_hold_status H_active) (holds db))"
  by (auto simp: rejectHoldRemoval_def Let_def dest!: update_removal_Inr(1) split: option.splits sum.splits)

lemma approve_cases:
  "snd (approveHoldRemoval now si db) = db
   \<or> (\<exists>r. pending_removal (rs_removalRequestId si) db = Some r \<and> rr_requested_by r \<noteq> rs_actor si
      \<and> removals (snd (approveHoldRemoval now si db))
        = update_where (\<lambda>q. rr_id q = rr_id r) (resolve_removal (js_date now) Q_approved (Some (rs_actor si))) (removals db)
      \<and> holds (snd (approveHoldRemoval now si db))
        = update_where (\<lambda>h. lh_id h = rr_hold_id r) (lift_hold (js_date now)) (holds db))"
  by (auto simp: approveHoldRemoval_def Let_def dest!: update_removal_Inr(1) split: option.splits sum.splits if_splits)

lemma reject_effect:
  assumes "ret_wf db"
  shows "hold_in_force k t db \<Longrightarrow> hold_in_force k t (snd (rejectHoldRemoval now si db))"
    and "two_officers k db \<Longrightarrow> two_officers k (snd (rejectHoldRemoval now si db))"
proof -
  show "hold_in_force k t (snd (rejectHoldRemoval now si db))" if "hold_in_force k t db"
    using reject_cases [of now si db] in_force_update [OF that] that by (metis LegalHoldStatus.distinct(3))
  show "two_officers k (snd (rejectHoldRemoval now si db))" if "two_officers k db"
    using reject_cases [of now si db] two_officers_update [OF assms that] that by metis
qed

lemma approve_two_officers:
  assumes "ret_wf db" and "two_officers k db"
  shows "two_officers k (snd (approveHoldRemoval now si db))"
  using approve_cases [of now si db] two_officers_update [OF assms] assms(2) by metis

lemma approve_lifts:
  assumes "hold_in_force k t db"
  shows "hold_in_force k t (snd (approveHoldRemoval now si db)) \<or> two_officers k (snd (approveHoldRemoval now si db))"
  using approve_cases [of now si db]
proof (elim disjE exE conjE)
  let ?db = "snd (approveHoldRemoval now si db)"
  fix r
  assume r: "pending_removal (rs_removalRequestId si) db = Some r" "rr_requested_by r \<noteq> rs_actor si"
    and t: "removals ?db = update_where (\<lambda>q. rr_id q = rr_id r)
      (resolve_removal (js_date now) Q_approved (Some (rs_actor si))) (removals db)"
    and h: "holds ?db = update_where (\<lambda>h. lh_id h = rr_hold_id r) (lift_hold (js_date now)) (holds db)"
  show ?thesis
  proof (cases "rr_hold_id r = k")
    case True
    let ?r = "resolve_removal (js_date now) Q_approved (Some (rs_actor si)) r"
    have "?r \<in> set (removals ?db)"
      using pending_removal_SomeD [OF r(1)] by (auto simp: t set_update_where)
    moreover have "rr_hold_id ?r = k \<and> rr_status ?r = Q_approved \<and> rr_co_approved_by ?r = Some (rs_actor si)
        \<and> rs_actor si \<noteq> rr_requested_by ?r"
      using True r(2) by (simp add: resolve_removal_def)
    ultimately show ?thesis unfolding two_officers_def by blast
  next
    case False
    then have "hold_in_force k t ?db" using in_force_update [OF assms h] by blast
    then show ?thesis ..
  qed
qed (use assms in simp)

lemma holds_frame:
  "same_holds db db' \<Longrightarrow> hold_in_force k t db' = hold_in_force k t db"
  "same_holds db db' \<Longrightarrow> two_officers k db' = two_officers k db"
  by (simp_all add: same_holds_def hold_in_force_def two_officers_def)

lemmas in_force_frame = entity_ops_frame [THEN holds_frame(1)] delete_past_frame [THEN holds_frame(1)]

lemmas two_officers_frame = entity_ops_frame [THEN holds_frame(2)] delete_past_frame [THEN holds_frame(2)]

lemma step_two_officers: "ret_wf db \<Longrightarrow> two_officers k db \<Longrightarrow> two_officers k (ret_step op db)"
  by (cases op) (simp_all add: request_effect place_effect reject_effect approve_two_officers two_officers_frame)

lemma step_hold_in_force:
  "ret_wf db \<Longrightarrow> hold_in_force k t db \<Longrightarrow> hold_in_force k t (ret_step op db) \<or> two_officers k (ret_step op db)"
  by (cases op) (simp_all add: request_effect place_effect reject_effect approve_lifts in_force_frame)

lemma hold_in_force_held:
  "hold_in_force k t db \<Longrightarrow> t \<noteq> [] \<Longrightarrow> en_tenant_id e = Some t \<Longrightarrow> held e db"
  by (auto simp: hold_in_force_def held_def truthy_def hasActiveLegalHold_def filter_empty_conv)

text \<open>The invariant behind the next property: the record is there under a hold in force, or two people
  have lifted the hold.\<close>

definition guarded_by :: "string \<Rightarrow> string \<Rightarrow> entity_row \<Rightarrow> retention_db \<Rightarrow> bool" where
  "guarded_by k t e db \<longleftrightarrow> ret_wf db \<and> t \<noteq> [] \<and> en_tenant_id e = Some t
     \<and> (hold_in_force k t db \<and> e \<in> set (entities db) \<or> two_officers k db)"

interpretation guarded: invariant_system ret_step "\<lambda>_. True" "guarded_by k t e" for k t e
proof unfold_locales
  fix db op
  assume g: "guarded_by k t e db"
  then have wf: "ret_wf db" "t \<noteq> []" "en_tenant_id e = Some t" by (simp_all add: guarded_by_def)
  have "hold_in_force k t db \<and> e \<in> set (entities db) \<or> two_officers k db" using g by (simp add: guarded_by_def)
  then show "guarded_by k t e (ret_step op db)"
  proof
    assume "hold_in_force k t db \<and> e \<in> set (entities db)"
    then have "e \<in> set (entities (ret_step op db))"
      and "hold_in_force k t (ret_step op db) \<or> two_officers k (ret_step op db)"
      using wf step_keeps [OF wf(1)] step_hold_in_force [OF wf(1)] hold_in_force_held by (auto simp: kept_def)
    then show ?thesis using wf ret_wf_step by (auto simp: guarded_by_def)
  qed (use wf ret_wf_step step_two_officers in \<open>simp add: guarded_by_def\<close>)
qed

text \<open>C2: A record under legal hold is never deleted: whatever sequence of placements, removal requests,
  decisions, writes, deletions and nightly scans follows, a record of a tenant with a hold in force is still
  there, unless the removal of that hold was requested by one person and approved by another.\<close>

theorem held_until_two_officers:
  assumes "ret_wf db" and "h \<in> set (holds db)" and "in_force h" and "lh_tenant_id h \<noteq> []"
    and "e \<in> set (entities db)" and "en_tenant_id e = Some (lh_tenant_id h)"
  shows "e \<in> set (entities (fold ret_step ops db))
    \<or> (\<exists>r \<in> set (removals (fold ret_step ops db)). rr_hold_id r = lh_id h \<and> rr_status r = Q_approved
         \<and> (\<exists>b. rr_co_approved_by r = Some b \<and> b \<noteq> rr_requested_by r))"
proof -
  have "guarded_by (lh_id h) (lh_tenant_id h) e db"
    using assms by (auto simp: guarded_by_def hold_in_force_def)
  then have "guarded_by (lh_id h) (lh_tenant_id h) e (fold ret_step ops db)"
    by (rule guarded.run_inv) (simp add: list_all_iff)
  then show ?thesis by (auto simp: guarded_by_def two_officers_def)
qed

text \<open>C6: No operation deletes a record before its retention floor: along any sequence of operations that
  all run before \<^verbatim>\<open>created_at\<close> plus the floor of its policy, the record stays.\<close>

theorem retained_until_floor:
  assumes "ret_wf db" and "e \<in> set (entities db)" and "floor_days e db = Some days"
    and "\<forall>op \<in> set ops. \<forall>now. ret_now op = Some now \<longrightarrow> now < en_created_at e + days * day"
  shows "e \<in> set (entities (fold ret_step ops db))"
  using assms
proof (induction ops arbitrary: db)
  case (Cons op ops)
  have "kept now e db" if "ret_now op = Some now" for now
    using Cons.prems(3,4) that by (simp add: kept_def guard_retention_floor_def)
  then have "e \<in> set (entities (ret_step op db))" using step_keeps Cons.prems(1,2) by blast
  moreover have "policies (ret_step op db) = policies db"
    using entity_ops_frame delete_past_frame hold_ops_frame
    by (cases op) (simp_all add: same_holds_def same_entities_def)
  then have "floor_days e (ret_step op db) = Some days" using floor_days_cong Cons.prems(3) by metis
  ultimately show ?case using Cons.IH [of "ret_step op db"] Cons.prems(1,4) ret_wf_step by simp
qed simp

section \<open>The scan deletes exactly the eligible records\<close>

lemma js_date_floor:
  assumes "c + d * day \<le> now"
  shows "js_date c + d * day \<le> js_date now"
proof -
  have split: "js_date t = 1000 * (t div 1000)" for t
    by (simp add: js_date_def minus_mod_eq_mult_div)
  have "d * day = d * 86400000 * 1000" by (simp add: day_def second_def)
  then have "(c + d * day) div 1000 = c div 1000 + d * 86400000" by (simp only: div_mult_self1 [OF zero_neq_numeral [symmetric]])
  moreover have "(c + d * day) div 1000 \<le> now div 1000" using assms by (rule zdiv_mono1) simp
  ultimately show ?thesis unfolding split by (simp add: day_def second_def)
qed

lemma eligible_not_held: "eligible now db e \<Longrightarrow> \<not> held e db"
  by (auto simp: eligible_def held_def truthy_def hasActiveLegalHold_def list_ex_iff filter_empty_conv
      split: option.splits if_splits)

lemma delete_eligible:
  assumes "ret_wf db" and "e \<in> set (entities db)" and "eligible now db e"
  shows "deleteEntityPastRetention now (en_id e) db
    = (Inr (), db\<lparr>entities := filter (\<lambda>x. x \<noteq> e) (entities db)\<rparr>)"
proof -
  obtain days where days: "floor_days e db = Some days" "en_created_at e + days * day \<le> now"
    using assms(3) by (auto simp: eligible_def split: option.splits)
  have find: "find_row en_id (en_id e) (entities db) = Some e"
    using assms(1,2) by (auto simp: ret_wf_def find_row_iff)
  have same: "x \<in> set (entities db) \<Longrightarrow> en_id x = en_id e \<longleftrightarrow> x = e" for x
    using assms(1,2) by (auto simp: ret_wf_def distinct_map inj_on_def)
  have "\<not> fc_blocked (isWithinRetentionFloor now (en_id e) db)"
    using eligible_not_held [OF assms(3)] js_date_floor [OF days(2)] days(1)
    by (simp add: isWithinRetentionFloor_def find not_blocked_def Let_def)
  then have "deleteEntityPastRetention now (en_id e) db = delete_entity now (en_id e) db"
    by (simp add: deleteEntityPastRetention_def find Let_def split: option.splits)
  moreover have "list_all (\<lambda>x. guard_retention_floor now x db) (filter (\<lambda>x. en_id x = en_id e) (entities db))"
    using days same by (auto simp: list_all_iff guard_retention_floor_def)
  moreover have "filter (\<lambda>x. en_id x \<noteq> en_id e) (entities db) = filter (\<lambda>x. x \<noteq> e) (entities db)"
    using same by (auto intro: filter_cong)
  ultimately show ?thesis by (simp add: delete_entity_def)
qed

definition deletion :: "entity_row \<Rightarrow> RetentionDeleteResult" where
  "deletion e = \<lparr>dr_entityId = en_id e, dr_entityType = en_type e, dr_tenantId = en_tenant_id e,
     dr_retentionClass = en_retention_class e, dr_error = None\<rparr>"

lemma eligible_entities: "eligible now (db\<lparr>entities := t\<rparr>) e = eligible now db e"
  using floor_days_cong [of "db\<lparr>entities := t\<rparr>" db e] by (cases "en_tenant_id e") (simp_all add: eligible_def)

lemma scan_eligible:
  assumes "ret_wf db" and "distinct es" and "set es \<subseteq> set (entities db)" and "\<forall>e \<in> set es. eligible now db e"
  shows "scan_rows now es db = (map deletion es, db\<lparr>entities := filter (\<lambda>x. x \<notin> set es) (entities db)\<rparr>)"
  using assms
proof (induction es arbitrary: db)
  case (Cons e es)
  let ?db = "db\<lparr>entities := filter (\<lambda>x. x \<noteq> e) (entities db)\<rparr>"
  have del: "deleteEntityPastRetention now (en_id e) db = (Inr (), ?db)"
    using Cons.prems by (intro delete_eligible) auto
  have "ret_wf ?db" using Cons.prems(1) by (simp add: ret_wf_def distinct_map_filter)
  then have "scan_rows now es ?db = (map deletion es, ?db\<lparr>entities := filter (\<lambda>x. x \<notin> set es) (entities ?db)\<rparr>)"
    using Cons.prems by (intro Cons.IH) (auto simp: eligible_entities)
  then show ?case by (simp add: del deletion_def)
qed simp

text \<open>The nightly scan deletes exactly the eligible records: of the classified records past their floor,
  without a hold of their own and without a tenant hold in force, the \<^verbatim>\<open>batchSize\<close> oldest are deleted, each is
  reported deleted, nothing is skipped, and no other table or record changes.\<close>

theorem scheduler_exact:
  assumes "ret_wf db"
  shows "runRetentionScheduler now batchSize db =
    (\<lparr>ss_deletedCount = length (eligibleRows now batchSize db), ss_skippedCount = 0,
      ss_results = map deletion (eligibleRows now batchSize db)\<rparr>,
     db\<lparr>entities := filter (\<lambda>e. e \<notin> set (eligibleRows now batchSize db)) (entities db)\<rparr>)"
proof -
  let ?es = "eligibleRows now batchSize db"
  have "distinct (entities db)" using assms by (auto simp: ret_wf_def distinct_map)
  then have dis: "distinct ?es" by (simp add: eligibleRows_def)
  have sub: "set ?es \<subseteq> {e \<in> set (entities db). eligible now db e}"
    unfolding eligibleRows_def using set_take_subset by fastforce
  have "scan_rows now ?es db = (map deletion ?es, db\<lparr>entities := filter (\<lambda>x. x \<notin> set ?es) (entities db)\<rparr>)"
    using sub by (intro scan_eligible [OF assms dis]) auto
  then show ?thesis
    by (simp add: runRetentionScheduler_def deletion_def comp_def filter_map)
qed

section \<open>The life of a hold\<close>

definition pending_of :: "string \<Rightarrow> retention_db \<Rightarrow> LegalHoldRemovalRequest list" where
  "pending_of k db = filter (\<lambda>r. rr_hold_id r = k \<and> rr_status r = Q_pending) (removals db)"

definition hold_ok :: "retention_db \<Rightarrow> LegalHold \<Rightarrow> bool" where
  "hold_ok db h \<longleftrightarrow> (lh_status h = H_active \<longrightarrow> pending_of (lh_id h) db = [])
     \<and> (lh_status h = H_pending_removal \<longrightarrow> length (pending_of (lh_id h) db) = 1)
     \<and> (lh_status h = H_removed \<longrightarrow> pending_of (lh_id h) db = [] \<and> two_officers (lh_id h) db)"

definition holds_ok :: "retention_db \<Rightarrow> bool" where
  "holds_ok db \<longleftrightarrow> ret_wf db \<and> distinct (map lh_id (holds db))
     \<and> rr_hold_id ` set (removals db) \<subseteq> lh_id ` set (holds db) \<and> (\<forall>h \<in> set (holds db). hold_ok db h)"

fun ret_fresh :: "ret_op \<Rightarrow> bool" where
  "ret_fresh (Place_hold uuid now input) = fresh uuid"
| "ret_fresh (Request_removal uuid now input) = fresh uuid"
| "ret_fresh _ = True"

lemma fresh_ids_notin: "fresh uuid \<Longrightarrow> uuid (map f xs) \<notin> f ` set xs"
  by (metis fresh_def set_map)

lemma hold_ok_cong: "removals db' = removals db \<Longrightarrow> hold_ok db' h = hold_ok db h"
  by (simp add: hold_ok_def pending_of_def two_officers_def)

lemma holds_ok_frame: "same_holds db db' \<Longrightarrow> ret_wf db' \<Longrightarrow> holds_ok db \<Longrightarrow> holds_ok db'"
  using hold_ok_cong [of db' db] by (simp add: holds_ok_def same_holds_def)

lemma holds_ok_place:
  assumes "holds_ok db" and "fresh uuid"
  shows "holds_ok (snd (placeLegalHold uuid now input db))"
proof -
  have wf: "ret_wf (snd (placeLegalHold uuid now input db))" using assms(1) ret_wf_holds(1) by (simp add: holds_ok_def)
  have new: "uuid (map lh_id (holds db)) \<notin> lh_id ` set (holds db)" using assms(2) by (rule fresh_ids_notin)
  have fk: "rr_hold_id ` set (removals db) \<subseteq> lh_id ` set (holds db)" using assms(1) by (simp add: holds_ok_def)
  have "rr_hold_id r \<noteq> uuid (map lh_id (holds db))" if "r \<in> set (removals db)" for r
    using new subsetD [OF fk imageI [OF that]] by metis
  then have "pending_of (uuid (map lh_id (holds db))) db = []" by (simp add: pending_of_def filter_empty_conv)
  then show ?thesis
    using assms(1) wf new fk
    by (auto simp: holds_ok_def placeLegalHold_def Let_def insert_row_def hold_ok_def pending_of_def two_officers_def
        split: if_splits)
qed

lemma two_officers_mono: "two_officers k db \<Longrightarrow> set (removals db) \<subseteq> set (removals db') \<Longrightarrow> two_officers k db'"
  by (auto simp: two_officers_def)

lemma filter_update_where_other:
  "(\<And>x. x \<in> set t \<Longrightarrow> p x \<Longrightarrow> \<not> P x \<and> \<not> P (f x)) \<Longrightarrow> filter P (update_where p f t) = filter P t"
  by (induction t) (auto simp: update_where_def)

lemma holds_ok_hold: "holds_ok db \<Longrightarrow> h \<in> set (holds db) \<Longrightarrow> hold_ok db h"
  by (simp add: holds_ok_def)

text \<open>A request that passes the checks finds no pending one, so its INSERT succeeds.\<close>

lemma request_accepted:
  assumes "holds_ok db" and "fresh uuid" and "snd (requestHoldRemoval uuid now qi db) \<noteq> db"
  shows "\<exists>r. removals (snd (requestHoldRemoval uuid now qi db)) = removals db @ [r]
    \<and> rr_hold_id r = rq_holdId qi \<and> rr_status r = Q_pending \<and> rq_holdId qi \<in> lh_id ` set (holds db)
    \<and> pending_of (rq_holdId qi) db = []
    \<and> holds (snd (requestHoldRemoval uuid now qi db))
      = update_where (\<lambda>h. lh_id h = rq_holdId qi) (set_hold_status H_pending_removal) (holds db)"
proof -
  obtain h where h: "officer (rq_actorRole qi) (rq_isSuperuser qi)"
    "find_row lh_id (rq_holdId qi) (holds db) = Some h" "lh_status h = H_active"
    using assms(3) by (auto simp: requestHoldRemoval_def split: option.splits if_splits)
  have mem: "h \<in> set (holds db)" "lh_id h = rq_holdId qi" using find_row_SomeD [OF h(2)] by auto
  then have none: "pending_of (rq_holdId qi) db = []"
    using holds_ok_hold [OF assms(1) mem(1)] h(3) by (simp add: hold_ok_def)
  let ?r = "\<lparr>rr_id = uuid (map rr_id (removals db)), rr_hold_id = rq_holdId qi,
                      rr_requested_by = rq_requestedBy qi, rr_co_approved_by = None, rr_status = Q_pending,
                      rr_created_at = now, rr_resolved_at = None\<rparr>"
  have "removal_key ?r \<notin> removal_key ` set (removals db)"
    using none by (auto simp: removal_key_def pending_of_def filter_empty_conv)
  then have "insert_removal ?r (removals db) = Inr (removals db @ [?r])"
    using fresh_ids_notin [OF assms(2), of rr_id "removals db"] by (simp add: insert_removal_def insert_row_def)
  then show ?thesis
    using h mem none by (intro exI [of _ ?r]) (auto simp: requestHoldRemoval_def Let_def intro: rev_image_eqI)
qed

lemma holds_ok_request:
  assumes "holds_ok db" and "fresh uuid"
  shows "holds_ok (snd (requestHoldRemoval uuid now qi db))"
proof (cases "snd (requestHoldRemoval uuid now qi db) = db")
  case False
  let ?db = "snd (requestHoldRemoval uuid now qi db)" and ?k = "rq_holdId qi"
  obtain r where r: "removals ?db = removals db @ [r]" "rr_hold_id r = ?k" "rr_status r = Q_pending"
    "?k \<in> lh_id ` set (holds db)" "pending_of ?k db = []"
    and h: "holds ?db = update_where (\<lambda>h. lh_id h = ?k) (set_hold_status H_pending_removal) (holds db)"
    using request_accepted [OF assms False] by blast
  have ids: "map lh_id (holds ?db) = map lh_id (holds db)"
    by (simp add: h set_hold_status_def map_update_where_same)
  have pend: "pending_of j ?db = (if j = ?k then [r] else pending_of j db)" for j
    using r(1-3,5) by (simp add: pending_of_def)
  have two: "two_officers j db \<Longrightarrow> two_officers j ?db" for j
    using two_officers_mono [of j db ?db] by (auto simp: r(1))
  have "hold_ok ?db x" if "x \<in> set (holds ?db)" for x
    using that unfolding h
  proof (cases rule: in_update_whereE)
    case (changed y)
    then show ?thesis by (simp add: hold_ok_def pend set_hold_status_def)
  next
    case same
    then show ?thesis using holds_ok_hold [OF assms(1)] two by (auto simp: hold_ok_def pend)
  qed
  moreover have "ret_wf ?db" using assms(1) ret_wf_holds(2) by (simp add: holds_ok_def)
  moreover have "rr_hold_id ` set (removals ?db) \<subseteq> lh_id ` set (holds ?db)"
    using assms(1) r(1,2,4) ids by (metis holds_ok_def image_insert insert_subset list.set(2) rotate1.simps(2) set_map set_rotate1)
  ultimately show ?thesis using assms(1) ids by (simp add: holds_ok_def)
qed (use assms in simp)

lemma holds_ok_resolve:
  assumes ok: "holds_ok db" and r: "pending_removal j db = Some r" and s: "s \<noteq> Q_pending"
    and t: "removals db' = update_where (\<lambda>q. rr_id q = rr_id r) (resolve_removal now s a) (removals db)"
    and h: "holds db' = update_where (\<lambda>h. lh_id h = rr_hold_id r) f (holds db)"
    and f: "\<And>h. lh_id (f h) = lh_id h"
      "\<And>h. lh_status (f h) = H_active \<or> lh_status (f h) = H_removed \<and> two_officers (rr_hold_id r) db'"
    and wf: "ret_wf db'"
  shows "holds_ok db'"
proof -
  let ?k = "rr_hold_id r"
  have mem: "r \<in> set (removals db)" "rr_status r = Q_pending" using pending_removal_SomeD [OF r] by auto
  have uniq: "q \<in> set (removals db) \<Longrightarrow> rr_id q = rr_id r \<Longrightarrow> q = r" for q
    using ok mem(1) by (auto simp: holds_ok_def ret_wf_def distinct_map inj_on_def)
  obtain x where x: "x \<in> set (holds db)" "lh_id x = ?k"
    using ok imageI [OF mem(1), of rr_hold_id] by (auto simp: holds_ok_def)
  have inp: "r \<in> set (pending_of ?k db)" using mem by (simp add: pending_of_def)
  then have "length (pending_of ?k db) = 1"
    using holds_ok_hold [OF ok x(1)] x(2) by (cases "lh_status x") (auto simp: hold_ok_def)
  with inp have only: "pending_of ?k db = [r]" by (cases "pending_of ?k db") auto
  have "pending_of ?k db' = []"
  proof -
    have "rr_id q = rr_id r" if "q \<in> set (removals db)" "rr_hold_id q = ?k" "rr_status q = Q_pending" for q
    proof -
      have "q \<in> set (pending_of ?k db)" using that by (simp add: pending_of_def)
      then show ?thesis by (simp add: only)
    qed
    then show ?thesis
      using s by (auto simp: pending_of_def t filter_empty_conv set_update_where resolve_removal_def)
  qed
  moreover have "pending_of i db' = pending_of i db" if "i \<noteq> ?k" for i
    unfolding pending_of_def t using that uniq
    by (intro filter_update_where_other) (auto simp: resolve_removal_def)
  moreover have "two_officers i db'" if "two_officers i db" for i
    using two_officers_update [OF _ that r t] ok by (simp add: holds_ok_def)
  ultimately have "hold_ok db' y" if "y \<in> set (holds db')" for y
    using that unfolding h
  proof (elim in_update_whereE)
    fix z
    assume "z \<in> set (holds db)" "lh_id z = ?k" "y = f z" "pending_of ?k db' = []"
    then show ?thesis using f(1,2) [of z] by (auto simp: hold_ok_def)
  qed (use holds_ok_hold [OF ok, of y] in \<open>simp add: hold_ok_def\<close>)
  moreover have "map lh_id (holds db') = map lh_id (holds db)" by (simp add: h f(1) map_update_where_same)
  moreover have "rr_hold_id ` set (removals db') = rr_hold_id ` set (removals db)"
    unfolding t by (rule image_update_where_same) (simp add: resolve_removal_def)
  ultimately show ?thesis using ok wf by (metis holds_ok_def set_map)
qed

lemma holds_ok_reject:
  assumes "holds_ok db"
  shows "holds_ok (snd (rejectHoldRemoval now si db))"
  using reject_cases [of now si db]
proof (elim disjE exE conjE)
  fix r
  assume "pending_removal (rs_removalRequestId si) db = Some r"
    "removals (snd (rejectHoldRemoval now si db))
      = update_where (\<lambda>q. rr_id q = rr_id r) (resolve_removal (js_date now) Q_rejected None) (removals db)"
    "holds (snd (rejectHoldRemoval now si db))
      = update_where (\<lambda>h. lh_id h = rr_hold_id r) (set_hold_status H_active) (holds db)"
  then show ?thesis
    using assms ret_wf_holds(4) [of db now si]
    by (intro holds_ok_resolve [OF assms, where r = r and s = Q_rejected and f = "set_hold_status H_active"])
      (auto simp: set_hold_status_def holds_ok_def)
qed (use assms in simp)

lemma holds_ok_approve:
  assumes "holds_ok db"
  shows "holds_ok (snd (approveHoldRemoval now si db))"
  using approve_cases [of now si db]
proof (elim disjE exE conjE)
  let ?db = "snd (approveHoldRemoval now si db)"
  fix r
  let ?r = "resolve_removal (js_date now) Q_approved (Some (rs_actor si)) r"
  assume r: "pending_removal (rs_removalRequestId si) db = Some r" "rr_requested_by r \<noteq> rs_actor si"
    and t: "removals ?db = update_where (\<lambda>q. rr_id q = rr_id r)
      (resolve_removal (js_date now) Q_approved (Some (rs_actor si))) (removals db)"
    and h: "holds ?db = update_where (\<lambda>h. lh_id h = rr_hold_id r) (lift_hold (js_date now)) (holds db)"
  have "?r \<in> set (removals ?db)"
    using pending_removal_SomeD [OF r(1)] by (auto simp: t set_update_where)
  moreover have "rr_hold_id ?r = rr_hold_id r \<and> rr_status ?r = Q_approved \<and> rr_co_approved_by ?r = Some (rs_actor si)
      \<and> rs_actor si \<noteq> rr_requested_by ?r"
    using r(2) by (simp add: resolve_removal_def)
  ultimately have "two_officers (rr_hold_id r) ?db" unfolding two_officers_def by blast
  then show ?thesis
    using assms ret_wf_holds(3) [of db now si] t h
    by (intro holds_ok_resolve [OF assms r(1), where s = Q_approved and f = "lift_hold (js_date now)"])
      (auto simp: lift_hold_def holds_ok_def)
qed (use assms in simp)

interpretation hold_life: invariant_system ret_step ret_fresh holds_ok
proof unfold_locales
  fix db op
  assume ok: "holds_ok db" and fr: "ret_fresh op"
  have wf: "ret_wf (ret_step op db)" using ok ret_wf_step by (simp add: holds_ok_def)
  show "holds_ok (ret_step op db)"
    using fr ok wf
    by (cases op) (simp_all add: holds_ok_place holds_ok_request holds_ok_approve holds_ok_reject
        entity_ops_frame [THEN holds_ok_frame] delete_past_frame [THEN holds_ok_frame])
qed

definition empty_retention :: "RetentionPolicy list \<Rightarrow> string list \<Rightarrow> retention_db" where
  "empty_retention ps types = \<lparr>entity_types = types, entities = [], holds = [], removals = [], policies = ps,
     overrides = [], tenant_defaults = [], assignments = [], tenant_policies = []\<rparr>"

lemma holds_ok_empty: "holds_ok (empty_retention ps types)"
  by (simp add: holds_ok_def empty_retention_def ret_wf_def)

text \<open>C38: Every hold follows its life cycle: after any sequence of operations from empty tables, an active
  hold has no pending removal request, a hold in \<^verbatim>\<open>pending_removal\<close> has exactly one, and a removed hold has none
  and was requested and approved by two different people.\<close>

theorem hold_lifecycle:
  assumes "list_all ret_fresh ops" and "db = fold ret_step ops (empty_retention ps types)" and "h \<in> set (holds db)"
  shows "case lh_status h of
      H_active \<Rightarrow> pending_of (lh_id h) db = []
    | H_pending_removal \<Rightarrow> length (pending_of (lh_id h) db) = 1
    | H_removed \<Rightarrow> pending_of (lh_id h) db = []
        \<and> (\<exists>r \<in> set (removals db). rr_hold_id r = lh_id h \<and> rr_status r = Q_approved
             \<and> (\<exists>b. rr_co_approved_by r = Some b \<and> b \<noteq> rr_requested_by r))"
proof -
  have "holds_ok db" unfolding assms(2) using holds_ok_empty assms(1) by (rule hold_life.run_inv)
  then have "hold_ok db h" using assms(3) by (rule holds_ok_hold)
  then show ?thesis by (cases "lh_status h") (simp_all add: hold_ok_def two_officers_def)
qed

text \<open>A removal request that repeats a rejected one cannot be rejected: with an earlier rejected request
  by the same person on the same hold, \<^verbatim>\<open>rejectHoldRemoval\<close> fails for every officer on the uniqueness of
  \<^verbatim>\<open>(hold_id, status, requested_by)\<close> and changes nothing, so the hold stays in \<^verbatim>\<open>pending_removal\<close>.\<close>

theorem second_rejection_fails:
  assumes "pending_removal (rs_removalRequestId input) db = Some r" and "officer (rs_actorRole input) (rs_isSuperuser input)"
    and "q \<in> set (removals db)" and "rr_id q \<noteq> rr_id r" and "rr_status q = Q_rejected"
    and "rr_hold_id q = rr_hold_id r" and "rr_requested_by q = rr_requested_by r"
  shows "rejectHoldRemoval now input db = (Inl (RetentionDb (UniqueViolation (rr_requested_by r))), db)"
proof -
  have "list_ex (\<lambda>x. rr_id x \<noteq> rr_id r \<and> removal_key x = (rr_hold_id r, Q_rejected, rr_requested_by r)) (removals db)"
    using assms(3-7) by (auto simp: list_ex_iff removal_key_def)
  then show ?thesis using assms(1,2) by (simp add: rejectHoldRemoval_def update_removal_def)
qed

text \<open>Entity-type overrides change no deletion: setting an override, whatever its floor, leaves the result
  of \<^verbatim>\<open>isWithinRetentionFloor\<close> and the verdict of the deletion trigger as they were for every record.\<close>

theorem override_ignored:
  "isWithinRetentionFloor now k (snd (setEntityTypeRetentionOverride policy type days descr db)) = isWithinRetentionFloor now k db
   \<and> guard_retention_floor now e (snd (setEntityTypeRetentionOverride policy type days descr db)) = guard_retention_floor now e db"
proof -
  let ?db = "snd (setEntityTypeRetentionOverride policy type days descr db)"
  have holds: "same_holds db ?db" by (rule entity_ops_frame(5))
  have ents: "entities ?db = entities db" "policies ?db = policies db"
    using hold_ops_frame(6) [of db policy type days descr] by (simp_all add: same_entities_def)
  have "held x ?db = held x db" "floor_days x ?db = floor_days x db" for x
    using held_cong [OF holds] floor_days_cong [OF ents(2)] by auto
  then show ?thesis
    by (cases "find_row en_id k (entities db)") (simp_all add: isWithinRetentionFloor_def guard_retention_floor_def ents(1))
qed

text \<open>The application's WORM check agrees with the trigger: for a record with a tenant and a class, on
  millisecond clocks and with no global \<^verbatim>\<open>worm_mode\<close> row, \<^verbatim>\<open>checkWormUpdateGuard\<close> reports blocked exactly when
  \<^verbatim>\<open>guard_worm_update\<close> refuses the update.\<close>

theorem worm_check_agrees:
  assumes "find_row en_id k (entities db) = Some e" and "en_tenant_id e = Some t" and "t \<noteq> []"
    and "en_retention_class e = Some c" and "c \<noteq> []"
    and "find (\<lambda>p. tk_key p = ''worm_mode'' \<and> tk_tenant_id p = None) (tenant_policies db) = None"
    and "js_date now = now" and "js_date (en_created_at e) = en_created_at e"
  shows "fst (checkWormUpdateGuard now k db) \<longleftrightarrow> \<not> guard_worm_update now e db"
  using assms
  by (auto simp: checkWormUpdateGuard_def guard_worm_update_def truthy_def isWormEnabled_def getTenantPolicy_def
      POLICY_WORM_MODE_def Let_def split: option.splits)

section \<open>Examples\<close>

definition demo_policy :: RetentionPolicy where
  "demo_policy = \<lparr>rp_name = ''mifid2-5yr'', rp_description = [], rp_retentionFloorDays = 1826\<rparr>"

definition demo_record :: entity_row where
  "demo_record = \<lparr>en_id = ''e'', en_type = ''email'', en_properties = ''{}'', en_tenant_id = Some ''acme'',
     en_retention_class = Some ''mifid2-5yr'', en_legal_hold = Some False, en_created_at = 0\<rparr>"

definition demo_hold :: LegalHold where
  "demo_hold = \<lparr>lh_id = ''h'', lh_tenant_id = ''acme'', lh_placed_by = ''ann'', lh_reason = [], lh_status = H_active,
     lh_placed_at = 0, lh_removed_at = None\<rparr>"

definition demo_retention :: "LegalHold list \<Rightarrow> LegalHoldRemovalRequest list \<Rightarrow> retention_db" where
  "demo_retention hs rs = (empty_retention [demo_policy] [''email''])\<lparr>entities := [demo_record], holds := hs, removals := rs\<rparr>"

definition demo_removal :: "string \<Rightarrow> RemovalRequestStatus \<Rightarrow> LegalHoldRemovalRequest" where
  "demo_removal k s = \<lparr>rr_id = k, rr_hold_id = ''h'', rr_requested_by = ''bob'', rr_co_approved_by = None, rr_status = s,
     rr_created_at = 0, rr_resolved_at = None\<rparr>"

definition demo_officer :: "string \<Rightarrow> ResolveHoldRemovalInput" where
  "demo_officer k = \<lparr>rs_removalRequestId = k, rs_actor = ''ann'', rs_actorRole = Some ''compliance_officer'',
     rs_isSuperuser = None\<rparr>"

lemmas retention_demo = demo_retention_def empty_retention_def demo_record_def demo_policy_def demo_hold_def
  demo_removal_def demo_officer_def

theorem held_until_two_officers_witness:
  "demo_record \<in> set (entities (fold ret_step [Scan (2000 * day) 10] (demo_retention [demo_hold] [])))
    \<or> (\<exists>r \<in> set (removals (fold ret_step [Scan (2000 * day) 10] (demo_retention [demo_hold] []))).
         rr_hold_id r = ''h'' \<and> rr_status r = Q_approved \<and> (\<exists>b. rr_co_approved_by r = Some b \<and> b \<noteq> rr_requested_by r))"
proof -
  have "lh_id demo_hold = ''h''" by (simp add: demo_hold_def)
  moreover have "ret_wf (demo_retention [demo_hold] [])" "demo_hold \<in> set (holds (demo_retention [demo_hold] []))"
    "in_force demo_hold" "lh_tenant_id demo_hold \<noteq> []" "demo_record \<in> set (entities (demo_retention [demo_hold] []))"
    "en_tenant_id demo_record = Some (lh_tenant_id demo_hold)"
    by (simp_all add: retention_demo ret_wf_def in_force_def)
  ultimately show ?thesis
    using held_until_two_officers [of "demo_retention [demo_hold] []" demo_hold demo_record "[Scan (2000 * day) 10]"] by metis
qed

theorem retained_until_floor_witness:
  "demo_record \<in> set (entities (fold ret_step [Delete_past day ''e'', Scan (1825 * day) 10] (demo_retention [] [])))"
proof -
  have "floor_days demo_record (demo_retention [] []) = Some 1826" by (simp add: retention_demo floor_days_def)
  moreover have "ret_wf (demo_retention [] [])" "demo_record \<in> set (entities (demo_retention [] []))"
    by (simp_all add: retention_demo ret_wf_def)
  moreover have "en_created_at demo_record = 0" by (simp add: demo_record_def)
  then have "\<forall>op \<in> set [Delete_past day ''e'', Scan (1825 * day) 10]. \<forall>now. ret_now op = Some now
      \<longrightarrow> now < en_created_at demo_record + 1826 * day"
    by (simp add: day_def second_def)
  ultimately show ?thesis using retained_until_floor by blast
qed

theorem scheduler_exact_witness:
  "runRetentionScheduler (1826 * day) 10 (demo_retention [] [])
    = (\<lparr>ss_deletedCount = 1, ss_skippedCount = 0, ss_results = [deletion demo_record]\<rparr>,
       (demo_retention [] [])\<lparr>entities := []\<rparr>)"
proof -
  have "ret_wf (demo_retention [] [])" by (simp add: retention_demo ret_wf_def)
  moreover have "eligibleRows (1826 * day) 10 (demo_retention [] []) = [demo_record]"
    by (simp add: retention_demo eligibleRows_def eligible_def floor_days_def)
  ultimately show ?thesis
    using scheduler_exact [of "demo_retention [] []" "1826 * day" 10] by (simp add: demo_retention_def)
qed

theorem hold_lifecycle_witness:
  "let db = fold ret_step [Place_hold long_uuid 0 \<lparr>pl_tenantId = ''acme'', pl_placedBy = ''ann'',
        pl_actorRole = Some ''compliance_officer'', pl_reason = None, pl_isSuperuser = None\<rparr>] (empty_retention [] [])
   in \<exists>h. holds db = [h] \<and> pending_of (lh_id h) db = []"
proof -
  let ?ops = "[Place_hold long_uuid 0 \<lparr>pl_tenantId = ''acme'', pl_placedBy = ''ann'',
        pl_actorRole = Some ''compliance_officer'', pl_reason = None, pl_isSuperuser = None\<rparr>]"
  define db where "db = fold ret_step ?ops (empty_retention [] [])"
  have fr: "list_all ret_fresh ?ops" by (simp add: fresh_long_uuid)
  obtain h where h: "holds db = [h]" "lh_status h = H_active"
    by (simp add: db_def placeLegalHold_def officer_def insert_row_def empty_retention_def Let_def)
  then have "pending_of (lh_id h) db = []"
    using hold_lifecycle [OF fr db_def, of h] by simp
  with h(1) show ?thesis unfolding db_def Let_def by (intro exI [of _ h] conjI)
qed

theorem second_rejection_fails_witness:
  "rejectHoldRemoval 5 (demo_officer ''r2'')
      (demo_retention [demo_hold] [demo_removal ''r1'' Q_rejected, demo_removal ''r2'' Q_pending])
    = (Inl (RetentionDb (UniqueViolation ''bob'')),
       demo_retention [demo_hold] [demo_removal ''r1'' Q_rejected, demo_removal ''r2'' Q_pending])"
proof -
  have "rr_requested_by (demo_removal ''r2'' Q_pending) = ''bob''" by (simp add: demo_removal_def)
  then show ?thesis
    using second_rejection_fails [of "demo_officer ''r2''"
        "demo_retention [demo_hold] [demo_removal ''r1'' Q_rejected, demo_removal ''r2'' Q_pending]"
        "demo_removal ''r2'' Q_pending" "demo_removal ''r1'' Q_rejected" 5]
    by (simp add: retention_demo pending_removal_def officer_def)
qed

theorem worm_check_agrees_witness:
  "fst (checkWormUpdateGuard day ''e'' (demo_retention [] [])) \<longleftrightarrow> \<not> guard_worm_update day demo_record (demo_retention [] [])"
  by (rule worm_check_agrees [where t = "''acme''" and c = "''mifid2-5yr''"])
    (simp_all add: retention_demo js_date_def day_def second_def)

end
