(* ===== verification/Cron.thy ===== *)
theory Cron
  imports Task_Queue Payment_Plans Retention
begin

text \<open>
  The in-process scheduler, \<^verbatim>\<open>src/apps/server/src/cron/scheduler.ts\<close>, and the jobs under
  \<^verbatim>\<open>src/apps/server/src/cron/jobs/\<close> that tie the components together: the dunning engine, the payment-plan
  monitor, the retention scan, the stale-claim sweep and the dead-letter monitor. Each runs an operation of its
  component and then enqueues one report task.

  The timer library (croner) is outside the sources: an instance is a number, \<open>valid\<close> says which expressions its
  constructor accepts, and what fires when is not modelled. A job gets the text of the date or of the clock its
  idempotency key is built from as an argument, and \<open>render\<close> is the encoding of the report as JSON.
\<close>

section \<open>The scheduler\<close>

record 'h CronJobDefinition =
  cd_name :: string
  cd_expression :: string
  cd_handler :: 'h

text \<open>\<open>cs_jobs\<close> is the \<^verbatim>\<open>Map\<close> from names to timers; \<open>cs_running\<close> are the timers that still fire, each with the
  definition it runs.\<close>

record 'h CronScheduler =
  cs_jobs :: "(string \<times> nat) list"
  cs_definitions :: "'h CronJobDefinition list"
  cs_started :: bool
  cs_running :: "(nat \<times> 'h CronJobDefinition) list"
  cs_next :: nat

datatype cron_error = AlreadyRegistered string | InvalidExpression string

definition new_scheduler :: "'h CronScheduler" where
  "new_scheduler = \<lparr>cs_jobs = [], cs_definitions = [], cs_started = False, cs_running = [], cs_next = 0\<rparr>"

definition hasJob :: "string \<Rightarrow> 'h CronScheduler \<Rightarrow> bool" where
  "hasJob name s \<longleftrightarrow> name \<in> fst ` set (cs_jobs s)"

definition getJobNames :: "'h CronScheduler \<Rightarrow> string list" where
  "getJobNames s = map fst (cs_jobs s)"

definition register :: "string \<Rightarrow> string \<Rightarrow> 'h \<Rightarrow> 'h CronScheduler \<Rightarrow> cron_error + 'h CronScheduler" where
  "register name expression handler s =
     (if hasJob name s then Inl (AlreadyRegistered name)
      else Inr (s\<lparr>cs_definitions := cs_definitions s @
                   [\<lparr>cd_name = name, cd_expression = expression, cd_handler = handler\<rparr>]\<rparr>))"

definition map_set :: "'k \<Rightarrow> 'v \<Rightarrow> ('k \<times> 'v) list \<Rightarrow> ('k \<times> 'v) list" where
  "map_set k v m = (if k \<in> fst ` set m then map (\<lambda>p. if fst p = k then (k, v) else p) m else m @ [(k, v)])"

definition start_job :: "(string \<Rightarrow> bool) \<Rightarrow> 'h CronJobDefinition \<Rightarrow> 'h CronScheduler \<Rightarrow> cron_error + 'h CronScheduler" where
  "start_job valid d s =
     (if \<not> valid (cd_expression d) then Inl (InvalidExpression (cd_expression d))
      else Inr (s\<lparr>cs_jobs := map_set (cd_name d) (cs_next s) (cs_jobs s),
                  cs_running := cs_running s @ [(cs_next s, d)], cs_next := Suc (cs_next s)\<rparr>))"

text \<open>A constructor that throws leaves the jobs before it started.\<close>

fun start_loop :: "(string \<Rightarrow> bool) \<Rightarrow> 'h CronJobDefinition list \<Rightarrow> 'h CronScheduler
    \<Rightarrow> cron_error option \<times> 'h CronScheduler" where
  "start_loop valid [] s = (None, s)"
| "start_loop valid (d # ds) s =
     (case start_job valid d s of Inl e \<Rightarrow> (Some e, s) | Inr s' \<Rightarrow> start_loop valid ds s')"

definition start :: "(string \<Rightarrow> bool) \<Rightarrow> 'h CronScheduler \<Rightarrow> cron_error option \<times> 'h CronScheduler" where
  "start valid s =
     (if cs_started s then (None, s) else start_loop valid (cs_definitions s) (s\<lparr>cs_started := True\<rparr>))"

definition stop :: "'h CronScheduler \<Rightarrow> 'h CronScheduler" where
  "stop s = s\<lparr>cs_running := filter (\<lambda>(i, d). i \<notin> snd ` set (cs_jobs s)) (cs_running s),
     cs_jobs := [], cs_definitions := [], cs_started := False\<rparr>"

definition register_all :: "'h CronJobDefinition list \<Rightarrow> 'h CronScheduler \<Rightarrow> cron_error + 'h CronScheduler" where
  "register_all = fold_res (\<lambda>d. register (cd_name d) (cd_expression d) (cd_handler d))"

section \<open>Report tasks\<close>

record CronTaskOptions =
  ct_job_type :: string
  ct_payload :: "json option"
  ct_idempotency_key_suffix :: "string option"
  ct_priority :: "int option"
  ct_max_attempts :: "int option"

definition enqueueCronTask ::
  "string \<Rightarrow> string \<Rightarrow> timestamp \<Rightarrow> string \<Rightarrow> CronTaskOptions \<Rightarrow> task_queue \<Rightarrow> db_error + task_queue" where
  "enqueueCronTask jobName uuid now clock opts q =
     (let suffix = (case ct_idempotency_key_suffix opts of None \<Rightarrow> clock | Some s \<Rightarrow> s)
      in map_sum id snd (enqueueTask uuid now
           \<lparr>eo_idempotency_key = ''cron:'' @ jobName @ '':'' @ suffix, eo_agent_type = ''cron'',
            eo_job_type = ct_job_type opts,
            eo_payload = Some (case ct_payload opts of None \<Rightarrow> ''{}'' | Some p \<Rightarrow> p),
            eo_correlation_id = None, eo_created_by = ''cron:'' @ jobName,
            eo_priority = ct_priority opts, eo_max_attempts = ct_max_attempts opts\<rparr> q))"

datatype job_report =
    Dunning_report string nat nat nat nat
  | Plan_report string "string list" "string list"
  | Retention_report string nat nat
  | Sweep_report nat
  | Dlq_report nat nat "DlqDepthRow list"

section \<open>Jobs\<close>

record cron_state =
  st_ledger :: ledger
  st_retention :: retention_db
  st_queue :: task_queue

type_synonym job = "cron_state \<Rightarrow> bool \<times> cron_state" \<comment> \<open>\<open>False\<close>: the handler threw\<close>

definition report :: "string \<Rightarrow> string \<Rightarrow> timestamp \<Rightarrow> string \<Rightarrow> CronTaskOptions \<Rightarrow> job" where
  "report jobName uuid now clock opts s =
     (case enqueueCronTask jobName uuid now clock opts (st_queue s) of
        Inl e \<Rightarrow> (False, s)
      | Inr q \<Rightarrow> (True, s\<lparr>st_queue := q\<rparr>))"

definition daily :: "string \<Rightarrow> json \<Rightarrow> string \<Rightarrow> CronTaskOptions" where
  "daily jobType pay suffix = \<lparr>ct_job_type = jobType, ct_payload = Some pay,
     ct_idempotency_key_suffix = Some suffix, ct_priority = Some 5, ct_max_attempts = Some 1\<rparr>"

text \<open>The engine throws only on an identifier drawn twice; with fresh ones it always returns (\<open>job_effect\<close>).\<close>

definition dunning_job ::
  "(job_report \<Rightarrow> json) \<Rightarrow> (string list \<Rightarrow> string) \<Rightarrow> string \<Rightarrow> timestamp \<Rightarrow> string \<Rightarrow> job" where
  "dunning_job render uuid taskId now runDate s =
     (let invoices = listOverdueInvoicesForDunning now (st_ledger s)
      in case dunningEngineJob uuid now (st_ledger s) of
           Inl (e, db) \<Rightarrow> (False, s\<lparr>st_ledger := db\<rparr>)
         | Inr (st, db) \<Rightarrow>
             report ''dunning-engine'' taskId now runDate
               (daily ''dunning_engine_run'' (render (Dunning_report runDate (length invoices)
                  (ds_invoices_skipped st) (ds_actions_created st) (ds_cases_opened st)))
                 (''dunning-engine-'' @ runDate))
               (s\<lparr>st_ledger := db\<rparr>))"

definition payment_plan_job :: "(job_report \<Rightarrow> json) \<Rightarrow> string \<Rightarrow> timestamp \<Rightarrow> string \<Rightarrow> job" where
  "payment_plan_job render taskId now runDate s =
     (case reconcilePaymentPlanLifecycle now (st_ledger s) of
        (Inl e, db) \<Rightarrow> (False, s\<lparr>st_ledger := db\<rparr>)
      | (Inr result, db) \<Rightarrow>
          report ''payment-plan-monitor'' taskId now runDate
            (daily ''payment_plan_monitor_run'' (render (Plan_report runDate (pl_breached result) (pl_completed result)))
              (''payment-plan-monitor-'' @ runDate))
            (s\<lparr>st_ledger := db\<rparr>))"

definition retention_job :: "(job_report \<Rightarrow> json) \<Rightarrow> string \<Rightarrow> timestamp \<Rightarrow> string \<Rightarrow> job" where
  "retention_job render taskId now runDate s =
     (let (summary, db) = runRetentionScheduler now 1000 (st_retention s)
      in report ''retention-scheduler'' taskId now runDate
           (daily ''retention_scheduler_run''
              (render (Retention_report runDate (ss_deletedCount summary) (ss_skippedCount summary)))
              (''retention-scan-'' @ runDate))
           (s\<lparr>st_retention := db\<rparr>))"

text \<open>\<open>audited\<close> says whether \<^verbatim>\<open>auditRecoveredRows\<close> returns.\<close>

definition stale_claim_job :: "(job_report \<Rightarrow> json) \<Rightarrow> bool \<Rightarrow> string \<Rightarrow> timestamp \<Rightarrow> string \<Rightarrow> job" where
  "stale_claim_job render audited taskId now millis s =
     (let (rows, q) = recoverStaleClaims now (st_queue s)
      in if rows \<noteq> [] \<and> \<not> audited then (False, s\<lparr>st_queue := q\<rparr>)
         else report ''stale-claim-recovery'' taskId now millis
           \<lparr>ct_job_type = ''stale-claim-recovery'', ct_payload = Some (render (Sweep_report (length rows))),
            ct_idempotency_key_suffix = Some (''sweep-'' @ millis), ct_priority = None, ct_max_attempts = None\<rparr>
           (s\<lparr>st_queue := q\<rparr>))"

definition dlq_job :: "(job_report \<Rightarrow> json) \<Rightarrow> string \<Rightarrow> timestamp \<Rightarrow> string \<Rightarrow> nat \<Rightarrow> job" where
  "dlq_job render taskId now millis threshold s =
     (let (breached, depth) = checkDlqAlertThreshold (Some threshold) (st_queue s)
      in report ''dlq-monitor'' taskId now millis
           \<lparr>ct_job_type = ''dlq-monitor'', ct_payload = Some (render (Dlq_report threshold (length breached) depth)),
            ct_idempotency_key_suffix = Some (''dlq-'' @ millis), ct_priority = None, ct_max_attempts = None\<rparr> s)"

section \<open>Starting and stopping\<close>

lemma register_all_defs:
  "cs_jobs s = [] \<Longrightarrow> register_all ds s = Inr (s\<lparr>cs_definitions := cs_definitions s @ ds\<rparr>)"
  unfolding register_all_def by (induction ds arbitrary: s) (simp_all add: register_def hasJob_def)

fun numbered :: "nat \<Rightarrow> 'h CronJobDefinition list \<Rightarrow> (nat \<times> 'h CronJobDefinition) list" where
  "numbered n [] = []"
| "numbered n (d # ds) = (n, d) # numbered (Suc n) ds"

lemma start_loop_ok:
  assumes "list_all (\<lambda>d. valid (cd_expression d)) ds" and "distinct (map cd_name ds)"
    and "fst ` set (cs_jobs s) \<inter> cd_name ` set ds = {}"
  shows "start_loop valid ds s = (None, s\<lparr>cs_jobs := cs_jobs s @ map (\<lambda>(i, d). (cd_name d, i)) (numbered (cs_next s) ds),
     cs_running := cs_running s @ numbered (cs_next s) ds, cs_next := cs_next s + length ds\<rparr>)"
  using assms
proof (induction ds arbitrary: s)
  case (Cons d ds)
  let ?s = "s\<lparr>cs_jobs := cs_jobs s @ [(cd_name d, cs_next s)], cs_running := cs_running s @ [(cs_next s, d)],
     cs_next := Suc (cs_next s)\<rparr>"
  have "start_job valid d s = Inr ?s"
    using Cons.prems by (simp add: start_job_def map_set_def)
  moreover have "start_loop valid ds ?s = (None, ?s\<lparr>cs_jobs := cs_jobs ?s @ map (\<lambda>(i, d). (cd_name d, i)) (numbered (cs_next ?s) ds),
     cs_running := cs_running ?s @ numbered (cs_next ?s) ds, cs_next := cs_next ?s + length ds\<rparr>)"
    using Cons.prems by (intro Cons.IH) auto
  ultimately show ?case by simp
qed simp

lemma map_snd_numbered: "map snd (numbered n ds) = ds"
  by (induction ds arbitrary: n) simp_all

text \<open>With distinct names and valid expressions the scheduler runs exactly the registered jobs: registration
  and start succeed, every definition has one timer under its name, and \<^verbatim>\<open>stop\<close> leaves no timer running.\<close>

theorem scheduler_runs_registered:
  assumes "distinct (map cd_name ds)" and "list_all (\<lambda>d. valid (cd_expression d)) ds"
  shows "\<exists>s s'. register_all ds new_scheduler = Inr s \<and> start valid s = (None, s')
    \<and> map snd (cs_running s') = ds \<and> getJobNames s' = map cd_name ds \<and> cs_running (stop s') = []"
proof -
  let ?s = "new_scheduler\<lparr>cs_definitions := ds\<rparr>"
  have reg: "register_all ds new_scheduler = Inr ?s" by (simp add: register_all_defs new_scheduler_def)
  let ?r = "numbered 0 ds" and ?names = "\<lambda>(i, d). (cd_name d, i)"
  let ?s' = "?s\<lparr>cs_started := True, cs_jobs := map ?names ?r, cs_running := ?r, cs_next := length ds\<rparr>"
  have "start valid ?s = (None, ?s')"
    using start_loop_ok [OF assms(2,1), of "?s\<lparr>cs_started := True\<rparr>"] by (simp add: start_def new_scheduler_def)
  moreover have "map fst (map ?names ?r) = map cd_name (map snd ?r)" by (simp add: case_prod_unfold comp_def)
  then have "getJobNames ?s' = map cd_name ds" by (simp add: getJobNames_def map_snd_numbered)
  moreover have "cs_running (stop ?s') = []" by (force simp: stop_def filter_empty_conv)
  moreover have "map snd (cs_running ?s') = ds" by (simp add: map_snd_numbered)
  ultimately show ?thesis using reg by blast
qed

theorem scheduler_runs_registered_witness:
  "\<exists>s s'. register_all [\<lparr>cd_name = ''a'', cd_expression = ''* * * * *'', cd_handler = ()\<rparr>] new_scheduler = Inr s
    \<and> start (\<lambda>e. e \<noteq> []) s = (None, s') \<and> getJobNames s' = [''a''] \<and> cs_running (stop s') = []"
proof -
  let ?d = "\<lparr>cd_name = ''a'', cd_expression = ''* * * * *'', cd_handler = ()\<rparr>"
  obtain s s' where "register_all [?d] new_scheduler = Inr s" "start (\<lambda>e. e \<noteq> []) s = (None, s')"
    "getJobNames s' = map cd_name [?d]" "cs_running (stop s') = []"
    using scheduler_runs_registered [of "[?d]" "\<lambda>e. e \<noteq> []"] by auto
  then show ?thesis by (intro exI [of _ s] exI [of _ s']) simp
qed

text \<open>A name registered twice before \<^verbatim>\<open>start\<close> is not refused, since only started jobs are in the map that is
  looked up; both timers run, and \<^verbatim>\<open>stop\<close> reaches only the second.\<close>

theorem duplicate_job_runs_on:
  "let d = (\<lambda>e. \<lparr>cd_name = ''a'', cd_expression = e, cd_handler = ()\<rparr>) in
   \<exists>s s'. register_all [d ''1'', d ''2''] new_scheduler = Inr s \<and> start (\<lambda>_. True) s = (None, s')
    \<and> map snd (cs_running (stop s')) = [d ''1'']"
  by (simp add: register_all_def register_def hasJob_def new_scheduler_def start_def start_job_def map_set_def stop_def Let_def)

section \<open>One dunning run a day\<close>

lemma same_day_rows:
  assumes "current_date now' = current_date now"
  shows "listOverdueInvoicesForDunning now' db = listOverdueInvoicesForDunning now db"
proof -
  have "day \<noteq> 0" by (simp add: day_def second_def)
  then have "(t - d * day) div day = t div day - d" for t d
    using div_mult_self1 [of day t "- d"] by simp
  then have "days_overdue now' = days_overdue now"
    using assms by (auto simp: fun_eq_iff days_overdue_def current_date_def)
  moreover have "dunnable now' = dunnable now" unfolding fun_eq_iff dunnable_def assms by simp
  ultimately show ?thesis by (simp add: listOverdueInvoicesForDunning_def overdue_row_def)
qed

lemma dunning_same_day:
  assumes "ledger_wf db" and "fresh uuid" and "dunningEngineJob uuid now db = Inr (st, db')"
    and "current_date now' = current_date now"
  shows "\<exists>st'. dunningEngineJob uuid' now' db' = Inr (st', db')"
proof -
  have eff: "dun_effect (due_actions now db) db db'"
    using job_effect [OF assms(1,2), of now] assms(3) by auto
  then have "due_actions now db' \<subseteq> set (acts db')"
    using dun_frame_due [of db db' now] by (auto simp: dun_effect_def)
  then have "due_rows (listOverdueInvoicesForDunning now' db') \<subseteq> set (acts db')"
    by (simp add: due_actions_def same_day_rows [OF assms(4)])
  from rows_idle [OF this, of uuid' now'
      "\<lparr>ds_actions_created = 0, ds_invoices_skipped = 0, ds_cases_opened = 0\<rparr>"]
  show ?thesis by (auto simp: dunningEngineJob_def)
qed

lemma enqueueCronTask_appends:
  assumes "enqueueCronTask jobName u t clock opts q = Inr q'"
  obtains tasks where "q' = q @ tasks" and "length tasks \<le> 1"
proof -
  have "\<exists>tasks. q' = q @ tasks \<and> length tasks \<le> 1"
    using assms by (auto simp: enqueueCronTask_def enqueueTask_def Let_def insert_row_Inr
        bind_res_Inr_iff map_sum_def split: option.splits sum.splits)
  with that show thesis by blast
qed

lemma enqueueCronTask_again:
  assumes "enqueueCronTask jobName u t clock opts q = Inr q1" and "ct_idempotency_key_suffix opts = Some suffix"
    and "ct_idempotency_key_suffix opts' = Some suffix"
  shows "enqueueCronTask jobName u' t' clock' opts' (fold tq_step ops q1) = Inr (fold tq_step ops q1)"
proof -
  let ?eo = "\<lambda>o1. \<lparr>eo_idempotency_key = ''cron:'' @ jobName @ '':'' @ suffix, eo_agent_type = ''cron'',
            eo_job_type = ct_job_type o1, eo_payload = Some (case ct_payload o1 of None \<Rightarrow> ''{}'' | Some p \<Rightarrow> p),
            eo_correlation_id = None, eo_created_by = ''cron:'' @ jobName,
            eo_priority = ct_priority o1, eo_max_attempts = ct_max_attempts o1\<rparr>"
  obtain r where "enqueueTask u t (?eo opts) q = Inr (r, q1)"
    using assms(1,2) by (cases "enqueueTask u t (?eo opts) q") (auto simp: enqueueCronTask_def)
  from enqueueTask_found [OF this] obtain r' where
    "find_row idempotency_key (eo_idempotency_key (?eo opts)) (fold tq_step ops q1) = Some r'"
    using tq_run_keeps_task by blast
  then show ?thesis using assms(3) by (simp add: enqueueCronTask_def enqueueTask_def)
qed

text \<open>The dunning job runs once a day in effect: after a successful run, and whatever the queue did since,
  another run on the same date succeeds and changes neither the ledger nor the queue.\<close>

theorem dunning_job_daily:
  assumes "ledger_wf (st_ledger s)" and "fresh uuid" and "dunning_job render uuid taskId now runDate s = (True, s1)"
    and "current_date now' = current_date now" and "s2 = s1\<lparr>st_queue := fold tq_step ops (st_queue s1)\<rparr>"
  shows "dunning_job render' uuid' taskId' now' runDate s2 = (True, s2)"
proof -
  obtain st db where run: "dunningEngineJob uuid now (st_ledger s) = Inr (st, db)"
    using job_effect [OF assms(1,2)] by blast
  let ?n = "length (listOverdueInvoicesForDunning now (st_ledger s))"
  let ?o = "daily ''dunning_engine_run'' (render (Dunning_report runDate ?n
      (ds_invoices_skipped st) (ds_actions_created st) (ds_cases_opened st))) (''dunning-engine-'' @ runDate)"
  obtain q where q: "enqueueCronTask ''dunning-engine'' taskId now runDate ?o (st_queue s) = Inr q"
    "s1 = s\<lparr>st_ledger := db, st_queue := q\<rparr>"
    using assms(3) by (auto simp: dunning_job_def run report_def Let_def split: sum.splits)
  obtain st' where "dunningEngineJob uuid' now' db = Inr (st', db)"
    using dunning_same_day [OF assms(1,2) run assms(4)] by blast
  moreover have "enqueueCronTask ''dunning-engine'' taskId' now' runDate (daily ''dunning_engine_run'' pay (''dunning-engine-'' @ runDate))
      (fold tq_step ops q) = Inr (fold tq_step ops q)" for pay
    by (rule enqueueCronTask_again [OF q(1), where suffix = "''dunning-engine-'' @ runDate"]) (simp_all add: daily_def)
  ultimately show ?thesis by (simp add: dunning_job_def report_def Let_def assms(5) q(2))
qed

definition demo_cron :: cron_state where
  "demo_cron = \<lparr>st_ledger = demo_ledger I_sent, st_retention = demo_retention [] [], st_queue = []\<rparr>"

theorem dunning_job_daily_witness:
  "\<exists>s1. dunning_job (\<lambda>_. ''{}'') long_uuid ''t'' (8 * day) ''1970-01-09'' demo_cron = (True, s1)
    \<and> dunning_job (\<lambda>_. ''{}'') long_uuid ''u'' (8 * day + 5) ''1970-01-09'' s1 = (True, s1)"
proof -
  have wf: "ledger_wf (st_ledger demo_cron)" by (simp add: demo_cron_def demo_ledger_wf)
  obtain st db where run: "dunningEngineJob long_uuid (8 * day) (st_ledger demo_cron) = Inr (st, db)"
    using job_effect [OF wf fresh_long_uuid] by blast
  have demo_queue: "st_queue demo_cron = []" by (simp add: demo_cron_def)
  obtain s1 where s1: "dunning_job (\<lambda>_. ''{}'') long_uuid ''t'' (8 * day) ''1970-01-09'' demo_cron = (True, s1)"
    using run by (simp add: dunning_job_def report_def enqueueCronTask_def enqueueTask_def insert_row_def Let_def demo_queue)
  have "current_date (8 * day + 5) = current_date (8 * day)" by (simp add: current_date_def day_def second_def)
  from dunning_job_daily [OF wf fresh_long_uuid s1 this, of s1 "[]"] s1 show ?thesis by simp
qed

end
