(* ===== verification/Calendar.thy ===== *)
theory Calendar
  imports DB_Prelude
begin

text \<open>
  The calendar behind dates and time stamps: the Gregorian date of a day number, its text as PostgreSQL and
  \<^verbatim>\<open>Date.prototype.toISOString\<close> print it (years 0 to 9999), subtraction of months as PostgreSQL does it, and the law that
  later days have greater texts. Sessions and processes run in UTC.
\<close>

section \<open>Positions in a list of lengths\<close>

text \<open>\<open>locate ls n\<close> is the segment of \<open>ls\<close> that holds offset \<open>n\<close>, and the offset in it.\<close>

fun locate :: "int list \<Rightarrow> int \<Rightarrow> int \<times> int" where
  "locate [] n = (0, n)"
| "locate (l # ls) n = (if n < l then (0, n) else case locate ls (n - l) of (k, r) \<Rightarrow> (k + 1, r))"

definition before :: "int list \<Rightarrow> int \<Rightarrow> int" where
  "before ls k = sum_list (take (nat k) ls)"

lemma locate_bounds:
  "0 \<le> n \<Longrightarrow> n < sum_list ls \<Longrightarrow> locate ls n = (k, r) \<Longrightarrow>
     0 \<le> k \<and> k < int (length ls) \<and> 0 \<le> r \<and> r < ls ! nat k \<and> n = before ls k + r"
proof (induction ls arbitrary: n k)
  case (Cons l ls)
  show ?case
  proof (cases "n < l")
    case False
    then obtain k' where "locate ls (n - l) = (k', r)" "k = k' + 1" using Cons.prems(3) by (auto split: prod.splits)
    with Cons.IH [of "n - l" k'] Cons.prems False show ?thesis
      by (auto simp: before_def nat_add_distrib)
  qed (use Cons.prems in \<open>auto simp: before_def\<close>)
qed simp

lemma locate_before:
  "list_all (\<lambda>l. 0 < l) ls \<Longrightarrow> 0 \<le> k \<Longrightarrow> k < int (length ls) \<Longrightarrow> 0 \<le> r \<Longrightarrow> r < ls ! nat k \<Longrightarrow> locate ls (before ls k + r) = (k, r)"
proof (induction ls arbitrary: k)
  case (Cons l ls)
  show ?case
  proof (cases "k = 0")
    case False
    then obtain j where j: "k = 1 + j" "0 \<le> j" using Cons.prems(2) that [of "k - 1"] by simp
    have "0 \<le> sum_list (take (nat j) ls)"
      by (rule sum_list_nonneg) (use Cons.prems(1) in \<open>force simp: list_all_iff dest: in_set_takeD\<close>)
    moreover have "locate ls (before ls j + r) = (j, r)" using Cons j by (simp add: nat_add_distrib)
    ultimately show ?thesis using Cons.prems j by (simp add: before_def nat_add_distrib add.assoc)
  qed (use Cons.prems in \<open>simp add: before_def\<close>)
qed simp

lemma fst_locate: "0 \<le> fst (locate ls n)"
  by (induction ls arbitrary: n) (auto simp: case_prod_unfold)

lemma locate_mono:
  "m < n \<Longrightarrow> locate ls m = (k, r) \<Longrightarrow> locate ls n = (k', r') \<Longrightarrow> 0 \<le> k \<and> (k < k' \<or> k = k' \<and> r < r')"
proof (induction ls arbitrary: m n k k')
  case (Cons l ls)
  consider "n < l" | "m < l" "\<not> n < l" | "\<not> m < l" using Cons.prems(1) by linarith
  then show ?case
  proof cases
    case 2
    then obtain j where "locate ls (n - l) = (j, r')" "k' = j + 1" using Cons.prems(3) by (auto split: prod.splits)
    moreover from this fst_locate [of ls "n - l"] have "0 \<le> j" by simp
    ultimately show ?thesis using 2 Cons.prems by auto
  next
    case 3
    then obtain i j where "locate ls (m - l) = (i, r)" "k = i + 1" "locate ls (n - l) = (j, r')" "k' = j + 1"
      using Cons.prems by (auto split: prod.splits)
    with Cons.IH [of "m - l" "n - l" i j] Cons.prems(1) show ?thesis by auto
  qed (use Cons.prems in auto)
qed simp

section \<open>Dates\<close>

record civil_date =
  cd_year :: int
  cd_month :: int \<comment> \<open>1 to 12\<close>
  cd_day :: int

definition leap :: "int \<Rightarrow> bool" where
  "leap y \<longleftrightarrow> y mod 4 = 0 \<and> (y mod 100 \<noteq> 0 \<or> y mod 400 = 0)"

definition year_lengths :: "int list" where
  "year_lengths = map (\<lambda>y. if leap y then 366 else 365) [0..399]"

definition month_lengths :: "int \<Rightarrow> int list" where
  "month_lengths y = [31, if leap y then 29 else 28, 31, 30, 31, 30, 31, 31, 30, 31, 30, 31]"

text \<open>400 years are 146097 days; the day number 0 is 1970-01-01, 719528 days after 0000-01-01.\<close>

definition civil :: "date \<Rightarrow> civil_date" where
  "civil d =
     (case locate year_lengths ((d + 719528) mod 146097) of (y, doy) \<Rightarrow>
      case locate (month_lengths y) doy of (m, r) \<Rightarrow>
        \<lparr>cd_year = (d + 719528) div 146097 * 400 + y, cd_month = m + 1, cd_day = r + 1\<rparr>)"

definition day_of :: "int \<Rightarrow> int \<Rightarrow> int \<Rightarrow> date" where
  "day_of y m d = y div 400 * 146097 + before year_lengths (y mod 400) + before (month_lengths y) (m - 1) + d - 1 - 719528"

text \<open>\<^verbatim>\<open>t - INTERVAL 'n months'\<close>: the day is cut to the length of the month.\<close>

definition month_length :: "int \<Rightarrow> int \<Rightarrow> int" where
  "month_length y m = month_lengths y ! nat (m - 1)"

definition sub_months :: "int \<Rightarrow> timestamp \<Rightarrow> timestamp" where
  "sub_months n t =
     (let c = civil (t div day); i = cd_year c * 12 + cd_month c - 1 - n; y = i div 12; m = i mod 12 + 1
      in day_of y m (min (cd_day c) (month_length y m)) * day + t mod day)"

fun padded :: "nat \<Rightarrow> int \<Rightarrow> string" where
  "padded 0 n = []"
| "padded (Suc k) n = digit (nat (n div 10 ^ k)) # padded k (n mod 10 ^ k)"

definition iso_date_text :: "date \<Rightarrow> string" where
  "iso_date_text d = (let c = civil d in padded 4 (cd_year c) @ ''-'' @ padded 2 (cd_month c) @ ''-'' @ padded 2 (cd_day c))"

section \<open>Laws\<close>

lemma div_mod_shift:
  fixes a :: int
  assumes "a < n" "0 \<le> a"
  shows "(a + q * n) mod n = a" "(a + q * n) div n = q"
  using assms by simp_all

lemma cycle: "length year_lengths = 400" "sum_list year_lengths = 146097" "list_all (\<lambda>l. 0 < l) year_lengths"
  by code_simp+

lemma months: "length (month_lengths y) = 12" "sum_list (month_lengths y) = (if leap y then 366 else 365)"
  "list_all (\<lambda>l. 0 < l) (month_lengths y)"
  by (simp_all add: month_lengths_def)

lemma nth_year_lengths: "0 \<le> y \<Longrightarrow> y < 400 \<Longrightarrow> year_lengths ! nat y = sum_list (month_lengths y)"
  unfolding year_lengths_def months by (simp add: nth_upto)

lemma month_lengths_mod: "month_lengths (y mod 400) = month_lengths y"
proof -
  have "(4::int) dvd 400" "(100::int) dvd 400" by simp_all
  then have "leap (y mod 400) = leap y" unfolding leap_def by (simp add: mod_mod_cancel)
  then show ?thesis by (simp add: month_lengths_def)
qed

lemma div_bound:
  fixes n :: int
  assumes "0 < p" "n < q * p"
  shows "n div p < q"
proof (rule ccontr)
  assume "\<not> n div p < q"
  then have "q * p \<le> n div p * p" using assms(1) by (intro mult_right_mono) simp_all
  also have "\<dots> \<le> n" using div_mult_mod_eq [of n p] pos_mod_sign [OF assms(1), of n] by linarith
  finally show False using assms(2) by simp
qed

text \<open>The parts of a date, and the way back.\<close>

lemma civil_parts:
  obtains e y doy m r where "d + 719528 = e * 146097 + (before year_lengths y + doy)" "doy = before (month_lengths y) m + r"
    "0 \<le> y" "y < 400" "0 \<le> m" "m < 12" "0 \<le> r" "r < month_lengths y ! nat m" "0 \<le> doy" "e = (d + 719528) div 146097"
    "locate year_lengths ((d + 719528) mod 146097) = (y, doy)" "locate (month_lengths y) doy = (m, r)"
    "civil d = \<lparr>cd_year = e * 400 + y, cd_month = m + 1, cd_day = r + 1\<rparr>"
proof -
  obtain y doy where y: "locate year_lengths ((d + 719528) mod 146097) = (y, doy)" by fastforce
  obtain m r where m: "locate (month_lengths y) doy = (m, r)" by fastforce
  have Y: "0 \<le> y" "y < 400" "0 \<le> doy" "doy < year_lengths ! nat y" "(d + 719528) mod 146097 = before year_lengths y + doy"
    using locate_bounds [OF _ _ y] cycle by simp_all
  then have "doy < sum_list (month_lengths y)" by (simp add: nth_year_lengths)
  from locate_bounds [OF Y(3) this m] have M: "0 \<le> m" "m < 12" "0 \<le> r" "r < month_lengths y ! nat m" "doy = before (month_lengths y) m + r"
    by (simp_all add: months)
  have "civil d = \<lparr>cd_year = (d + 719528) div 146097 * 400 + y, cd_month = m + 1, cd_day = r + 1\<rparr>"
    by (simp add: civil_def y m)
  moreover have "d + 719528 = (d + 719528) div 146097 * 146097 + (before year_lengths y + doy)"
    using Y(5) by (metis div_mult_mod_eq)
  ultimately show thesis using that Y M y m by blast
qed

lemma civil_range: "1 \<le> cd_month (civil d)" "cd_month (civil d) \<le> 12" "1 \<le> cd_day (civil d)"
  "cd_day (civil d) \<le> month_length (cd_year (civil d)) (cd_month (civil d))"
proof -
  obtain e y m r where c: "civil d = \<lparr>cd_year = e * 400 + y, cd_month = m + 1, cd_day = r + 1\<rparr>"
    "0 \<le> y" "y < 400" "0 \<le> m" "m < 12" "0 \<le> r" "r < month_lengths y ! nat m" by (rule civil_parts [of d]) blast
  moreover have "month_lengths (e * 400 + y) = month_lengths y" using month_lengths_mod [of "e * 400 + y"] month_lengths_mod [of y] by simp
  ultimately show "1 \<le> cd_month (civil d)" "cd_month (civil d) \<le> 12" "1 \<le> cd_day (civil d)"
    "cd_day (civil d) \<le> month_length (cd_year (civil d)) (cd_month (civil d))"
    by (simp_all add: month_length_def)
qed

lemma day_of_civil: "day_of (cd_year (civil d)) (cd_month (civil d)) (cd_day (civil d)) = d"
proof -
  obtain e y doy m r where c: "civil d = \<lparr>cd_year = e * 400 + y, cd_month = m + 1, cd_day = r + 1\<rparr>"
    "0 \<le> y" "y < 400" "d + 719528 = e * 146097 + (before year_lengths y + doy)" "doy = before (month_lengths y) m + r"
    by (rule civil_parts [of d]) blast
  moreover have "month_lengths (e * 400 + y) = month_lengths y" using month_lengths_mod [of "e * 400 + y"] month_lengths_mod [of y] by simp
  ultimately show ?thesis by (simp add: day_of_def)
qed

lemma civil_day_of:
  assumes "1 \<le> m" "m \<le> 12" "1 \<le> d" "d \<le> month_length y m"
  shows "civil (day_of y m d) = \<lparr>cd_year = y, cd_month = m, cd_day = d\<rparr>"
proof -
  let ?y = "y mod 400" and ?doy = "before (month_lengths y) (m - 1) + (d - 1)"
  have M: "locate (month_lengths ?y) ?doy = (m - 1, d - 1)"
    using locate_before [of "month_lengths y" "m - 1" "d - 1"] assms months by (simp add: month_lengths_mod month_length_def)
  have pos: "0 \<le> before ls k" if "list_all (\<lambda>l. 0 < l) ls" for ls k
    unfolding before_def by (rule sum_list_nonneg) (use that in \<open>force simp: list_all_iff dest: in_set_takeD\<close>)
  have fits: "before ls k + ls ! nat k \<le> sum_list ls" if "list_all (\<lambda>l. 0 < l) ls" "0 \<le> k" "k < int (length ls)" for ls k
  proof -
    have "0 \<le> sum_list (drop (Suc (nat k)) ls)"
      by (rule sum_list_nonneg) (use that(1) in \<open>force simp: list_all_iff dest: in_set_dropD\<close>)
    moreover have "sum_list ls = sum_list (take (nat k) ls) + ls ! nat k + sum_list (drop (Suc (nat k)) ls)"
      using id_take_nth_drop [of "nat k" ls] that(2,3) by (metis add.assoc nat_less_iff sum_list.Cons sum_list.append)
    ultimately show ?thesis by (simp add: before_def)
  qed
  have "?doy < sum_list (month_lengths ?y)" "0 \<le> ?doy"
    using fits [of "month_lengths y" "m - 1"] pos [of "month_lengths y" "m - 1"] assms months by (simp_all add: month_lengths_mod month_length_def)
  then have Y: "locate year_lengths (before year_lengths ?y + ?doy) = (?y, ?doy)" "before year_lengths ?y + ?doy < 146097" "0 \<le> before year_lengths ?y + ?doy"
    using locate_before [of year_lengths ?y ?doy] fits [of year_lengths ?y] pos [of year_lengths ?y] cycle
    by (simp_all add: nth_year_lengths)
  have "day_of y m d + 719528 = before year_lengths ?y + ?doy + y div 400 * 146097" by (simp add: day_of_def)
  with Y(2,3) have "(day_of y m d + 719528) mod 146097 = before year_lengths ?y + ?doy" "(day_of y m d + 719528) div 146097 = y div 400"
    by (simp_all only: div_mod_shift)
  then show ?thesis using Y(1) M by (simp add: civil_def)
qed

text \<open>Texts of one length are ordered as their numbers are.\<close>

lemma digit_order: "m < 10 \<Longrightarrow> n < 10 \<Longrightarrow> digit m < digit n \<longleftrightarrow> m < n"
  by (simp add: digit_def less_char_def)

lemma append_less: "zs @ xs < zs @ ys \<longleftrightarrow> (xs :: string) < ys"
  by (induction zs) simp_all

lemma padded_less:
  "0 \<le> m \<Longrightarrow> m < n \<Longrightarrow> n < 10 ^ k \<Longrightarrow> padded k m @ xs < padded k n @ ys"
proof (induction k arbitrary: m n)
  case (Suc k)
  let ?p = "10 ^ k :: int"
  have p: "0 < ?p" by simp
  have d: "m div ?p \<le> n div ?p" "0 \<le> m div ?p" "n div ?p < 10"
    using Suc.prems p div_bound [OF p, of n 10] by (simp_all add: zdiv_mono1 pos_imp_zdiv_nonneg_iff)
  show ?case
  proof (cases "m div ?p = n div ?p")
    case True
    then have "m mod ?p < n mod ?p" using Suc.prems(2) by (metis add_less_cancel_left div_mult_mod_eq)
    then show ?thesis using Suc.IH True by simp
  next
    case False
    then have "digit (nat (m div ?p)) < digit (nat (n div ?p))" using d by (subst digit_order) simp_all
    then show ?thesis by simp
  qed
qed simp

lemma civil_less:
  assumes "d < d'"
  defines "c \<equiv> civil d" and "c' \<equiv> civil d'"
  shows "cd_year c < cd_year c' \<or> cd_year c = cd_year c' \<and> (cd_month c < cd_month c' \<or> cd_month c = cd_month c' \<and> cd_day c < cd_day c')"
proof -
  obtain e y doy m r where c: "e = (d + 719528) div 146097" "locate year_lengths ((d + 719528) mod 146097) = (y, doy)"
    "locate (month_lengths y) doy = (m, r)" "c = \<lparr>cd_year = e * 400 + y, cd_month = m + 1, cd_day = r + 1\<rparr>" "0 \<le> y" "y < 400"
    unfolding c_def by (rule civil_parts [of d]) blast
  obtain e' y' doy' m' r' where c': "e' = (d' + 719528) div 146097" "locate year_lengths ((d' + 719528) mod 146097) = (y', doy')"
    "locate (month_lengths y') doy' = (m', r')" "c' = \<lparr>cd_year = e' * 400 + y', cd_month = m' + 1, cd_day = r' + 1\<rparr>" "0 \<le> y'" "y' < 400"
    unfolding c'_def by (rule civil_parts [of d']) blast
  have e: "e \<le> e'" using assms(1) c(1) c'(1) by (simp add: zdiv_mono1)
  show ?thesis
  proof (cases "e = e'")
    case True
    then have "(d + 719528) mod 146097 < (d' + 719528) mod 146097"
      using assms(1) c(1) c'(1) div_mult_mod_eq [of "d + 719528" 146097] div_mult_mod_eq [of "d' + 719528" 146097] by linarith
    from locate_mono [OF this c(2) c'(2)] consider "y < y'" | "y = y'" "doy < doy'" by blast
    then show ?thesis
    proof cases
      case 2
      then have "m < m' \<or> m = m' \<and> r < r'" using locate_mono [OF 2(2) c(3)] c'(3) by blast
      then show ?thesis using c(4) c'(4) True 2(1) by auto
    qed (simp add: c(4) c'(4) True)
  next
    case False
    then show ?thesis using e c c' by simp
  qed
qed

lemma year_range:
  assumes "-719528 \<le> d" "d < 2932897"
  shows "0 \<le> cd_year (civil d)" "cd_year (civil d) < 10000"
proof -
  obtain e y where c: "e = (d + 719528) div 146097" "cd_year (civil d) = e * 400 + y" "0 \<le> y" "y < 400"
    by (rule civil_parts [of d]) (metis civil_date.select_convs(1))
  moreover have "0 \<le> e" "e < 25" using assms c(1) div_bound [of 146097 "d + 719528" 25] by (simp_all add: pos_imp_zdiv_nonneg_iff)
  ultimately show "0 \<le> cd_year (civil d)" "cd_year (civil d) < 10000" by simp_all
qed

lemma iso_date_text_less:
  assumes "d < d'" "-719528 \<le> d" "d' < 2932897"
  shows "iso_date_text d @ xs < iso_date_text d' @ ys"
proof -
  let ?c = "civil d" and ?c' = "civil d'"
  have y: "0 \<le> cd_year ?c" "cd_year ?c' < 10 ^ 4" using year_range [of d] year_range [of d'] assms by simp_all
  have len: "month_length y m \<le> 31" if "1 \<le> m" "m \<le> 12" for y m
  proof -
    have "nat (m - 1) < 12" using that by simp
    then have "month_lengths y ! nat (m - 1) \<in> set (month_lengths y)" using months(1) [of y] by (intro nth_mem) simp
    then show ?thesis unfolding month_length_def by (auto simp: month_lengths_def)
  qed
  have m: "0 \<le> cd_month ?c" "cd_month ?c' < 10 ^ 2" "0 \<le> cd_day ?c" "cd_day ?c' < 10 ^ 2"
    using civil_range [of d] civil_range [of d'] len [of "cd_month ?c'" "cd_year ?c'"] by simp_all
  show ?thesis using civil_less [OF assms(1)] padded_less [OF y(1) _ y(2)] padded_less [OF m(1) _ m(2)] padded_less [OF m(3) _ m(4)]
    by (auto simp: iso_date_text_def Let_def append_less simp del: padded.simps)
qed

section \<open>Time stamps as text\<close>

definition clock_text :: "timestamp \<Rightarrow> string" where
  "clock_text t = (let s = t mod day div second
     in padded 2 (s div 3600) @ '':'' @ padded 2 (s div 60 mod 60) @ '':'' @ padded 2 (s mod 60))"

text \<open>\<^verbatim>\<open>t::text\<close> in PostgreSQL: microseconds without the trailing zeros, and the offset.\<close>

definition timestamptz_text :: "timestamp \<Rightarrow> string" where
  "timestamptz_text t = iso_date_text (t div day) @ '' '' @ clock_text t @
     (if t mod second = 0 then '''' else ''.'' @ rev (dropWhile (\<lambda>c. c = CHR ''0'') (rev (padded 6 (t mod second))))) @ ''+00''"

definition toISOString :: "timestamp \<Rightarrow> string" where
  "toISOString t = iso_date_text (t div day) @ ''T'' @ clock_text t @ ''.'' @ padded 3 (t mod second div 1000) @ ''Z''"

lemma length_padded [simp]: "length (padded k n) = k"
  by (induction k arbitrary: n) simp_all

lemma length_iso_date [simp]: "length (iso_date_text d) = 10"
  by (simp add: iso_date_text_def Let_def)

lemma iso_date: "take 10 (toISOString t) = iso_date_text (t div day)"
  by (simp add: toISOString_def)

text \<open>A blank is before a T: the text of a time stamp is less than the first eleven characters of the ISO text of a
  moment of the same day or later.\<close>

lemma timestamptz_text_less:
  assumes "t \<le> t'" "0 \<le> t" "t' < 2932897 * day"
  shows "timestamptz_text t < take 11 (toISOString t')"
proof -
  have p: "0 < day" by (simp add: day_def second_def)
  have d: "t div day \<le> t' div day" "0 \<le> t div day" "t' div day < 2932897"
    using assms p div_bound [OF p assms(3)] by (simp_all add: zdiv_mono1 pos_imp_zdiv_nonneg_iff)
  have T: "take 11 (toISOString t') = iso_date_text (t' div day) @ ''T''" by (simp add: toISOString_def)
  show ?thesis
  proof (cases "t div day = t' div day")
    case True
    have "CHR '' '' < CHR ''T''" by (simp add: less_char_def)
    then show ?thesis unfolding T timestamptz_text_def True by (simp add: append_less)
  next
    case False
    then show ?thesis unfolding T timestamptz_text_def using d by (intro iso_date_text_less) simp_all
  qed
qed

end
