(* ===== verification/Customer_Health.thy ===== *)
theory Customer_Health
  imports Cron Scoring Calendar
begin

text \<open>
  Customer health for account managers: the signals and stored scores (the database part of
  \<^verbatim>\<open>src/packages/db/customer-health-scores.ts\<close>; the score itself is in \<open>Scoring\<close>), the daily worker
  (\<^verbatim>\<open>src/apps/server/src/cron/jobs/health-score-worker.ts\<close>) and the dashboard queries
  (\<^verbatim>\<open>src/packages/db/account-manager-customers.ts\<close>, \<^verbatim>\<open>src/apps/server/src/api/account-manager.ts\<close>).

  \<open>am_db\<close> holds the account managers' tables beside the ledger, which these modules only read; interventions are written in
  \<open>Interventions\<close>. No function opens a transaction. \<open>clk i\<close> is the time the \<open>i\<close>-th statement of a job reads, in UTC.
  A numeric column is the binary64 number it reads back as; \<open>numeric p s\<close> is what the driver and \<^verbatim>\<open>NUMERIC(p, s)\<close> make of a number
  (\<open>None\<close>: numeric field overflow). \<open>date_parse\<close> is \<^verbatim>\<open>new Date(text).getTime()\<close> on PostgreSQL's text of a time stamp, which the
  language leaves to the implementation.
\<close>

section \<open>Tables\<close>

record am_customer =
  am_id :: string
  am_company_name :: string
  am_segment :: "string option"
  am_account_manager_id :: "string option"
  am_health_score :: "js_number option"
  am_updated_at :: timestamp

record CustomerHealthScoreRow =
  ch_id :: string
  ch_customer_id :: string
  ch_score_date :: date
  ch_score :: js_number
  ch_days_overdue_signal :: js_number
  ch_breach_count_signal :: js_number
  ch_escalation_signal :: js_number
  ch_days_overdue_value :: js_number
  ch_breach_count_value :: js_number
  ch_escalation_level_value :: js_number
  ch_computed_at :: timestamp

record history_row =
  hh_customer_id :: string
  hh_score :: js_number
  hh_recorded_at :: timestamp

record HealthSignal =
  hg_id :: string
  hg_customer_id :: string
  hg_source_label :: string
  hg_contribution :: js_number
  hg_recorded_at :: timestamp

datatype InterventionStatus = V_open | V_in_progress | V_resolved | V_escalated

datatype InterventionPlaybook = Success_call | Training | Executive_sponsor

record InterventionRow =
  iv_id :: string
  iv_customer_id :: string
  iv_trigger_type :: string
  iv_playbook :: "InterventionPlaybook option"
  iv_assigned_to :: "string option"
  iv_status :: InterventionStatus
  iv_outcome :: "string option"
  iv_created_at :: timestamp
  iv_resolved_at :: "timestamp option"
  iv_updated_at :: timestamp

record AmEscalationRow =
  ae_row_id :: string
  ae_intervention_id :: string
  ae_customer_id :: string
  ae_notified_user_id :: string
  ae_days_open :: int
  ae_row_created_at :: timestamp

record am_user =
  us_id :: string
  us_type :: string
  us_role :: "string option"
  us_created_at :: timestamp

record am_db =
  am_ledger :: ledger
  am_customers :: "am_customer list"
  health_scores :: "CustomerHealthScoreRow list"
  score_history :: "history_row list"
  health_signals :: "HealthSignal list"
  interventions :: "InterventionRow list"
  escalations :: "AmEscalationRow list"
  am_users :: "am_user list"
  am_queue :: task_queue

datatype am_error =
    Am_db db_error
  | Numeric_field_overflow
  | Score_check

section \<open>Signals\<close>

definition listCustomersForHealthScore :: "ledger \<Rightarrow> string list" where
  "listCustomersForHealthScore db = sort (remdups (map inv_customer_id (invoices db)))"

text \<open>The customer behind a collection case, through its invoice.\<close>

definition case_customer :: "ledger \<Rightarrow> case_row \<Rightarrow> string option" where
  "case_customer db c = map_option inv_customer_id (invoice_of (cc_invoice_id c) db)"

definition overdue_invoice :: "timestamp \<Rightarrow> string \<Rightarrow> invoice_row \<Rightarrow> bool" where
  "overdue_invoice now k i \<longleftrightarrow> inv_customer_id i = k
     \<and> (case inv_due_date i of None \<Rightarrow> False | Some d \<Rightarrow> d < current_date now)
     \<and> inv_status i \<notin> {I_paid, I_settled, I_written_off, I_draft}"

definition overdue_days :: "timestamp \<Rightarrow> string \<Rightarrow> ledger \<Rightarrow> int" where
  "overdue_days now k db = (case first_by (\<lambda>i. the (inv_due_date i)) (overdue_invoice now k) (invoices db) of
     None \<Rightarrow> 0
   | Some i \<Rightarrow> days_overdue now (the (inv_due_date i)))"

definition recent_breaches :: "timestamp \<Rightarrow> string \<Rightarrow> ledger \<Rightarrow> nat" where
  "recent_breaches now k db = length (filter (\<lambda>p. Option.bind (case_of (pp_case_id p) db) (case_customer db) = Some k
     \<and> pp_status p = P_breached \<and> sub_months 6 now \<le> pp_created_at p) (plans db))"

definition worst_escalation :: "string \<Rightarrow> ledger \<Rightarrow> int" where
  "worst_escalation k db =
     (case map cc_escalation_level (filter (\<lambda>c. case_customer db c = Some k \<and> cc_status c \<in> {C_open, C_escalated}) (cases db)) of
        [] \<Rightarrow> 0
      | l # ls \<Rightarrow> fold max ls l)"

definition computeHealthScoreSignals :: "timestamp \<Rightarrow> timestamp \<Rightarrow> string \<Rightarrow> ledger \<Rightarrow> CustomerHealthSignals" where
  "computeHealthScoreSignals now now' k db =
     \<lparr>health_customer_id = k, sg_days_overdue = Finite (of_int (overdue_days now k db)),
      sg_breach_count = Finite (of_nat (recent_breaches now' k db)),
      sg_escalation_level = Finite (of_int (worst_escalation k db))\<rparr>"

section \<open>Stored scores\<close>

record score_input =
  si_customer_id :: string
  si_score_date :: date
  si_score :: js_number
  si_days_overdue_signal :: js_number
  si_breach_count_signal :: js_number
  si_escalation_signal :: js_number
  si_days_overdue_value :: js_number
  si_breach_count_value :: js_number
  si_escalation_level_value :: js_number

type_synonym numeric_column = "nat \<Rightarrow> nat \<Rightarrow> js_number \<Rightarrow> js_number option"

definition score_row :: "numeric_column \<Rightarrow> string \<Rightarrow> timestamp \<Rightarrow> score_input \<Rightarrow> CustomerHealthScoreRow option" where
  "score_row numeric uuid now opts =
     (case (numeric 5 2 (si_score opts), numeric 5 2 (si_days_overdue_signal opts), numeric 5 2 (si_breach_count_signal opts),
            numeric 5 2 (si_escalation_signal opts)) of
        (Some s, Some d, Some b, Some e) \<Rightarrow>
          Some \<lparr>ch_id = uuid, ch_customer_id = si_customer_id opts, ch_score_date = si_score_date opts, ch_score = s,
                ch_days_overdue_signal = d, ch_breach_count_signal = b, ch_escalation_signal = e,
                ch_days_overdue_value = si_days_overdue_value opts, ch_breach_count_value = si_breach_count_value opts,
                ch_escalation_level_value = si_escalation_level_value opts, ch_computed_at = now\<rparr>
      | _ \<Rightarrow> None)"

definition score_on :: "string \<Rightarrow> date \<Rightarrow> CustomerHealthScoreRow \<Rightarrow> bool" where
  "score_on k d r \<longleftrightarrow> ch_customer_id r = k \<and> ch_score_date r = d"

text \<open>The CHECK of the score comes before the conflict on \<^verbatim>\<open>(customer_id, score_date)\<close>, primary and foreign key after it.\<close>

definition upsertCustomerHealthScore ::
  "numeric_column \<Rightarrow> (string list \<Rightarrow> string) \<Rightarrow> timestamp \<Rightarrow> score_input \<Rightarrow> am_db \<Rightarrow> am_error + (CustomerHealthScoreRow \<times> am_db)" where
  "upsertCustomerHealthScore numeric uuid now opts db =
     (case score_row numeric (uuid (map ch_id (health_scores db))) now opts of
        None \<Rightarrow> Inl Numeric_field_overflow
      | Some row \<Rightarrow>
          if \<not> (num_le (Finite 0) (ch_score row) \<and> num_le (ch_score row) (Finite 100)) then Inl Score_check
          else case find (score_on (si_customer_id opts) (si_score_date opts)) (health_scores db) of
            Some existing \<Rightarrow> Inr (existing, db)
          | None \<Rightarrow>
              (case insert_row ch_id row (health_scores db) of
                 Inl e \<Rightarrow> Inl (Am_db e)
               | Inr t \<Rightarrow> if si_customer_id opts \<notin> am_id ` set (am_customers db) then Inl (Am_db (ForeignKeyViolation ''customer_id''))
                          else Inr (row, db\<lparr>health_scores := t\<rparr>)))"

definition updateCustomerHealthScore :: "numeric_column \<Rightarrow> timestamp \<Rightarrow> string \<Rightarrow> js_number \<Rightarrow> am_db \<Rightarrow> am_error + am_db" where
  "updateCustomerHealthScore numeric now k s db =
     (case numeric 5 4 (num_div s (Finite 100)) of
        None \<Rightarrow> Inl Numeric_field_overflow
      | Some v \<Rightarrow> Inr (db\<lparr>am_customers := update_where (\<lambda>r. am_id r = k)
          (\<lambda>r. r\<lparr>am_health_score := Some v, am_updated_at := now\<rparr>) (am_customers db)\<rparr>))"

definition getLatestCustomerHealthScore :: "string \<Rightarrow> am_db \<Rightarrow> CustomerHealthScoreRow option" where
  "getLatestCustomerHealthScore k db = first_by (\<lambda>r. - ch_score_date r) (\<lambda>r. ch_customer_id r = k) (health_scores db)"

section \<open>The daily worker\<close>

datatype health_outcome = Computed | Skipped | Failed

definition health_input :: "date \<Rightarrow> CustomerHealthSignals \<Rightarrow> score_input" where
  "health_input d s = (let h = computeHealthScore s
     in \<lparr>si_customer_id = health_customer_id s, si_score_date = d, si_score = hs_score h,
         si_days_overdue_signal = days_overdue_signal h, si_breach_count_signal = breach_count_signal h,
         si_escalation_signal = escalation_signal h, si_days_overdue_value = sg_days_overdue s,
         si_breach_count_value = sg_breach_count s, si_escalation_level_value = sg_escalation_level s\<rparr>)"

definition health_step ::
  "numeric_column \<Rightarrow> (string list \<Rightarrow> string) \<Rightarrow> (nat \<Rightarrow> timestamp) \<Rightarrow> date \<Rightarrow> nat \<Rightarrow> string \<Rightarrow> am_db \<Rightarrow> health_outcome \<times> am_db" where
  "health_step numeric uuid clk d n k db =
     (let signals = computeHealthScoreSignals (clk n) (clk (n + 1)) k (am_ledger db)
      in case upsertCustomerHealthScore numeric uuid (clk (n + 2)) (health_input d signals) db of
           Inl e \<Rightarrow> (Failed, db)
         | Inr (row, db') \<Rightarrow>
             if timestamptz_text (ch_computed_at row) < take 11 (toISOString (clk (n + 3))) then (Skipped, db')
             else (case updateCustomerHealthScore numeric (clk (n + 4)) k (hs_score (computeHealthScore signals)) db' of
                     Inl e \<Rightarrow> (Failed, db')
                   | Inr db'' \<Rightarrow> (Computed, db'')))"

fun health_loop ::
  "numeric_column \<Rightarrow> (string list \<Rightarrow> string) \<Rightarrow> (nat \<Rightarrow> timestamp) \<Rightarrow> date \<Rightarrow> nat \<Rightarrow> string list \<Rightarrow> am_db
    \<Rightarrow> health_outcome list \<times> am_db" where
  "health_loop numeric uuid clk d n [] db = ([], db)"
| "health_loop numeric uuid clk d n (k # ks) db =
     (case health_step numeric uuid clk d n k db of
        (r, db') \<Rightarrow> (case health_loop numeric uuid clk d (n + 5) ks db' of (rs, db'') \<Rightarrow> (r # rs, db'')))"

text \<open>The counts of a run, as its report task carries them.\<close>

record health_report =
  hr_run_date :: string
  hr_customers_processed :: nat
  hr_computed :: nat
  hr_skipped :: nat
  hr_errors :: nat

definition health_score_job ::
  "(health_report \<Rightarrow> json) \<Rightarrow> numeric_column \<Rightarrow> (string list \<Rightarrow> string) \<Rightarrow> string \<Rightarrow> (nat \<Rightarrow> timestamp) \<Rightarrow> am_db
    \<Rightarrow> health_report \<times> bool \<times> am_db" where
  "health_score_job render numeric uuid taskId clk db =
     (let runDate = take 10 (toISOString (clk 0));
          customerIds = listCustomersForHealthScore (am_ledger db)
      in case health_loop numeric uuid clk (clk 0 div day) 1 customerIds db of
           (rs, db') \<Rightarrow>
             let rep = \<lparr>hr_run_date = runDate, hr_customers_processed = length customerIds,
                   hr_computed = length (filter (\<lambda>r. r = Computed) rs), hr_skipped = length (filter (\<lambda>r. r = Skipped) rs),
                   hr_errors = length (filter (\<lambda>r. r = Failed) rs)\<rparr>
             in (case enqueueCronTask ''health-score-worker'' taskId (clk (5 * length customerIds + 1)) runDate
                        (daily ''health_score_worker_run'' (render rep) (''health-score-worker-'' @ runDate)) (am_queue db') of
                   Inl e \<Rightarrow> (rep, False, db')
                 | Inr q \<Rightarrow> (rep, True, db'\<lparr>am_queue := q\<rparr>)))"

section \<open>The dashboard\<close>

datatype trend = Up | Down | Stable

definition HEALTH_ALERT_THRESHOLD :: js_number where
  "HEALTH_ALERT_THRESHOLD = to_double (7 / 10)"

record CustomerHealthRow =
  da_id :: string
  da_company_name :: string
  da_segment :: "string option"
  da_health_score :: "js_number option"
  da_trend :: trend
  da_has_alert :: bool
  da_alert_days :: "js_number option"

record CustomerHealthDetail = CustomerHealthRow +
  dt_signals :: "HealthSignal list"
  dt_score_history :: "(string \<times> js_number) list"

text \<open>\<^verbatim>\<open>SELECT DISTINCT ON (key)\<close> of sorted rows: the first row of each key.\<close>

fun distinct_on :: "('r \<Rightarrow> 'k) \<Rightarrow> 'k list \<Rightarrow> 'r list \<Rightarrow> 'r list" where
  "distinct_on key seen [] = []"
| "distinct_on key seen (r # t) =
     (if key r \<in> set seen then distinct_on key seen t else r # distinct_on key (key r # seen) t)"

definition week_old :: "timestamp \<Rightarrow> history_row \<Rightarrow> bool" where
  "week_old now h \<longleftrightarrow> now - 8 * day \<le> hh_recorded_at h \<and> hh_recorded_at h \<le> now - 6 * day"

definition from_week :: "timestamp \<Rightarrow> history_row \<Rightarrow> int" where
  "from_week now h = \<bar>hh_recorded_at h - (now - 7 * day)\<bar>"

text \<open>A score below the threshold that no resolved intervention of the customer followed.\<close>

definition unanswered :: "am_db \<Rightarrow> history_row \<Rightarrow> bool" where
  "unanswered db h \<longleftrightarrow> num_less (hh_score h) HEALTH_ALERT_THRESHOLD
     \<and> \<not> list_ex (\<lambda>i. iv_customer_id i = hh_customer_id h \<and> iv_status i = V_resolved
          \<and> (case iv_resolved_at i of None \<Rightarrow> False | Some t \<Rightarrow> hh_recorded_at h < t)) (interventions db)"

fun earliest :: "timestamp list \<Rightarrow> timestamp option" where
  "earliest [] = None"
| "earliest (t # ts) = Some (fold min ts t)"

definition trend_of :: "js_number option \<Rightarrow> js_number option \<Rightarrow> trend" where
  "trend_of s old = (case (s, old) of
     (Some a, Some b) \<Rightarrow> (let delta = num_sub a b in
        if num_less (to_double (1 / 100)) delta then Up
        else if num_less delta (num_neg (to_double (1 / 100))) then Down else Stable)
   | _ \<Rightarrow> Stable)"

definition has_alert :: "js_number option \<Rightarrow> bool" where
  "has_alert s = (case s of None \<Rightarrow> False | Some a \<Rightarrow> num_less a HEALTH_ALERT_THRESHOLD)"

fun num_floor :: "js_number \<Rightarrow> js_number" where
  "num_floor (Finite x) = Finite (of_int \<lfloor>x\<rfloor>)"
| "num_floor a = a"

definition alert_days_of :: "(string \<Rightarrow> js_number) \<Rightarrow> timestamp \<Rightarrow> js_number option \<Rightarrow> timestamp option \<Rightarrow> js_number option" where
  "alert_days_of date_parse now s started =
     (if has_alert s
      then map_option (\<lambda>t. num_floor (num_div (num_sub (Finite (of_int (now div 1000))) (date_parse (timestamptz_text t)))
             (Finite 86400000))) started
      else None)"

text \<open>The common table expressions of the list query.\<close>

definition current_customers :: "string \<Rightarrow> am_db \<Rightarrow> am_customer list" where
  "current_customers am db = filter (\<lambda>c. am_account_manager_id c = Some am) (am_customers db)"

definition score_7d :: "timestamp \<Rightarrow> string \<Rightarrow> am_db \<Rightarrow> history_row list" where
  "score_7d now am db = distinct_on hh_customer_id []
     (sort_key (\<lambda>h. (hh_customer_id h, from_week now h))
       (filter (\<lambda>h. hh_customer_id h \<in> am_id ` set (current_customers am db) \<and> week_old now h) (score_history db)))"

definition alert_start :: "string \<Rightarrow> am_db \<Rightarrow> (string \<times> timestamp option) list" where
  "alert_start am db =
     (let rows = filter (\<lambda>h. hh_customer_id h \<in> am_id ` set (current_customers am db) \<and> unanswered db h) (score_history db)
      in map (\<lambda>k. (k, earliest (map hh_recorded_at (filter (\<lambda>h. hh_customer_id h = k) rows)))) (remdups (map hh_customer_id rows)))"

definition health_order :: "js_number option \<Rightarrow> nat \<times> rat" where
  "health_order s = (case s of None \<Rightarrow> (2, 0) | Some (Finite x) \<Rightarrow> (0, x) | Some _ \<Rightarrow> (1, 0))"

definition listCustomersForAccountManager ::
  "(string \<Rightarrow> js_number) \<Rightarrow> timestamp \<Rightarrow> timestamp \<Rightarrow> string \<Rightarrow> am_db \<Rightarrow> CustomerHealthRow list" where
  "listCustomersForAccountManager date_parse now now' am db =
     map (\<lambda>c. \<lparr>da_id = am_id c, da_company_name = am_company_name c, da_segment = am_segment c, da_health_score = am_health_score c,
            da_trend = trend_of (am_health_score c)
              (map_option hh_score (find (\<lambda>h. hh_customer_id h = am_id c) (score_7d now am db))),
            da_has_alert = has_alert (am_health_score c),
            da_alert_days = alert_days_of date_parse now' (am_health_score c)
              (Option.bind (map_of (alert_start am db) (am_id c)) id)\<rparr>)
       (sort_key (\<lambda>c. health_order (am_health_score c)) (current_customers am db))"

text \<open>The detail page reads each part with a statement of its own.\<close>

definition detail_history :: "(string \<Rightarrow> js_number) \<Rightarrow> timestamp \<Rightarrow> string \<Rightarrow> am_db \<Rightarrow> (string \<times> js_number) list" where
  "detail_history date_parse now k db =
     map (\<lambda>h. (timestamptz_text (hh_recorded_at h), hh_score h))
       (sort_key (\<lambda>h. health_order (Some (date_parse (timestamptz_text (hh_recorded_at h)))))
         (distinct_on (\<lambda>h. hh_recorded_at h div day) []
           (sort_key (\<lambda>h. (hh_recorded_at h div day, - hh_recorded_at h))
             (filter (\<lambda>h. hh_customer_id h = k \<and> now - 30 * day \<le> hh_recorded_at h) (score_history db)))))"

definition getCustomerHealthDetail ::
  "(string \<Rightarrow> js_number) \<Rightarrow> timestamp \<Rightarrow> timestamp \<Rightarrow> timestamp \<Rightarrow> string \<Rightarrow> string \<Rightarrow> am_db \<Rightarrow> CustomerHealthDetail option" where
  "getCustomerHealthDetail date_parse now now' now'' k am db =
     map_option (\<lambda>c. \<lparr>da_id = am_id c, da_company_name = am_company_name c, da_segment = am_segment c,
          da_health_score = am_health_score c,
          da_trend = trend_of (am_health_score c) (map_option hh_score
            (first_by (from_week now'') (\<lambda>h. hh_customer_id h = k \<and> week_old now'' h) (score_history db))),
          da_has_alert = has_alert (am_health_score c),
          da_alert_days = alert_days_of date_parse now' (am_health_score c)
            (earliest (map hh_recorded_at (filter (\<lambda>h. hh_customer_id h = k \<and> unanswered db h) (score_history db)))),
          dt_signals = distinct_on hg_source_label []
            (sort_key (\<lambda>s. (hg_source_label s, - hg_recorded_at s)) (filter (\<lambda>s. hg_customer_id s = k) (health_signals db))),
          dt_score_history = detail_history date_parse now k db\<rparr>)
       (find (\<lambda>c. am_id c = k \<and> am_account_manager_id c = Some am) (am_customers db))"

section \<open>The dashboard's endpoints\<close>

definition isSuperuser :: "string option \<Rightarrow> string \<Rightarrow> bool" where
  "isSuperuser superuser userId \<longleftrightarrow> Scoring.truthy superuser \<and> superuser = Some userId"

definition resolveActorRole :: "am_db \<Rightarrow> string \<Rightarrow> string option" where
  "resolveActorRole db u = Option.bind (find (\<lambda>e. us_id e = u \<and> us_type e = ''user'') (am_users db)) us_role"

definition am_allowed :: "string option \<Rightarrow> am_db \<Rightarrow> string \<Rightarrow> bool" where
  "am_allowed superuser db u \<longleftrightarrow> isSuperuser superuser u \<or> resolveActorRole db u = Some ''account_manager''"

datatype 'a am_response = Unauthorized | Forbidden | Not_found | Ok 'a

definition customers_endpoint ::
  "(string \<Rightarrow> js_number) \<Rightarrow> timestamp \<Rightarrow> timestamp \<Rightarrow> string option \<Rightarrow> string option \<Rightarrow> am_db \<Rightarrow> CustomerHealthRow list am_response" where
  "customers_endpoint date_parse now now' superuser user db = (case user of
     None \<Rightarrow> Unauthorized
   | Some u \<Rightarrow> if \<not> am_allowed superuser db u then Forbidden else Ok (listCustomersForAccountManager date_parse now now' u db))"

definition customer_detail_endpoint ::
  "(string \<Rightarrow> js_number) \<Rightarrow> timestamp \<Rightarrow> timestamp \<Rightarrow> timestamp \<Rightarrow> string option \<Rightarrow> string option \<Rightarrow> string \<Rightarrow> am_db
    \<Rightarrow> CustomerHealthDetail am_response" where
  "customer_detail_endpoint date_parse now now' now'' superuser user k db = (case user of
     None \<Rightarrow> Unauthorized
   | Some u \<Rightarrow> if \<not> am_allowed superuser db u then Forbidden
       else (case getCustomerHealthDetail date_parse now now' now'' k u db of None \<Rightarrow> Not_found | Some d \<Rightarrow> Ok d))"

section \<open>The list and the detail page agree\<close>














section \<open>One score a day\<close>

text \<open>A column with two decimals keeps a number from 0 to 100 one.\<close>

definition two_places :: "numeric_column \<Rightarrow> bool" where
  "two_places numeric \<longleftrightarrow> (\<forall>x. 0 \<le> x \<and> x \<le> 100 \<longrightarrow> (\<exists>y. numeric 5 2 (Finite x) = Some (Finite y) \<and> 0 \<le> y \<and> y \<le> 100))"

lemma round_cents_mono: "num_le a b \<Longrightarrow> num_le (round_cents a) (round_cents b)"
  unfolding round_cents_def by (intro num_div_mono num_round_mono num_mul_mono) simp_all

lemma full_signals:
  "round_cents (num_mul (num_mul (Finite 1) WEIGHT_DAYS_OVERDUE) (Finite 100)) = Finite 65"
  "round_cents (num_mul (num_mul (Finite 1) WEIGHT_BREACH_COUNT) (Finite 100)) = Finite 20"
  "round_cents (num_mul (num_mul (Finite 1) WEIGHT_ESCALATION) (Finite 100)) = Finite 15"
  by code_simp+

lemma signal_range:
  assumes "w \<in> {WEIGHT_DAYS_OVERDUE, WEIGHT_BREACH_COUNT, WEIGHT_ESCALATION}" "0 < y" "nonneg a"
  shows "\<exists>x. round_cents (num_mul (num_mul (num_min (num_div a (Finite y)) (Finite 1)) w) (Finite 100)) = Finite x \<and> 0 \<le> x \<and> x \<le> 100"
proof -
  let ?p = "num_min (num_div a (Finite y)) (Finite 1)" and ?f = "\<lambda>p. round_cents (num_mul (num_mul p w) (Finite 100))"
  obtain v where w: "w = Finite v" "0 < v" using weight_pos assms(1) by (metis empty_iff insert_iff)
  have mono: "num_le (?f a) (?f b)" if "num_le a b" for a b
    unfolding w(1) using that w(2) by (intro round_cents_mono num_mul_mono) simp_all
  have lo: "num_le (Finite 0) ?p" using penalty_mono(2) [OF assms(2,3), of a] assms(3) num_leD [of "Finite 0" a] by (simp add: nonneg_def)
  then have hi: "num_le ?p (Finite 1)" by (cases "num_div a (Finite y)") (auto simp: num_min_def)
  have "\<lfloor>1 / 2 :: rat\<rfloor> = 0" by (rule floor_unique) simp_all
  then have "?f (Finite 0) = Finite 0" unfolding w(1) round_cents_def using to_double_range(1) [of 0 0] by simp
  then have "num_le (Finite 0) (?f ?p)" using mono [OF lo] by simp
  moreover have "num_le (?f (Finite 1)) (Finite 100)" using assms(1) full_signals by (elim insertE emptyE) simp_all
  then have "num_le (?f ?p) (Finite 100)" by (rule num_le_trans [OF mono [OF hi]])
  ultimately have "num_le (Finite 0) (?f ?p)" "num_le (?f ?p) (Finite 100)" by simp_all
  then show ?thesis by (cases "?f ?p") auto
qed

lemma health_input_ok:
  assumes "signals_ok s" "two_places numeric"
  obtains row x where "score_row numeric uuid now (health_input d s) = Some row" "ch_score row = Finite x" "0 \<le> x" "x \<le> 100"
    "score_on (health_customer_id s) d row" "ch_computed_at row = now" "ch_id row = uuid"
    "numeric 5 2 (hs_score (computeHealthScore s)) = Some (ch_score row)"
proof -
  have N: "nonneg (sg_days_overdue s)" "nonneg (sg_breach_count s)" "nonneg (sg_escalation_level s)"
    using assms(1) by (simp_all add: signals_ok_def)
  have conv: "\<exists>z. numeric 5 2 a = Some z" if "\<exists>x. a = Finite x \<and> 0 \<le> x \<and> x \<le> 100" for a
    using that assms(2) unfolding two_places_def by blast
  let ?h = "computeHealthScore s"
  have "\<exists>z. numeric 5 2 (days_overdue_signal ?h) = Some z" "\<exists>z. numeric 5 2 (breach_count_signal ?h) = Some z"
    "\<exists>z. numeric 5 2 (escalation_signal ?h) = Some z"
    unfolding computeHealthScore_def Let_def health_score.simps by (rule conv, rule signal_range, simp_all add: N)+
  then obtain zd zb ze where z: "numeric 5 2 (days_overdue_signal ?h) = Some zd" "numeric 5 2 (breach_count_signal ?h) = Some zb"
    "numeric 5 2 (escalation_signal ?h) = Some ze" by blast
  obtain x where "numeric 5 2 (hs_score ?h) = Some (Finite x)" "0 \<le> x" "x \<le> 100"
    using health_range [OF assms(1)] assms(2) unfolding two_places_def by metis
  with z that show thesis by (simp add: score_row_def health_input_def Let_def score_on_def)
qed

definition levels_ok :: "ledger \<Rightarrow> bool" where
  "levels_ok db \<longleftrightarrow> (\<forall>c \<in> set (cases db). 0 \<le> cc_escalation_level c)"

lemma signals_sound: "levels_ok db \<Longrightarrow> signals_ok (computeHealthScoreSignals now now' k db)"
proof -
  assume L: "levels_ok db"
  have "0 \<le> fold max ls l" if "0 \<le> l" for l and ls :: "int list" using that by (induction ls arbitrary: l) auto
  moreover have "0 \<le> l" if "map cc_escalation_level (filter p (cases db)) = l # ls" for p l ls
    using L that unfolding levels_ok_def by (auto simp: map_eq_Cons_conv filter_eq_Cons_iff)
  ultimately have "0 \<le> worst_escalation k db" unfolding worst_escalation_def by (force split: list.split)
  moreover have "0 \<le> overdue_days now k db" by (simp add: overdue_days_def days_overdue_def split: option.split)
  ultimately show ?thesis by (simp add: signals_ok_def nonneg_def computeHealthScoreSignals_def)
qed

definition new_score :: "numeric_column \<Rightarrow> (nat \<Rightarrow> timestamp) \<Rightarrow> date \<Rightarrow> ledger \<Rightarrow> CustomerHealthScoreRow \<Rightarrow> bool" where
  "new_score numeric clk d db r \<longleftrightarrow> ch_score_date r = d \<and> (\<exists>i.
     numeric 5 2 (hs_score (computeHealthScore (computeHealthScoreSignals (clk i) (clk (i + 1)) (ch_customer_id r) db))) = Some (ch_score r))"

definition today :: "date \<Rightarrow> am_db \<Rightarrow> string \<Rightarrow> bool" where
  "today d db k \<longleftrightarrow> find (score_on k d) (health_scores db) \<noteq> None"

lemma health_step_outcome:
  assumes "fresh uuid" "two_places numeric" "mono clk" "0 \<le> clk 0" "clk (n + 3) < 2932897 * day"
    and "k \<in> am_id ` set (am_customers db)" "levels_ok (am_ledger db)"
    and past: "\<forall>r \<in> set (health_scores db). 0 \<le> ch_computed_at r \<and> ch_computed_at r \<le> clk (n + 2)"
  obtains "today d db k" "health_step numeric uuid clk d n k db = (Skipped, db)"
  | row where "\<not> today d db k" "health_step numeric uuid clk d n k db = (Skipped, db\<lparr>health_scores := health_scores db @ [row]\<rparr>)"
      "ch_customer_id row = k" "new_score numeric clk d (am_ledger db) row" "ch_computed_at row = clk (n + 2)"
proof -
  let ?s = "computeHealthScoreSignals (clk n) (clk (n + 1)) k (am_ledger db)" and ?ids = "map ch_id (health_scores db)"
  have id: "health_customer_id (computeHealthScoreSignals t t' k (am_ledger db)) = k" for t t'
    by (simp add: computeHealthScoreSignals_def)
  obtain row x where row: "score_row numeric (uuid ?ids) (clk (n + 2)) (health_input d ?s) = Some row" "ch_score row = Finite x" "0 \<le> x" "x \<le> 100"
    "score_on k d row" "ch_computed_at row = clk (n + 2)" "ch_id row = uuid ?ids"
    "numeric 5 2 (hs_score (computeHealthScore ?s)) = Some (ch_score row)"
    using health_input_ok [OF signals_sound [OF assms(7)] assms(2), of "uuid ?ids" "clk (n + 2)" d "clk n" "clk (n + 1)" k] id by metis
  have le: "clk (n + 2) \<le> clk (n + 3)" "0 \<le> clk (n + 2)" using assms(3,4) by (auto intro: monoD order_trans [OF assms(4)])
  have text_less: "timestamptz_text t < take 11 (toISOString (clk (n + 3)))" if "0 \<le> t" "t \<le> clk (n + 2)" for t
    using timestamptz_text_less [of t "clk (n + 3)"] that le assms(5) by simp
  have input: "si_customer_id (health_input d (computeHealthScoreSignals t t' k (am_ledger db))) = k"
    "si_score_date (health_input d (computeHealthScoreSignals t t' k (am_ledger db))) = d" for t t' by (simp_all add: health_input_def id Let_def)
  show thesis
  proof (cases "find (score_on k d) (health_scores db)")
    case (Some old)
    then have "old \<in> set (health_scores db)" by (auto simp: find_Some_iff)
    with past have "timestamptz_text (ch_computed_at old) < take 11 (toISOString (clk (n + 3)))" by (intro text_less) auto
    moreover have "upsertCustomerHealthScore numeric uuid (clk (n + 2)) (health_input d ?s) db = Inr (old, db)"
      using row Some by (simp add: upsertCustomerHealthScore_def input)
    ultimately show thesis using that(1) Some by (simp add: health_step_def today_def)
  next
    case None
    have "insert_row ch_id row (health_scores db) = Inr (health_scores db @ [row])"
      using assms(1) row(7) by (simp add: insert_row_def fresh_def) (metis list.set_map)
    then have "upsertCustomerHealthScore numeric uuid (clk (n + 2)) (health_input d ?s) db
        = Inr (row, db\<lparr>health_scores := health_scores db @ [row]\<rparr>)"
      using row None assms(6) by (simp add: upsertCustomerHealthScore_def input)
    moreover have "timestamptz_text (ch_computed_at row) < take 11 (toISOString (clk (n + 3)))" using row(6) le by (intro text_less) simp_all
    moreover have "ch_customer_id row = k" "ch_score_date row = d" using row(5) by (simp_all add: score_on_def)
    ultimately show thesis using that(2) [of row] None row(6,8) by (auto simp: health_step_def today_def new_score_def)
  qed
qed

lemma health_loop_outcome:
  assumes "fresh uuid" "two_places numeric" "mono clk" "0 \<le> clk 0"
  shows "clk (n + 5 * length ks) < 2932897 * day \<Longrightarrow> set ks \<subseteq> am_id ` set (am_customers db) \<Longrightarrow> distinct ks \<Longrightarrow> levels_ok (am_ledger db)
    \<Longrightarrow> \<forall>r \<in> set (health_scores db). 0 \<le> ch_computed_at r \<and> ch_computed_at r \<le> clk n
    \<Longrightarrow> \<exists>new. health_loop numeric uuid clk d n ks db = (replicate (length ks) Skipped, db\<lparr>health_scores := health_scores db @ new\<rparr>)
          \<and> map ch_customer_id new = filter (\<lambda>k. \<not> today d db k) ks \<and> (\<forall>r \<in> set new. new_score numeric clk d (am_ledger db) r)"
proof (induction ks arbitrary: n db)
  case (Cons k ks)
  have up: "clk i \<le> clk j" if "i \<le> j" for i j using assms(3) that by (rule monoD)
  have bound: "clk (n + 3) < 2932897 * day" "clk (n + 5 + 5 * length ks) < 2932897 * day"
    using Cons.prems(1) up [of "n + 3" "n + 5 * length (k # ks)"] by (simp_all add: add.assoc) 
  have past: "\<forall>r \<in> set (health_scores db). 0 \<le> ch_computed_at r \<and> ch_computed_at r \<le> clk (n + 2)"
    "\<forall>r \<in> set (health_scores db). 0 \<le> ch_computed_at r \<and> ch_computed_at r \<le> clk (n + 5)"
    using Cons.prems(5) up [of n "n + 2"] up [of n "n + 5"] order_trans by (metis le_add1)+
  have k: "k \<in> am_id ` set (am_customers db)" using Cons.prems(2) by simp
  note rest = Cons.IH [OF bound(2)]
  consider "today d db k" "health_step numeric uuid clk d n k db = (Skipped, db)"
    | row where "\<not> today d db k" "health_step numeric uuid clk d n k db = (Skipped, db\<lparr>health_scores := health_scores db @ [row]\<rparr>)"
      "ch_customer_id row = k" "new_score numeric clk d (am_ledger db) row" "ch_computed_at row = clk (n + 2)"
    by (rule health_step_outcome [OF assms bound(1) k Cons.prems(4) past(1)])
  then show ?case
  proof cases
    case 1
    from rest [of db] Cons.prems past(2) 1 show ?thesis by auto
  next
    case (2 row)
    let ?db = "db\<lparr>health_scores := health_scores db @ [row]\<rparr>"
    have now: "0 \<le> clk (n + 2)" "clk (n + 2) \<le> clk (n + 5)" using up [of 0 "n + 2"] up [of "n + 2" "n + 5"] assms(4) by simp_all
    have "today d ?db k' = today d db k'" if "k' \<in> set ks" for k'
    proof -
      have "k' \<noteq> k" using that Cons.prems(3) by auto
      then show ?thesis using 2(3) by (auto simp: today_def find_None_iff score_on_def)
    qed
    then have F: "filter (\<lambda>k. \<not> today d ?db k) ks = filter (\<lambda>k. \<not> today d db k) ks" by (intro filter_cong) simp_all
    obtain new where new: "health_loop numeric uuid clk d (n + 5) ks ?db
        = (replicate (length ks) Skipped, ?db\<lparr>health_scores := health_scores ?db @ new\<rparr>)"
      "map ch_customer_id new = filter (\<lambda>k. \<not> today d ?db k) ks" "\<forall>r \<in> set new. new_score numeric clk d (am_ledger db) r"
      using rest [of ?db] Cons.prems past(2) 2(5) now by auto
    show ?thesis by (rule exI [of _ "row # new"]) (use new 2 F in simp)
  qed
qed simp

lemma set_listCustomers: "set (listCustomersForHealthScore db) = inv_customer_id ` set (invoices db)"
  "distinct (listCustomersForHealthScore db)"
  by (simp_all add: listCustomersForHealthScore_def)

definition health_worker_task :: "(health_report \<Rightarrow> json) \<Rightarrow> health_report \<Rightarrow> CronTaskOptions" where
  "health_worker_task render rep = daily ''health_score_worker_run'' (render rep) (''health-score-worker-'' @ hr_run_date rep)"

text \<open>C33: A run of the worker stores one score for each customer with an invoice that has none of the day yet, computed from the
  signals of the ledger at its time, and keeps every older score; none of these customers is lost to an error. Beside that it
  enqueues its report task, at most one row at the end of the queue, and writes nothing else; if the enqueue fails, the scores
  stay and the job throws. Every one of these customers counts as skipped, and \<^verbatim>\<open>rl_customers.health_score\<close>, which the dashboard
  reads, is never written, since the text of the time a row was computed is always less than the first eleven characters of
  the ISO date.\<close>

theorem health_worker_daily:
  assumes "fresh uuid" "two_places numeric" "mono clk" "0 \<le> clk 0"
    and "clk (1 + 5 * length (listCustomersForHealthScore (am_ledger db))) < 2932897 * day"
    and "inv_customer_id ` set (invoices (am_ledger db)) \<subseteq> am_id ` set (am_customers db)" "levels_ok (am_ledger db)"
    and "\<forall>r \<in> set (health_scores db). 0 \<le> ch_computed_at r \<and> ch_computed_at r \<le> clk 0"
    and "health_score_job render numeric uuid taskId clk db = (rep, returned, db')"
  shows "\<exists>new tasks. db' = db\<lparr>health_scores := health_scores db @ new, am_queue := am_queue db @ tasks\<rparr>
    \<and> map ch_customer_id new = filter (\<lambda>k. \<not> today (clk 0 div day) db k) (listCustomersForHealthScore (am_ledger db))
    \<and> (\<forall>r \<in> set new. new_score numeric clk (clk 0 div day) (am_ledger db) r)
    \<and> hr_errors rep = 0 \<and> hr_computed rep = 0 \<and> hr_skipped rep = length (listCustomersForHealthScore (am_ledger db))
    \<and> length tasks \<le> 1
    \<and> (case enqueueCronTask ''health-score-worker'' taskId (clk (5 * length (listCustomersForHealthScore (am_ledger db)) + 1))
              (hr_run_date rep) (health_worker_task render rep) (am_queue db) of
         Inl e \<Rightarrow> \<not> returned \<and> tasks = []
       | Inr q \<Rightarrow> returned \<and> q = am_queue db @ tasks)"
proof -
  let ?ks = "listCustomersForHealthScore (am_ledger db)"
  have "clk 0 \<le> clk 1" using assms(3) by (rule monoD) simp
  then have past: "\<forall>r \<in> set (health_scores db). 0 \<le> ch_computed_at r \<and> ch_computed_at r \<le> clk 1" using assms(8) by force
  obtain new where new: "health_loop numeric uuid clk (clk 0 div day) 1 ?ks db
      = (replicate (length ?ks) Skipped, db\<lparr>health_scores := health_scores db @ new\<rparr>)"
    "map ch_customer_id new = filter (\<lambda>k. \<not> today (clk 0 div day) db k) ?ks"
    "\<forall>r \<in> set new. new_score numeric clk (clk 0 div day) (am_ledger db) r"
    using health_loop_outcome [OF assms(1-4,5) _ set_listCustomers(2) assms(7) past, of "clk 0 div day"] assms(6)
    unfolding set_listCustomers(1) by blast
  have len: "length (filter (\<lambda>r. r = Computed) (replicate m Skipped)) = 0" "length (filter (\<lambda>r. r = Failed) (replicate m Skipped)) = 0"
    "length (filter (\<lambda>r. r = Skipped) (replicate m Skipped)) = m" for m by simp_all
  note run = assms(9) [unfolded health_score_job_def Let_def new(1) prod.case len]
  let ?e = "enqueueCronTask ''health-score-worker'' taskId (clk (5 * length ?ks + 1)) (hr_run_date rep)
    (health_worker_task render rep) (am_queue db)"
  have rep: "hr_errors rep = 0" "hr_computed rep = 0" "hr_skipped rep = length ?ks"
    and fin: "(returned, db') = (case ?e of Inl e \<Rightarrow> (False, db\<lparr>health_scores := health_scores db @ new\<rparr>)
      | Inr q \<Rightarrow> (True, db\<lparr>health_scores := health_scores db @ new, am_queue := q\<rparr>))"
    using run by (auto simp: health_worker_task_def split: sum.splits)
  show ?thesis
  proof (cases ?e)
    case (Inl e)
    then show ?thesis using fin rep new(2,3) by (intro exI [of _ new] exI [of _ "[]"]) simp
  next
    case (Inr q)
    then obtain tasks where "q = am_queue db @ tasks" "length tasks \<le> 1" by (rule enqueueCronTask_appends)
    with Inr show ?thesis using fin rep new(2,3) by (intro exI [of _ new] exI [of _ tasks]) simp
  qed
qed

definition demo_am :: am_db where
  "demo_am = \<lparr>am_ledger = demo_ledger I_sent, am_customers = [\<lparr>am_id = ''c'', am_company_name = ''Acme'', am_segment = None,
     am_account_manager_id = Some ''am'', am_health_score = Some (Finite (1 / 2)), am_updated_at = 0\<rparr>], health_scores = [], score_history = [],
     health_signals = [], interventions = [], escalations = [],
     am_users = [\<lparr>us_id = ''am'', us_type = ''user'', us_role = Some ''account_manager'', us_created_at = 0\<rparr>], am_queue = []\<rparr>"

definition sample_numeric :: numeric_column where
  "sample_numeric p s x = Some x"

lemma sample_clock: "mono (\<lambda>i. 40 * day + int i)"
  by (simp add: mono_def)

theorem health_worker_daily_witness:
  "\<exists>rep db' t. health_score_job (\<lambda>_. ''{}'') sample_numeric long_uuid ''t'' (\<lambda>i. 40 * day + int i) demo_am = (rep, True, db')
    \<and> map ch_customer_id (health_scores db') = [''c''] \<and> am_customers db' = am_customers demo_am \<and> hr_skipped rep = 1
    \<and> am_queue db' = [t]"
proof -
  have L: "invoices (am_ledger demo_am) = invoices (demo_ledger I_sent)" "map inv_customer_id (invoices (am_ledger demo_am)) = [''c'']"
    by (simp_all add: demo_am_def demo_ledger_def)
  have ks: "listCustomersForHealthScore (am_ledger demo_am) = [''c'']" using L(2) by (simp add: listCustomersForHealthScore_def)
  have two: "two_places sample_numeric" by (simp add: two_places_def sample_numeric_def)
  let ?clk = "\<lambda>i. 40 * day + int i"
  have levels: "levels_ok (am_ledger demo_am)" by (simp add: levels_ok_def demo_am_def demo_ledger_def empty_ledger_def)
  have owned: "inv_customer_id ` set (invoices (am_ledger demo_am)) \<subseteq> am_id ` set (am_customers demo_am)"
    by (simp add: demo_am_def demo_ledger_def)
  have past: "\<forall>r \<in> set (health_scores demo_am). 0 \<le> ch_computed_at r \<and> ch_computed_at r \<le> ?clk 0" by (simp add: demo_am_def)
  have c: "0 \<le> ?clk 0" "?clk (1 + 5 * length (listCustomersForHealthScore (am_ledger demo_am))) < 2932897 * day"
    unfolding ks by (simp_all add: day_def second_def)
  obtain rep r db' where run: "health_score_job (\<lambda>_. ''{}'') sample_numeric long_uuid ''t'' ?clk demo_am = (rep, r, db')"
    by (cases "health_score_job (\<lambda>_. ''{}'') sample_numeric long_uuid ''t'' ?clk demo_am")
  note daily_run = health_worker_daily [where clk = ?clk and db = demo_am and uuid = long_uuid and numeric = sample_numeric,
      OF fresh_long_uuid two sample_clock c owned levels past run]
  have empty: "am_queue demo_am = []" "health_scores demo_am = []" by (simp_all add: demo_am_def)
  have "\<exists>t. enqueueCronTask j u w cl opts [] = Inr [t]" for j u w cl opts
    by (simp add: enqueueCronTask_def enqueueTask_def insert_row_def Let_def)
  then obtain t where t: "enqueueCronTask ''health-score-worker'' ''t'' (?clk (5 * length (listCustomersForHealthScore (am_ledger demo_am)) + 1))
    (hr_run_date rep) (health_worker_task (\<lambda>_. ''{}'') rep) [] = Inr [t]" by blast
  obtain new tasks where
    new: "db' = demo_am\<lparr>health_scores := health_scores demo_am @ new, am_queue := am_queue demo_am @ tasks\<rparr>
      \<and> map ch_customer_id new = filter (\<lambda>k. \<not> today (?clk 0 div day) demo_am k) (listCustomersForHealthScore (am_ledger demo_am))
      \<and> (\<forall>r \<in> set new. new_score sample_numeric ?clk (?clk 0 div day) (am_ledger demo_am) r)
      \<and> hr_errors rep = 0 \<and> hr_computed rep = 0 \<and> hr_skipped rep = length (listCustomersForHealthScore (am_ledger demo_am))
      \<and> length tasks \<le> 1 \<and> r \<and> [t] = tasks"
    using daily_run unfolding empty t sum.case append_Nil by (elim exE)
  then have t: "r" "tasks = [t]" by simp_all
  have "\<not> today (?clk 0 div day) demo_am ''c''" by (simp add: today_def empty)
  then have "map ch_customer_id (health_scores db') = [''c'']" "am_customers db' = am_customers demo_am" "am_queue db' = [t]"
    "hr_skipped rep = 1" using new t(2) by (simp_all add: ks empty)
  with run t(1) show ?thesis by (intro exI [of _ rep] exI [of _ db'] exI [of _ t]) simp
qed



end
