(* ===== verification/Interventions.thy ===== *)
theory Interventions
  imports Customer_Health
begin

text \<open>
  The account managers' interventions: \<^verbatim>\<open>src/packages/db/interventions.ts\<close>, the endpoints of
  \<^verbatim>\<open>src/apps/server/src/api/interventions.ts\<close> and the escalation job
  \<^verbatim>\<open>src/apps/server/src/cron/jobs/intervention-escalation.ts\<close>, on the tables of \<open>Customer_Health\<close>.

  A request's user is the authenticated one, if any; a member of its JSON body is a \<open>field\<close>. The laws: the tables stay well-formed under
  every sequence of requests and jobs, an intervention changes only through its assignee or the superuser, and a run of the
  job escalates exactly the customers whose only active intervention is open and old enough.
\<close>

section \<open>Rows\<close>

record CreateInterventionOptions =
  cv_customer_id :: string
  cv_playbook :: InterventionPlaybook
  cv_assigned_to :: string
  cv_notes :: "string option"
  cv_trigger_type :: "string option"

record UpdateInterventionOptions =
  ui_status :: "InterventionStatus option"
  ui_outcome :: "string option option"

definition active_status :: "InterventionStatus \<Rightarrow> bool" where
  "active_status s \<longleftrightarrow> s = V_open \<or> s = V_in_progress"

definition customerHasOpenCollectionCase :: "string \<Rightarrow> am_db \<Rightarrow> bool" where
  "customerHasOpenCollectionCase k db =
     list_ex (\<lambda>c. case_customer (am_ledger db) c = Some k \<and> cc_status c \<in> {C_open, C_escalated}) (cases (am_ledger db))"

definition hasActiveIntervention :: "string \<Rightarrow> am_db \<Rightarrow> bool" where
  "hasActiveIntervention k db = list_ex (\<lambda>i. iv_customer_id i = k \<and> active_status (iv_status i)) (interventions db)"

definition new_intervention :: "string \<Rightarrow> timestamp \<Rightarrow> CreateInterventionOptions \<Rightarrow> InterventionRow" where
  "new_intervention uuid now opts =
     \<lparr>iv_id = uuid, iv_customer_id = cv_customer_id opts,
      iv_trigger_type = (case cv_trigger_type opts of None \<Rightarrow> ''manual'' | Some t \<Rightarrow> t),
      iv_playbook = Some (cv_playbook opts), iv_assigned_to = Some (cv_assigned_to opts), iv_status = V_open,
      iv_outcome = cv_notes opts, iv_created_at = now, iv_resolved_at = None, iv_updated_at = now\<rparr>"

definition createIntervention ::
  "(string list \<Rightarrow> string) \<Rightarrow> timestamp \<Rightarrow> CreateInterventionOptions \<Rightarrow> am_db \<Rightarrow> db_error + (InterventionRow \<times> bool \<times> am_db)" where
  "createIntervention uuid now opts db =
     (let row = new_intervention (uuid (map iv_id (interventions db))) now opts
      in case insert_row iv_id row (interventions db) of
           Inl e \<Rightarrow> Inl e
         | Inr t \<Rightarrow>
             if cv_customer_id opts \<notin> am_id ` set (am_customers db) then Inl (ForeignKeyViolation ''customer_id'')
             else let db' = db\<lparr>interventions := t\<rparr> in Inr (row, customerHasOpenCollectionCase (cv_customer_id opts) db', db'))"

text \<open>\<^verbatim>\<open>COALESCE\<close> keeps the old value for an option that is absent or null.\<close>

definition updated_intervention :: "timestamp \<Rightarrow> UpdateInterventionOptions \<Rightarrow> InterventionRow \<Rightarrow> InterventionRow" where
  "updated_intervention now opts r =
     r\<lparr>iv_status := (case ui_status opts of None \<Rightarrow> iv_status r | Some s \<Rightarrow> s),
       iv_outcome := (case ui_outcome opts of Some (Some t) \<Rightarrow> Some t | _ \<Rightarrow> iv_outcome r),
       iv_resolved_at := (if ui_status opts = Some V_resolved \<and> iv_resolved_at r = None then Some now else iv_resolved_at r),
       iv_updated_at := now\<rparr>"

definition updateIntervention :: "timestamp \<Rightarrow> string \<Rightarrow> UpdateInterventionOptions \<Rightarrow> am_db \<Rightarrow> InterventionRow option \<times> am_db" where
  "updateIntervention now i opts db =
     (let t = update_where (\<lambda>r. iv_id r = i) (updated_intervention now opts) (interventions db)
      in (find_row iv_id i t, db\<lparr>interventions := t\<rparr>))"

definition getIntervention :: "string \<Rightarrow> am_db \<Rightarrow> InterventionRow option" where
  "getIntervention i db = find_row iv_id i (interventions db)"

definition listInterventionsForCustomer :: "string \<Rightarrow> am_db \<Rightarrow> InterventionRow list" where
  "listInterventionsForCustomer k db = sort_key iv_created_at (filter (\<lambda>r. iv_customer_id r = k) (interventions db))"

definition getAssignedAccountManager :: "string \<Rightarrow> am_db \<Rightarrow> string option" where
  "getAssignedAccountManager k db = Option.bind (find_row am_id k (am_customers db)) am_account_manager_id"

text \<open>The account manager is not looked at.\<close>

definition getTeamLeadForUser :: "string \<Rightarrow> am_db \<Rightarrow> string option" where
  "getTeamLeadForUser userId db =
     map_option us_id (first_by us_created_at (\<lambda>e. us_type e = ''user'' \<and> us_role e = Some ''team_lead'') (am_users db))"

section \<open>Escalation\<close>

record EscalationCandidate =
  ec_intervention_id :: string
  ec_customer_id :: string
  ec_days_open :: int

datatype escalation_error = Timestamp_out_of_range | Escalation_db db_error

text \<open>The earliest time stamp of PostgreSQL, 4714-11-24 BC.\<close>

definition MIN_TIMESTAMP :: timestamp where
  "MIN_TIMESTAMP = - 210866803200 * second"

definition needs_escalation :: "timestamp \<Rightarrow> int \<Rightarrow> am_db \<Rightarrow> InterventionRow \<Rightarrow> bool" where
  "needs_escalation now minDays db i \<longleftrightarrow> iv_status i = V_open \<and> iv_created_at i \<le> now - minDays * day
     \<and> \<not> list_ex (\<lambda>other. iv_customer_id other = iv_customer_id i \<and> active_status (iv_status other) \<and> iv_id other \<noteq> iv_id i)
           (interventions db)"

definition listAlertsNeedingEscalation :: "timestamp \<Rightarrow> int \<Rightarrow> am_db \<Rightarrow> escalation_error + EscalationCandidate list" where
  "listAlertsNeedingEscalation now minDays db =
     (if now - minDays * day < MIN_TIMESTAMP then Inl Timestamp_out_of_range
      else Inr (map (\<lambda>i. \<lparr>ec_intervention_id = iv_id i, ec_customer_id = iv_customer_id i,
                   ec_days_open = (now - iv_created_at i) div day\<rparr>)
             (distinct_on iv_customer_id []
               (sort_key (\<lambda>i. (iv_customer_id i, iv_created_at i)) (filter (needs_escalation now minDays db) (interventions db))))))"

definition escalation_of :: "string \<Rightarrow> string \<Rightarrow> AmEscalationRow \<Rightarrow> bool" where
  "escalation_of i u r \<longleftrightarrow> ae_intervention_id r = i \<and> ae_notified_user_id r = u"

definition createEscalationNotification ::
  "(string list \<Rightarrow> string) \<Rightarrow> timestamp \<Rightarrow> EscalationCandidate \<Rightarrow> string \<Rightarrow> am_db \<Rightarrow> db_error + (AmEscalationRow \<times> am_db)" where
  "createEscalationNotification uuid now c userId db =
     (let hit = escalation_of (ec_intervention_id c) userId; upd = (\<lambda>r. r\<lparr>ae_days_open := ec_days_open c\<rparr>)
      in case find hit (escalations db) of
           Some r \<Rightarrow> Inr (upd r, db\<lparr>escalations := update_where hit upd (escalations db)\<rparr>)
         | None \<Rightarrow>
             let row = \<lparr>ae_row_id = uuid (map ae_row_id (escalations db)), ae_intervention_id = ec_intervention_id c,
                   ae_customer_id = ec_customer_id c, ae_notified_user_id = userId, ae_days_open = ec_days_open c,
                   ae_row_created_at = now\<rparr>
             in case insert_row ae_row_id row (escalations db) of
                  Inl e \<Rightarrow> Inl e
                | Inr t \<Rightarrow>
                    if ec_intervention_id c \<notin> iv_id ` set (interventions db) then Inl (ForeignKeyViolation ''intervention_id'')
                    else if ec_customer_id c \<notin> am_id ` set (am_customers db) then Inl (ForeignKeyViolation ''customer_id'')
                    else Inr (row, db\<lparr>escalations := t\<rparr>))"

definition DEFAULT_ESCALATION_DAYS :: int where
  "DEFAULT_ESCALATION_DAYS = 3"

definition readEscalationDays :: "string option \<Rightarrow> int" where
  "readEscalationDays raw =
     (if \<not> Scoring.truthy raw then DEFAULT_ESCALATION_DAYS
      else case parseInt (the raw) of
        Finite x \<Rightarrow> if 0 < x then \<lfloor>x\<rfloor> else DEFAULT_ESCALATION_DAYS
      | _ \<Rightarrow> DEFAULT_ESCALATION_DAYS)"

text \<open>The loop stops at the first error; the rows before it stay.\<close>

fun processEscalationCandidates ::
  "(string list \<Rightarrow> string) \<Rightarrow> (nat \<Rightarrow> timestamp) \<Rightarrow> nat \<Rightarrow> EscalationCandidate list \<Rightarrow> nat \<Rightarrow> am_db \<Rightarrow> (db_error + nat) \<times> am_db" where
  "processEscalationCandidates uuid clk n [] created db = (Inr created, db)"
| "processEscalationCandidates uuid clk n (c # cs) created db =
     (let amId = getAssignedAccountManager (ec_customer_id c) db;
          teamLeadId = getTeamLeadForUser (case amId of None \<Rightarrow> [] | Some u \<Rightarrow> u) db
      in if \<not> Scoring.truthy teamLeadId then processEscalationCandidates uuid clk (n + 1) cs created db
         else case createEscalationNotification uuid (clk n) c (the teamLeadId) db of
                Inl e \<Rightarrow> (Inl e, db)
              | Inr (row, db') \<Rightarrow> processEscalationCandidates uuid clk (n + 1) cs (created + 1) db')"

record escalation_report =
  er_run_date :: string
  er_escalation_days :: int
  er_candidates_found :: nat
  er_escalations_created :: nat

definition intervention_escalation_job ::
  "(escalation_report \<Rightarrow> json) \<Rightarrow> (string list \<Rightarrow> string) \<Rightarrow> string \<Rightarrow> string option \<Rightarrow> (nat \<Rightarrow> timestamp) \<Rightarrow> am_db \<Rightarrow> bool \<times> am_db" where
  "intervention_escalation_job render uuid taskId raw clk db =
     (let runDate = take 10 (toISOString (clk 0)); days = readEscalationDays raw
      in case listAlertsNeedingEscalation (clk 1) days db of
           Inl e \<Rightarrow> (False, db)
         | Inr candidates \<Rightarrow>
             (case processEscalationCandidates uuid clk 2 candidates 0 db of
                (Inl e, db') \<Rightarrow> (False, db')
              | (Inr created, db') \<Rightarrow>
                  let rep = \<lparr>er_run_date = runDate, er_escalation_days = days, er_candidates_found = length candidates,
                        er_escalations_created = created\<rparr>
                  in (case enqueueCronTask ''intervention-escalation'' taskId (clk (length candidates + 2)) runDate
                             (daily ''intervention_escalation_run'' (render rep) (''intervention-escalation-'' @ runDate)) (am_queue db') of
                        Inl e \<Rightarrow> (False, db')
                      | Inr q \<Rightarrow> (True, db'\<lparr>am_queue := q\<rparr>))))"

section \<open>Endpoints\<close>

datatype field = Missing | Null | Str string | Other

datatype 'b body = Not_json | Not_object | Object 'b

record create_body =
  cb_customer_id :: field
  cb_playbook :: field
  cb_assigned_to :: field
  cb_notes :: field

record patch_body =
  pb_status :: field
  pb_outcome :: field

definition playbook_of :: "field \<Rightarrow> InterventionPlaybook option" where
  "playbook_of f = (case f of
     Str s \<Rightarrow> map_of [(''success_call'', Success_call), (''training'', Training), (''executive_sponsor'', Executive_sponsor)] s
   | _ \<Rightarrow> None)"

definition intervention_status_of :: "field \<Rightarrow> InterventionStatus option" where
  "intervention_status_of f = (case f of
     Str s \<Rightarrow> map_of [(''open'', V_open), (''in_progress'', V_in_progress), (''resolved'', V_resolved), (''escalated'', V_escalated)] s
   | _ \<Rightarrow> None)"

text \<open>A string with something besides white space, and a value that may be left out.\<close>

definition filled :: "field \<Rightarrow> bool" where
  "filled f \<longleftrightarrow> (case f of Str s \<Rightarrow> \<not> list_all white s | _ \<Rightarrow> False)"

definition optional_text :: "field \<Rightarrow> string option option" where
  "optional_text f = (case f of Missing \<Rightarrow> None | Null \<Rightarrow> Some None | Str s \<Rightarrow> Some (Some s) | Other \<Rightarrow> None)"

fun str_of :: "field \<Rightarrow> string" where
  "str_of (Str s) = s"
| "str_of _ = ''''"

datatype iv_response =
    Iv_unauthorized | Iv_forbidden | Iv_not_found | Iv_server_error
  | Iv_bad_request string
  | Iv_created InterventionRow bool
  | Iv_updated InterventionRow
  | Iv_list "InterventionRow list"

definition post_intervention ::
  "string option \<Rightarrow> (string list \<Rightarrow> string) \<Rightarrow> timestamp \<Rightarrow> string option \<Rightarrow> create_body body \<Rightarrow> am_db \<Rightarrow> iv_response \<times> am_db" where
  "post_intervention superuser uuid now user req db = (case user of
     None \<Rightarrow> (Iv_unauthorized, db)
   | Some u \<Rightarrow>
       if \<not> am_allowed superuser db u then (Iv_forbidden, db)
       else case req of
         Not_json \<Rightarrow> (Iv_bad_request ''Invalid JSON body'', db)
       | Not_object \<Rightarrow> (Iv_bad_request ''Request body must be a JSON object'', db)
       | Object b \<Rightarrow>
           if \<not> filled (cb_customer_id b) then (Iv_bad_request ''customer_id is required and must be a non-empty string'', db)
           else if playbook_of (cb_playbook b) = None
             then (Iv_bad_request ''playbook is required and must be one of: success_call, training, executive_sponsor'', db)
           else if \<not> filled (cb_assigned_to b) then (Iv_bad_request ''assigned_to is required and must be a non-empty string'', db)
           else if cb_notes b = Other then (Iv_bad_request ''notes must be a string or null'', db)
           else if \<not> isSuperuser superuser u \<and> getAssignedAccountManager (str_of (cb_customer_id b)) db \<noteq> Some u then (Iv_forbidden, db)
           else (case createIntervention uuid now
                   \<lparr>cv_customer_id = str_of (cb_customer_id b), cv_playbook = the (playbook_of (cb_playbook b)),
                    cv_assigned_to = str_of (cb_assigned_to b), cv_notes = Option.bind (optional_text (cb_notes b)) id,
                    cv_trigger_type = None\<rparr> db of
                   Inl e \<Rightarrow> (Iv_server_error, db)
                 | Inr (row, collections_active, db') \<Rightarrow> (Iv_created row collections_active, db')))"

definition patch_intervention ::
  "string option \<Rightarrow> timestamp \<Rightarrow> string option \<Rightarrow> string \<Rightarrow> patch_body body \<Rightarrow> am_db \<Rightarrow> iv_response \<times> am_db" where
  "patch_intervention superuser now user i req db = (case user of
     None \<Rightarrow> (Iv_unauthorized, db)
   | Some u \<Rightarrow>
       if \<not> am_allowed superuser db u then (Iv_forbidden, db)
       else case getIntervention i db of
         None \<Rightarrow> (Iv_not_found, db)
       | Some existing \<Rightarrow>
           if \<not> isSuperuser superuser u \<and> iv_assigned_to existing \<noteq> Some u then (Iv_forbidden, db)
           else case req of
             Not_json \<Rightarrow> (Iv_bad_request ''Invalid JSON body'', db)
           | Not_object \<Rightarrow> (Iv_bad_request ''Request body must be a JSON object'', db)
           | Object b \<Rightarrow>
               if pb_status b \<noteq> Missing \<and> intervention_status_of (pb_status b) = None
                 then (Iv_bad_request ''status must be one of: open, in_progress, resolved, escalated'', db)
               else if pb_outcome b = Other then (Iv_bad_request ''outcome must be a string or null'', db)
               else (case updateIntervention now i \<lparr>ui_status = intervention_status_of (pb_status b), ui_outcome = optional_text (pb_outcome b)\<rparr> db of
                       (None, db') \<Rightarrow> (Iv_not_found, db')
                     | (Some row, db') \<Rightarrow> (Iv_updated row, db')))"

definition list_interventions :: "string option \<Rightarrow> string option \<Rightarrow> string option \<Rightarrow> am_db \<Rightarrow> iv_response" where
  "list_interventions superuser user customerId db = (case user of
     None \<Rightarrow> Iv_unauthorized
   | Some u \<Rightarrow>
       if \<not> am_allowed superuser db u then Iv_forbidden
       else if \<not> Scoring.truthy customerId then Iv_bad_request ''customer_id query parameter is required''
       else Iv_list (listInterventionsForCustomer (the customerId) db))"

section \<open>Well-formed tables\<close>

definition interventions_wf :: "string set \<Rightarrow> InterventionRow list \<Rightarrow> bool" where
  "interventions_wf ks t \<longleftrightarrow> distinct (map iv_id t)
     \<and> (\<forall>r \<in> set t. iv_customer_id r \<in> ks \<and> (iv_status r = V_resolved \<longrightarrow> iv_resolved_at r \<noteq> None))"

definition escalations_wf :: "string set \<Rightarrow> string set \<Rightarrow> AmEscalationRow list \<Rightarrow> bool" where
  "escalations_wf ks ivs t \<longleftrightarrow> distinct (map ae_row_id t) \<and> distinct (map (\<lambda>r. (ae_intervention_id r, ae_notified_user_id r)) t)
     \<and> (\<forall>r \<in> set t. ae_intervention_id r \<in> ivs \<and> ae_customer_id r \<in> ks)"

definition scores_wf :: "string set \<Rightarrow> CustomerHealthScoreRow list \<Rightarrow> bool" where
  "scores_wf ks t \<longleftrightarrow> distinct (map ch_id t) \<and> distinct (map (\<lambda>r. (ch_customer_id r, ch_score_date r)) t)
     \<and> (\<forall>r \<in> set t. ch_customer_id r \<in> ks \<and> num_le (Finite 0) (ch_score r) \<and> num_le (ch_score r) (Finite 100))"

definition am_wf :: "am_db \<Rightarrow> bool" where
  "am_wf db \<longleftrightarrow> (let ks = am_id ` set (am_customers db) in
     distinct (map am_id (am_customers db)) \<and> interventions_wf ks (interventions db)
     \<and> escalations_wf ks (iv_id ` set (interventions db)) (escalations db) \<and> scores_wf ks (health_scores db))"

text \<open>What no operation takes back: a row keeps its identity, a resolution its time, a score its value.\<close>

definition intervention_kept :: "InterventionRow \<Rightarrow> InterventionRow \<Rightarrow> bool" where
  "intervention_kept r r' \<longleftrightarrow> (\<exists>s out res upd. r' = r\<lparr>iv_status := s, iv_outcome := out, iv_resolved_at := res, iv_updated_at := upd\<rparr>
     \<and> (iv_resolved_at r \<noteq> None \<longrightarrow> res = iv_resolved_at r) \<and> (iv_outcome r \<noteq> None \<longrightarrow> out \<noteq> None))"

definition am_evolves :: "am_db \<Rightarrow> am_db \<Rightarrow> bool" where
  "am_evolves db db' \<longleftrightarrow> am_ledger db' = am_ledger db \<and> am_users db' = am_users db
     \<and> map (\<lambda>c. c\<lparr>am_health_score := None, am_updated_at := 0\<rparr>) (am_customers db')
       = map (\<lambda>c. c\<lparr>am_health_score := None, am_updated_at := 0\<rparr>) (am_customers db)
     \<and> (\<forall>r \<in> set (interventions db). \<exists>r' \<in> set (interventions db'). intervention_kept r r')
     \<and> (\<forall>r \<in> set (escalations db). \<exists>d. r\<lparr>ae_days_open := d\<rparr> \<in> set (escalations db'))
     \<and> (\<exists>new. health_scores db' = health_scores db @ new)"

definition am_keeps :: "am_db \<Rightarrow> am_db \<Rightarrow> bool" where
  "am_keeps db db' \<longleftrightarrow> (am_wf db \<longrightarrow> am_wf db' \<and> am_evolves db db')"

lemma intervention_kept_refl: "intervention_kept r r"
  unfolding intervention_kept_def
  by (intro exI [of _ "iv_status r"] exI [of _ "iv_outcome r"] exI [of _ "iv_resolved_at r"] exI [of _ "iv_updated_at r"]) simp

lemma intervention_kept_trans: "intervention_kept r r' \<Longrightarrow> intervention_kept r' r'' \<Longrightarrow> intervention_kept r r''"
  unfolding intervention_kept_def by (elim exE conjE) (simp, blast)

lemma escalation_same: "r\<lparr>ae_days_open := ae_days_open r\<rparr> = (r :: AmEscalationRow)"
  by simp

lemma am_evolves_trans: "am_evolves a b \<Longrightarrow> am_evolves b c \<Longrightarrow> am_evolves a c"
  unfolding am_evolves_def
proof (elim conjE, intro conjI, goal_cases)
  case 4 then show ?case by (meson intervention_kept_trans)
next
  case 5
  then show ?case by (metis AmEscalationRow.update_convs(5) AmEscalationRow.surjective)
qed auto

lemma am_evolves_refl: "am_evolves db db"
  unfolding am_evolves_def using intervention_kept_refl escalation_same by (metis append_Nil2)

lemma am_keeps_refl: "am_keeps db db"
  by (simp add: am_keeps_def am_evolves_refl)

lemma am_keeps_trans: "am_keeps a b \<Longrightarrow> am_keeps b c \<Longrightarrow> am_keeps a c"
  unfolding am_keeps_def using am_evolves_trans by blast

subsection \<open>Every statement keeps them\<close>

lemma keeps_queue: "am_keeps db (db\<lparr>am_queue := q\<rparr>)"
  using am_evolves_refl [of db] by (simp add: am_keeps_def am_wf_def am_evolves_def)

interpretation updated: row_update iv_id "updated_intervention now opts" for now opts
  by unfold_locales (simp add: updated_intervention_def)

lemma updated_kept: "intervention_kept r (updated_intervention now opts r)"
  unfolding intervention_kept_def updated_intervention_def
  by (intro exI conjI, rule refl) (auto split: option.splits)

lemma am_keeps_create: "createIntervention uuid now opts db = Inr (row, b, db') \<Longrightarrow> am_keeps db db'"
  using am_evolves_refl [of db]
  by (auto simp: createIntervention_def Let_def insert_row_def new_intervention_def am_keeps_def am_wf_def interventions_wf_def
        escalations_wf_def am_evolves_def split: sum.splits if_splits)

lemma am_keeps_update: "am_keeps db (snd (updateIntervention now i opts db))"
proof -
  let ?upd = "\<lambda>r. if iv_id r = i then updated_intervention now opts r else r"
  let ?t = "map ?upd (interventions db)"
  have db: "snd (updateIntervention now i opts db) = db\<lparr>interventions := ?t\<rparr>"
    by (simp add: updateIntervention_def Let_def update_where_def)
  have id: "iv_id (?upd r) = iv_id r" "iv_customer_id (?upd r) = iv_customer_id r" for r
    by (simp_all add: updated_intervention_def)
  have ids: "map iv_id ?t = map iv_id (interventions db)" by (simp add: id comp_def)
  then have ids': "iv_id ` set ?t = iv_id ` set (interventions db)" by (metis set_map)
  have res: "iv_status (?upd r) = V_resolved \<longrightarrow> iv_resolved_at (?upd r) \<noteq> None" if "iv_status r = V_resolved \<longrightarrow> iv_resolved_at r \<noteq> None" for r
    using that by (auto simp: updated_intervention_def split: option.splits)
  have "interventions_wf ks ?t" if "interventions_wf ks (interventions db)" for ks
    using that res unfolding interventions_wf_def ids set_map ball_simps by (simp only: id) blast
  moreover have "\<exists>r' \<in> set ?t. intervention_kept r r'" if "r \<in> set (interventions db)" for r
    using that updated_kept intervention_kept_refl by (intro bexI [of _ "?upd r"]) auto
  ultimately show ?thesis unfolding db using am_evolves_refl [of db] ids'
    by (simp add: am_keeps_def am_wf_def Let_def am_evolves_def)
qed

lemma keeps_escalation: "createEscalationNotification uuid now c u db = Inr (row, db') \<Longrightarrow> am_keeps db db'"
proof -
  assume run: "createEscalationNotification uuid now c u db = Inr (row, db')"
  let ?hit = "escalation_of (ec_intervention_id c) u" and ?f = "\<lambda>r. r\<lparr>ae_days_open := ec_days_open c\<rparr>"
  show ?thesis
  proof (cases "find ?hit (escalations db)")
    case (Some old)
    let ?upd = "\<lambda>r. if ?hit r then ?f r else r"
    have db': "db' = db\<lparr>escalations := map ?upd (escalations db)\<rparr>"
      using run Some by (simp add: createEscalationNotification_def update_where_def Let_def)
    have same: "ae_row_id (?upd r) = ae_row_id r" "ae_intervention_id (?upd r) = ae_intervention_id r"
      "ae_notified_user_id (?upd r) = ae_notified_user_id r" "ae_customer_id (?upd r) = ae_customer_id r" for r by simp_all
    have "\<exists>d. r\<lparr>ae_days_open := d\<rparr> \<in> set (map ?upd (escalations db))" if "r \<in> set (escalations db)" for r
    proof -
      have "?upd r = r\<lparr>ae_days_open := if ?hit r then ec_days_open c else ae_days_open r\<rparr>" by simp
      moreover have "?upd r \<in> set (map ?upd (escalations db))" unfolding set_map using that by (rule imageI)
      ultimately show ?thesis by (intro exI) (simp only:)
    qed
    moreover have "escalations_wf ks ivs (map ?upd (escalations db))" if "escalations_wf ks ivs (escalations db)" for ks ivs
      using that unfolding escalations_wf_def set_map ball_simps map_map comp_def same .
    ultimately show ?thesis unfolding db' using am_evolves_refl [of db]
      by (simp add: am_keeps_def am_wf_def Let_def am_evolves_def)
  next
    case None
    then have new: "db' = db\<lparr>escalations := escalations db @ [row]\<rparr>" "ae_row_id row \<notin> ae_row_id ` set (escalations db)"
      "ae_intervention_id row = ec_intervention_id c" "ae_notified_user_id row = u"
      "ae_intervention_id row \<in> iv_id ` set (interventions db)" "ae_customer_id row \<in> am_id ` set (am_customers db)"
      using run by (auto simp: createEscalationNotification_def Let_def insert_row_def simp del: find_None_iff split: sum.splits if_splits)
    then have "(ae_intervention_id row, ae_notified_user_id row) \<notin> (\<lambda>r. (ae_intervention_id r, ae_notified_user_id r)) ` set (escalations db)"
      using None by (auto simp: find_None_iff escalation_of_def)
    with new show ?thesis using am_evolves_refl [of db]
      by (simp add: am_keeps_def am_wf_def Let_def escalations_wf_def am_evolves_def) blast
  qed
qed

lemma keeps_process: "processEscalationCandidates uuid clk n cs m db = (r, db') \<Longrightarrow> am_keeps db db'"
  by (induction cs arbitrary: n m db)
     (auto simp: Let_def am_keeps_refl split: if_splits sum.splits prod.splits intro: am_keeps_trans [OF keeps_escalation])

lemma keeps_escalation_job: "am_keeps db (snd (intervention_escalation_job render uuid taskId raw clk db))"
  by (auto simp: intervention_escalation_job_def Let_def am_keeps_refl split: sum.splits prod.splits
        intro: keeps_process am_keeps_trans [OF keeps_process keeps_queue])

lemma keeps_upsert: "upsertCustomerHealthScore numeric uuid now opts db = Inr (row, db') \<Longrightarrow> am_keeps db db'"
proof -
  assume run: "upsertCustomerHealthScore numeric uuid now opts db = Inr (row, db')"
  show ?thesis
  proof (cases "find (score_on (si_customer_id opts) (si_score_date opts)) (health_scores db)")
    case (Some old)
    then have "db' = db" using run by (auto simp: upsertCustomerHealthScore_def split: option.splits if_splits)
    then show ?thesis by (simp add: am_keeps_refl)
  next
    case None
    then have new: "db' = db\<lparr>health_scores := health_scores db @ [row]\<rparr>" "ch_id row \<notin> ch_id ` set (health_scores db)"
      "num_le (Finite 0) (ch_score row)" "num_le (ch_score row) (Finite 100)"
      "ch_customer_id row = si_customer_id opts" "ch_score_date row = si_score_date opts" "si_customer_id opts \<in> am_id ` set (am_customers db)"
      using run by (auto simp: upsertCustomerHealthScore_def insert_row_def score_row_def split: option.splits if_splits)
    then have "(ch_customer_id row, ch_score_date row) \<notin> (\<lambda>r. (ch_customer_id r, ch_score_date r)) ` set (health_scores db)"
      using None by (auto simp: find_None_iff score_on_def)
    with new show ?thesis using am_evolves_refl [of db] by (simp add: am_keeps_def am_wf_def Let_def scores_wf_def am_evolves_def)
  qed
qed

lemma keeps_update_health: "updateCustomerHealthScore numeric now k s db = Inr db' \<Longrightarrow> am_keeps db db'"
proof -
  assume "updateCustomerHealthScore numeric now k s db = Inr db'"
  then obtain v where db': "db' = db\<lparr>am_customers := update_where (\<lambda>r. am_id r = k)
      (\<lambda>r. r\<lparr>am_health_score := Some v, am_updated_at := now\<rparr>) (am_customers db)\<rparr>"
    by (auto simp: updateCustomerHealthScore_def split: option.splits)
  let ?upd = "\<lambda>r. if am_id r = k then r\<lparr>am_health_score := Some v, am_updated_at := now\<rparr> else r"
  have id: "am_id (?upd r) = am_id r" "(?upd r)\<lparr>am_health_score := None, am_updated_at := 0\<rparr> = r\<lparr>am_health_score := None, am_updated_at := 0\<rparr>"
    for r by simp_all
  have ids: "map am_id (map ?upd (am_customers db)) = map am_id (am_customers db)" by (simp add: id comp_def)
  then have "am_id ` set (map ?upd (am_customers db)) = am_id ` set (am_customers db)" by (metis set_map)
  with ids show ?thesis unfolding db' update_where_def using am_evolves_refl [of db]
    by (simp add: am_keeps_def am_wf_def Let_def am_evolves_def id del: map_map) (simp add: id comp_def)
qed

lemma keeps_health_step: "am_keeps db (snd (health_step numeric uuid clk d n k db))"
  by (auto simp: health_step_def Let_def am_keeps_refl split: sum.splits prod.splits
        intro: keeps_upsert am_keeps_trans [OF keeps_upsert keeps_update_health])

lemma keeps_health_loop: "am_keeps db (snd (health_loop numeric uuid clk d n ks db))"
proof (induction ks arbitrary: n db)
  case (Cons k ks)
  show ?case using am_keeps_trans [OF keeps_health_step Cons.IH] by (simp add: case_prod_unfold)
qed (simp add: am_keeps_refl)

lemma keeps_health_job: "am_keeps db (snd (snd (health_score_job render numeric uuid taskId clk db)))"
  using am_keeps_trans [OF keeps_health_loop keeps_queue] keeps_health_loop
  by (simp add: health_score_job_def Let_def case_prod_unfold split: sum.split)

section \<open>Every sequence of requests and jobs\<close>

datatype am_op =
    Post_intervention "string list \<Rightarrow> string" timestamp "string option" "create_body body"
  | Patch_intervention timestamp "string option" string "patch_body body"
  | Escalation_run "escalation_report \<Rightarrow> json" "string list \<Rightarrow> string" string "string option" "nat \<Rightarrow> timestamp"
  | Health_run "health_report \<Rightarrow> json" numeric_column "string list \<Rightarrow> string" string "nat \<Rightarrow> timestamp"

fun am_step :: "string option \<Rightarrow> am_op \<Rightarrow> am_db \<Rightarrow> am_db" where
  "am_step su (Post_intervention uuid now user req) db = snd (post_intervention su uuid now user req db)"
| "am_step su (Patch_intervention now user i req) db = snd (patch_intervention su now user i req db)"
| "am_step su (Escalation_run render uuid taskId raw clk) db = snd (intervention_escalation_job render uuid taskId raw clk db)"
| "am_step su (Health_run render numeric uuid taskId clk) db = snd (snd (health_score_job render numeric uuid taskId clk db))"

text \<open>What a POST and a PATCH can do to the tables.\<close>

lemma post_cases:
  obtains "snd (post_intervention su uuid now user req db) = db"
  | u opts row b where "user = Some u" "createIntervention uuid now opts db = Inr (row, b, snd (post_intervention su uuid now user req db))"
      "isSuperuser su u \<or> getAssignedAccountManager (cv_customer_id opts) db = Some u"
proof (cases "snd (post_intervention su uuid now user req db) = db")
  case False
  then obtain u b where ub: "user = Some u" "req = Object b" by (auto simp: post_intervention_def split: option.splits body.splits if_splits)
  let ?opts = "\<lparr>cv_customer_id = str_of (cb_customer_id b), cv_playbook = the (playbook_of (cb_playbook b)),
    cv_assigned_to = str_of (cb_assigned_to b), cv_notes = Option.bind (optional_text (cb_notes b)) id, cv_trigger_type = None\<rparr>"
  obtain row a db' where "createIntervention uuid now ?opts db = Inr (row, a, db')" "snd (post_intervention su uuid now user req db) = db'"
    "isSuperuser su u \<or> getAssignedAccountManager (str_of (cb_customer_id b)) db = Some u"
    using False unfolding ub post_intervention_def by (auto split: sum.splits if_splits)
  then show thesis using that(2) [OF ub(1), of ?opts row a] by simp
qed

lemma patch_cases:
  obtains "snd (patch_intervention su now user i req db) = db"
  | u existing opts where "user = Some u" "getIntervention i db = Some existing" "isSuperuser su u \<or> iv_assigned_to existing = Some u"
      "snd (patch_intervention su now user i req db) = snd (updateIntervention now i opts db)"
proof (cases "snd (patch_intervention su now user i req db) = db")
  case False
  then obtain u existing b where *: "user = Some u" "getIntervention i db = Some existing" "req = Object b"
    "isSuperuser su u \<or> iv_assigned_to existing = Some u"
    by (auto simp: patch_intervention_def split: option.splits body.splits if_splits)
  have "am_allowed su db u" "(\<not> isSuperuser su u \<and> iv_assigned_to existing \<noteq> Some u) = False" "pb_outcome b \<noteq> Other"
    "(pb_status b \<noteq> Missing \<and> intervention_status_of (pb_status b) = None) = False"
    using False by (auto simp: patch_intervention_def * split: if_splits)
  then have "snd (patch_intervention su now user i req db)
      = snd (updateIntervention now i \<lparr>ui_status = intervention_status_of (pb_status b), ui_outcome = optional_text (pb_outcome b)\<rparr> db)"
    unfolding patch_intervention_def * by (auto simp: case_prod_unfold split: option.split)
  then show thesis using that(2) * by blast
qed

lemma keeps_am_step: "am_keeps db (am_step su op db)"
proof (cases op)
  case (Post_intervention uuid now user req)
  then show ?thesis by (cases rule: post_cases [of su uuid now user req db]) (auto simp: am_keeps_refl intro: am_keeps_create)
next
  case (Patch_intervention now user i req)
  then show ?thesis by (cases rule: patch_cases [of su now user i req db]) (simp_all add: am_keeps_refl am_keeps_update)
qed (simp_all add: keeps_escalation_job keeps_health_job)

interpretation am_run: invariant_system "am_step su" "\<lambda>_. True" "am_keeps db0" for su db0
  by unfold_locales (blast intro: am_keeps_trans keeps_am_step)

text \<open>C30: The account managers' tables stay well-formed under every sequence of requests, escalation runs and health runs: keys, references,
  one escalation for an intervention and team lead, one score between 0 and 100 for a customer and day, a time on every resolved intervention.
  No row disappears; an intervention keeps its customer, playbook and assignee, the time it was first resolved and, once it has one, an
  outcome; an escalation changes only its days, a score not at all; the ledger is only read.\<close>

theorem am_lifecycle:
  assumes "am_wf db" and "db' = fold (am_step su) ops db"
  shows "am_wf db' \<and> am_evolves db db'"
  using am_run.run_inv [of db db ops su] am_keeps_refl [of db] assms by (simp add: am_keeps_def list_all_iff)

fun touches :: "string option \<Rightarrow> InterventionRow \<Rightarrow> am_op \<Rightarrow> bool" where
  "touches su r (Patch_intervention now (Some u) i req) \<longleftrightarrow> i = iv_id r \<and> (isSuperuser su u \<or> iv_assigned_to r = Some u)"
| "touches su r _ \<longleftrightarrow> False"

lemma escalation_frame: "createEscalationNotification uuid now c u db = Inr (row, db') \<Longrightarrow> \<exists>e. db' = db\<lparr>escalations := e\<rparr>"
  by (auto simp: createEscalationNotification_def Let_def split: option.splits sum.splits if_splits)

lemma process_frame: "processEscalationCandidates uuid clk n cs m db = (r, db') \<Longrightarrow> \<exists>e. db' = db\<lparr>escalations := e\<rparr>"
proof (induction cs arbitrary: n m db)
  case Nil
  then show ?case by (auto intro: exI [of _ "escalations db"])
next
  case (Cons c cs)
  let ?lead = "getTeamLeadForUser (case getAssignedAccountManager (ec_customer_id c) db of None \<Rightarrow> [] | Some u \<Rightarrow> u) db"
  show ?case
  proof (cases "Scoring.truthy ?lead")
    case True
    show ?thesis
    proof (cases "createEscalationNotification uuid (clk n) c (the ?lead) db")
      case (Inr p)
      obtain row db1 where p: "p = (row, db1)" by fastforce
      with Inr escalation_frame obtain e1 where "db1 = db\<lparr>escalations := e1\<rparr>" by blast
      moreover have "processEscalationCandidates uuid clk (n + 1) cs (m + 1) db1 = (r, db')" using Cons.prems True Inr p by simp
      then obtain e where "db' = db1\<lparr>escalations := e\<rparr>" using Cons.IH by blast
      ultimately show ?thesis by auto
    qed (use Cons.prems True in \<open>auto intro: exI [of _ "escalations db"]\<close>)
  qed (use Cons in auto)
qed

lemma job_frame:
  "\<exists>e q. snd (intervention_escalation_job render uuid taskId raw clk db) = db\<lparr>escalations := e, am_queue := q\<rparr>"
proof -
  have same: "\<exists>e q. db = db\<lparr>escalations := e, am_queue := q\<rparr>"
    by (intro exI [of _ "escalations db"] exI [of _ "am_queue db"]) simp
  have one: "\<exists>e q. db' = db\<lparr>escalations := e, am_queue := q\<rparr> \<and> (\<forall>q'. \<exists>e q. db'\<lparr>am_queue := q'\<rparr> = db\<lparr>escalations := e, am_queue := q\<rparr>)"
    if run: "processEscalationCandidates uuid clk 2 cs 0 db = (r, db')" for cs r db'
  proof -
    obtain e where "db' = db\<lparr>escalations := e\<rparr>" using process_frame [OF run] by blast
    then have "db' = db\<lparr>escalations := e, am_queue := am_queue db\<rparr>" "\<And>q'. db'\<lparr>am_queue := q'\<rparr> = db\<lparr>escalations := e, am_queue := q'\<rparr>" by simp_all
    then show ?thesis by blast
  qed
  show ?thesis unfolding intervention_escalation_job_def Let_def
    by (auto split: sum.split prod.split dest: one intro: same)
qed

text \<open>The interventions after a step: those before it, changed or not, and the one a POST added.\<close>

lemma account_manager_kept: "am_evolves db db' \<Longrightarrow> getAssignedAccountManager k db' = getAssignedAccountManager k db"
proof -
  have norm: "getAssignedAccountManager k d = Option.bind (find_row am_id k (map (\<lambda>c. c\<lparr>am_health_score := None, am_updated_at := 0\<rparr>) (am_customers d)))
      am_account_manager_id" for d
  proof -
    have "Option.bind (find_row am_id k t) am_account_manager_id
      = Option.bind (find_row am_id k (map (\<lambda>c. c\<lparr>am_health_score := None, am_updated_at := 0\<rparr>) t)) am_account_manager_id" for t
      by (induction t) simp_all
    then show ?thesis by (simp add: getAssignedAccountManager_def)
  qed
  show "am_evolves db db' \<Longrightarrow> ?thesis" by (simp add: am_evolves_def norm)
qed

lemma job_interventions: "interventions (snd (intervention_escalation_job render uuid taskId raw clk db)) = interventions db"
  using job_frame [of render uuid taskId raw clk db] by auto

lemma health_interventions: "interventions (snd (snd (health_score_job render numeric uuid taskId clk db))) = interventions db"
proof -
  have step: "interventions (snd (health_step numeric uuid clk d n k db)) = interventions db" for d n k db
    by (auto simp: health_step_def upsertCustomerHealthScore_def updateCustomerHealthScore_def Let_def split: sum.splits option.splits if_splits prod.splits)
  have "interventions (snd (health_loop numeric uuid clk d n ks db)) = interventions db" for d n ks db
    by (induction ks arbitrary: n db) (simp_all add: case_prod_unfold step)
  then show ?thesis by (simp add: health_score_job_def Let_def case_prod_unfold split: sum.split)
qed

lemma create_interventions: "createIntervention uuid now opts db = Inr (row, b, db') \<Longrightarrow>
    interventions db' = interventions db @ [new_intervention (uuid (map iv_id (interventions db))) now opts]"
  by (auto simp: createIntervention_def Let_def insert_row_def split: sum.splits if_splits)

lemma step_untouched:
  assumes "am_wf db" "r \<in> set (interventions db)" "\<not> touches su r op"
  shows "r \<in> set (interventions (am_step su op db))"
proof (cases op)
  case (Post_intervention uuid now user req)
  then show ?thesis using assms(2)
    by (cases rule: post_cases [of su uuid now user req db])
       (auto dest: create_interventions)
next
  case (Patch_intervention now user i req)
  have D: "distinct (map iv_id (interventions db))" using assms(1) by (simp add: am_wf_def Let_def interventions_wf_def)
  show ?thesis
  proof (cases rule: patch_cases [of su now user i req db])
    case (2 u existing opts)
    have "iv_id r \<noteq> i"
    proof
      assume "iv_id r = i"
      then have "getIntervention i db = Some r" using find_row_SomeI [OF D assms(2)] by (simp add: getIntervention_def)
      then show False using assms(3) 2 Patch_intervention \<open>iv_id r = i\<close> by simp
    qed
    then have "r \<in> set (interventions (snd (updateIntervention now i opts db)))"
      using assms(2) by (auto simp: updateIntervention_def Let_def update_where_def image_iff intro: bexI [of _ r])
    then show ?thesis using 2(4) Patch_intervention by simp
  qed (use assms(2) Patch_intervention in simp)
qed (use assms(2) in \<open>simp_all add: job_interventions health_interventions\<close>)

lemma step_new:
  assumes "r' \<in> set (interventions (am_step su op db))" "iv_id r' \<notin> iv_id ` set (interventions db)"
  shows "\<exists>uuid now u req. op = Post_intervention uuid now (Some u) req
    \<and> (isSuperuser su u \<or> getAssignedAccountManager (iv_customer_id r') db = Some u)"
proof (cases op)
  case (Post_intervention uuid now user req)
  show ?thesis
  proof (cases rule: post_cases [of su uuid now user req db])
    case (2 u opts row b)
    let ?row = "new_intervention (uuid (map iv_id (interventions db))) now opts"
    have "interventions (am_step su op db) = interventions db @ [?row]"
      using create_interventions [OF 2(2)] Post_intervention by simp
    then have "r' = ?row" using assms by auto
    then show ?thesis using 2 Post_intervention by (simp add: new_intervention_def)
  qed (use assms Post_intervention in auto)
next
  case (Patch_intervention now user i req)
  have "iv_id r' \<in> iv_id ` set (interventions db)"
  proof (cases rule: patch_cases [of su now user i req db])
    case (2 u existing opts)
    have "map iv_id (interventions (snd (updateIntervention now i opts db))) = map iv_id (interventions db)"
      by (simp add: updateIntervention_def Let_def updated.keys_update)
    then show ?thesis using assms(1) 2(4) Patch_intervention by (metis am_step.simps(2) image_eqI set_map)
  qed (use assms(1) Patch_intervention in auto)
  then show ?thesis using assms(2) by simp
qed (use assms in \<open>simp_all add: job_interventions health_interventions\<close>)

lemma untouched_run:
  assumes "am_wf db" "r \<in> set (interventions db)" "list_all (\<lambda>op. \<not> touches su r op) ops"
  shows "am_wf (fold (am_step su) ops db) \<and> r \<in> set (interventions (fold (am_step su) ops db))"
  using assms
proof (induction ops arbitrary: db)
  case (Cons op ops)
  then show ?case using step_untouched [of db r su op] keeps_am_step [of db su op] by (simp add: am_keeps_def)
qed simp

lemma new_run:
  assumes "am_wf db" "r' \<in> set (interventions (fold (am_step su) ops db))" "iv_id r' \<notin> iv_id ` set (interventions db)"
  shows "\<exists>uuid now u req. Post_intervention uuid now (Some u) req \<in> set ops
    \<and> (isSuperuser su u \<or> getAssignedAccountManager (iv_customer_id r') db = Some u)"
  using assms
proof (induction ops arbitrary: db)
  case (Cons op ops)
  let ?db = "am_step su op db"
  have K: "am_wf ?db" "am_evolves db ?db" using keeps_am_step [of db su op] Cons.prems(1) by (simp_all add: am_keeps_def)
  show ?case
  proof (cases "iv_id r' \<in> iv_id ` set (interventions ?db)")
    case False
    with Cons.IH [OF K(1)] Cons.prems(2) show ?thesis by (auto simp: account_manager_kept [OF K(2)])
  next
    case True
    then obtain r where r: "r \<in> set (interventions ?db)" "iv_id r = iv_id r'" by auto
    with step_new [of r su op db] Cons.prems(3) obtain uuid now u req where
      p: "op = Post_intervention uuid now (Some u) req" "isSuperuser su u \<or> getAssignedAccountManager (iv_customer_id r) db = Some u" by auto
    have "am_keeps ?db (fold (am_step su) ops ?db)" using am_run.run_inv [of ?db ?db ops su] am_keeps_refl by (simp add: list_all_iff)
    then have E: "am_wf (fold (am_step su) ops ?db)" "am_evolves ?db (fold (am_step su) ops ?db)" using K(1) by (simp_all add: am_keeps_def)
    then obtain r1 where r1: "r1 \<in> set (interventions (fold (am_step su) ops ?db))" "intervention_kept r r1" using r(1) by (auto simp: am_evolves_def)
    then have "iv_id r1 = iv_id r'" "iv_customer_id r1 = iv_customer_id r" using r(2) by (auto simp: intervention_kept_def)
    moreover have "distinct (map iv_id (interventions (fold (am_step su) ops ?db)))" using E(1) by (simp add: am_wf_def Let_def interventions_wf_def)
    ultimately have "iv_customer_id r' = iv_customer_id r" using r1(1) Cons.prems(2) by (metis distinct_map inj_onD fold_simps(2))
    then show ?thesis using p by auto
  qed
qed simp

text \<open>C31: Authority over interventions, whatever requests and jobs run: an intervention that neither the superuser nor its assignee
  patches stays exactly as it is, and every new intervention comes from a POST of the superuser or of the account manager
  of its customer.\<close>

theorem intervention_authority:
  assumes "am_wf db" and "db' = fold (am_step su) ops db"
  shows "(\<forall>r \<in> set (interventions db). list_all (\<lambda>op. \<not> touches su r op) ops \<longrightarrow> getIntervention (iv_id r) db' = Some r)
    \<and> (\<forall>r' \<in> set (interventions db'). iv_id r' \<notin> iv_id ` set (interventions db) \<longrightarrow>
         (\<exists>uuid now u req. Post_intervention uuid now (Some u) req \<in> set ops
            \<and> (isSuperuser su u \<or> getAssignedAccountManager (iv_customer_id r') db = Some u)))"
proof (intro conjI ballI impI)
  fix r assume r: "r \<in> set (interventions db)" "list_all (\<lambda>op. \<not> touches su r op) ops"
  have "am_wf db'" "r \<in> set (interventions db')" using untouched_run [OF assms(1) r] assms(2) by simp_all
  then show "getIntervention (iv_id r) db' = Some r"
    by (simp add: getIntervention_def am_wf_def Let_def interventions_wf_def find_row_SomeI)
next
  fix r' assume "r' \<in> set (interventions db')" "iv_id r' \<notin> iv_id ` set (interventions db)"
  then show "\<exists>uuid now u req. Post_intervention uuid now (Some u) req \<in> set ops
      \<and> (isSuperuser su u \<or> getAssignedAccountManager (iv_customer_id r') db = Some u)"
    unfolding assms(2) by (rule new_run [OF assms(1)])
qed

section \<open>The escalation job\<close>

definition days_escalated :: "string \<Rightarrow> string \<Rightarrow> am_db \<Rightarrow> int option" where
  "days_escalated i u db = map_option ae_days_open (find (escalation_of i u) (escalations db))"

lemma find_map: "(\<And>r. p (f r) = p r) \<Longrightarrow> find p (map f t) = map_option f (find p t)"
  by (induction t) auto

lemma find_snoc: "find p (xs @ [x]) = (case find p xs of None \<Rightarrow> if p x then Some x else None | Some y \<Rightarrow> Some y)"
  by (induction xs) auto

lemma find_someD: "find p t = Some r \<Longrightarrow> p r"
  by (induction t) (auto split: if_splits)

lemma escalation_outcome:
  assumes "fresh uuid" "ec_intervention_id c \<in> iv_id ` set (interventions db)" "ec_customer_id c \<in> am_id ` set (am_customers db)"
  obtains row e where "createEscalationNotification uuid now c lead db = Inr (row, db\<lparr>escalations := e\<rparr>)"
    "\<And>i u. days_escalated i u (db\<lparr>escalations := e\<rparr>)
        = (if i = ec_intervention_id c \<and> u = lead then Some (ec_days_open c) else days_escalated i u db)"
proof (cases "find (escalation_of (ec_intervention_id c) lead) (escalations db)")
  case (Some old)
  let ?hit = "escalation_of (ec_intervention_id c) lead" and ?upd = "\<lambda>r. r\<lparr>ae_days_open := ec_days_open c\<rparr>"
  let ?f = "\<lambda>r. if ?hit r then ?upd r else r"
  have D: "days_escalated i u (db\<lparr>escalations := map ?f (escalations db)\<rparr>)
      = (if i = ec_intervention_id c \<and> u = lead then Some (ec_days_open c) else days_escalated i u db)" for i u
  proof -
    have "find (escalation_of i u) (map ?f (escalations db)) = map_option ?f (find (escalation_of i u) (escalations db))"
      by (rule find_map) (simp add: escalation_of_def)
    moreover have "map_option ae_days_open (map_option ?f (find (escalation_of i u) (escalations db))) = map_option ae_days_open (find (escalation_of i u) (escalations db))"
      if "\<not> (i = ec_intervention_id c \<and> u = lead)"
      using that by (cases "find (escalation_of i u) (escalations db)") (auto simp: escalation_of_def dest: find_someD)
    moreover have "?hit old" using Some by (rule find_someD)
    ultimately show ?thesis using Some by (auto simp: days_escalated_def)
  qed
  show thesis by (rule that [of "?upd old" "map ?f (escalations db)"]) (simp_all add: createEscalationNotification_def Some update_where_def Let_def D)
next
  case None
  let ?row = "\<lparr>ae_row_id = uuid (map ae_row_id (escalations db)), ae_intervention_id = ec_intervention_id c,
                   ae_customer_id = ec_customer_id c, ae_notified_user_id = lead, ae_days_open = ec_days_open c, ae_row_created_at = now\<rparr>"
  have "insert_row ae_row_id ?row (escalations db) = Inr (escalations db @ [?row])"
    by (rule insert_row_fresh [OF assms(1)]) simp
  then have run: "createEscalationNotification uuid now c lead db = Inr (?row, db\<lparr>escalations := escalations db @ [?row]\<rparr>)"
    using None assms(2,3) by (simp add: createEscalationNotification_def Let_def del: find_None_iff)
  have "days_escalated i u (db\<lparr>escalations := escalations db @ [?row]\<rparr>)
      = (if i = ec_intervention_id c \<and> u = lead then Some (ec_days_open c) else days_escalated i u db)" for i u
    using None by (auto simp: days_escalated_def find_snoc escalation_of_def simp del: find_None_iff split: option.split)
  with run show thesis using that by blast
qed

lemma process_exact:
  assumes "fresh uuid" "lead \<noteq> []"
  shows "getTeamLeadForUser [] db = Some lead \<Longrightarrow> distinct (map ec_intervention_id cs)
    \<Longrightarrow> \<forall>c \<in> set cs. ec_intervention_id c \<in> iv_id ` set (interventions db) \<and> ec_customer_id c \<in> am_id ` set (am_customers db)
    \<Longrightarrow> \<exists>e. processEscalationCandidates uuid clk n cs m db = (Inr (m + length cs), db\<lparr>escalations := e\<rparr>)
      \<and> (\<forall>i u. days_escalated i u (db\<lparr>escalations := e\<rparr>) = (case find (\<lambda>c. ec_intervention_id c = i \<and> u = lead) cs of
            None \<Rightarrow> days_escalated i u db | Some c \<Rightarrow> Some (ec_days_open c)))"
proof (induction cs arbitrary: n m db)
  case Nil
  then show ?case by (auto intro!: exI [of _ "escalations db"])
next
  case (Cons c cs)
  have lead: "getTeamLeadForUser u db = Some lead" for u using Cons.prems(1) by (simp add: getTeamLeadForUser_def)
  obtain row e1 where e1: "createEscalationNotification uuid (clk n) c lead db = Inr (row, db\<lparr>escalations := e1\<rparr>)"
    "\<And>i u. days_escalated i u (db\<lparr>escalations := e1\<rparr>)
        = (if i = ec_intervention_id c \<and> u = lead then Some (ec_days_open c) else days_escalated i u db)"
    using escalation_outcome [OF assms(1), of c db "clk n" lead] Cons.prems(3) by auto
  have "getTeamLeadForUser [] (db\<lparr>escalations := e1\<rparr>) = Some lead" using lead by (simp add: getTeamLeadForUser_def)
  from Cons.IH [OF this, of "n + 1" "m + 1"] Cons.prems obtain e where
    e: "processEscalationCandidates uuid clk (n + 1) cs (m + 1) (db\<lparr>escalations := e1\<rparr>) = (Inr (m + 1 + length cs), db\<lparr>escalations := e\<rparr>)"
    "\<And>i u. days_escalated i u (db\<lparr>escalations := e\<rparr>) = (case find (\<lambda>c. ec_intervention_id c = i \<and> u = lead) cs of
            None \<Rightarrow> days_escalated i u (db\<lparr>escalations := e1\<rparr>) | Some c \<Rightarrow> Some (ec_days_open c))" by auto
  have none: "find (\<lambda>c'. ec_intervention_id c' = ec_intervention_id c \<and> u = lead) cs = None" for u
    using Cons.prems(2) by (auto simp: find_None_iff) (metis image_eqI)
  have "processEscalationCandidates uuid clk n (c # cs) m db = (Inr (m + length (c # cs)), db\<lparr>escalations := e\<rparr>)"
    using e(1) e1(1) assms(2) by (simp add: lead Scoring.truthy_def)
  moreover have "days_escalated i u (db\<lparr>escalations := e\<rparr>) = (case find (\<lambda>c. ec_intervention_id c = i \<and> u = lead) (c # cs) of
            None \<Rightarrow> days_escalated i u db | Some c \<Rightarrow> Some (ec_days_open c))" for i u
    unfolding e(2) using none [of u] e1(2) by (auto split: option.split)
  ultimately show ?case by blast
qed

lemma distinct_on_id: "distinct (map key t) \<Longrightarrow> set seen \<inter> key ` set t = {} \<Longrightarrow> distinct_on key seen t = t"
  by (induction t arbitrary: seen) auto

text \<open>The clause on other active interventions already leaves one candidate for a customer.\<close>

lemma candidates_distinct:
  assumes "distinct (map iv_id t)"
    and "\<And>i j. i \<in> set t \<Longrightarrow> j \<in> set t \<Longrightarrow> p i \<Longrightarrow> p j \<Longrightarrow> iv_customer_id i = iv_customer_id j \<Longrightarrow> iv_id i = iv_id j"
  shows "distinct (map iv_customer_id (filter p t))"
proof -
  have "inj_on iv_id (set t)" "distinct t" using assms(1) by (simp_all add: distinct_map)
  then have "inj_on iv_customer_id (set (filter p t))" using assms(2) by (auto simp: inj_on_def)
  with \<open>distinct t\<close> show ?thesis by (simp add: distinct_map)
qed

lemma alerts_exact:
  assumes "am_wf db" "MIN_TIMESTAMP \<le> now - minDays * day"
  obtains cs where "listAlertsNeedingEscalation now minDays db = Inr cs" "distinct (map ec_intervention_id cs)"
    "set cs = (\<lambda>i. \<lparr>ec_intervention_id = iv_id i, ec_customer_id = iv_customer_id i, ec_days_open = (now - iv_created_at i) div day\<rparr>)
      ` {i \<in> set (interventions db). needs_escalation now minDays db i}"
proof -
  let ?t = "filter (needs_escalation now minDays db) (interventions db)"
  let ?s = "sort_key (\<lambda>i. (iv_customer_id i, iv_created_at i)) ?t"
  let ?c = "\<lambda>i. \<lparr>ec_intervention_id = iv_id i, ec_customer_id = iv_customer_id i, ec_days_open = (now - iv_created_at i) div day\<rparr>"
  have ids: "distinct (map iv_id (interventions db))" using assms(1) by (simp add: am_wf_def Let_def interventions_wf_def)
  have "distinct (map iv_customer_id ?t)"
    by (rule candidates_distinct [OF ids]) (auto simp: needs_escalation_def list_ex_iff active_status_def)
  then have "distinct (map iv_customer_id ?s)" by (simp add: distinct_map)
  then have on: "distinct_on iv_customer_id [] ?s = ?s" by (simp add: distinct_on_id)
  have "distinct (map iv_id ?t)" using ids by (rule distinct_map_filter)
  then have "distinct (map iv_id ?s)" by (simp add: distinct_map)
  then have "distinct (map ec_intervention_id (map ?c ?s))" by (simp add: comp_def)
  moreover have "listAlertsNeedingEscalation now minDays db = Inr (map ?c ?s)" using assms(2) by (simp add: listAlertsNeedingEscalation_def on)
  moreover have "set (map ?c ?s) = ?c ` {i \<in> set (interventions db). needs_escalation now minDays db i}" by simp
  ultimately show thesis by (intro that)
qed

text \<open>The rows a run writes are of its candidates.\<close>

lemma escalation_rows:
  assumes "createEscalationNotification uuid now c u db = Inr (row, db')" "r \<in> set (escalations db')"
  shows "r \<in> set (escalations db) \<or> ae_intervention_id r = ec_intervention_id c"
  using assms by (auto simp: createEscalationNotification_def Let_def update_where_def escalation_of_def insert_row_def
      split: option.splits sum.splits if_splits)

lemma process_rows:
  "processEscalationCandidates uuid clk n cs m db = (q, db') \<Longrightarrow> r \<in> set (escalations db')
    \<Longrightarrow> r \<in> set (escalations db) \<or> ae_intervention_id r \<in> ec_intervention_id ` set cs"
proof (induction cs arbitrary: n m db)
  case (Cons c cs)
  let ?lead = "getTeamLeadForUser (ec_customer_id c) db"
  show ?case
    using Cons.prems Cons.IH by (fastforce simp: Let_def split: if_splits sum.splits dest: escalation_rows)
qed simp

text \<open>The report task of a run.\<close>

lemma escalation_queue:
  assumes "intervention_escalation_job render uuid taskId raw clk db = (ok, db')"
    and "listAlertsNeedingEscalation (clk 1) (readEscalationDays raw) db = Inr cs"
    and "processEscalationCandidates uuid clk 2 cs 0 db = (Inr n, db\<lparr>escalations := e\<rparr>)"
  obtains tasks where "db' = db\<lparr>escalations := e, am_queue := am_queue db @ tasks\<rparr>" "length tasks \<le> 1" "ok \<or> tasks = []"
proof -
  define rep where "rep = \<lparr>er_run_date = take 10 (toISOString (clk 0)), er_escalation_days = readEscalationDays raw,
    er_candidates_found = length cs, er_escalations_created = n\<rparr>"
  define q where "q = enqueueCronTask ''intervention-escalation'' taskId (clk (length cs + 2)) (er_run_date rep)
    (daily ''intervention_escalation_run'' (render rep) (''intervention-escalation-'' @ er_run_date rep)) (am_queue db)"
  have run: "(ok, db') = (case q of Inl x \<Rightarrow> (False, db\<lparr>escalations := e\<rparr>) | Inr t \<Rightarrow> (True, db\<lparr>escalations := e, am_queue := t\<rparr>))"
    using assms(1) unfolding intervention_escalation_job_def Let_def assms(2,3) sum.case prod.case q_def rep_def escalation_report.select_convs
    by (simp split: sum.splits)
  show thesis
  proof (cases q)
    case (Inl x)
    then show thesis using run that [of "[]"] by simp
  next
    case (Inr t)
    then obtain tasks where "t = am_queue db @ tasks" "length tasks \<le> 1" unfolding q_def by (rule enqueueCronTask_appends)
    then show thesis using run Inr that by simp
  qed
qed

text \<open>C32: What a run of the escalation job does, as the code has it: for every intervention that is open, old enough and the customer's
  only active one, the team lead gets one row with the days it has been open, every other escalation keeps its days, each row
  that is new or changed is of such an open intervention, and nothing else changes but the task queue, at whose end the report of a run
  that returns puts at most one row: the interventions stay open. \<open>days\<close> is the configured number of days. This is not what the product document asks for:
  \<^verbatim>\<open>src/docs/prd.md\<close>, lines 110 and 238, has the escalation of an alert for which no intervention has been logged within N
  days, and for the account manager's own team lead. A customer without an intervention is never escalated, by the
  third conjunct, and the lead is the first user with the role.\<close>

theorem escalation_exact:
  assumes "am_wf db" "fresh uuid" "getTeamLeadForUser [] db = Some lead" "lead \<noteq> []"
    and "days = readEscalationDays raw" "MIN_TIMESTAMP \<le> clk 1 - days * day"
    and "intervention_escalation_job render uuid taskId raw clk db = (ok, db')"
  shows "\<exists>e tasks. db' = db\<lparr>escalations := e, am_queue := am_queue db @ tasks\<rparr> \<and> length tasks \<le> 1 \<and> (ok \<or> tasks = [])
    \<and> (\<forall>i \<in> set (interventions db). days_escalated (iv_id i) lead db'
         = (if needs_escalation (clk 1) days db i then Some ((clk 1 - iv_created_at i) div day) else days_escalated (iv_id i) lead db))
    \<and> (\<forall>r \<in> set e. r \<notin> set (escalations db) \<longrightarrow>
         (\<exists>i \<in> set (interventions db). needs_escalation (clk 1) days db i \<and> ae_intervention_id r = iv_id i))
    \<and> (\<forall>i u. u \<noteq> lead \<longrightarrow> days_escalated i u db' = days_escalated i u db)"
proof -
  obtain cs where cs: "listAlertsNeedingEscalation (clk 1) days db = Inr cs" "distinct (map ec_intervention_id cs)"
    "set cs = (\<lambda>i. \<lparr>ec_intervention_id = iv_id i, ec_customer_id = iv_customer_id i, ec_days_open = (clk 1 - iv_created_at i) div day\<rparr>)
      ` {i \<in> set (interventions db). needs_escalation (clk 1) days db i}"
    by (rule alerts_exact [OF assms(1,6)])
  have wf: "iv_customer_id i \<in> am_id ` set (am_customers db)" if "i \<in> set (interventions db)" for i
    using assms(1) that by (simp add: am_wf_def Let_def interventions_wf_def)
  then have "\<forall>c \<in> set cs. ec_intervention_id c \<in> iv_id ` set (interventions db) \<and> ec_customer_id c \<in> am_id ` set (am_customers db)"
    unfolding cs(3) by auto
  from process_exact [OF assms(2,4,3) cs(2) this, of clk 2 0] obtain e where
    e: "processEscalationCandidates uuid clk 2 cs 0 db = (Inr (length cs), db\<lparr>escalations := e\<rparr>)"
    "\<And>i u. days_escalated i u (db\<lparr>escalations := e\<rparr>) = (case find (\<lambda>c. ec_intervention_id c = i \<and> u = lead) cs of
            None \<Rightarrow> days_escalated i u db | Some c \<Rightarrow> Some (ec_days_open c))" by auto
  obtain tasks where q: "db' = db\<lparr>escalations := e, am_queue := am_queue db @ tasks\<rparr>" "length tasks \<le> 1" "ok \<or> tasks = []"
    by (rule escalation_queue [OF assms(7) cs(1) [unfolded assms(5)] e(1)])
  have D: "days_escalated i u db' = days_escalated i u (db\<lparr>escalations := e\<rparr>)" for i u by (simp add: q days_escalated_def)
  have ids: "inj_on iv_id (set (interventions db))" using assms(1) by (simp add: am_wf_def Let_def interventions_wf_def distinct_map)
  have "days_escalated (iv_id i) lead db'
      = (if needs_escalation (clk 1) days db i then Some ((clk 1 - iv_created_at i) div day) else days_escalated (iv_id i) lead db)"
    if i: "i \<in> set (interventions db)" for i
  proof (cases "find (\<lambda>c. ec_intervention_id c = iv_id i \<and> lead = lead) cs")
    case None
    then have "\<not> needs_escalation (clk 1) days db i" using i unfolding find_None_iff cs(3) by auto
    then show ?thesis by (simp only: D e(2) None option.case if_False)
  next
    case (Some c)
    then have "c \<in> set cs" "ec_intervention_id c = iv_id i" by (auto simp: find_Some_iff)
    then have "needs_escalation (clk 1) days db i" "ec_days_open c = (clk 1 - iv_created_at i) div day"
      unfolding cs(3) using i ids by (auto simp: inj_on_def)
    then show ?thesis by (simp only: D e(2) Some option.case if_True)
  qed
  moreover have "days_escalated i u db' = days_escalated i u db" if "u \<noteq> lead" for i u
  proof -
    have "find (\<lambda>c. ec_intervention_id c = i \<and> u = lead) cs = None" using that by (simp add: find_None_iff)
    then show ?thesis by (simp only: D e(2) option.case)
  qed
  moreover have "\<exists>i \<in> set (interventions db). needs_escalation (clk 1) days db i \<and> ae_intervention_id r = iv_id i"
    if "r \<in> set e" "r \<notin> set (escalations db)" for r
    using process_rows [OF e(1), of r] that unfolding cs(3) by auto
  ultimately show ?thesis using q by blast
qed

text \<open>Two active interventions of one customer hide each other, however long they have been open.\<close>

lemma siblings_never_escalated:
  assumes "i \<in> set (interventions db)" "j \<in> set (interventions db)" "iv_customer_id i = iv_customer_id j" "iv_id i \<noteq> iv_id j"
    and "active_status (iv_status i)" "active_status (iv_status j)"
  shows "\<not> needs_escalation now minDays db i \<and> \<not> needs_escalation now minDays db j"
  using assms by (auto simp: needs_escalation_def list_ex_iff)

section \<open>Witnesses\<close>

definition demo_intervention :: InterventionRow where
  "demo_intervention = \<lparr>iv_id = ''v'', iv_customer_id = ''c'', iv_trigger_type = ''manual'', iv_playbook = Some Training,
     iv_assigned_to = Some ''am'', iv_status = V_open, iv_outcome = None, iv_created_at = 0, iv_resolved_at = None, iv_updated_at = 0\<rparr>"

definition demo_interventions :: am_db where
  "demo_interventions = demo_am\<lparr>interventions := [demo_intervention],
     am_users := am_users demo_am @ [\<lparr>us_id = ''tl'', us_type = ''user'', us_role = Some ''team_lead'', us_created_at = 0\<rparr>]\<rparr>"

lemma demo_interventions_wf: "am_wf demo_interventions"
  by (simp add: am_wf_def demo_interventions_def demo_am_def demo_intervention_def interventions_wf_def escalations_wf_def scores_wf_def Let_def)

definition demo_post :: am_op where
  "demo_post = Post_intervention long_uuid 5 (Some ''am'') (Object \<lparr>cb_customer_id = Str ''c'', cb_playbook = Str ''training'',
     cb_assigned_to = Str ''am'', cb_notes = Missing\<rparr>)"

definition demo_patch :: am_op where
  "demo_patch = Patch_intervention 6 (Some ''eve'') ''v'' (Object \<lparr>pb_status = Str ''resolved'', pb_outcome = Null\<rparr>)"

theorem am_lifecycle_witness: "am_wf (fold (am_step None) [demo_post, demo_patch] demo_interventions)"
  using am_lifecycle [OF demo_interventions_wf refl, of None "[demo_post, demo_patch]"] by blast

theorem intervention_authority_witness:
  "getIntervention ''v'' (fold (am_step None) [demo_post, demo_patch] demo_interventions) = Some demo_intervention"
proof -
  have "list_all (\<lambda>op. \<not> touches None demo_intervention op) [demo_post, demo_patch]"
    by (simp add: demo_post_def demo_patch_def demo_intervention_def isSuperuser_def)
  moreover have "demo_intervention \<in> set (interventions demo_interventions)" by (simp add: demo_interventions_def)
  ultimately have "getIntervention (iv_id demo_intervention) (fold (am_step None) [demo_post, demo_patch] demo_interventions) = Some demo_intervention"
    using intervention_authority [OF demo_interventions_wf refl, of None "[demo_post, demo_patch]"] by blast
  then show ?thesis by (simp add: demo_intervention_def)
qed

theorem escalation_exact_witness:
  "\<exists>r db'. intervention_escalation_job (\<lambda>_. ''{}'') long_uuid ''t'' None (\<lambda>_. 4 * day) demo_interventions = (r, db')
    \<and> days_escalated ''v'' ''tl'' db' = Some 4 \<and> interventions db' = [demo_intervention]"
proof -
  obtain r db' where run: "intervention_escalation_job (\<lambda>_. ''{}'') long_uuid ''t'' None (\<lambda>_. 4 * day) demo_interventions = (r, db')" by fastforce
  have lead: "getTeamLeadForUser [] demo_interventions = Some ''tl''"
    by (simp add: getTeamLeadForUser_def demo_interventions_def demo_am_def first_by_def)
  have days: "3 = readEscalationDays None" by (simp add: readEscalationDays_def Scoring.truthy_def DEFAULT_ESCALATION_DAYS_def)
  have D: "day = 86400000000" by (simp add: day_def second_def)
  have range: "MIN_TIMESTAMP \<le> 4 * day - 3 * day" by (simp add: MIN_TIMESTAMP_def D second_def)
  have need: "needs_escalation (4 * day) 3 demo_interventions demo_intervention"
    by (simp add: needs_escalation_def demo_interventions_def demo_intervention_def demo_am_def D)
  have mem: "demo_intervention \<in> set (interventions demo_interventions)" by (simp add: demo_interventions_def)
  obtain e tasks where run': "db' = demo_interventions\<lparr>escalations := e, am_queue := am_queue demo_interventions @ tasks\<rparr>"
    and rows: "\<forall>i \<in> set (interventions demo_interventions). days_escalated (iv_id i) ''tl'' db'
      = (if needs_escalation (4 * day) 3 demo_interventions i then Some ((4 * day - iv_created_at i) div day) else days_escalated (iv_id i) ''tl'' demo_interventions)"
    using escalation_exact [OF demo_interventions_wf fresh_long_uuid lead _ days range run] by blast
  have "days_escalated (iv_id demo_intervention) ''tl'' db' = Some ((4 * day - iv_created_at demo_intervention) div day)"
    using bspec [OF rows mem] need by simp
  with run' have "days_escalated ''v'' ''tl'' db' = Some 4" "interventions db' = [demo_intervention]"
    by (simp_all add: demo_intervention_def demo_interventions_def D)
  with run show ?thesis by blast
qed

end
