(* ===== verification/JS_Strings.thy ===== *)
theory JS_Strings
  imports DB_Prelude "HOL-Library.Word"
begin

text \<open>
  JavaScript strings, lists of 16-bit code units, with the text functions of the language the sources use:
  \<^verbatim>\<open>trim\<close>, splitting at white space, joining, and \<^verbatim>\<open>JSON.stringify\<close> of a string. \<open>lit\<close> writes an ASCII literal.
\<close>

type_synonym js_string = "16 word list"

definition lit :: "string \<Rightarrow> js_string" where
  "lit s = map (\<lambda>c. of_nat (of_char c)) s"

section \<open>White space\<close>

text \<open>White space and line terminators, which \<^verbatim>\<open>\s\<close> and \<^verbatim>\<open>trim\<close> agree on.\<close>

definition ws :: "16 word \<Rightarrow> bool" where
  "ws c \<longleftrightarrow> c \<in> {9, 10, 11, 12, 13, 32, 160, 0x1680, 0x2028, 0x2029, 0x202F, 0x205F, 0x3000, 0xFEFF}
     \<or> (0x2000 \<le> c \<and> c \<le> 0x200A)"

definition js_trim :: "js_string \<Rightarrow> js_string" where
  "js_trim t = rev (dropWhile ws (rev (dropWhile ws t)))"

section \<open>Quoting\<close>

definition high_surrogate :: "16 word \<Rightarrow> bool" where
  "high_surrogate c \<longleftrightarrow> 0xD800 \<le> c \<and> c \<le> 0xDBFF"

definition low_surrogate :: "16 word \<Rightarrow> bool" where
  "low_surrogate c \<longleftrightarrow> 0xDC00 \<le> c \<and> c \<le> 0xDFFF"

definition hex_digit :: "nat \<Rightarrow> 16 word" where
  "hex_digit n = (if n < 10 then of_nat (48 + n) else of_nat (87 + n))"

definition hex4 :: "16 word \<Rightarrow> js_string" where
  "hex4 c = (let n = unat c in map hex_digit [n div 4096, n div 256 mod 16, n div 16 mod 16, n mod 16])"

definition json_escape :: "16 word \<Rightarrow> js_string" where
  "json_escape c =
     (if c = 34 then [92, 34] else if c = 92 then [92, 92]
      else if c = 8 then [92, 98] else if c = 12 then [92, 102] else if c = 10 then [92, 110]
      else if c = 13 then [92, 114] else if c = 9 then [92, 116]
      else if c < 32 \<or> high_surrogate c \<or> low_surrogate c then [92, 117] @ hex4 c
      else [c])"

fun quote_units :: "js_string \<Rightarrow> js_string" where
  "quote_units [] = []"
| "quote_units [c] = json_escape c"
| "quote_units (c # d # cs) =
     (if high_surrogate c \<and> low_surrogate d then c # d # quote_units cs
      else json_escape c @ quote_units (d # cs))"

definition json_quote :: "js_string \<Rightarrow> js_string" where
  "json_quote s = [34] @ quote_units s @ [34]"

text \<open>A reader for quoted text, to show that quoting loses nothing.\<close>

definition hex_value :: "16 word \<Rightarrow> nat" where
  "hex_value d = (if d < 58 then unat d - 48 else unat d - 87)"

definition unescape :: "16 word \<Rightarrow> 16 word" where
  "unescape x = (if x = 98 then 8 else if x = 102 then 12 else if x = 110 then 10
     else if x = 114 then 13 else if x = 116 then 9 else x)"

function unquote :: "js_string \<Rightarrow> js_string \<times> js_string" where
  "unquote t =
     (case t of
        [] \<Rightarrow> ([], [])
      | c # r \<Rightarrow>
          if c = 34 then ([], r)
          else if c \<noteq> 92 then apfst (Cons c) (unquote r)
          else case r of
                 [] \<Rightarrow> ([], [])
               | x # r' \<Rightarrow>
                   if x = 117 then
                     apfst (Cons (of_nat (foldl (\<lambda>n d. 16 * n + hex_value d) 0 (take 4 r')))) (unquote (drop 4 r'))
                   else apfst (Cons (unescape x)) (unquote r'))"
  by pat_completeness auto
termination by (relation "measure length") auto

declare unquote.simps [simp del]

lemma hex_value_digit: "n < 16 \<Longrightarrow> hex_value (hex_digit n) = n"
proof -
  assume "n < 16"
  then have "n \<in> {0, 1, 2, 3, 4, 5, 6, 7, 8, 9, 10, 11, 12, 13, 14, 15}" by (simp only: insert_iff empty_iff) presburger
  then show ?thesis by (auto simp: hex_value_def hex_digit_def)
qed

lemma hex4_value: "of_nat (foldl (\<lambda>n d. 16 * n + hex_value d) 0 (hex4 c)) = c"
proof -
  have c: "unat c < 65536" using unsigned_less [of c, where ?'a = nat] by simp
  have split16: "k = 16 * (k div 16) + k mod 16" for k :: nat by simp
  have digits: "4096 * (n div 4096) + 256 * (n div 256 mod 16) + 16 * (n div 16 mod 16) + n mod 16 = n" for n :: nat
  proof -
    have "n div 16 = 16 * (n div 256) + n div 16 mod 16" "n div 256 = 16 * (n div 4096) + n div 256 mod 16"
      using split16 [of "n div 16"] split16 [of "n div 256"] by (simp_all add: div_mult2_eq [symmetric])
    with split16 [of n] show ?thesis by linarith
  qed
  have "foldl (\<lambda>n d. 16 * n + hex_value d) 0 (hex4 c) = unat c"
    using c by (simp add: hex4_def Let_def hex_value_digit less_mult_imp_div_less digits)
  then show ?thesis by simp
qed

lemma length_hex4 [simp]: "length (hex4 c) = 4"
  by (simp add: hex4_def Let_def)

lemma unquote_escape: "unquote (json_escape c @ r) = apfst (Cons c) (unquote r)"
proof -
  have plain: "unquote (c # r) = apfst (Cons c) (unquote r)" if "c \<noteq> 34" "c \<noteq> 92"
    using that by (subst unquote.simps) simp
  have esc: "unquote (92 # x # r) = apfst (Cons (unescape x)) (unquote r)" if "x \<noteq> 117" for x
    using that by (subst unquote.simps) simp
  have uni: "unquote (92 # 117 # hex4 c @ r) = apfst (Cons c) (unquote r)"
    by (subst unquote.simps) (simp add: hex4_value)
  show ?thesis using plain esc uni by (simp add: json_escape_def unescape_def)
qed

lemma surrogate_plain: "high_surrogate c \<or> low_surrogate c \<Longrightarrow> unquote (c # r) = apfst (Cons c) (unquote r)"
  by (subst unquote.simps) (auto simp: high_surrogate_def low_surrogate_def)

text \<open>The reader finds the string and what follows the closing quote.\<close>

lemma unquote_quote: "unquote (quote_units s @ 34 # r) = (s, r)"
proof (induction s rule: quote_units.induct)
  case 1
  show ?case by (subst unquote.simps) simp
next
  case (2 c)
  show ?case by (simp add: unquote_escape) (subst unquote.simps, simp)
next
  case (3 c d cs)
  then show ?case by (cases "high_surrogate c \<and> low_surrogate d") (auto simp: surrogate_plain unquote_escape)
qed

lemma json_quote_append: "json_quote s @ r = 34 # quote_units s @ 34 # r"
  by (simp add: json_quote_def)

lemma json_quote_inj: "json_quote s @ r = json_quote t @ r' \<longleftrightarrow> s = t \<and> r = r'"
proof
  assume "json_quote s @ r = json_quote t @ r'"
  then have "unquote (quote_units s @ 34 # r) = unquote (quote_units t @ 34 # r')"
    by (simp add: json_quote_append)
  then show "s = t \<and> r = r'" by (simp add: unquote_quote)
qed simp

lemma json_quote_eq [simp]: "json_quote s = json_quote t \<longleftrightarrow> s = t"
  using json_quote_inj [of s "[]" t "[]"] by simp

end
