(* ===== verification/Encoding.thy ===== *)
theory Encoding
  imports JS_Strings
begin

text \<open>
  Bytes and text, as the platform's \<^verbatim>\<open>btoa\<close>, \<^verbatim>\<open>atob\<close>, \<^verbatim>\<open>TextEncoder\<close> and \<^verbatim>\<open>TextDecoder\<close> convert
  between them: base64 with its forgiving reader, and UTF-8 with the replacement character for what
  is not text. The round trips say exactly which strings survive.
\<close>

type_synonym byte = "8 word"
type_synonym bytes = "byte list"

lemma byte_less: "unat (b :: byte) < 256"
  using unsigned_less [of b, where ?'a = nat] by simp

lemma unat_byte: "n < 256 \<Longrightarrow> unat (of_nat n :: byte) = n"
  by (simp add: unat_of_nat take_bit_nat_eq_self)

lemma unit_less: "unat (c :: 16 word) < 65536"
  using unsigned_less [of c, where ?'a = nat] by simp

lemma unat_unit: "n < 65536 \<Longrightarrow> unat (of_nat n :: 16 word) = n"
  by (simp add: unat_of_nat take_bit_nat_eq_self)

lemma lit_eq [simp]: "lit s = lit t \<longleftrightarrow> s = t"
proof -
  have "unat (of_nat (of_char c) :: 16 word) = of_char c" for c :: char
    using nat_of_char_less_256 [of c] by (intro unat_unit) linarith
  then have "inj (\<lambda>c. of_nat (of_char c) :: 16 word)" by (intro injI) (metis of_char_eq_iff)
  then show ?thesis by (simp add: lit_def inj_map_eq_map)
qed

section \<open>Base64\<close>

definition b64_char :: "nat \<Rightarrow> 16 word" where
  "b64_char n = of_nat (if n < 26 then 65 + n else if n < 52 then 71 + n
     else if n < 62 then n - 4 else if n = 62 then 43 else 47)"

definition b64_value :: "16 word \<Rightarrow> nat option" where
  "b64_value c = (let n = unat c in
     if 65 \<le> n \<and> n \<le> 90 then Some (n - 65) else if 97 \<le> n \<and> n \<le> 122 then Some (n - 71)
     else if 48 \<le> n \<and> n \<le> 57 then Some (n + 4) else if n = 43 then Some 62
     else if n = 47 then Some 63 else None)"

text \<open>\<^verbatim>\<open>btoa(String.fromCharCode(...bytes))\<close>.\<close>

fun digits6 :: "bytes \<Rightarrow> nat list" where
  "digits6 [] = []"
| "digits6 [a] = [unat a div 4, unat a mod 4 * 16]"
| "digits6 [a, b] = [unat a div 4, unat a mod 4 * 16 + unat b div 16, unat b mod 16 * 4]"
| "digits6 (a # b # c # r) = unat a div 4 # (unat a mod 4 * 16 + unat b div 16)
     # (unat b mod 16 * 4 + unat c div 64) # (unat c mod 64) # digits6 r"

definition btoa :: "bytes \<Rightarrow> js_string" where
  "btoa bs = map b64_char (digits6 bs) @ replicate (2 * length bs mod 3) 61"

text \<open>\<^verbatim>\<open>atob(s)\<close>, read as bytes: ASCII white space is dropped, up to two closing padding signs too where the length
  is a multiple of four, and left-over bits are discarded; anything else throws.\<close>

definition ascii_ws :: "16 word \<Rightarrow> bool" where
  "ascii_ws c \<longleftrightarrow> c \<in> {9, 10, 12, 13, 32}"

definition strip_padding :: "js_string \<Rightarrow> js_string" where
  "strip_padding s =
     (if length s mod 4 \<noteq> 0 \<or> s = [] \<or> last s \<noteq> 61 then s
      else let t = butlast s in if t \<noteq> [] \<and> last t = 61 then butlast t else t)"

fun unpack6 :: "nat list \<Rightarrow> bytes option" where
  "unpack6 [] = Some []"
| "unpack6 [v] = None"
| "unpack6 [v, w] = Some [of_nat (v * 4 + w div 16)]"
| "unpack6 [v, w, x] = Some [of_nat (v * 4 + w div 16), of_nat (w mod 16 * 16 + x div 4)]"
| "unpack6 (v # w # x # y # r) =
     map_option (\<lambda>bs. of_nat (v * 4 + w div 16) # of_nat (w mod 16 * 16 + x div 4) # of_nat (x mod 4 * 64 + y) # bs)
       (unpack6 r)"

definition atob :: "js_string \<Rightarrow> bytes option" where
  "atob s = (let t = strip_padding (filter (\<lambda>c. \<not> ascii_ws c) s) in
     case those (map b64_value t) of None \<Rightarrow> None | Some vs \<Rightarrow> unpack6 vs)"

lemma unat_b64_char: "n < 64 \<Longrightarrow> unat (b64_char n) =
     (if n < 26 then 65 + n else if n < 52 then 71 + n
     else if n < 62 then n - 4 else if n = 62 then 43 else 47)"
  unfolding b64_char_def by (rule unat_unit) auto

lemma b64_value_char [simp]: "n < 64 \<Longrightarrow> b64_value (b64_char n) = Some n"
  by (auto simp: b64_value_def unat_b64_char Let_def)

lemma b64_char_plain:
  assumes "n < 64"
  shows "\<not> ascii_ws (b64_char n)" "b64_char n \<noteq> 61" "b64_char n \<noteq> 58"
proof -
  have "unat (b64_char n) \<notin> {9, 10, 12, 13, 32, 61, 58}"
    unfolding unat_b64_char [OF assms] using assms by auto
  then show "\<not> ascii_ws (b64_char n)" "b64_char n \<noteq> 61" "b64_char n \<noteq> 58"
    by (auto simp: ascii_ws_def)
qed

text \<open>The digits of three bytes.\<close>

lemma b64_digits:
  fixes a b :: byte
  shows "unat a div 4 < 64" "unat a mod 4 * 16 < 64" "unat a mod 4 * 16 + unat b div 16 < 64"
    "unat a mod 16 * 4 < 64" "unat a mod 16 * 4 + unat b div 64 < 64" "unat a mod 64 < 64"
proof -
  have "unat a div 4 < 64" "unat b div 16 < 16" "unat b div 64 < 4"
    using byte_less [of a] byte_less [of b] by (simp_all add: less_mult_imp_div_less)
  moreover have "unat a mod 4 < 4" "unat a mod 16 < 16" "unat a mod 64 < 64" by simp_all
  ultimately show "unat a div 4 < 64" "unat a mod 4 * 16 < 64" "unat a mod 4 * 16 + unat b div 16 < 64"
    "unat a mod 16 * 4 < 64" "unat a mod 16 * 4 + unat b div 64 < 64" "unat a mod 64 < 64" by linarith+
qed

lemma b64_bytes:
  fixes a b c :: byte
  shows "of_nat (unat a div 4 * 4 + (unat a mod 4 * 16 + unat b div 16) div 16) = a"
    "of_nat (unat a div 4 * 4 + unat a mod 4 * 16 div 16) = a"
    "of_nat ((unat a mod 4 * 16 + unat b div 16) mod 16 * 16 + (unat b mod 16 * 4 + unat c div 64) div 4) = b"
    "of_nat ((unat a mod 4 * 16 + unat b div 16) mod 16 * 16 + unat b mod 16 * 4 div 4) = b"
    "of_nat ((unat b mod 16 * 4 + unat c div 64) mod 4 * 64 + unat c mod 64) = c"
proof -
  have b: "unat b div 16 < 16" and c: "unat c div 64 < 4"
    using byte_less [of b] byte_less [of c] by (simp_all add: less_mult_imp_div_less)
  have ab: "(unat a mod 4 * 16 + unat b div 16) div 16 = unat a mod 4"
    "(unat a mod 4 * 16 + unat b div 16) mod 16 = unat b div 16" using b by simp_all
  have bc: "(unat b mod 16 * 4 + unat c div 64) div 4 = unat b mod 16"
    "(unat b mod 16 * 4 + unat c div 64) mod 4 = unat c div 64" using c by simp_all
  show "of_nat (unat a div 4 * 4 + (unat a mod 4 * 16 + unat b div 16) div 16) = a"
    "of_nat (unat a div 4 * 4 + unat a mod 4 * 16 div 16) = a"
    "of_nat ((unat a mod 4 * 16 + unat b div 16) mod 16 * 16 + (unat b mod 16 * 4 + unat c div 64) div 4) = b"
    "of_nat ((unat a mod 4 * 16 + unat b div 16) mod 16 * 16 + unat b mod 16 * 4 div 4) = b"
    "of_nat ((unat b mod 16 * 4 + unat c div 64) mod 4 * 64 + unat c mod 64) = c"
    by (simp_all only: ab bc div_mult_mod_eq nonzero_mult_div_cancel_right) simp_all
qed

lemma digits6_less: "n \<in> set (digits6 bs) \<Longrightarrow> n < 64"
  by (induction bs rule: digits6.induct) (auto intro: b64_digits)

lemma unpack6_digits: "unpack6 (digits6 bs) = Some bs"
  by (induction bs rule: digits6.induct) (simp_all only: digits6.simps unpack6.simps b64_bytes option.map)

lemma length_digits6: "(length (digits6 bs) + 2 * length bs mod 3) mod 4 = 0"
proof (induction bs rule: digits6.induct)
  case (4 a b c r)
  have "2 * length (a # b # c # r) mod 3 = 2 * length r mod 3" by simp presburger
  then show ?case using 4 by simp
qed simp_all

text \<open>What \<open>btoa\<close> writes holds no white space and no colon.\<close>

lemma btoa_units: "u \<in> set (btoa bs) \<Longrightarrow> \<not> ascii_ws u \<and> u \<noteq> 58"
proof -
  assume "u \<in> set (btoa bs)"
  then consider "u = 61" | n where "n < 64" "u = b64_char n"
    by (auto simp: btoa_def dest: digits6_less)
  then show ?thesis by cases (simp add: ascii_ws_def, simp add: b64_char_plain)
qed

lemma btoa_no_ws [simp]: "filter (\<lambda>c. \<not> ascii_ws c) (btoa bs) = btoa bs"
  using btoa_units by (intro filter_True) auto

lemma btoa_no_colon: "58 \<notin> set (btoa bs)"
  using btoa_units by blast

lemma strip_padding_replicate:
  assumes "61 \<notin> set s" "k \<le> 2" "(length s + k) mod 4 = 0"
  shows "strip_padding (s @ replicate k 61) = s"
proof -
  have "s \<noteq> [] \<Longrightarrow> last s \<noteq> 61" using assms(1) last_in_set by metis
  moreover have "k = 0 \<or> k = 1 \<or> k = 2" using assms(2) by auto
  moreover have "s \<noteq> []" if "k \<noteq> 0" using that assms(2,3) by auto
  ultimately show ?thesis using assms(3)
    by (elim disjE) (auto simp: strip_padding_def Let_def numeral_2_eq_2 butlast_append)
qed

lemma those_values: "\<forall>n \<in> set ns. n < 64 \<Longrightarrow> those (map b64_value (map b64_char ns)) = Some ns"
  by (induction ns) auto

text \<open>Reading back what was written gives the bytes.\<close>

lemma atob_btoa [simp]: "atob (btoa bs) = Some bs"
proof -
  have "61 \<notin> set (map b64_char (digits6 bs))" using b64_char_plain(2) digits6_less by fastforce
  moreover have "2 * length bs mod 3 \<le> 2" by simp
  ultimately have "strip_padding (btoa bs) = map b64_char (digits6 bs)"
    unfolding btoa_def by (rule strip_padding_replicate) (simp add: length_digits6)
  moreover have "those (map b64_value (map b64_char (digits6 bs))) = Some (digits6 bs)"
    using those_values digits6_less by blast
  ultimately show ?thesis by (simp add: atob_def Let_def unpack6_digits)
qed

section \<open>UTF-8\<close>

text \<open>The code points of a string; a surrogate without its partner reads as U+FFFD, as \<^verbatim>\<open>TextEncoder\<close> reads it.\<close>

definition surrogate :: "16 word \<Rightarrow> bool" where
  "surrogate c \<longleftrightarrow> high_surrogate c \<or> low_surrogate c"

fun code_points :: "js_string \<Rightarrow> nat list" where
  "code_points [] = []"
| "code_points [c] = [if surrogate c then 0xFFFD else unat c]"
| "code_points (c # d # cs) =
     (if high_surrogate c \<and> low_surrogate d
      then (0x10000 + (unat c - 0xD800) * 0x400 + (unat d - 0xDC00)) # code_points cs
      else (if surrogate c then 0xFFFD else unat c) # code_points (d # cs))"

definition units_of :: "nat \<Rightarrow> js_string" where
  "units_of n = (if n < 0x10000 then [of_nat n]
     else [of_nat (0xD800 + (n - 0x10000) div 0x400), of_nat (0xDC00 + (n - 0x10000) mod 0x400)])"

definition encode_point :: "nat \<Rightarrow> bytes" where
  "encode_point n =
     map of_nat
      (if n < 0x80 then [n]
       else if n < 0x800 then [0xC0 + n div 64, 0x80 + n mod 64]
       else if n < 0x10000 then [0xE0 + n div 4096, 0x80 + n div 64 mod 64, 0x80 + n mod 64]
       else [0xF0 + n div 262144, 0x80 + n div 4096 mod 64, 0x80 + n div 64 mod 64, 0x80 + n mod 64])"

text \<open>\<^verbatim>\<open>new TextEncoder().encode(s)\<close>.\<close>

definition utf8_encode :: "js_string \<Rightarrow> bytes" where
  "utf8_encode s = concat (map encode_point (code_points s))"

text \<open>The decoder: the bytes still needed, the code point so far and the bounds of the next byte. A byte out of
  bounds ends the sequence with U+FFFD and is read again as the start of another.\<close>

datatype dec_state = Start | Need nat nat nat nat

fun lead_byte :: "nat \<Rightarrow> nat list \<times> dec_state" where
  "lead_byte b =
     (if b < 0x80 then ([b], Start)
      else if 0xC2 \<le> b \<and> b \<le> 0xDF then ([], Need 1 (b - 0xC0) 0x80 0xBF)
      else if 0xE0 \<le> b \<and> b \<le> 0xEF then
        ([], Need 2 (b - 0xE0) (if b = 0xE0 then 0xA0 else 0x80) (if b = 0xED then 0x9F else 0xBF))
      else if 0xF0 \<le> b \<and> b \<le> 0xF4 then
        ([], Need 3 (b - 0xF0) (if b = 0xF0 then 0x90 else 0x80) (if b = 0xF4 then 0x8F else 0xBF))
      else ([0xFFFD], Start))"

fun dec_step :: "dec_state \<Rightarrow> nat \<Rightarrow> nat list \<times> dec_state" where
  "dec_step Start b = lead_byte b"
| "dec_step (Need k n lo hi) b =
     (if b < lo \<or> hi < b then apfst (Cons 0xFFFD) (lead_byte b)
      else if k = 1 then ([n * 64 + (b - 0x80)], Start)
      else ([], Need (k - 1) (n * 64 + (b - 0x80)) 0x80 0xBF))"

fun dec_run :: "dec_state \<Rightarrow> bytes \<Rightarrow> nat list" where
  "dec_run st [] = (if st = Start then [] else [0xFFFD])"
| "dec_run st (b # bs) = (case dec_step st (unat b) of (out, st') \<Rightarrow> out @ dec_run st' bs)"

text \<open>\<^verbatim>\<open>new TextDecoder().decode(bytes)\<close>: without the \<^verbatim>\<open>ignoreBOM\<close> option a leading byte order mark is dropped.\<close>

definition drop_bom :: "nat list \<Rightarrow> nat list" where
  "drop_bom ns = (case ns of n # r \<Rightarrow> if n = 0xFEFF then r else ns | [] \<Rightarrow> [])"

definition utf8_decode :: "bytes \<Rightarrow> js_string" where
  "utf8_decode bs = concat (map units_of (drop_bom (dec_run Start bs)))"

definition scalar_value :: "nat \<Rightarrow> bool" where
  "scalar_value n \<longleftrightarrow> n < 0xD800 \<or> 0xE000 \<le> n \<and> n < 0x110000"

lemma dec_run_of_nat:
  "b < 256 \<Longrightarrow> dec_run st (of_nat b # bs) = (case dec_step st b of (out, st') \<Rightarrow> out @ dec_run st' bs)"
  by (simp add: unat_byte)

lemma dec_run_2:
  assumes "2 \<le> q" "q < 32" "r < 64"
  shows "dec_run Start (of_nat (0xC0 + q) # of_nat (0x80 + r) # bs) = (q * 64 + r) # dec_run Start bs"
  using assms by (simp add: dec_run_of_nat del: of_nat_add dec_run.simps(2))

lemma dec_run_3:
  assumes "q < 16" "r < 64" "t < 64" "q = 0 \<Longrightarrow> 32 \<le> r" "q = 13 \<Longrightarrow> r < 32"
  shows "dec_run Start (of_nat (0xE0 + q) # of_nat (0x80 + r) # of_nat (0x80 + t) # bs)
    = ((q * 64 + r) * 64 + t) # dec_run Start bs"
proof -
  have "lead_byte (0xE0 + q) = ([], Need 2 q (if q = 0 then 0xA0 else 0x80) (if q = 13 then 0x9F else 0xBF))"
    using assms(1) by simp
  then show ?thesis using assms by (auto simp: dec_run_of_nat simp del: of_nat_add dec_run.simps(2) lead_byte.simps)
qed

lemma dec_run_4:
  assumes "q < 5" "r < 64" "t < 64" "u < 64" "q = 0 \<Longrightarrow> 16 \<le> r" "q = 4 \<Longrightarrow> r < 16"
  shows "dec_run Start (of_nat (0xF0 + q) # of_nat (0x80 + r) # of_nat (0x80 + t) # of_nat (0x80 + u) # bs)
    = (((q * 64 + r) * 64 + t) * 64 + u) # dec_run Start bs"
proof -
  have "lead_byte (0xF0 + q) = ([], Need 3 q (if q = 0 then 0x90 else 0x80) (if q = 4 then 0x8F else 0xBF))"
    using assms(1) by simp
  then show ?thesis using assms by (auto simp: dec_run_of_nat simp del: of_nat_add dec_run.simps(2) lead_byte.simps)
qed

text \<open>One code point at a time is read back.\<close>

lemma dec_run_point:
  assumes "scalar_value n"
  shows "dec_run Start (encode_point n @ bs) = n # dec_run Start bs"
proof -
  have m: "n mod 64 < 64" "n div 64 mod 64 < 64" "n div 4096 mod 64 < 64" by simp_all
  have n: "n < 0x110000" "\<not> (0xD800 \<le> n \<and> n < 0xE000)" using assms by (auto simp: scalar_value_def)
  have s1: "n div 64 * 64 + n mod 64 = n" "n div 4096 * 64 + n div 64 mod 64 = n div 64"
    "n div 262144 * 64 + n div 4096 mod 64 = n div 4096"
    using div_mult_mod_eq [of n 64] div_mult_mod_eq [of "n div 64" 64] div_mult_mod_eq [of "n div 4096" 64]
    by (simp_all add: div_mult2_eq [symmetric])
  consider "n < 0x80" | "0x80 \<le> n" "n < 0x800" | "0x800 \<le> n" "n < 0x10000" | "0x10000 \<le> n" by linarith
  then show ?thesis
  proof cases
    case 1
    then show ?thesis by (simp add: encode_point_def dec_run_of_nat del: of_nat_add dec_run.simps(2))
  next
    case 2
    then have e: "encode_point n @ bs = of_nat (0xC0 + n div 64) # of_nat (0x80 + n mod 64) # bs"
      by (simp add: encode_point_def)
    show ?thesis unfolding e using 2 m dec_run_2 [of "n div 64" "n mod 64" bs] by (simp add: s1 less_mult_imp_div_less)
  next
    case 3
    then have e: "encode_point n @ bs
        = of_nat (0xE0 + n div 4096) # of_nat (0x80 + n div 64 mod 64) # of_nat (0x80 + n mod 64) # bs"
      by (simp add: encode_point_def)
    have "n div 4096 < 16" using 3 by (simp add: less_mult_imp_div_less)
    moreover have "n div 4096 = 0 \<Longrightarrow> 32 \<le> n div 64 mod 64" using 3 s1(1,2) m by linarith
    moreover have "n div 4096 = 13 \<Longrightarrow> n div 64 mod 64 < 32" using n(2) 3 s1(1,2) m by linarith
    ultimately show ?thesis unfolding e using m
      by (subst dec_run_3) (simp_all only: s1 simp_thms)
  next
    case 4
    then have e: "encode_point n @ bs = of_nat (0xF0 + n div 262144) # of_nat (0x80 + n div 4096 mod 64) #
        of_nat (0x80 + n div 64 mod 64) # of_nat (0x80 + n mod 64) # bs"
      by (simp add: encode_point_def)
    have "n div 262144 < 5" using n(1) by (simp add: less_mult_imp_div_less)
    moreover have "n div 262144 = 0 \<Longrightarrow> 16 \<le> n div 4096 mod 64" using 4 s1 m by linarith
    moreover have "n div 262144 = 4 \<Longrightarrow> n div 4096 mod 64 < 16" using n(1) s1 m by linarith
    ultimately show ?thesis unfolding e using m
      by (subst dec_run_4) (simp_all only: s1 simp_thms)
  qed
qed

text \<open>Every code point of a string is a scalar value, and a well-formed string is the units of its code points.\<close>

lemma surrogate_unat: "high_surrogate c \<longleftrightarrow> 0xD800 \<le> unat c \<and> unat c \<le> 0xDBFF"
  "low_surrogate c \<longleftrightarrow> 0xDC00 \<le> unat c \<and> unat c \<le> 0xDFFF"
  by (simp_all add: high_surrogate_def low_surrogate_def word_le_nat_alt)

lemma scalar_unit: "\<not> surrogate c \<Longrightarrow> scalar_value (unat c)"
  using unit_less [of c] by (auto simp: surrogate_def surrogate_unat scalar_value_def)

lemma code_points_scalar: "n \<in> set (code_points s) \<Longrightarrow> scalar_value n"
proof (induction s rule: code_points.induct)
  case (2 c)
  then show ?case using scalar_unit [of c] by (auto simp: scalar_value_def split: if_splits)
next
  case (3 c d cs)
  have "scalar_value (0x10000 + (unat c - 0xD800) * 0x400 + (unat d - 0xDC00))"
    if "high_surrogate c" "low_surrogate d"
    using that unfolding surrogate_unat scalar_value_def by linarith
  moreover have "scalar_value (if surrogate c then 0xFFFD else unat c)"
    using scalar_unit [of c] by (simp add: scalar_value_def)
  ultimately show ?case using 3 by (auto split: if_splits)
qed simp

fun well_formed :: "js_string \<Rightarrow> bool" where
  "well_formed [] = True"
| "well_formed [c] = (\<not> surrogate c)"
| "well_formed (c # d # cs) =
     (if high_surrogate c \<and> low_surrogate d then well_formed cs else \<not> surrogate c \<and> well_formed (d # cs))"

lemma units_of_pair:
  assumes "high_surrogate c" "low_surrogate d"
  shows "units_of (0x10000 + (unat c - 0xD800) * 0x400 + (unat d - 0xDC00)) = [c, d]"
proof -
  define x y where "x = unat c - 0xD800" and "y = unat d - 0xDC00"
  have "unat c = 0xD800 + x" "unat d = 0xDC00 + y" and y: "y < 0x400"
    using assms by (auto simp: surrogate_unat x_def y_def)
  then have "of_nat (0xD800 + x) = c" "of_nat (0xDC00 + y) = d" 
    by (simp_all only: flip: \<open>unat c = _\<close> \<open>unat d = _\<close>) simp_all
  then show ?thesis using y by (simp add: units_of_def x_def [symmetric] y_def [symmetric] del: of_nat_add)
qed

lemma units_of_points: "well_formed s \<Longrightarrow> concat (map units_of (code_points s)) = s"
proof (induction s rule: code_points.induct)
  case (3 c d cs)
  then show ?case
  proof (cases "high_surrogate c \<and> low_surrogate d")
    case True
    then show ?thesis using 3 units_of_pair [of c d] by simp
  next
    case False
    then have "\<not> surrogate c" using 3 by auto
    then show ?thesis using 3 False unit_less [of c] by (auto simp: units_of_def)
  qed
qed (auto simp: units_of_def unit_less)

lemma dec_run_points: "\<forall>n \<in> set ns. scalar_value n \<Longrightarrow> dec_run Start (concat (map encode_point ns)) = ns"
  by (induction ns) (simp_all add: dec_run_point)

lemma code_points_bom: "drop_bom (code_points s) = code_points s" if "take 1 s \<noteq> [0xFEFF]"
  using that by (induction s rule: code_points.induct) (auto simp: drop_bom_def word_unat_eq_iff)

text \<open>Text survives its encoding where every surrogate has its partner and no byte order mark leads.\<close>

lemma utf8_roundtrip:
  assumes "well_formed s" "take 1 s \<noteq> [0xFEFF]"
  shows "utf8_decode (utf8_encode s) = s"
proof -
  have "dec_run Start (utf8_encode s) = code_points s"
    unfolding utf8_encode_def using dec_run_points code_points_scalar by blast
  then show ?thesis using assms by (simp add: utf8_decode_def code_points_bom units_of_points)
qed

end
