(* ===== verification/Kms.thy ===== *)
theory Kms
  imports Encoding
begin

text \<open>
  Data keys: the key-management abstraction of \<^verbatim>\<open>src/packages/core/kms.ts\<close>, with the development backend, which derives
  keys from the master key of the environment, and the Vault Transit backend, which draws them at random and has the
  service wrap them. \<open>act\<close> is an operation of the process that may throw.

  Parameters, the fields of \<open>world\<close>: the platform's AES-GCM and HKDF, its random bytes, the collation of
  \<^verbatim>\<open>localeCompare\<close> and the answers of the service; \<open>clock\<close> counts the calls of the last two, so that each may
  answer anew. \<open>max_args\<close> is how many arguments the engine lets a call have: \<^verbatim>\<open>String.fromCharCode(...bytes)\<close> passes one for each
  byte and throws a \<^verbatim>\<open>RangeError\<close> beyond it. The laws the theorems need of the platform are named (\<open>gcm_opens\<close>, \<open>gcm_authentic\<close>,
  \<open>gcm_lengths\<close>, \<open>random_lengths\<close>, \<open>hkdf_lengths\<close>, \<open>spreads\<close>, \<open>collates\<close>).
\<close>

section \<open>The process and the platform\<close>

type_synonym kms_context = "(js_string \<times> js_string) list" \<comment> \<open>the entries of a \<^verbatim>\<open>Record<string, string>\<close>, in order\<close>

record reply =
  ok :: bool
  status :: nat
  body_text :: js_string
  json_data :: "(js_string \<Rightarrow> js_string option) option" \<comment> \<open>the fields of \<^verbatim>\<open>data\<close>; None where the text is not JSON\<close>

record world =
  gcm_encrypt :: "bytes \<Rightarrow> bytes \<Rightarrow> bytes \<Rightarrow> bytes" \<comment> \<open>key, initialisation vector, plain text\<close>
  gcm_decrypt :: "bytes \<Rightarrow> bytes \<Rightarrow> bytes \<Rightarrow> bytes option"
  hkdf_bits :: "bytes \<Rightarrow> bytes \<Rightarrow> bytes" \<comment> \<open>HKDF-SHA-256 of a master key and an info, zero salt, 256 bits\<close>
  random_values :: "nat \<Rightarrow> nat \<Rightarrow> bytes"
  locale_le :: "js_string \<Rightarrow> js_string \<Rightarrow> bool"
  max_args :: nat
  fetch :: "nat \<Rightarrow> js_string \<Rightarrow> js_string \<Rightarrow> reply option" \<comment> \<open>URL and body of a POST; None where the network fails\<close>

definition gcm_opens :: "world \<Rightarrow> bool" where
  "gcm_opens W \<longleftrightarrow> (\<forall>k iv m. length iv = 12 \<longrightarrow> gcm_decrypt W k iv (gcm_encrypt W k iv m) = Some m)"

definition gcm_authentic :: "world \<Rightarrow> bool" where
  "gcm_authentic W \<longleftrightarrow> (\<forall>k k' iv m. k \<noteq> k' \<and> length k = length k' \<longrightarrow> gcm_decrypt W k' iv (gcm_encrypt W k iv m) = None)"

definition random_lengths :: "world \<Rightarrow> bool" where
  "random_lengths W \<longleftrightarrow> (\<forall>t n. length (random_values W t n) = n)"

definition hkdf_lengths :: "world \<Rightarrow> bool" where
  "hkdf_lengths W \<longleftrightarrow> (\<forall>k i. length (hkdf_bits W k i) = 32)"

text \<open>How long a ciphertext is depends on the plain text alone.\<close>

definition gcm_lengths :: "world \<Rightarrow> bool" where
  "gcm_lengths W \<longleftrightarrow> (\<forall>k k' iv iv' m. length k = 32 \<and> length k' = 32 \<and> length iv = 12 \<and> length iv' = 12 \<longrightarrow>
     length (gcm_encrypt W k iv m) = length (gcm_encrypt W k' iv' m))"

text \<open>An initialisation vector, a key and a wrapped key are within the limit of arguments.\<close>

definition spreads :: "world \<Rightarrow> bool" where
  "spreads W \<longleftrightarrow> 512 \<le> max_args W"

lemmas world_laws = gcm_opens_def gcm_authentic_def gcm_lengths_def random_lengths_def hkdf_lengths_def spreads_def

record vault_options =
  addr :: js_string
  vault_token :: js_string
  keyName :: js_string
  mount :: js_string

datatype KmsBackend = LocalDevKmsBackend "bytes option" | VaultKmsBackend vault_options

record process =
  ENCRYPTION_DISABLED :: "js_string option"
  ENCRYPTION_MASTER_KEY :: "js_string option"
  kmsBackend :: KmsBackend
  derivedKeyCache :: "js_string \<Rightarrow> bytes option"
  clock :: nat

datatype fault =
    KmsUnavailableError string
  | KmsOperationError string "(nat \<times> js_string) option"
  | InvalidCharacterError \<comment> \<open>\<^verbatim>\<open>atob\<close>\<close>
  | DataError \<comment> \<open>\<^verbatim>\<open>importKey\<close>\<close>
  | OperationError \<comment> \<open>\<^verbatim>\<open>decrypt\<close>\<close>
  | NetworkError
  | RangeError \<comment> \<open>too many arguments\<close>
  | SyntaxError \<comment> \<open>\<^verbatim>\<open>res.json()\<close>\<close>
  | LabelNotFoundError js_string "js_string option"
  | LabelContentKeyMissingError js_string
  | LabelClearanceDeniedError js_string js_string
  | LabelGrantNotFoundError js_string js_string
  | LabeledGroundTruthNotFoundError js_string js_string
  | DatabaseError db_error

type_synonym 'a act = "process \<Rightarrow> (fault + 'a) \<times> process"

definition return :: "'a \<Rightarrow> 'a act" where
  "return a p = (Inr a, p)"

definition throw :: "fault \<Rightarrow> 'a act" where
  "throw e p = (Inl e, p)"

definition and_then :: "'a act \<Rightarrow> ('a \<Rightarrow> 'b act) \<Rightarrow> 'b act" where
  "and_then m f p = (case m p of (Inl e, p') \<Rightarrow> (Inl e, p') | (Inr a, p') \<Rightarrow> f a p')"

definition get_random :: "world \<Rightarrow> nat \<Rightarrow> bytes act" where
  "get_random W n p = (Inr (random_values W (clock p) n), p\<lparr>clock := Suc (clock p)\<rparr>)"

definition post :: "world \<Rightarrow> js_string \<Rightarrow> js_string \<Rightarrow> reply act" where
  "post W url body p =
     (case fetch W (clock p) url body of None \<Rightarrow> Inl NetworkError | Some r \<Rightarrow> Inr r, p\<lparr>clock := Suc (clock p)\<rparr>)"

lemmas act_simps = return_def throw_def and_then_def get_random_def post_def

section \<open>The development backend\<close>

definition hex_unit :: "16 word \<Rightarrow> bool" where
  "hex_unit c \<longleftrightarrow> (48 \<le> c \<and> c \<le> 57) \<or> (97 \<le> c \<and> c \<le> 102) \<or> (65 \<le> c \<and> c \<le> 70)"

definition hex_nat :: "16 word \<Rightarrow> nat" where
  "hex_nat c = (if c \<le> 57 then unat c - 48 else if c \<le> 70 then unat c - 55 else unat c - 87)"

fun hex_pairs :: "js_string \<Rightarrow> bytes" where
  "hex_pairs (a # b # r) = of_nat (16 * hex_nat a + hex_nat b) # hex_pairs r"
| "hex_pairs _ = []"

definition parse_master :: "js_string \<Rightarrow> bytes option" where
  "parse_master hex = (if length hex = 64 \<and> list_all hex_unit hex then Some (hex_pairs hex) else atob hex)"

definition getMasterKey :: "bytes act" where
  "getMasterKey p =
     (case kmsBackend p of
        LocalDevKmsBackend (Some k) \<Rightarrow> return k p
      | _ \<Rightarrow>
        (case ENCRYPTION_MASTER_KEY p of
           None \<Rightarrow> throw (KmsUnavailableError ''LocalDevKmsBackend requires ENCRYPTION_MASTER_KEY to be set'') p
         | Some hex \<Rightarrow>
             if hex = [] then throw (KmsUnavailableError ''LocalDevKmsBackend requires ENCRYPTION_MASTER_KEY to be set'') p
             else case parse_master hex of
                    None \<Rightarrow> throw InvalidCharacterError p
                  | Some raw \<Rightarrow> return raw (p\<lparr>kmsBackend := LocalDevKmsBackend (Some raw)\<rparr>)))"

text \<open>The entries sorted by their keys, joined as \<^verbatim>\<open>k=v;k=v\<close>.\<close>

fun insert_entry :: "(js_string \<Rightarrow> js_string \<Rightarrow> bool) \<Rightarrow> js_string \<times> js_string \<Rightarrow> kms_context \<Rightarrow> kms_context" where
  "insert_entry le e [] = [e]"
| "insert_entry le e (f # fs) = (if le (fst e) (fst f) then e # f # fs else f # insert_entry le e fs)"

definition sort_entries :: "(js_string \<Rightarrow> js_string \<Rightarrow> bool) \<Rightarrow> kms_context \<Rightarrow> kms_context" where
  "sort_entries le es = foldr (insert_entry le) es []"

fun join_with :: "js_string \<Rightarrow> js_string list \<Rightarrow> js_string" where
  "join_with sep [] = []"
| "join_with sep [x] = x"
| "join_with sep (x # xs) = x @ sep @ join_with sep xs"

definition infoStr :: "world \<Rightarrow> kms_context \<Rightarrow> js_string" where
  "infoStr W ctx = join_with (lit '';'') (map (\<lambda>(k, v). k @ lit ''='' @ v) (sort_entries (locale_le W) ctx))"

definition deriveKeyBytes :: "world \<Rightarrow> kms_context \<Rightarrow> bytes act" where
  "deriveKeyBytes W ctx =
     and_then getMasterKey (\<lambda>master. return (hkdf_bits W master (utf8_encode (infoStr W ctx))))"

record DataKey =
  plaintextKey :: bytes
  encryptedKey :: bytes

definition localGenerateDataKey :: "world \<Rightarrow> kms_context \<Rightarrow> DataKey act" where
  "localGenerateDataKey W ctx =
     and_then (deriveKeyBytes W ctx) (\<lambda>k.
       return \<lparr>plaintextKey = k, encryptedKey = utf8_encode (infoStr W ctx)\<rparr>)"

definition localDecryptDataKey :: "world \<Rightarrow> bytes \<Rightarrow> kms_context \<Rightarrow> bytes act" where
  "localDecryptDataKey W encrypted ctx = deriveKeyBytes W ctx"

definition localRotateDataKey :: "world \<Rightarrow> kms_context \<Rightarrow> DataKey act" where
  "localRotateDataKey W ctx p = localGenerateDataKey W ctx (p\<lparr>kmsBackend := LocalDevKmsBackend None\<rparr>)"

section \<open>The Vault Transit backend\<close>

definition newVaultKmsBackend :: "js_string \<Rightarrow> js_string \<Rightarrow> js_string option \<Rightarrow> js_string option \<Rightarrow> KmsBackend" where
  "newVaultKmsBackend address tok key mnt = VaultKmsBackend
     \<lparr>addr = (if address \<noteq> [] \<and> last address = 47 then butlast address else address),
      vault_token = tok,
      keyName = (case key of None \<Rightarrow> lit ''superfield-field-enc'' | Some k \<Rightarrow> k),
      mount = (case mnt of None \<Rightarrow> lit ''transit'' | Some m \<Rightarrow> m)\<rparr>"

definition baseUrl :: "vault_options \<Rightarrow> js_string" where
  "baseUrl v = addr v @ lit ''/v1/'' @ mount v"

definition json_object :: "kms_context \<Rightarrow> js_string" where
  "json_object es = [123] @ join_with [44] (map (\<lambda>(k, x). json_quote k @ [58] @ json_quote x) es) @ [125]"

definition uint8ArrayToBase64 :: "world \<Rightarrow> bytes \<Rightarrow> js_string act" where
  "uint8ArrayToBase64 W bs = (if length bs \<le> max_args W then return (btoa bs) else throw RangeError)"

definition context_string :: "world \<Rightarrow> kms_context \<Rightarrow> js_string act" where
  "context_string W ctx = uint8ArrayToBase64 W (utf8_encode (json_object ctx))"

text \<open>The answer of the service: its status, then the field of \<^verbatim>\<open>data\<close> that is asked for.\<close>

definition vault_field :: "string \<Rightarrow> string \<Rightarrow> reply \<Rightarrow> js_string act" where
  "vault_field op f r =
     (if \<not> ok r then throw (KmsOperationError (''Vault '' @ op @ '' failed'') (Some (status r, body_text r)))
      else case json_data r of
             None \<Rightarrow> throw SyntaxError
           | Some d \<Rightarrow>
               (case d (lit f) of
                  None \<Rightarrow> throw (KmsOperationError (''Vault '' @ op @ '' response missing data.'' @ f) None)
                | Some s \<Rightarrow> if s = [] then throw (KmsOperationError (''Vault '' @ op @ '' response missing data.'' @ f) None)
                    else return s))"

definition vaultGenerateDataKey :: "world \<Rightarrow> vault_options \<Rightarrow> kms_context \<Rightarrow> DataKey act" where
  "vaultGenerateDataKey W v ctx =
     and_then (get_random W 32) (\<lambda>k.
     and_then (uint8ArrayToBase64 W k) (\<lambda>plaintext.
     and_then (context_string W ctx) (\<lambda>contextStr.
     and_then (post W (baseUrl v @ lit ''/encrypt/'' @ keyName v)
                (json_object [(lit ''plaintext'', plaintext), (lit ''context'', contextStr)])) (\<lambda>r.
     and_then (vault_field ''encrypt'' ''ciphertext'' r) (\<lambda>c.
       return \<lparr>plaintextKey = k, encryptedKey = utf8_encode c\<rparr>)))))"

definition base64ToUint8Array :: "js_string \<Rightarrow> bytes act" where
  "base64ToUint8Array b64 = (case atob b64 of None \<Rightarrow> throw InvalidCharacterError | Some bs \<Rightarrow> return bs)"

definition vaultDecryptDataKey :: "world \<Rightarrow> vault_options \<Rightarrow> bytes \<Rightarrow> kms_context \<Rightarrow> bytes act" where
  "vaultDecryptDataKey W v encrypted ctx =
     and_then (context_string W ctx) (\<lambda>contextStr.
     and_then (post W (baseUrl v @ lit ''/decrypt/'' @ keyName v)
                (json_object [(lit ''ciphertext'', utf8_decode encrypted), (lit ''context'', contextStr)])) (\<lambda>r.
     and_then (vault_field ''decrypt'' ''plaintext'' r) base64ToUint8Array))"

definition vaultRotateDataKey :: "world \<Rightarrow> vault_options \<Rightarrow> kms_context \<Rightarrow> DataKey act" where
  "vaultRotateDataKey W v ctx =
     and_then (post W (baseUrl v @ lit ''/keys/'' @ keyName v @ lit ''/rotate'') []) (\<lambda>r.
       if \<not> ok r then throw (KmsOperationError ''Vault rotate failed'' (Some (status r, body_text r)))
       else vaultGenerateDataKey W v ctx)"

section \<open>The active backend\<close>

definition configureKmsBackend :: "KmsBackend \<Rightarrow> process \<Rightarrow> process" where
  "configureKmsBackend b p = p\<lparr>kmsBackend := b\<rparr>"

definition resetKmsBackend :: "process \<Rightarrow> process" where
  "resetKmsBackend p = p\<lparr>kmsBackend := LocalDevKmsBackend None\<rparr>"

definition kmsGenerateDataKey :: "world \<Rightarrow> kms_context \<Rightarrow> DataKey act" where
  "kmsGenerateDataKey W ctx p =
     (case kmsBackend p of LocalDevKmsBackend _ \<Rightarrow> localGenerateDataKey W ctx p
      | VaultKmsBackend v \<Rightarrow> vaultGenerateDataKey W v ctx p)"

definition kmsDecryptDataKey :: "world \<Rightarrow> bytes \<Rightarrow> kms_context \<Rightarrow> bytes act" where
  "kmsDecryptDataKey W encrypted ctx p =
     (case kmsBackend p of LocalDevKmsBackend _ \<Rightarrow> localDecryptDataKey W encrypted ctx p
      | VaultKmsBackend v \<Rightarrow> vaultDecryptDataKey W v encrypted ctx p)"

definition kmsRotateDataKey :: "world \<Rightarrow> kms_context \<Rightarrow> DataKey act" where
  "kmsRotateDataKey W ctx p =
     (case kmsBackend p of LocalDevKmsBackend _ \<Rightarrow> localRotateDataKey W ctx p
      | VaultKmsBackend v \<Rightarrow> vaultRotateDataKey W v ctx p)"

text \<open>\<^verbatim>\<open>rotateAllDomains\<close>: the results by domain, the last one where a domain is listed twice.\<close>

definition split_slash :: "js_string \<Rightarrow> js_string \<times> js_string" where
  "split_slash domain =
     (takeWhile (\<lambda>c. c \<noteq> 47) domain,
      case dropWhile (\<lambda>c. c \<noteq> 47) domain of [] \<Rightarrow> domain | _ # r \<Rightarrow> takeWhile (\<lambda>c. c \<noteq> 47) r)"

definition rotation_context :: "js_string \<Rightarrow> kms_context" where
  "rotation_context domain =
     [(lit ''domain'', domain), (lit ''sensitivityClass'', fst (split_slash domain)),
      (lit ''entityType'', snd (split_slash domain)), (lit ''purpose'', lit ''field-enc'')]"

fun rotateAllDomains :: "world \<Rightarrow> js_string list \<Rightarrow> (js_string \<rightharpoonup> DataKey) \<Rightarrow> (js_string \<rightharpoonup> DataKey) act" where
  "rotateAllDomains W [] results = return results"
| "rotateAllDomains W (d # ds) results =
     and_then (kmsRotateDataKey W (rotation_context d)) (\<lambda>k. rotateAllDomains W ds (results(d \<mapsto> k)))"

section \<open>Lemmas\<close>

lemma return_apply [simp]: "return a p = (Inr a, p)"
  and throw_apply [simp]: "throw e p = (Inl e, p)"
  by (simp_all add: return_def throw_def)

lemma and_then_Inr: "m p = (Inr a, p') \<Longrightarrow> and_then m f p = f a p'"
  by (simp add: and_then_def)

lemma and_then_Inl: "m p = (Inl e, p') \<Longrightarrow> and_then m f p = (Inl e, p')"
  by (simp add: and_then_def)

lemma and_then_assoc: "and_then (and_then m f) g = and_then m (\<lambda>a. and_then (f a) g)"
  by (rule ext) (auto simp: and_then_def split: prod.splits sum.splits)

lemma get_random_apply [simp]: "get_random W n p = (Inr (random_values W (clock p) n), p\<lparr>clock := Suc (clock p)\<rparr>)"
  by (simp add: get_random_def)

text \<open>A process of the development backend whose master key parses to \<open>raw\<close>.\<close>

definition local_ready :: "bytes \<Rightarrow> process \<Rightarrow> bool" where
  "local_ready raw p \<longleftrightarrow>
     (\<exists>m hex. kmsBackend p = LocalDevKmsBackend m \<and> (m = None \<or> m = Some raw) \<and>
        ENCRYPTION_MASTER_KEY p = Some hex \<and> hex \<noteq> [] \<and> parse_master hex = Some raw)"

lemma getMasterKey_ready:
  "local_ready raw p \<Longrightarrow> getMasterKey p = (Inr raw, p\<lparr>kmsBackend := LocalDevKmsBackend (Some raw)\<rparr>)"
  by (auto simp: local_ready_def getMasterKey_def)

lemma local_ready_update [simp]:
  "local_ready raw p \<Longrightarrow> local_ready raw (p\<lparr>kmsBackend := LocalDevKmsBackend (Some raw)\<rparr>)"
  "local_ready raw (p\<lparr>clock := t\<rparr>) \<longleftrightarrow> local_ready raw p"
  "local_ready raw (p\<lparr>derivedKeyCache := c\<rparr>) \<longleftrightarrow> local_ready raw p"
  by (auto simp: local_ready_def)

lemma deriveKeyBytes_ready:
  "local_ready raw p \<Longrightarrow> deriveKeyBytes W ctx p
     = (Inr (hkdf_bits W raw (utf8_encode (infoStr W ctx))), p\<lparr>kmsBackend := LocalDevKmsBackend (Some raw)\<rparr>)"
  by (simp add: deriveKeyBytes_def and_then_def getMasterKey_ready)

lemma kmsGenerateDataKey_ready:
  assumes "local_ready raw p"
  shows "kmsGenerateDataKey W ctx p =
    (Inr \<lparr>plaintextKey = hkdf_bits W raw (utf8_encode (infoStr W ctx)), encryptedKey = utf8_encode (infoStr W ctx)\<rparr>,
     p\<lparr>kmsBackend := LocalDevKmsBackend (Some raw)\<rparr>)"
  using assms deriveKeyBytes_ready [OF assms]
  by (auto simp: kmsGenerateDataKey_def localGenerateDataKey_def and_then_def local_ready_def)

lemma kmsDecryptDataKey_ready:
  assumes "local_ready raw p"
  shows "kmsDecryptDataKey W k ctx p =
    (Inr (hkdf_bits W raw (utf8_encode (infoStr W ctx))), p\<lparr>kmsBackend := LocalDevKmsBackend (Some raw)\<rparr>)"
  using assms deriveKeyBytes_ready [OF assms]
  by (auto simp: kmsDecryptDataKey_def localDecryptDataKey_def local_ready_def)

text \<open>A process of the Vault backend, where the service unwraps what it wrapped in the same context.\<close>

definition answers :: "world \<Rightarrow> nat \<Rightarrow> js_string \<Rightarrow> kms_context \<Rightarrow> string \<Rightarrow> js_string \<Rightarrow> bool" where
  "answers W t url body f s \<longleftrightarrow>
     (\<exists>r d. fetch W t url (json_object body) = Some r \<and> ok r \<and> json_data r = Some d \<and> d (lit f) = Some s)"

definition vault_transit :: "world \<Rightarrow> vault_options \<Rightarrow> bool" where
  "vault_transit W v \<longleftrightarrow>
     (\<forall>t k c. length k = 32 \<longrightarrow> (\<exists>ct. ct \<noteq> [] \<and> well_formed ct \<and> take 1 ct \<noteq> [0xFEFF] \<and> length (utf8_encode ct) \<le> 512 \<and>
        answers W t (baseUrl v @ lit ''/encrypt/'' @ keyName v) [(lit ''plaintext'', btoa k), (lit ''context'', c)]
          ''ciphertext'' ct \<and>
        (\<forall>t'. answers W t' (baseUrl v @ lit ''/decrypt/'' @ keyName v) [(lit ''ciphertext'', ct), (lit ''context'', c)]
          ''plaintext'' (btoa k))))"

definition vault_ready :: "world \<Rightarrow> vault_options \<Rightarrow> process \<Rightarrow> bool" where
  "vault_ready W v p \<longleftrightarrow> kmsBackend p = VaultKmsBackend v \<and> vault_transit W v \<and> random_lengths W \<and> spreads W"

definition context_text :: "kms_context \<Rightarrow> js_string" where
  "context_text ctx = btoa (utf8_encode (json_object ctx))"

text \<open>A context that the Vault backend can pass on.\<close>

definition short_context :: "world \<Rightarrow> kms_context \<Rightarrow> bool" where
  "short_context W ctx \<longleftrightarrow> length (utf8_encode (json_object ctx)) \<le> max_args W"

lemma context_string_apply:
  "context_string W ctx p = (if short_context W ctx then Inr (context_text ctx) else Inl RangeError, p)"
  by (simp add: context_string_def uint8ArrayToBase64_def short_context_def context_text_def)

lemma vault_field_answers:
  assumes "answers W (clock p) url body f s" "s \<noteq> []"
  shows "and_then (post W url (json_object body)) (\<lambda>r. and_then (vault_field op f r) g) p = g s (p\<lparr>clock := Suc (clock p)\<rparr>)"
  using assms by (auto simp: answers_def and_then_def post_def vault_field_def)

lemma btoa_nonempty: "bs \<noteq> [] \<Longrightarrow> btoa bs \<noteq> []"
  by (cases bs rule: digits6.cases) (simp_all add: btoa_def)

text \<open>The contract of a key service: it generates keys for the contexts it can pass on, and a wrapped key that was generated
  unwraps to the same key.\<close>

locale data_keys =
  fixes gen :: "kms_context \<Rightarrow> DataKey act"
    and dec :: "bytes \<Rightarrow> kms_context \<Rightarrow> bytes act"
    and ready :: "process \<Rightarrow> bool"
    and passable :: "kms_context \<Rightarrow> bool"
  assumes gen_works: "ready p \<Longrightarrow> passable ctx \<Longrightarrow> \<exists>k p'. gen ctx p = (Inr k, p') \<and> ready p'"
    and unwraps: "ready p \<Longrightarrow> ready p' \<Longrightarrow> gen ctx p = (Inr k, p1)
      \<Longrightarrow> \<exists>p2. dec (encryptedKey k) ctx p' = (Inr (plaintextKey k), p2) \<and> ready p2"

interpretation local_keys: data_keys "kmsGenerateDataKey W" "kmsDecryptDataKey W" "local_ready raw" "\<lambda>_. True"
  for W raw
proof
  show "\<exists>k p'. kmsGenerateDataKey W ctx p = (Inr k, p') \<and> local_ready raw p'" if "local_ready raw p" for ctx p
    using that by (simp add: kmsGenerateDataKey_ready)
  show "\<exists>p2. kmsDecryptDataKey W (encryptedKey k) ctx p' = (Inr (plaintextKey k), p2) \<and> local_ready raw p2"
    if "local_ready raw p" "local_ready raw p'" "kmsGenerateDataKey W ctx p = (Inr k, p1)" for p p' ctx k p1
    using that by (auto simp: kmsGenerateDataKey_ready kmsDecryptDataKey_ready)
qed

lemma vault_generates:
  assumes "vault_ready W v p" "short_context W ctx"
  obtains ct where "kmsGenerateDataKey W ctx p =
      (Inr \<lparr>plaintextKey = random_values W (clock p) 32, encryptedKey = utf8_encode ct\<rparr>, p\<lparr>clock := clock p + 2\<rparr>)"
    and "ct \<noteq> []" and "utf8_decode (utf8_encode ct) = ct" and "length (utf8_encode ct) \<le> max_args W"
    and "\<forall>t'. answers W t' (baseUrl v @ lit ''/decrypt/'' @ keyName v)
       [(lit ''ciphertext'', ct), (lit ''context'', context_text ctx)] ''plaintext'' (btoa (random_values W (clock p) 32))"
proof -
  let ?k = "random_values W (clock p) 32"
  have k: "length ?k = 32" "512 \<le> max_args W" using assms(1) by (simp_all add: vault_ready_def random_lengths_def spreads_def)
  then obtain ct where ct: "ct \<noteq> []" "well_formed ct" "take 1 ct \<noteq> [0xFEFF]" "length (utf8_encode ct) \<le> 512"
    "answers W (Suc (clock p)) (baseUrl v @ lit ''/encrypt/'' @ keyName v)
      [(lit ''plaintext'', btoa ?k), (lit ''context'', context_text ctx)] ''ciphertext'' ct"
    "\<forall>t'. answers W t' (baseUrl v @ lit ''/decrypt/'' @ keyName v)
      [(lit ''ciphertext'', ct), (lit ''context'', context_text ctx)] ''plaintext'' (btoa ?k)"
    using assms(1) unfolding vault_ready_def vault_transit_def by metis
  let ?p = "p\<lparr>clock := Suc (clock p)\<rparr>"
  have "uint8ArrayToBase64 W ?k ?p = (Inr (btoa ?k), ?p)" "context_string W ctx ?p = (Inr (context_text ctx), ?p)"
    using k assms(2) by (simp_all add: uint8ArrayToBase64_def context_string_apply)
  then have "kmsGenerateDataKey W ctx p = (Inr \<lparr>plaintextKey = ?k, encryptedKey = utf8_encode ct\<rparr>, p\<lparr>clock := clock p + 2\<rparr>)"
    using assms(1) ct(1,5)
    by (simp add: kmsGenerateDataKey_def vault_ready_def vaultGenerateDataKey_def and_then_Inr [OF get_random_apply] and_then_Inr
        vault_field_answers)
  then show thesis
    by (rule that) (use ct(1-3,6) utf8_roundtrip order_trans [OF ct(4) k(2)] in blast)+
qed

lemma vault_generated_short:
  assumes "vault_ready W v p" "kmsGenerateDataKey W ctx p = (Inr k, p1)"
  shows "short_context W ctx"
proof (rule ccontr)
  assume "\<not> short_context W ctx"
  then show False using assms
    by (simp add: kmsGenerateDataKey_def vault_ready_def vaultGenerateDataKey_def and_then_Inr [OF get_random_apply]
        context_string_apply and_then_def uint8ArrayToBase64_def split: if_splits)
qed

interpretation vault_keys: data_keys "kmsGenerateDataKey W" "kmsDecryptDataKey W" "vault_ready W v" "short_context W"
  for W v
proof
  show "\<exists>k p'. kmsGenerateDataKey W ctx p = (Inr k, p') \<and> vault_ready W v p'" if "vault_ready W v p" "short_context W ctx" for ctx p
    by (rule vault_generates [OF that]) (use that in \<open>simp add: vault_ready_def\<close>)
  show "\<exists>p2. kmsDecryptDataKey W (encryptedKey k) ctx p' = (Inr (plaintextKey k), p2) \<and> vault_ready W v p2"
    if p: "vault_ready W v p" "vault_ready W v p'" "kmsGenerateDataKey W ctx p = (Inr k, p1)" for p p' ctx k p1
  proof -
    have short: "short_context W ctx" by (rule vault_generated_short [OF p(1,3)])
    obtain ct where g: "kmsGenerateDataKey W ctx p =
        (Inr \<lparr>plaintextKey = random_values W (clock p) 32, encryptedKey = utf8_encode ct\<rparr>, p\<lparr>clock := clock p + 2\<rparr>)"
      and ct: "utf8_decode (utf8_encode ct) = ct"
      and a: "\<forall>t'. answers W t' (baseUrl v @ lit ''/decrypt/'' @ keyName v)
        [(lit ''ciphertext'', ct), (lit ''context'', context_text ctx)] ''plaintext'' (btoa (random_values W (clock p) 32))"
      by (rule vault_generates [OF p(1) short])
    have k: "k = \<lparr>plaintextKey = random_values W (clock p) 32, encryptedKey = utf8_encode ct\<rparr>" using g p(3) by simp
    have "length (plaintextKey k) = 32" using p(1) k by (simp add: vault_ready_def random_lengths_def)
    then have "btoa (plaintextKey k) \<noteq> []" by (intro btoa_nonempty) auto
    moreover have "context_string W ctx p' = (Inr (context_text ctx), p')" using short by (simp add: context_string_apply)
    ultimately show ?thesis using k ct p(2)
      by (simp add: kmsDecryptDataKey_def vault_ready_def vaultDecryptDataKey_def and_then_Inr
          vault_field_answers [OF spec [OF a]] base64ToUint8Array_def)
  qed
qed

end
