(* ===== verification/Encryption.thy ===== *)
theory Encryption
  imports Kms
begin

text \<open>
  Field-level encryption, \<^verbatim>\<open>src/packages/core/encryption.ts\<close>: the sensitive fields of each entity type, the cached
  data key of a type, \<^verbatim>\<open>encryptField\<close>/\<^verbatim>\<open>decryptField\<close> and their record forms, and the guard before a write. With the
  development backend whatever one process seals any other process with the same master key opens; with the Vault
  backend the wrapped key is not kept, and another process cannot.

  An entity type is a name other than the members every JavaScript object inherits (\<^verbatim>\<open>constructor\<close> and the like), for which
  the two tables would answer with a function. A property is a string or another value, kept by its JSON text.
\<close>

section \<open>The sensitive fields\<close>

datatype SensitivityClass = HIGH | CRM | INTEREST | IDENTITY | CREDENTIAL | OPERATIONAL

primrec class_name :: "SensitivityClass \<Rightarrow> js_string" where
  "class_name HIGH = lit ''HIGH''"
| "class_name CRM = lit ''CRM''"
| "class_name INTEREST = lit ''INTEREST''"
| "class_name IDENTITY = lit ''IDENTITY''"
| "class_name CREDENTIAL = lit ''CREDENTIAL''"
| "class_name OPERATIONAL = lit ''OPERATIONAL''"

definition ENTITY_SENSITIVITY_CLASS :: "js_string \<Rightarrow> SensitivityClass option" where
  "ENTITY_SENSITIVITY_CLASS = map_of
     [(lit ''corpus_chunk'', HIGH), (lit ''email'', HIGH), (lit ''transcript'', HIGH), (lit ''wiki_page'', HIGH),
      (lit ''wiki_page_version'', HIGH), (lit ''crm_note'', HIGH), (lit ''customer'', CRM),
      (lit ''customer_interest'', INTEREST), (lit ''identity_token'', IDENTITY),
      (lit ''recovery_shard'', CREDENTIAL), (lit ''user'', OPERATIONAL)]"

definition SENSITIVE_FIELDS :: "js_string \<Rightarrow> js_string list" where
  "SENSITIVE_FIELDS et = (case map_of
     [(lit ''corpus_chunk'', [lit ''body'']), (lit ''email'', [lit ''subject'', lit ''body'']),
      (lit ''transcript'', [lit ''body'']), (lit ''wiki_page'', [lit ''content'']),
      (lit ''wiki_page_version'', [lit ''content'']), (lit ''crm_note'', [lit ''body'']),
      (lit ''customer'', [lit ''name'']), (lit ''customer_interest'', [lit ''tags'']),
      (lit ''identity_token'', [lit ''real_name'', lit ''real_email'', lit ''real_org'']),
      (lit ''recovery_shard'', [lit ''shard_data'']), (lit ''user'', [lit ''display_name'', lit ''email''])] et of
     None \<Rightarrow> [] | Some ks \<Rightarrow> ks)"

definition ENC_PREFIX :: js_string where
  "ENC_PREFIX = lit ''enc:v1:''"

definition starts_with :: "js_string \<Rightarrow> js_string \<Rightarrow> bool" where
  "starts_with s pre \<longleftrightarrow> take (length pre) s = pre"

section \<open>Keys\<close>

definition isEncryptionEnabled :: "process \<Rightarrow> bool" where
  "isEncryptionEnabled p =
     (if ENCRYPTION_DISABLED p = Some (lit ''true'') then False
      else case ENCRYPTION_MASTER_KEY p of None \<Rightarrow> False | Some k \<Rightarrow> k \<noteq> [])"

definition field_domain :: "js_string \<Rightarrow> js_string" where
  "field_domain et = (case ENTITY_SENSITIVITY_CLASS et of None \<Rightarrow> et | Some c \<Rightarrow> class_name c @ lit ''/'' @ et)"

definition field_context :: "js_string \<Rightarrow> kms_context" where
  "field_context et = [(lit ''domain'', field_domain et), (lit ''purpose'', lit ''field-enc'')]"

definition importKey :: "bytes \<Rightarrow> bytes act" where
  "importKey raw = (if length raw \<in> {16, 24, 32} then return raw else throw DataError)"

definition cache_key :: "js_string \<Rightarrow> bytes \<Rightarrow> bytes act" where
  "cache_key et k p = (Inr k, p\<lparr>derivedKeyCache := (derivedKeyCache p)(et := Some k)\<rparr>)"

definition getDerivedKey :: "world \<Rightarrow> js_string \<Rightarrow> bytes act" where
  "getDerivedKey W et p =
     (case derivedKeyCache p et of
        Some k \<Rightarrow> return k p
      | None \<Rightarrow>
          and_then (kmsGenerateDataKey W (field_context et)) (\<lambda>dataKey.
          and_then (importKey (plaintextKey dataKey)) (cache_key et)) p)"

section \<open>Fields\<close>

text \<open>The sealed form of a text, \<^verbatim>\<open>enc:v1:<iv>:<ciphertext>\<close>, which \<^verbatim>\<open>label-clearance.ts\<close> writes too. A text whose
  ciphertext has more bytes than a call has arguments is not sealed: \<^verbatim>\<open>String.fromCharCode(...bytes)\<close> throws.\<close>

definition sealed :: "world \<Rightarrow> bytes \<Rightarrow> bytes \<Rightarrow> js_string \<Rightarrow> js_string" where
  "sealed W key iv plaintext = ENC_PREFIX @ btoa iv @ lit '':'' @ btoa (gcm_encrypt W key iv (utf8_encode plaintext))"

definition seal :: "world \<Rightarrow> bytes \<Rightarrow> js_string \<Rightarrow> js_string act" where
  "seal W key plaintext =
     and_then (get_random W 12) (\<lambda>iv.
     and_then (uint8ArrayToBase64 W iv) (\<lambda>ivB64.
     and_then (uint8ArrayToBase64 W (gcm_encrypt W key iv (utf8_encode plaintext))) (\<lambda>cipherB64.
       return (ENC_PREFIX @ ivB64 @ lit '':'' @ cipherB64))))"

text \<open>\<^verbatim>\<open>indexOf(':')\<close> and the two slices around it.\<close>

definition split_colon :: "js_string \<Rightarrow> (js_string \<times> js_string) option" where
  "split_colon s = (case dropWhile (\<lambda>c. c \<noteq> 58) s of [] \<Rightarrow> None | _ # r \<Rightarrow> Some (takeWhile (\<lambda>c. c \<noteq> 58) s, r))"

definition open_with :: "world \<Rightarrow> bytes \<Rightarrow> bytes \<Rightarrow> bytes \<Rightarrow> js_string act" where
  "open_with W iv cipher key =
     (case gcm_decrypt W key iv cipher of None \<Rightarrow> throw OperationError | Some m \<Rightarrow> return (utf8_decode m))"

definition encryptField :: "world \<Rightarrow> js_string \<Rightarrow> js_string \<Rightarrow> js_string act" where
  "encryptField W et plaintext p =
     (if \<not> isEncryptionEnabled p then return plaintext p
      else and_then (getDerivedKey W et) (\<lambda>key. seal W key plaintext) p)"

definition decryptField :: "world \<Rightarrow> js_string \<Rightarrow> js_string \<Rightarrow> js_string act" where
  "decryptField W et v p =
     (if \<not> isEncryptionEnabled p then return v p
      else if \<not> starts_with v ENC_PREFIX then return v p
      else case split_colon (drop (length ENC_PREFIX) v) of
             None \<Rightarrow> return v p
           | Some (ivB64, cipherB64) \<Rightarrow>
               and_then (base64ToUint8Array ivB64) (\<lambda>iv.
               and_then (base64ToUint8Array cipherB64) (\<lambda>cipher.
               and_then (getDerivedKey W et) (open_with W iv cipher))) p)"

section \<open>Records\<close>

datatype field_value = Str js_string | Other js_string

type_synonym properties = "js_string \<rightharpoonup> field_value"

fun each_string :: "(js_string \<Rightarrow> js_string act) \<Rightarrow> js_string list \<Rightarrow> properties \<Rightarrow> properties act" where
  "each_string f [] r = return r"
| "each_string f (k # ks) r =
     (case r k of
        Some (Str s) \<Rightarrow> and_then (f s) (\<lambda>s'. each_string f ks (r(k \<mapsto> Str s')))
      | _ \<Rightarrow> each_string f ks r)"

definition encryptProperties :: "world \<Rightarrow> js_string \<Rightarrow> properties \<Rightarrow> properties act" where
  "encryptProperties W et r p =
     (if \<not> isEncryptionEnabled p then return r p
      else if SENSITIVE_FIELDS et = [] then return r p
      else each_string (encryptField W et) (SENSITIVE_FIELDS et) r p)"

definition decryptProperties :: "world \<Rightarrow> js_string \<Rightarrow> properties \<Rightarrow> properties act" where
  "decryptProperties W et r p =
     (if \<not> isEncryptionEnabled p then return r p
      else if SENSITIVE_FIELDS et = [] then return r p
      else each_string (decryptField W et) (SENSITIVE_FIELDS et) r p)"

text \<open>\<^verbatim>\<open>PlaintextWriteError\<close>: the entity type and the first sensitive field with a plain text.\<close>

fun plaintext_field :: "properties \<Rightarrow> js_string list \<Rightarrow> js_string option" where
  "plaintext_field r [] = None"
| "plaintext_field r (k # ks) =
     (case r k of
        Some (Str s) \<Rightarrow> if \<not> starts_with s ENC_PREFIX then Some k else plaintext_field r ks
      | _ \<Rightarrow> plaintext_field r ks)"

definition assertEncryptedBeforeWrite :: "js_string \<Rightarrow> properties \<Rightarrow> process \<Rightarrow> (js_string \<times> js_string) option" where
  "assertEncryptedBeforeWrite et r p =
     (if \<not> isEncryptionEnabled p then None
      else map_option (Pair et) (plaintext_field r (SENSITIVE_FIELDS et)))"

definition resetEncryptionCaches :: "process \<Rightarrow> process" where
  "resetEncryptionCaches p = resetKmsBackend (p\<lparr>derivedKeyCache := (\<lambda>_. None)\<rparr>)"

section \<open>One process of the development backend\<close>

definition field_key :: "world \<Rightarrow> bytes \<Rightarrow> js_string \<Rightarrow> bytes" where
  "field_key W raw et = hkdf_bits W raw (utf8_encode (infoStr W (field_context et)))"

definition coherent :: "world \<Rightarrow> bytes \<Rightarrow> process \<Rightarrow> bool" where
  "coherent W raw p \<longleftrightarrow> local_ready raw p \<and> (\<forall>et k. derivedKeyCache p et = Some k \<longrightarrow> k = field_key W raw et)"

definition environment :: "process \<Rightarrow> js_string option \<times> js_string option" where
  "environment p = (ENCRYPTION_DISABLED p, ENCRYPTION_MASTER_KEY p)"

lemma enabled_environment: "environment p = environment p' \<Longrightarrow> isEncryptionEnabled p \<longleftrightarrow> isEncryptionEnabled p'"
  by (simp add: environment_def isEncryptionEnabled_def)

lemma getDerivedKey_coherent:
  assumes "coherent W raw p" "hkdf_lengths W"
  obtains p' where "getDerivedKey W et p = (Inr (field_key W raw et), p')" "coherent W raw p'"
    "environment p' = environment p" "clock p' = clock p"
proof (cases "derivedKeyCache p et")
  case None
  have "getDerivedKey W et p = (Inr (field_key W raw et),
      p\<lparr>kmsBackend := LocalDevKmsBackend (Some raw), derivedKeyCache := (derivedKeyCache p)(et := Some (field_key W raw et))\<rparr>)"
    using assms None kmsGenerateDataKey_ready [of raw p W "field_context et"]
    by (simp add: getDerivedKey_def coherent_def and_then_def importKey_def hkdf_lengths_def field_key_def cache_key_def)
  then show thesis by (rule that) (use assms in \<open>auto simp: coherent_def environment_def\<close>)
next
  case (Some k)
  then show thesis using assms that [of p] by (simp add: getDerivedKey_def coherent_def)
qed

text \<open>A text that fits is sealed, any other one throws, and what is sealed opens.\<close>

definition fits :: "world \<Rightarrow> js_string \<Rightarrow> bool" where
  "fits W s \<longleftrightarrow> (\<forall>k iv. length k = 32 \<and> length iv = 12 \<longrightarrow> length (gcm_encrypt W k iv (utf8_encode s)) \<le> max_args W)"

lemma seal_fits:
  assumes "spreads W" "random_lengths W" "length key = 32" "fits W s"
  shows "seal W key s p = (Inr (sealed W key (random_values W (clock p) 12) s), p\<lparr>clock := Suc (clock p)\<rparr>)"
  using assms by (simp add: seal_def sealed_def and_then_def uint8ArrayToBase64_def fits_def random_lengths_def spreads_def)

lemma seal_too_long:
  assumes "spreads W" "random_lengths W" "gcm_lengths W" "length key = 32" "\<not> fits W s"
  shows "seal W key s p = (Inl RangeError, p\<lparr>clock := Suc (clock p)\<rparr>)"
proof -
  obtain k iv where k: "length k = 32" "length iv = 12" "max_args W < length (gcm_encrypt W k iv (utf8_encode s))"
    using assms(5) unfolding fits_def by force
  have "length (random_values W (clock p) 12) = 12" using assms(2) by (simp add: random_lengths_def)
  with k assms(3,4) have "max_args W < length (gcm_encrypt W key (random_values W (clock p) 12) (utf8_encode s))"
    unfolding gcm_lengths_def by metis
  then show ?thesis using assms(1,2)
    by (simp add: seal_def and_then_def uint8ArrayToBase64_def random_lengths_def spreads_def)
qed

lemma field_key_length: "hkdf_lengths W \<Longrightarrow> length (field_key W raw et) = 32"
  by (simp add: field_key_def hkdf_lengths_def)

lemma encryptField_outcome:
  assumes "coherent W raw p" "hkdf_lengths W" "isEncryptionEnabled p"
  obtains p1 where "encryptField W et s p = seal W (field_key W raw et) s p1" "clock p1 = clock p"
    "\<forall>t. coherent W raw (p1\<lparr>clock := t\<rparr>) \<and> environment (p1\<lparr>clock := t\<rparr>) = environment p"
proof -
  obtain p1 where p1: "getDerivedKey W et p = (Inr (field_key W raw et), p1)" "coherent W raw p1"
      "environment p1 = environment p" "clock p1 = clock p"
    by (rule getDerivedKey_coherent [OF assms(1,2)])
  show thesis
    by (rule that [of p1]) (use assms(3) p1 in \<open>simp_all add: encryptField_def and_then_def coherent_def environment_def\<close>)
qed

lemma encryptField_coherent:
  assumes "coherent W raw p" "hkdf_lengths W" "isEncryptionEnabled p" "spreads W" "random_lengths W" "fits W s"
  obtains p' where "encryptField W et s p = (Inr (sealed W (field_key W raw et) (random_values W (clock p) 12) s), p')"
    "coherent W raw p'" "environment p' = environment p"
proof -
  obtain p1 where p1: "encryptField W et s p = seal W (field_key W raw et) s p1" "clock p1 = clock p"
    "\<forall>t. coherent W raw (p1\<lparr>clock := t\<rparr>) \<and> environment (p1\<lparr>clock := t\<rparr>) = environment p"
    by (rule encryptField_outcome [OF assms(1-3), where et = et and s = s])
  show thesis
    by (rule that [of "p1\<lparr>clock := Suc (clock p1)\<rparr>"])
       (use p1 seal_fits [OF assms(4,5) field_key_length [OF assms(2)] assms(6)] in simp_all)
qed

lemma encryptField_too_long:
  assumes "coherent W raw p" "hkdf_lengths W" "isEncryptionEnabled p" "spreads W" "random_lengths W" "gcm_lengths W" "\<not> fits W s"
  obtains p' where "encryptField W et s p = (Inl RangeError, p')" "coherent W raw p'" "environment p' = environment p"
proof -
  obtain p1 where p1: "encryptField W et s p = seal W (field_key W raw et) s p1" "clock p1 = clock p"
    "\<forall>t. coherent W raw (p1\<lparr>clock := t\<rparr>) \<and> environment (p1\<lparr>clock := t\<rparr>) = environment p"
    by (rule encryptField_outcome [OF assms(1-3), where et = et and s = s])
  show thesis
    by (rule that [of "p1\<lparr>clock := Suc (clock p1)\<rparr>"])
       (use p1 seal_too_long [OF assms(4-6) field_key_length [OF assms(2)] assms(7)] in simp_all)
qed

lemma starts_with_sealed [simp]: "starts_with (sealed W key iv s) ENC_PREFIX"
  by (simp add: starts_with_def sealed_def)

lemma lit_colon: "lit '':'' = [58]"
  by (simp add: lit_def)

lemma split_sealed:
  "split_colon (drop (length ENC_PREFIX) (sealed W key iv s)) = Some (btoa iv, btoa (gcm_encrypt W key iv (utf8_encode s)))"
proof -
  let ?c = "btoa (gcm_encrypt W key iv (utf8_encode s))"
  have all: "c \<noteq> 58" if "c \<in> set (btoa iv)" for c using that btoa_no_colon [of iv] by metis
  then have "takeWhile (\<lambda>c. c \<noteq> 58) (btoa iv @ 58 # ?c) = btoa iv" "dropWhile (\<lambda>c. c \<noteq> 58) (btoa iv @ 58 # ?c) = 58 # ?c"
    by (simp_all add: takeWhile_append2 dropWhile_append2)
  then show ?thesis by (simp add: split_colon_def sealed_def lit_colon)
qed

lemma decryptField_sealed:
  assumes "isEncryptionEnabled p" "getDerivedKey W et p = (Inr key', p')"
  shows "decryptField W et (sealed W key iv s) p = open_with W iv (gcm_encrypt W key iv (utf8_encode s)) key' p'"
  using assms by (simp add: decryptField_def split_sealed base64ToUint8Array_def and_then_def)

lemma decryptField_coherent:
  assumes "coherent W raw p" "hkdf_lengths W" "gcm_opens W" "isEncryptionEnabled p" "length iv = 12"
    and "utf8_decode (utf8_encode s) = s"
  obtains p' where "decryptField W et (sealed W (field_key W raw et) iv s) p = (Inr s, p')"
    "coherent W raw p'" "environment p' = environment p"
proof -
  obtain p1 where p1: "getDerivedKey W et p = (Inr (field_key W raw et), p1)" "coherent W raw p1"
      "environment p1 = environment p"
    by (rule getDerivedKey_coherent [OF assms(1,2)])
  show thesis
    by (rule that [of p1]) (use assms p1 in \<open>simp_all add: decryptField_sealed open_with_def gcm_opens_def\<close>)
qed

section \<open>Records of the development backend\<close>

text \<open>A loop over the sensitive fields, related field by field to its result.\<close>

definition fieldwise :: "(js_string \<Rightarrow> js_string \<Rightarrow> bool) \<Rightarrow> js_string list \<Rightarrow> properties \<Rightarrow> properties \<Rightarrow> bool" where
  "fieldwise R ks r r' \<longleftrightarrow>
     (\<forall>k. if k \<in> set ks \<and> (\<exists>s. r k = Some (Str s))
          then \<exists>s s'. r k = Some (Str s) \<and> r' k = Some (Str s') \<and> R s s' else r' k = r k)"

lemma fieldwise_Cons:
  assumes "fieldwise R ks (r(k \<mapsto> Str s')) r'" "r k = Some (Str s)" "R s s'" "k \<notin> set ks"
  shows "fieldwise R (k # ks) r r'"
  using assms unfolding fieldwise_def by (smt (verit) fun_upd_apply insert_iff list.simps(15))

lemma fieldwise_skip:
  assumes "fieldwise R ks r r'" "\<forall>s. r k \<noteq> Some (Str s)"
  shows "fieldwise R (k # ks) r r'"
  using assms unfolding fieldwise_def by (metis set_ConsD list.set_intros(2))

lemma fieldwise_inverse:
  assumes "fieldwise R ks r r1" "fieldwise S ks r1 r2"
    and "\<And>k s c s'. k \<in> set ks \<Longrightarrow> r k = Some (Str s) \<Longrightarrow> R s c \<Longrightarrow> S c s' \<Longrightarrow> s' = s"
  shows "r2 = r"
proof
  fix k
  show "r2 k = r k"
  proof (cases "k \<in> set ks \<and> (\<exists>s. r k = Some (Str s))")
    case True
    then obtain s c where c: "r k = Some (Str s)" "r1 k = Some (Str c)" "R s c"
      using assms(1) unfolding fieldwise_def by meson
    have "k \<in> set ks \<and> (\<exists>s. r1 k = Some (Str s))" using True c(2) by simp
    then obtain c' s' where s': "r1 k = Some (Str c')" "r2 k = Some (Str s')" "S c' s'"
      using assms(2) unfolding fieldwise_def by meson
    then show ?thesis using assms(3) [of k s c s'] True c by simp
  next
    case False
    then have "r1 k = r k" using assms(1) unfolding fieldwise_def by meson
    with False have "\<not> (k \<in> set ks \<and> (\<exists>s. r1 k = Some (Str s)))" by simp
    with \<open>r1 k = r k\<close> show ?thesis using assms(2) unfolding fieldwise_def by metis
  qed
qed

lemma fieldwise_string:
  assumes "fieldwise R ks r r'" "k \<in> set ks" "r' k = Some (Str c)"
  obtains s where "r k = Some (Str s)" "R s c"
  using assms unfolding fieldwise_def by (metis field_value.inject(1) option.inject)

lemma each_string_fieldwise:
  assumes "\<And>s p. P p \<Longrightarrow> D s \<Longrightarrow> \<exists>s' p'. f s p = (Inr s', p') \<and> P p' \<and> R s s'"
    and "P p" "distinct ks" "\<forall>k \<in> set ks. \<forall>s. r k = Some (Str s) \<longrightarrow> D s"
  shows "\<exists>r' p'. each_string f ks r p = (Inr r', p') \<and> P p' \<and> fieldwise R ks r r'"
  using assms(2-)
proof (induction ks arbitrary: r p)
  case Nil
  then show ?case by (simp add: fieldwise_def)
next
  case (Cons k ks)
  show ?case
  proof (cases "\<exists>s. r k = Some (Str s)")
    case True
    then obtain s where s: "r k = Some (Str s)" by blast
    have "D s" using Cons.prems(3) s by simp
    from assms(1) [OF Cons.prems(1) this] obtain s' p1 where s': "f s p = (Inr s', p1)" "P p1" "R s s'" by blast
    have "\<forall>k' \<in> set ks. \<forall>t. (r(k \<mapsto> Str s')) k' = Some (Str t) \<longrightarrow> D t" using Cons.prems by auto
    then obtain r' p' where "each_string f ks (r(k \<mapsto> Str s')) p1 = (Inr r', p')" "P p'" "fieldwise R ks (r(k \<mapsto> Str s')) r'"
      using Cons.IH [OF s'(2), of "r(k \<mapsto> Str s')"] Cons.prems(2) unfolding distinct.simps(2) by blast
    then show ?thesis using s s' Cons.prems(2) fieldwise_Cons [of R ks r k s' r' s] by (auto simp: and_then_def)
  next
    case False
    then have "each_string f (k # ks) r = each_string f ks r" by (auto split: option.splits field_value.splits)
    then show ?thesis using Cons.IH [of p r] Cons.prems False fieldwise_skip [of R ks r _ k] by auto
  qed
qed

lemma each_string_throws:
  assumes "\<And>s p. P p \<Longrightarrow> D s \<Longrightarrow> \<exists>s' p'. f s p = (Inr s', p') \<and> P p'"
    and "\<And>s p. P p \<Longrightarrow> \<not> D s \<Longrightarrow> \<exists>p'. f s p = (Inl e, p')"
    and "P p" "distinct ks" "k \<in> set ks" "r k = Some (Str t)" "\<not> D t"
  shows "fst (each_string f ks r p) = Inl e"
  using assms(3-)
proof (induction ks arbitrary: r p)
  case (Cons k0 ks)
  show ?case
  proof (cases "\<exists>s. r k0 = Some (Str s)")
    case True
    then obtain s where s: "r k0 = Some (Str s)" by blast
    show ?thesis
    proof (cases "D s")
      case True
      then have "k0 \<noteq> k" using s Cons.prems(4,5) by auto
      obtain s' p1 where "f s p = (Inr s', p1)" "P p1" using assms(1) [OF Cons.prems(1) True] by blast
      then show ?thesis using Cons.IH [of p1 "r(k0 \<mapsto> Str s')"] Cons.prems s \<open>k0 \<noteq> k\<close> by (simp add: and_then_def fun_upd_def)
    next
      case False
      then obtain p1 where "f s p = (Inl e, p1)" using assms(2) Cons.prems(1) by blast
      then show ?thesis using s by (simp add: and_then_def)
    qed
  next
    case False
    then have "each_string f (k0 # ks) r = each_string f ks r" by (auto split: option.splits field_value.splits)
    moreover have "k0 \<noteq> k" using False Cons.prems(4) by auto
    ultimately show ?thesis using Cons.IH [of p r] Cons.prems by simp
  qed
qed simp

lemma distinct_SENSITIVE_FIELDS: "distinct (SENSITIVE_FIELDS et)"
  by (auto simp: SENSITIVE_FIELDS_def lit_def split: option.splits if_splits)

definition readable :: "js_string \<Rightarrow> bool" where
  "readable s \<longleftrightarrow> well_formed s \<and> take 1 s \<noteq> [0xFEFF]"

definition seals :: "world \<Rightarrow> bytes \<Rightarrow> js_string \<Rightarrow> js_string \<Rightarrow> bool" where
  "seals W key s c \<longleftrightarrow> (\<exists>iv. length iv = 12 \<and> c = sealed W key iv s)"

lemma decryptField_seals:
  assumes "coherent W raw p" "hkdf_lengths W" "gcm_opens W" "isEncryptionEnabled p"
    and "seals W (field_key W raw et) s c" "readable s"
  obtains p' where "decryptField W et c p = (Inr s, p')" "coherent W raw p'" "environment p' = environment p"
proof -
  obtain iv where iv: "length iv = 12" "c = sealed W (field_key W raw et) iv s" using assms(5) by (auto simp: seals_def)
  have "utf8_decode (utf8_encode s) = s" using assms(6) utf8_roundtrip by (simp add: readable_def)
  then show thesis using that iv by (auto elim: decryptField_coherent [OF assms(1-4)])
qed

text \<open>Each record operation keeps the process coherent and works field by field.\<close>

definition same_process :: "world \<Rightarrow> bytes \<Rightarrow> process \<Rightarrow> process \<Rightarrow> bool" where
  "same_process W raw p p' \<longleftrightarrow> coherent W raw p' \<and> environment p' = environment p"

lemma same_process_ready:
  assumes "same_process W raw p q" "isEncryptionEnabled p"
  shows "coherent W raw q" "isEncryptionEnabled q"
  using assms enabled_environment [of q p] by (simp_all add: same_process_def)

lemma encryptField_step:
  assumes "hkdf_lengths W" "random_lengths W" "spreads W" "isEncryptionEnabled p" "same_process W raw p q"
  shows "fits W s \<Longrightarrow> \<exists>s' p'. encryptField W et s q = (Inr s', p') \<and> same_process W raw p p' \<and> seals W (field_key W raw et) s s'"
    and "gcm_lengths W \<Longrightarrow> \<not> fits W s \<Longrightarrow> \<exists>p'. encryptField W et s q = (Inl RangeError, p') \<and> same_process W raw p p'"
proof -
  note q = same_process_ready [OF assms(5,4)]
  have env: "environment q = environment p" using assms(5) by (simp add: same_process_def)
  show "\<exists>s' p'. encryptField W et s q = (Inr s', p') \<and> same_process W raw p p' \<and> seals W (field_key W raw et) s s'" if fit: "fits W s"
  proof -
    obtain q' where "encryptField W et s q = (Inr (sealed W (field_key W raw et) (random_values W (clock q) 12) s), q')"
      "coherent W raw q'" "environment q' = environment q"
      by (rule encryptField_coherent [OF q(1) assms(1) q(2) assms(3,2) fit])
    then show ?thesis using env assms(2) by (auto simp: same_process_def seals_def random_lengths_def)
  qed
  show "\<exists>p'. encryptField W et s q = (Inl RangeError, p') \<and> same_process W raw p p'" if long: "gcm_lengths W" "\<not> fits W s"
    by (rule encryptField_too_long [OF q(1) assms(1) q(2) assms(3,2) long]) (use env in \<open>auto simp: same_process_def\<close>)
qed

lemma encryptProperties_coherent:
  assumes "coherent W raw p" "hkdf_lengths W" "random_lengths W" "spreads W" "isEncryptionEnabled p"
    and "\<forall>k \<in> set (SENSITIVE_FIELDS et). \<forall>s. r k = Some (Str s) \<longrightarrow> fits W s"
  obtains r' p' where "encryptProperties W et r p = (Inr r', p')" "same_process W raw p p'"
    "fieldwise (seals W (field_key W raw et)) (SENSITIVE_FIELDS et) r r'"
proof -
  have "same_process W raw p p" using assms(1) by (simp add: same_process_def)
  from each_string_fieldwise [where D = "fits W" and P = "same_process W raw p" and f = "encryptField W et"
      and R = "seals W (field_key W raw et)", OF encryptField_step(1) [OF assms(2-5)] this distinct_SENSITIVE_FIELDS [of et] assms(6)]
  obtain r' p' where "each_string (encryptField W et) (SENSITIVE_FIELDS et) r p = (Inr r', p')" "same_process W raw p p'"
    "fieldwise (seals W (field_key W raw et)) (SENSITIVE_FIELDS et) r r'" by blast
  then show thesis using assms(5) that by (cases "SENSITIVE_FIELDS et = []") (simp_all add: encryptProperties_def)
qed

lemma encryptProperties_too_long:
  assumes "coherent W raw p" "hkdf_lengths W" "random_lengths W" "spreads W" "gcm_lengths W" "isEncryptionEnabled p"
    and "k \<in> set (SENSITIVE_FIELDS et)" "r k = Some (Str t)" "\<not> fits W t"
  shows "fst (encryptProperties W et r p) = Inl RangeError"
proof -
  have "same_process W raw p p" using assms(1) by (simp add: same_process_def)
  note step = encryptField_step [OF assms(2-4,6)]
  have "fst (each_string (encryptField W et) (SENSITIVE_FIELDS et) r p) = Inl RangeError"
    by (rule each_string_throws [where D = "fits W" and P = "same_process W raw p" and f = "encryptField W et" and e = RangeError and r = r, OF _ _ \<open>same_process W raw p p\<close>
        distinct_SENSITIVE_FIELDS assms(7-9)]) (use step assms(5) in blast)+
  moreover have "SENSITIVE_FIELDS et \<noteq> []" using assms(7) by auto
  ultimately show ?thesis using assms(6) by (simp add: encryptProperties_def)
qed

lemma decryptProperties_coherent:
  assumes "coherent W raw p" "hkdf_lengths W" "gcm_opens W" "isEncryptionEnabled p"
    and sealed: "\<forall>k \<in> set (SENSITIVE_FIELDS et). \<forall>c. r k = Some (Str c) \<longrightarrow> (\<exists>s. readable s \<and> seals W (field_key W raw et) s c)"
  obtains r' p' where "decryptProperties W et r p = (Inr r', p')"
    "fieldwise (\<lambda>c s'. \<forall>s. readable s \<and> seals W (field_key W raw et) s c \<longrightarrow> s' = s) (SENSITIVE_FIELDS et) r r'"
proof -
  let ?D = "\<lambda>c. \<exists>s. readable s \<and> seals W (field_key W raw et) s c"
  let ?R = "\<lambda>c s'. \<forall>s. readable s \<and> seals W (field_key W raw et) s c \<longrightarrow> s' = s"
  have step: "\<exists>s' p'. decryptField W et c q = (Inr s', p') \<and> same_process W raw p p' \<and> ?R c s'"
    if q: "same_process W raw p q" "?D c" for c q
  proof -
    have q': "isEncryptionEnabled q" "coherent W raw q" "environment q = environment p"
      using q assms(4) enabled_environment [of q p] by (simp_all add: same_process_def)
    note opens = decryptField_seals [OF q'(2) assms(2,3) q'(1)]
    obtain s0 where s0: "readable s0" "seals W (field_key W raw et) s0 c" using q(2) by blast
    obtain s q1 where s: "decryptField W et c q = (Inr s, q1)" "coherent W raw q1" "environment q1 = environment q"
      by (rule opens [OF s0(2,1)])
    moreover have "s = t" if "readable t" "seals W (field_key W raw et) t c" for t
      by (rule opens [OF that(2,1)]) (use s(1) in simp)
    ultimately show ?thesis using q' by (auto simp: same_process_def)
  qed
  have "same_process W raw p p" using assms(1) by (simp add: same_process_def)
  from each_string_fieldwise [where D = ?D and R = ?R and P = "same_process W raw p" and f = "decryptField W et", OF step this distinct_SENSITIVE_FIELDS [of et] sealed]
  obtain r' p' where "each_string (decryptField W et) (SENSITIVE_FIELDS et) r p = (Inr r', p')"
    "fieldwise ?R (SENSITIVE_FIELDS et) r r'" by blast
  then show thesis using assms(4) that by (cases "SENSITIVE_FIELDS et = []") (simp_all add: decryptProperties_def)
qed

lemma plaintext_field_None: "plaintext_field r ks = None \<longleftrightarrow> (\<forall>k \<in> set ks. \<forall>s. r k = Some (Str s) \<longrightarrow> starts_with s ENC_PREFIX)"
  by (induction ks) (auto split: option.splits field_value.splits)

lemma guard_passes:
  assumes "fieldwise (seals W key) ks r r'"
  shows "plaintext_field r' ks = None"
  unfolding plaintext_field_None by (auto simp: seals_def elim!: fieldwise_string [OF assms])

text \<open>C19: With the development backend and encryption enabled, encrypting a record succeeds in any process with the
  master key exactly when every sensitive text fits (its ciphertext has no more bytes than a call may have arguments), and
  throws a RangeError otherwise. On success it leaves every other field alone, passes the guard before the write, and
  decrypting it in any process with the same master key, the same or one started later, restores the record, where
  the sensitive texts are well-formed and do not begin with a byte order mark.\<close>

theorem properties_roundtrip:
  assumes "coherent W raw p" "coherent W raw p'" "isEncryptionEnabled p" "environment p' = environment p"
    and "hkdf_lengths W" "random_lengths W" "gcm_opens W" "gcm_lengths W" "spreads W"
    and "\<forall>k \<in> set (SENSITIVE_FIELDS et). \<forall>s. r k = Some (Str s) \<longrightarrow> readable s"
  shows "if \<forall>k \<in> set (SENSITIVE_FIELDS et). \<forall>s. r k = Some (Str s) \<longrightarrow> fits W s
    then \<exists>r1 p1. encryptProperties W et r p = (Inr r1, p1) \<and> (\<forall>k. k \<notin> set (SENSITIVE_FIELDS et) \<longrightarrow> r1 k = r k)
      \<and> assertEncryptedBeforeWrite et r1 p1 = None \<and> fst (decryptProperties W et r1 p') = Inr r
    else fst (encryptProperties W et r p) = Inl RangeError"
proof (cases "\<forall>k \<in> set (SENSITIVE_FIELDS et). \<forall>s. r k = Some (Str s) \<longrightarrow> fits W s")
  case True
  let ?S = "seals W (field_key W raw et)"
  have p': "isEncryptionEnabled p'" using assms(3,4) enabled_environment [of p' p] by simp
  obtain r1 p1 where e: "encryptProperties W et r p = (Inr r1, p1)" "fieldwise ?S (SENSITIVE_FIELDS et) r r1"
    by (rule encryptProperties_coherent [OF assms(1,5,6,9,3) True])
  have "\<exists>s. readable s \<and> ?S s c" if "k \<in> set (SENSITIVE_FIELDS et)" "r1 k = Some (Str c)" for k c
    by (rule fieldwise_string [OF e(2) that]) (use assms(10) that(1) in blast)
  then have "\<forall>k \<in> set (SENSITIVE_FIELDS et). \<forall>c. r1 k = Some (Str c) \<longrightarrow> (\<exists>s. readable s \<and> ?S s c)" by blast
  then obtain r2 p2 where d: "decryptProperties W et r1 p' = (Inr r2, p2)"
    "fieldwise (\<lambda>c s'. \<forall>s. readable s \<and> ?S s c \<longrightarrow> s' = s) (SENSITIVE_FIELDS et) r1 r2"
    by (rule decryptProperties_coherent [OF assms(2,5,7) p'])
  have "r2 = r" by (rule fieldwise_inverse [OF e(2) d(2)]) (use assms(10) in blast)
  moreover have "assertEncryptedBeforeWrite et r1 p1 = None" using guard_passes [OF e(2)] by (simp add: assertEncryptedBeforeWrite_def)
  moreover have "\<forall>k. k \<notin> set (SENSITIVE_FIELDS et) \<longrightarrow> r1 k = r k" using e(2) unfolding fieldwise_def by meson
  ultimately show ?thesis using e(1) d(1) True by simp
next
  case False
  then obtain k s where k: "k \<in> set (SENSITIVE_FIELDS et)" "r k = Some (Str s)" "\<not> fits W s" by blast
  have "fst (encryptProperties W et r p) = Inl RangeError"
    by (rule encryptProperties_too_long [where r = r, OF assms(1,5,6,9,8,3) k])
  then show ?thesis unfolding if_not_P [OF False] .
qed

section \<open>The Vault backend\<close>

lemma getDerivedKey_vault:
  assumes "vault_ready W v p" "derivedKeyCache p et = None" "short_context W (field_context et)"
  obtains p' where "getDerivedKey W et p = (Inr (random_values W (clock p) 32), p')"
    "derivedKeyCache p' et = Some (random_values W (clock p) 32)" "environment p' = environment p"
proof -
  obtain ct where "kmsGenerateDataKey W (field_context et) p =
      (Inr \<lparr>plaintextKey = random_values W (clock p) 32, encryptedKey = utf8_encode ct\<rparr>, p\<lparr>clock := clock p + 2\<rparr>)"
    by (rule vault_generates [OF assms(1,3)])
  moreover have "length (random_values W (clock p) 32) = 32" using assms(1) by (simp add: vault_ready_def random_lengths_def)
  ultimately show thesis
    using assms(2) that [of "p\<lparr>clock := clock p + 2, derivedKeyCache := (derivedKeyCache p)(et \<mapsto> random_values W (clock p) 32)\<rparr>"]
    by (simp add: getDerivedKey_def and_then_def importKey_def cache_key_def environment_def)
qed

text \<open>C22: With the Vault backend a field sealed by one process opens again in that process, whose cache holds the key, but a
  process started later draws a key of its own, since the wrapped key is not kept with the field, and fails. The text and the
  context of its entity type are short enough to be passed as arguments.\<close>

theorem vault_restart_loses_field:
  assumes "vault_ready W v p" "vault_ready W v p'" "derivedKeyCache p et = None" "derivedKeyCache p' et = None"
    and "isEncryptionEnabled p" "isEncryptionEnabled p'" "gcm_opens W" "gcm_authentic W" "readable s"
    and "random_values W (clock p) 32 \<noteq> random_values W (clock p') 32"
    and "fits W s" "short_context W (field_context et)"
  shows "\<exists>c p1. encryptField W et s p = (Inr c, p1) \<and> fst (decryptField W et c p1) = Inr s
    \<and> fst (decryptField W et c p') = Inl OperationError"
proof -
  let ?k = "random_values W (clock p) 32" and ?k' = "random_values W (clock p') 32"
  obtain p1 where p1: "getDerivedKey W et p = (Inr ?k, p1)" "derivedKeyCache p1 et = Some ?k" "environment p1 = environment p"
    by (rule getDerivedKey_vault [OF assms(1,3,12)])
  obtain p2 where p2: "getDerivedKey W et p' = (Inr ?k', p2)" by (rule getDerivedKey_vault [OF assms(2,4,12)])
  define iv c p3 where "iv = random_values W (clock p1) 12" and "c = sealed W ?k iv s" and "p3 = p1\<lparr>clock := Suc (clock p1)\<rparr>"
  have iv: "length iv = 12" and k: "length ?k = length ?k'" using assms(1) by (simp_all add: vault_ready_def random_lengths_def iv_def)
  have "seal W ?k s p1 = (Inr c, p3)" unfolding c_def p3_def iv_def
    by (rule seal_fits) (use assms(1,11) in \<open>simp_all add: vault_ready_def random_lengths_def\<close>)
  then have "encryptField W et s p = (Inr c, p3)"
    using assms(5) p1(1) by (simp add: encryptField_def and_then_def)
  moreover have "getDerivedKey W et p3 = (Inr ?k, p3)" "isEncryptionEnabled p3"
    using p1 assms(5) enabled_environment [of p3 p] by (simp_all add: getDerivedKey_def p3_def environment_def)
  then have "fst (decryptField W et c p3) = Inr s"
    using assms(7,9) iv by (simp add: c_def decryptField_sealed open_with_def gcm_opens_def utf8_roundtrip readable_def)
  moreover have "fst (decryptField W et c p') = Inl OperationError"
    using assms(6,8,10) k p2 by (simp add: c_def decryptField_sealed open_with_def gcm_authentic_def)
  ultimately show ?thesis by blast
qed

section \<open>Key domains\<close>

definition collates :: "world \<Rightarrow> bool" where
  "collates W \<longleftrightarrow> (\<forall>(k, l) \<in> set
     [(''domain'', ''entityType''), (''domain'', ''purpose''), (''domain'', ''sensitivityClass''), (''domain'', ''tenant_id''),
      (''entityType'', ''purpose''), (''entityType'', ''sensitivityClass''), (''purpose'', ''sensitivityClass''),
      (''purpose'', ''tenant_id'')].
     locale_le W (lit k) (lit l) \<and> \<not> locale_le W (lit l) (lit k))"

lemma info_field: "collates W \<Longrightarrow> infoStr W (field_context et) = lit ''domain='' @ field_domain et @ lit '';purpose=field-enc''"
  by (simp add: infoStr_def sort_entries_def field_context_def collates_def) (simp add: lit_def)

lemma class_name_no_slash: "47 \<notin> set (class_name c)"
  by (cases c) (simp_all add: lit_def)

lemma split_at_slash: "47 \<notin> set a \<Longrightarrow> 47 \<notin> set b \<Longrightarrow> a @ 47 # x = b @ 47 # y \<longleftrightarrow> a = b \<and> x = y" for a b :: js_string
  by (induction a arbitrary: b) (case_tac b; auto)+

lemma field_domain_inj:
  assumes "47 \<notin> set e" "47 \<notin> set f"
  shows "field_domain e = field_domain f \<longleftrightarrow> e = f"
proof
  have slash: "lit ''/'' = [47]" by (simp add: lit_def)
  assume *: "field_domain e = field_domain f"
  show "e = f"
  proof (cases "ENTITY_SENSITIVITY_CLASS e"; cases "ENTITY_SENSITIVITY_CLASS f")
    fix c assume "ENTITY_SENSITIVITY_CLASS e = None" "ENTITY_SENSITIVITY_CLASS f = Some c"
    then show ?thesis using * assms(1) by (auto simp: field_domain_def slash)
  next
    fix c assume "ENTITY_SENSITIVITY_CLASS e = Some c" "ENTITY_SENSITIVITY_CLASS f = None"
    then show ?thesis using * assms(2) by (auto simp: field_domain_def slash)
  next
    fix c d assume "ENTITY_SENSITIVITY_CLASS e = Some c" "ENTITY_SENSITIVITY_CLASS f = Some d"
    then show ?thesis using * split_at_slash [OF class_name_no_slash class_name_no_slash] by (simp add: field_domain_def slash)
  qed (use * in \<open>simp add: field_domain_def\<close>)
qed simp

lemma well_formed_append: "well_formed xs \<Longrightarrow> well_formed ys \<Longrightarrow> well_formed (xs @ ys)"
proof (induction xs rule: well_formed.induct)
  case (2 c)
  then show ?case by (cases ys) (auto simp: surrogate_def)
next
  case (3 c d cs)
  then show ?case by (cases "high_surrogate c \<and> low_surrogate d") auto
qed simp

lemma well_formed_plain: "\<forall>c \<in> set s. \<not> surrogate c \<Longrightarrow> well_formed s"
  by (induction s rule: well_formed.induct) (auto simp: surrogate_def)

lemma well_formed_lit: "well_formed (lit s)"
proof -
  have "\<not> surrogate (of_nat (of_char c))" for c :: char
  proof -
    have "unat (of_nat (of_char c) :: 16 word) < 256" using nat_of_char_less_256 [of c] by (subst unat_unit) linarith+
    then show ?thesis by (simp add: surrogate_def surrogate_unat)
  qed
  then show ?thesis by (intro well_formed_plain) (auto simp: lit_def)
qed

lemma well_formed_domain: "well_formed et \<Longrightarrow> well_formed (field_domain et)"
  by (auto simp: field_domain_def well_formed_lit split: option.splits intro!: well_formed_append)
     (case_tac x2, simp_all add: well_formed_lit)

lemma info_readable:
  assumes "collates W" "well_formed et"
  shows "utf8_decode (utf8_encode (infoStr W (field_context et))) = infoStr W (field_context et)"
proof (rule utf8_roundtrip)
  show "well_formed (infoStr W (field_context et))"
    unfolding info_field [OF assms(1)] by (intro well_formed_append well_formed_lit well_formed_domain assms(2))
  show "take 1 (infoStr W (field_context et)) \<noteq> [0xFEFF]" by (simp add: info_field [OF assms(1)] lit_def)
qed

text \<open>Two entity types never share a key domain: the HKDF info that the development backend derives a key
  from differs wherever the types differ.\<close>

theorem field_domains_disjoint:
  assumes "collates W" "well_formed e" "well_formed f" "47 \<notin> set e" "47 \<notin> set f" "e \<noteq> f"
  shows "utf8_encode (infoStr W (field_context e)) \<noteq> utf8_encode (infoStr W (field_context f))"
proof
  assume "utf8_encode (infoStr W (field_context e)) = utf8_encode (infoStr W (field_context f))"
  then have "infoStr W (field_context e) = infoStr W (field_context f)" using info_readable assms(1-3) by metis
  then show False using assms field_domain_inj by (simp add: info_field)
qed

text \<open>The context of a rotation names other entries than the context of a field, so the rotated key is another key.\<close>

lemma rotation_other_info:
  assumes "collates W"
  shows "infoStr W (rotation_context (field_domain et)) \<noteq> infoStr W (field_context et)"
proof -
  have "infoStr W (rotation_context d) = lit ''domain='' @ d @ lit '';entityType='' @ snd (split_slash d)
      @ lit '';purpose=field-enc;sensitivityClass='' @ fst (split_slash d)" for d
    using assms by (simp add: infoStr_def sort_entries_def rotation_context_def collates_def) (simp add: lit_def)
  then show ?thesis using assms by (simp add: info_field) (simp add: lit_def)
qed

section \<open>Branches\<close>

text \<open>Disabled, or without the prefix, or without the second colon, a value passes through.\<close>

lemma decryptField_passes:
  assumes "\<not> isEncryptionEnabled p \<or> \<not> starts_with x ENC_PREFIX \<or> 58 \<notin> set (drop (length ENC_PREFIX) x)"
  shows "decryptField W et x p = (Inr x, p)"
proof -
  have "split_colon (drop (length ENC_PREFIX) x) = None" if "58 \<notin> set (drop (length ENC_PREFIX) x)"
  proof -
    have "dropWhile (\<lambda>c. c \<noteq> 58) (drop (length ENC_PREFIX) x) = []" unfolding dropWhile_eq_Nil_conv using that by metis
    then show ?thesis by (simp only: split_colon_def list.case)
  qed
  then show ?thesis using assms by (auto simp: decryptField_def)
qed

text \<open>A text that begins with a byte order mark comes back without it.\<close>

lemma bom_lost: "utf8_decode (utf8_encode (lit [CHR ''a''])) = lit ''a'' \<and> utf8_decode (utf8_encode (0xFEFF # lit ''a'')) = lit ''a''"
  by (simp add: utf8_decode_def utf8_encode_def lit_def encode_point_def surrogate_def high_surrogate_def low_surrogate_def
      drop_bom_def units_of_def)

section \<open>A platform that has the laws\<close>

definition sample_reply :: "string \<Rightarrow> js_string \<Rightarrow> reply" where
  "sample_reply f s = \<lparr>ok = True, status = 200, body_text = [], json_data = Some [lit f \<mapsto> s]\<rparr>"

definition sample_world :: world where
  "sample_world =
     \<lparr>gcm_encrypt = (\<lambda>k iv m. k @ iv @ m),
      gcm_decrypt = (\<lambda>k iv c. if take (length k + length iv) c = k @ iv then Some (drop (length k + length iv) c) else None),
      hkdf_bits = (\<lambda>k i. take 32 (i @ replicate 32 0)),
      random_values = (\<lambda>t n. replicate n (of_nat t)),
      locale_le = (\<lambda>k l. map unat k \<le> map unat l),
      max_args = 65535,
      fetch = (\<lambda>t url body. Some
        (if body ! 2 = 112 then sample_reply ''ciphertext'' (118 # fst (unquote (drop 14 body)))
         else sample_reply ''plaintext'' (tl (fst (unquote (drop 15 body))))))\<rparr>"

definition sample_vault :: vault_options where
  "sample_vault = \<lparr>addr = lit ''https://vault'', vault_token = lit ''t'', keyName = lit ''k'', mount = lit ''transit''\<rparr>"

definition sample_process :: "KmsBackend \<Rightarrow> nat \<Rightarrow> process" where
  "sample_process b t = \<lparr>ENCRYPTION_DISABLED = None, ENCRYPTION_MASTER_KEY = Some (lit ''AAAA''), kmsBackend = b,
     derivedKeyCache = (\<lambda>_. None), clock = t\<rparr>"

lemma sample_laws: "gcm_opens sample_world" "gcm_authentic sample_world" "random_lengths sample_world" "hkdf_lengths sample_world"
  "spreads sample_world" "gcm_lengths sample_world"
  by (auto simp: world_laws sample_world_def)

lemma sample_fits: "fits sample_world s \<longleftrightarrow> length (utf8_encode s) \<le> 65491"
proof -
  have "\<exists>k :: bytes. length k = n" for n by (rule exI [of _ "replicate n 0"]) simp
  then show ?thesis by (auto simp: fits_def sample_world_def)
qed

lemma utf8_encode_length: "length (utf8_encode s) \<le> 4 * length s"
proof (induction s rule: code_points.induct)
  case (2 c)
  then show ?case by (simp add: utf8_encode_def encode_point_def)
next
  case (3 c d cs)
  then show ?case by (auto simp: utf8_encode_def encode_point_def)
qed (simp add: utf8_encode_def)

lemma sample_fits_lit: "length s \<le> 1000 \<Longrightarrow> fits sample_world (lit s)"
  using utf8_encode_length [of "lit s"] by (simp add: sample_fits lit_def)

lemma sample_collates: "collates sample_world"
  by (simp add: collates_def sample_world_def lit_def)

lemma sample_local: "coherent sample_world [0, 0, 0] (sample_process (LocalDevKmsBackend None) t)"
proof -
  have "parse_master (lit ''AAAA'') = Some [0, 0, 0]"
    by (simp add: parse_master_def atob_def lit_def ascii_ws_def strip_padding_def b64_value_def)
  then show ?thesis by (auto simp: coherent_def local_ready_def sample_process_def) (simp_all add: lit_def)
qed

lemma sample_enabled: "isEncryptionEnabled (sample_process b t)" "environment (sample_process b t) = environment (sample_process b' t')"
  "derivedKeyCache (sample_process b t) et = None" "clock (sample_process b t) = t"
  by (simp_all add: isEncryptionEnabled_def sample_process_def environment_def lit_def)

lemma sample_body:
  "json_object [(lit ''plaintext'', x), (lit ''context'', c)] = [123, 34, 112, 108, 97, 105, 110, 116, 101, 120, 116, 34, 58, 34] @ quote_units x @ 34 # 44 # json_quote (lit ''context'') @ 58 # json_quote c @ [125]"
  "json_object [(lit ''ciphertext'', x), (lit ''context'', c)] = [123, 34, 99, 105, 112, 104, 101, 114, 116, 101, 120, 116, 34, 58, 34] @ quote_units x @ 34 # 44 # json_quote (lit ''context'') @ 58 # json_quote c @ [125]"
  by (simp_all add: json_object_def json_quote_def lit_def json_escape_def high_surrogate_def low_surrogate_def)

lemma length_btoa: "length (btoa bs) \<le> 2 * length bs + 4"
proof -
  have "length (digits6 bs) \<le> 2 * length bs" by (induction bs rule: digits6.induct) simp_all
  moreover have "2 * length bs mod 3 < 3" by simp
  ultimately show ?thesis by (simp add: btoa_def)
qed

lemma sample_vault_ready: "vault_ready sample_world sample_vault (sample_process (VaultKmsBackend sample_vault) t)"
proof -
  have wf: "well_formed (118 # btoa k)" for k
  proof (rule well_formed_plain, rule ballI)
    fix c assume "c \<in> set (118 # btoa k)"
    then consider "c = 118" | "c = 61" | n where "n < 64" "c = b64_char n" by (auto simp: btoa_def dest: digits6_less)
    then show "\<not> surrogate c"
      by cases (auto simp: surrogate_def surrogate_unat unat_b64_char)
  qed
  have wrapped_short: "length (utf8_encode (118 # btoa k)) \<le> 512" if "length k = 32" for k
    using utf8_encode_length [of "118 # btoa k"] length_btoa [of k] that by simp
  have "vault_transit sample_world sample_vault"
    unfolding vault_transit_def
  proof (intro allI)
    fix t' k c
    show "length k = 32 \<longrightarrow> (\<exists>ct. ct \<noteq> [] \<and> well_formed ct \<and> take 1 ct \<noteq> [0xFEFF] \<and> length (utf8_encode ct) \<le> 512 \<and>
        answers sample_world t' (baseUrl sample_vault @ lit ''/encrypt/'' @ keyName sample_vault)
          [(lit ''plaintext'', btoa k), (lit ''context'', c)] ''ciphertext'' ct \<and>
        (\<forall>t'. answers sample_world t' (baseUrl sample_vault @ lit ''/decrypt/'' @ keyName sample_vault)
          [(lit ''ciphertext'', ct), (lit ''context'', c)] ''plaintext'' (btoa k)))"
      using wf [of k] wrapped_short [of k] by (intro impI exI [of _ "118 # btoa k"])
        (simp add: answers_def sample_world_def sample_body unquote_quote sample_reply_def)
  qed
  then show ?thesis using sample_laws by (simp add: vault_ready_def sample_process_def)
qed

lemma sample_short_context: "length (json_object ctx) \<le> 1000 \<Longrightarrow> short_context sample_world ctx"
  using utf8_encode_length [of "json_object ctx"] by (simp add: short_context_def sample_world_def)

lemma sample_field_json: "length (json_object (field_context (lit ''email''))) \<le> 1000"
  by (simp add: json_object_def field_context_def field_domain_def ENTITY_SENSITIVITY_CLASS_def json_quote_def lit_def
      json_escape_def high_surrogate_def low_surrogate_def)

theorem properties_roundtrip_witness:
  "\<exists>r1 p1. encryptProperties sample_world (lit ''customer'') [lit ''name'' \<mapsto> Str (lit ''Ada''), lit ''age'' \<mapsto> Other (lit ''36'')]
      (sample_process (LocalDevKmsBackend None) 7) = (Inr r1, p1)
    \<and> (\<forall>k. k \<notin> set (SENSITIVE_FIELDS (lit ''customer'')) \<longrightarrow>
         r1 k = [lit ''name'' \<mapsto> Str (lit ''Ada''), lit ''age'' \<mapsto> Other (lit ''36'')] k)
    \<and> assertEncryptedBeforeWrite (lit ''customer'') r1 p1 = None
    \<and> fst (decryptProperties sample_world (lit ''customer'') r1 (sample_process (LocalDevKmsBackend None) 90))
      = Inr [lit ''name'' \<mapsto> Str (lit ''Ada''), lit ''age'' \<mapsto> Other (lit ''36'')]"
proof -
  let ?r = "[lit ''name'' \<mapsto> Str (lit ''Ada''), lit ''age'' \<mapsto> Other (lit ''36'')]"
  have strings: "s = lit ''Ada''" if "k \<in> set (SENSITIVE_FIELDS (lit ''customer''))" "?r k = Some (Str s)" for k s
    using that by (auto simp: SENSITIVE_FIELDS_def lit_def split: if_splits)
  have "readable (lit ''Ada'')" by (simp add: readable_def well_formed_lit) (simp add: lit_def)
  then have "\<forall>k \<in> set (SENSITIVE_FIELDS (lit ''customer'')). \<forall>s. ?r k = Some (Str s) \<longrightarrow> readable s" using strings by metis
  from properties_roundtrip [OF sample_local sample_local sample_enabled(1) sample_enabled(2) sample_laws(4,3,1,6,5) this, of 7 90]
  have all: "if \<forall>k \<in> set (SENSITIVE_FIELDS (lit ''customer'')). \<forall>s. ?r k = Some (Str s) \<longrightarrow> fits sample_world s
    then \<exists>r1 p1. encryptProperties sample_world (lit ''customer'') ?r (sample_process (LocalDevKmsBackend None) 7) = (Inr r1, p1)
      \<and> (\<forall>k. k \<notin> set (SENSITIVE_FIELDS (lit ''customer'')) \<longrightarrow> r1 k = ?r k)
      \<and> assertEncryptedBeforeWrite (lit ''customer'') r1 p1 = None
      \<and> fst (decryptProperties sample_world (lit ''customer'') r1 (sample_process (LocalDevKmsBackend None) 90)) = Inr ?r
    else fst (encryptProperties sample_world (lit ''customer'') ?r (sample_process (LocalDevKmsBackend None) 7)) = Inl RangeError" .
  have "\<forall>k \<in> set (SENSITIVE_FIELDS (lit ''customer'')). \<forall>s. ?r k = Some (Str s) \<longrightarrow> fits sample_world s"
    using strings sample_fits_lit [of "''Ada''"] by auto
  from all [unfolded if_P [OF this]] show ?thesis .
qed

theorem vault_restart_loses_field_witness:
  "\<exists>c p1. encryptField sample_world (lit ''email'') (lit ''hi'') (sample_process (VaultKmsBackend sample_vault) 0) = (Inr c, p1)
    \<and> fst (decryptField sample_world (lit ''email'') c p1) = Inr (lit ''hi'')
    \<and> fst (decryptField sample_world (lit ''email'') c (sample_process (VaultKmsBackend sample_vault) 5)) = Inl OperationError"
proof (rule vault_restart_loses_field [OF sample_vault_ready sample_vault_ready sample_enabled(3,3,1,1) sample_laws(1,2)])
  show "readable (lit ''hi'')" by (simp add: readable_def well_formed_lit) (simp add: lit_def)
  show "random_values sample_world (clock (sample_process (VaultKmsBackend sample_vault) 0)) 32
      \<noteq> random_values sample_world (clock (sample_process (VaultKmsBackend sample_vault) 5)) 32"
    by (simp add: sample_world_def sample_enabled(4))
  show "fits sample_world (lit ''hi'')" by (rule sample_fits_lit) simp
  show "short_context sample_world (field_context (lit ''email''))" by (rule sample_short_context) (simp add: sample_field_json)
qed

theorem field_domains_disjoint_witness:
  "utf8_encode (infoStr sample_world (field_context (lit ''identity_token''))) \<noteq> utf8_encode (infoStr sample_world (field_context (lit ''user'')))"
  by (rule field_domains_disjoint [OF sample_collates well_formed_lit well_formed_lit]) (simp_all add: lit_def)

end
