(* ===== verification/Label_Clearance.thy ===== *)
theory Label_Clearance
  imports Encryption
begin

text \<open>
  Label clearance, \<^verbatim>\<open>src/packages/db/label-clearance.ts\<close>: the catalogue of labels with their wrapped content keys, the
  grants of labels to users, and the labelled records, sealed under the key of their label. A text of the database
  is a \<open>js_string\<close>; a new row's id and the time of the statement are arguments. Rows with equal creation times are listed in
  table order.
\<close>

section \<open>Tables\<close>

record AccessLabel =
  al_name :: js_string
  al_description :: js_string
  al_tenant_id :: "js_string option"
  al_created_by :: js_string
  wrapped_content_key :: "js_string option"
  al_created_at :: timestamp
  al_updated_at :: timestamp

record UserLabel =
  ul_id :: js_string
  ul_user_id :: js_string
  ul_label_name :: js_string
  ul_tenant_id :: "js_string option"
  granted_by :: js_string
  granted_at :: timestamp

record LabeledGroundTruth =
  gt_id :: js_string
  gt_entity_id :: js_string
  gt_label_name :: js_string
  gt_tenant_id :: "js_string option"
  encrypted_content :: js_string
  gt_created_by :: js_string
  gt_created_at :: timestamp

record label_db =
  entity_ids :: "js_string list"
  access_labels :: "AccessLabel list"
  user_labels :: "UserLabel list"
  labeled_ground_truth :: "LabeledGroundTruth list"

section \<open>The catalogue\<close>

definition labelEncryptionContext :: "js_string \<Rightarrow> js_string option \<Rightarrow> kms_context" where
  "labelEncryptionContext labelName tenantId =
     [(lit ''domain'', lit ''LABEL/'' @ labelName), (lit ''purpose'', lit ''label-content-key'')]
     @ (case tenantId of None \<Rightarrow> [] | Some t \<Rightarrow> if t = [] then [] else [(lit ''tenant_id'', t)])"

definition label_scope :: "js_string \<Rightarrow> js_string option \<Rightarrow> AccessLabel \<Rightarrow> bool" where
  "label_scope n t l \<longleftrightarrow> al_name l = n \<and> al_tenant_id l = t"

definition createAccessLabel ::
  "timestamp \<Rightarrow> js_string \<Rightarrow> js_string option \<Rightarrow> js_string option \<Rightarrow> js_string \<Rightarrow> label_db \<Rightarrow> fault + AccessLabel \<times> label_db" where
  "createAccessLabel now name description tenantId createdBy db =
     (let l = \<lparr>al_name = name, al_description = (case description of None \<Rightarrow> [] | Some d \<Rightarrow> d), al_tenant_id = tenantId,
               al_created_by = createdBy, wrapped_content_key = None, al_created_at = now, al_updated_at = now\<rparr>
      in if \<exists>l' \<in> set (access_labels db). label_scope name tenantId l'
         then Inl (DatabaseError (UniqueViolation ''access_labels_tenant_name_uniq''))
         else Inr (l, db\<lparr>access_labels := access_labels db @ [l]\<rparr>))"

definition getAccessLabel :: "label_db \<Rightarrow> js_string \<Rightarrow> js_string option \<Rightarrow> AccessLabel option" where
  "getAccessLabel db labelName tenantId = find (label_scope labelName tenantId) (access_labels db)"

text \<open>The tenant filter of the lists: \<^verbatim>\<open>undefined\<close> lists all, \<^verbatim>\<open>null\<close> the global rows.\<close>

definition in_tenant :: "js_string option option \<Rightarrow> js_string option \<Rightarrow> bool" where
  "in_tenant q t \<longleftrightarrow> q = None \<or> q = Some t"

definition listAccessLabels ::
  "js_string option option \<Rightarrow> int option \<Rightarrow> int option \<Rightarrow> label_db \<Rightarrow> db_error + AccessLabel list" where
  "listAccessLabels tenantId limit offset db =
     sql_page (min (case limit of None \<Rightarrow> 100 | Some n \<Rightarrow> n) 500) (case offset of None \<Rightarrow> 0 | Some n \<Rightarrow> n)
       (sort_key (\<lambda>l. - al_created_at l) (filter (\<lambda>l. in_tenant tenantId (al_tenant_id l)) (access_labels db)))"

section \<open>Content keys\<close>

definition createLabelContentKey ::
  "world \<Rightarrow> timestamp \<Rightarrow> js_string \<Rightarrow> js_string option \<Rightarrow> label_db \<Rightarrow> (AccessLabel \<times> label_db) act" where
  "createLabelContentKey W now labelName tenantId db =
     (case getAccessLabel db labelName tenantId of
        None \<Rightarrow> throw (LabelNotFoundError labelName tenantId)
      | Some existing \<Rightarrow>
          and_then (kmsGenerateDataKey W (labelEncryptionContext labelName tenantId)) (\<lambda>dataKey.
          and_then (uint8ArrayToBase64 W (encryptedKey dataKey)) (\<lambda>wrappedB64.
            let wrapped = (\<lambda>l. l\<lparr>wrapped_content_key := Some wrappedB64, al_updated_at := now\<rparr>)
            in return (wrapped existing,
                 db\<lparr>access_labels := update_where (label_scope labelName tenantId) wrapped (access_labels db)\<rparr>))))"

definition unwrapLabelDek :: "world \<Rightarrow> AccessLabel \<Rightarrow> bytes act" where
  "unwrapLabelDek W l =
     (case wrapped_content_key l of
        None \<Rightarrow> throw (LabelContentKeyMissingError (al_name l))
      | Some b64 \<Rightarrow>
          if b64 = [] then throw (LabelContentKeyMissingError (al_name l))
          else and_then (base64ToUint8Array b64) (\<lambda>encryptedKey.
               and_then (kmsDecryptDataKey W encryptedKey (labelEncryptionContext (al_name l) (al_tenant_id l))) importKey))"

definition encryptLabeledContent :: "world \<Rightarrow> AccessLabel \<Rightarrow> js_string \<Rightarrow> js_string act" where
  "encryptLabeledContent W l plaintext = and_then (unwrapLabelDek W l) (\<lambda>key. seal W key plaintext)"

definition decryptLabeledContent :: "world \<Rightarrow> AccessLabel \<Rightarrow> js_string \<Rightarrow> js_string act" where
  "decryptLabeledContent W l ciphertext =
     (if \<not> starts_with ciphertext ENC_PREFIX then return ciphertext
      else and_then (unwrapLabelDek W l) (\<lambda>key.
        case split_colon (drop (length ENC_PREFIX) ciphertext) of
          None \<Rightarrow> return ciphertext
        | Some (ivB64, cipherB64) \<Rightarrow>
            and_then (base64ToUint8Array ivB64) (\<lambda>iv.
            and_then (base64ToUint8Array cipherB64) (\<lambda>cipher. open_with W iv cipher key))))"

section \<open>Grants\<close>

definition grant_scope :: "js_string \<Rightarrow> js_string \<Rightarrow> js_string option \<Rightarrow> UserLabel \<Rightarrow> bool" where
  "grant_scope u n t g \<longleftrightarrow> ul_user_id g = u \<and> ul_label_name g = n \<and> ul_tenant_id g = t"

definition grantUserLabel ::
  "js_string \<Rightarrow> timestamp \<Rightarrow> js_string \<Rightarrow> js_string \<Rightarrow> js_string option \<Rightarrow> js_string \<Rightarrow> label_db \<Rightarrow> fault + UserLabel \<times> label_db" where
  "grantUserLabel newId now userId labelName tenantId grantedBy db =
     (case getAccessLabel db labelName tenantId of
        None \<Rightarrow> Inl (LabelNotFoundError labelName tenantId)
      | Some _ \<Rightarrow>
          (case find (grant_scope userId labelName tenantId) (user_labels db) of
             Some g \<Rightarrow>
               let again = (\<lambda>g. g\<lparr>granted_by := grantedBy, granted_at := now\<rparr>)
               in Inr (again g, db\<lparr>user_labels := update_where (grant_scope userId labelName tenantId) again (user_labels db)\<rparr>)
           | None \<Rightarrow>
               let g = \<lparr>ul_id = newId, ul_user_id = userId, ul_label_name = labelName, ul_tenant_id = tenantId,
                        granted_by = grantedBy, granted_at = now\<rparr>
               in if userId \<notin> set (entity_ids db) then Inl (DatabaseError (ForeignKeyViolation ''user_labels''))
                  else Inr (g, db\<lparr>user_labels := user_labels db @ [g]\<rparr>)))"

definition revokeUserLabel :: "js_string \<Rightarrow> js_string \<Rightarrow> js_string option \<Rightarrow> label_db \<Rightarrow> (fault + unit) \<times> label_db" where
  "revokeUserLabel userId labelName tenantId db =
     (let deleted = filter (grant_scope userId labelName tenantId) (user_labels db);
          db' = db\<lparr>user_labels := filter (\<lambda>g. \<not> grant_scope userId labelName tenantId g) (user_labels db)\<rparr>
      in (if deleted = [] then Inl (LabelGrantNotFoundError userId labelName) else Inr (), db'))"

definition listUserLabels :: "js_string \<Rightarrow> js_string option option \<Rightarrow> label_db \<Rightarrow> UserLabel list" where
  "listUserLabels userId tenantId db =
     sort_key (\<lambda>g. - granted_at g) (filter (\<lambda>g. ul_user_id g = userId \<and> in_tenant tenantId (ul_tenant_id g)) (user_labels db))"

definition userHasLabel :: "label_db \<Rightarrow> js_string \<Rightarrow> js_string \<Rightarrow> js_string option \<Rightarrow> bool" where
  "userHasLabel db userId labelName tenantId = (0 < length (filter (grant_scope userId labelName tenantId) (user_labels db)))"

section \<open>Labelled records\<close>

definition writeLabeledGroundTruth ::
  "world \<Rightarrow> js_string \<Rightarrow> timestamp \<Rightarrow> js_string \<Rightarrow> js_string \<Rightarrow> js_string option \<Rightarrow> js_string \<Rightarrow> js_string \<Rightarrow> label_db
     \<Rightarrow> (LabeledGroundTruth \<times> label_db) act" where
  "writeLabeledGroundTruth W newId now entityId labelName tenantId plaintext createdBy db =
     (case getAccessLabel db labelName tenantId of
        None \<Rightarrow> throw (LabelNotFoundError labelName tenantId)
      | Some l \<Rightarrow>
          and_then (encryptLabeledContent W l plaintext) (\<lambda>content.
            case find (\<lambda>g. gt_entity_id g = entityId \<and> gt_label_name g = labelName) (labeled_ground_truth db) of
              Some g \<Rightarrow>
                let again = (\<lambda>g. g\<lparr>encrypted_content := content, gt_created_by := createdBy\<rparr>)
                in return (again g, db\<lparr>labeled_ground_truth :=
                     update_where (\<lambda>g. gt_entity_id g = entityId \<and> gt_label_name g = labelName) again (labeled_ground_truth db)\<rparr>)
            | None \<Rightarrow>
                let g = \<lparr>gt_id = newId, gt_entity_id = entityId, gt_label_name = labelName, gt_tenant_id = tenantId,
                         encrypted_content = content, gt_created_by = createdBy, gt_created_at = now\<rparr>
                in if entityId \<notin> set (entity_ids db) then throw (DatabaseError (ForeignKeyViolation ''labeled_ground_truth''))
                   else return (g, db\<lparr>labeled_ground_truth := labeled_ground_truth db @ [g]\<rparr>)))"

definition record_scope :: "js_string \<Rightarrow> js_string \<Rightarrow> js_string option \<Rightarrow> LabeledGroundTruth \<Rightarrow> bool" where
  "record_scope e n t g \<longleftrightarrow> gt_entity_id g = e \<and> gt_label_name g = n \<and> gt_tenant_id g = t"

definition readLabeledGroundTruth ::
  "world \<Rightarrow> js_string \<Rightarrow> js_string \<Rightarrow> js_string option \<Rightarrow> js_string \<Rightarrow> label_db \<Rightarrow> (LabeledGroundTruth \<times> js_string) act" where
  "readLabeledGroundTruth W entityId labelName tenantId requestingUserId db =
     (if \<not> userHasLabel db requestingUserId labelName tenantId
      then throw (LabelClearanceDeniedError requestingUserId labelName)
      else case find (record_scope entityId labelName tenantId) (labeled_ground_truth db) of
             None \<Rightarrow> throw (LabeledGroundTruthNotFoundError entityId labelName)
           | Some g \<Rightarrow>
               (case getAccessLabel db labelName tenantId of
                  None \<Rightarrow> throw (LabelNotFoundError labelName tenantId)
                | Some l \<Rightarrow> and_then (decryptLabeledContent W l (encrypted_content g)) (\<lambda>plaintext. return (g, plaintext))))"

text \<open>The rows without their content: id, entity, label, tenant, creator and time.\<close>

definition listLabeledGroundTruth ::
  "js_string \<Rightarrow> js_string option option \<Rightarrow> label_db
     \<Rightarrow> (js_string \<times> js_string \<times> js_string \<times> js_string option \<times> js_string \<times> timestamp) list" where
  "listLabeledGroundTruth entityId tenantId db =
     map (\<lambda>g. (gt_id g, gt_entity_id g, gt_label_name g, gt_tenant_id g, gt_created_by g, gt_created_at g))
       (sort_key (\<lambda>g. - gt_created_at g)
         (filter (\<lambda>g. gt_entity_id g = entityId \<and> in_tenant tenantId (gt_tenant_id g)) (labeled_ground_truth db)))"

section \<open>Who holds a label\<close>

datatype label_op =
    CreateLabel timestamp js_string "js_string option" "js_string option" js_string
  | CreateKey timestamp js_string "js_string option"
  | Grant js_string timestamp js_string js_string "js_string option" js_string
  | Revoke js_string js_string "js_string option"
  | WriteRecord js_string timestamp js_string js_string "js_string option" js_string js_string

text \<open>A call on the database and the process; an error leaves the tables as they were.\<close>

fun run_label :: "world \<Rightarrow> label_op \<Rightarrow> label_db \<times> process \<Rightarrow> label_db \<times> process" where
  "run_label W (CreateLabel now n d t who) (db, p) =
     (case createAccessLabel now n d t who db of Inl _ \<Rightarrow> db | Inr (_, db') \<Rightarrow> db', p)"
| "run_label W (CreateKey now n t) (db, p) =
     (case createLabelContentKey W now n t db p of (Inl _, p') \<Rightarrow> (db, p') | (Inr (_, db'), p') \<Rightarrow> (db', p'))"
| "run_label W (Grant newId now u n t who) (db, p) =
     (case grantUserLabel newId now u n t who db of Inl _ \<Rightarrow> db | Inr (_, db') \<Rightarrow> db', p)"
| "run_label W (Revoke u n t) (db, p) = (snd (revokeUserLabel u n t db), p)"
| "run_label W (WriteRecord newId now e n t x who) (db, p) =
     (case writeLabeledGroundTruth W newId now e n t x who db p of (Inl _, p') \<Rightarrow> (db, p') | (Inr (_, db'), p') \<Rightarrow> (db', p'))"

text \<open>The specification: which labels exist, and who holds which.\<close>

type_synonym clearance = "(js_string \<times> js_string option) set \<times> (js_string \<times> js_string \<times> js_string option) set"

fun spec_label :: "js_string set \<Rightarrow> label_op \<Rightarrow> clearance \<Rightarrow> clearance" where
  "spec_label E (CreateLabel now n d t who) (L, G) = (insert (n, t) L, G)"
| "spec_label E (Grant newId now u n t who) (L, G) =
     (L, if (n, t) \<in> L \<and> (u \<in> E \<or> (u, n, t) \<in> G) then insert (u, n, t) G else G)"
| "spec_label E (Revoke u n t) (L, G) = (L, G - {(u, n, t)})"
| "spec_label E _ LG = LG"

definition clearance_of :: "label_db \<Rightarrow> clearance" where
  "clearance_of db =
     ((\<lambda>l. (al_name l, al_tenant_id l)) ` set (access_labels db),
      (\<lambda>g. (ul_user_id g, ul_label_name g, ul_tenant_id g)) ` set (user_labels db))"

lemma find_iff: "(\<exists>x. find P xs = Some x) \<longleftrightarrow> (\<exists>x \<in> set xs. P x)"
  by (induction xs) auto

lemma has_label_iff: "userHasLabel db u n t \<longleftrightarrow> (u, n, t) \<in> snd (clearance_of db)"
  by (auto simp: userHasLabel_def clearance_of_def grant_scope_def filter_empty_conv)

lemma label_exists_iff: "(\<exists>l. getAccessLabel db n t = Some l) \<longleftrightarrow> (n, t) \<in> fst (clearance_of db)"
  unfolding getAccessLabel_def find_iff by (auto simp: clearance_of_def label_scope_def)

lemma image_update_where: "(\<And>r. key (f r) = key r) \<Longrightarrow> key ` set (update_where P f t) = key ` set t"
  unfolding update_where_def set_map image_image by (rule image_cong) simp_all

lemmas scope_updates =
  image_update_where [of "\<lambda>l. (al_name l, al_tenant_id l)" "\<lambda>l. l\<lparr>wrapped_content_key := k, al_updated_at := a\<rparr>" for k a]
  image_update_where [of "\<lambda>g. (ul_user_id g, ul_label_name g, ul_tenant_id g)" "\<lambda>g. g\<lparr>granted_by := b, granted_at := a\<rparr>" for b a]

lemma createLabelContentKey_clearance:
  "createLabelContentKey W now n t db p = (Inr (l, db'), p') \<Longrightarrow> clearance_of db' = clearance_of db \<and> entity_ids db' = entity_ids db"
  by (clarsimp simp: createLabelContentKey_def and_then_def Let_def clearance_of_def scope_updates
      split: option.splits prod.splits sum.splits)

lemma writeLabeledGroundTruth_clearance:
  "writeLabeledGroundTruth W newId now e n t x who db p = (Inr (g, db'), p')
     \<Longrightarrow> clearance_of db' = clearance_of db \<and> entity_ids db' = entity_ids db"
  by (auto simp: writeLabeledGroundTruth_def and_then_def Let_def clearance_of_def
      split: option.splits prod.splits sum.splits if_splits)

lemma createAccessLabel_clearance:
  "(case createAccessLabel now n d t who db of Inl _ \<Rightarrow> db | Inr (_, db') \<Rightarrow> db') = db1 \<Longrightarrow>
     clearance_of db1 = (insert (n, t) (fst (clearance_of db)), snd (clearance_of db)) \<and> entity_ids db1 = entity_ids db"
  by (auto simp: createAccessLabel_def Let_def clearance_of_def label_scope_def split: if_splits)

lemma grantUserLabel_clearance:
  assumes "(case grantUserLabel newId now u n t who db of Inl _ \<Rightarrow> db | Inr (_, db') \<Rightarrow> db') = db1"
  shows "clearance_of db1 = spec_label (set (entity_ids db)) (Grant newId now u n t who) (clearance_of db) \<and> entity_ids db1 = entity_ids db"
proof (cases "(n, t) \<in> fst (clearance_of db)")
  case True
  then obtain l where l: "getAccessLabel db n t = Some l" using label_exists_iff by metis
  have held: "(u, n, t) \<in> snd (clearance_of db) \<longleftrightarrow> (\<exists>g. find (grant_scope u n t) (user_labels db) = Some g)"
    unfolding find_iff by (auto simp: clearance_of_def grant_scope_def)
  show ?thesis
  proof (cases "find (grant_scope u n t) (user_labels db)")
    case None
    then show ?thesis using assms True l held by (auto simp: grantUserLabel_def Let_def clearance_of_def)
  next
    case (Some g)
    then have "db1 = db\<lparr>user_labels := update_where (grant_scope u n t) (\<lambda>g. g\<lparr>granted_by := who, granted_at := now\<rparr>) (user_labels db)\<rparr>"
      using assms l by (simp add: grantUserLabel_def Let_def)
    then have "clearance_of db1 = clearance_of db \<and> entity_ids db1 = entity_ids db"
      by (simp add: clearance_of_def scope_updates)
    then show ?thesis using True Some held by (cases "clearance_of db") (simp add: insert_absorb)
  qed
next
  case False
  then have "getAccessLabel db n t = None" using label_exists_iff [of db n t] by (metis option.exhaust)
  then show ?thesis using assms False by (cases "clearance_of db") (simp add: grantUserLabel_def)
qed

lemma run_label_refines:
  "clearance_of (fst (run_label W op (db, p))) = spec_label (set (entity_ids db)) op (clearance_of db)
     \<and> entity_ids (fst (run_label W op (db, p))) = entity_ids db"
proof (cases op)
  case (CreateLabel now n d t who)
  then show ?thesis using createAccessLabel_clearance [where now = now and n = n and d = d and t = t and who = who and db = db] by (cases "clearance_of db") simp
next
  case (CreateKey now n t)
  obtain r p' where r: "createLabelContentKey W now n t db p = (r, p')" by (rule prod.exhaust)
  show ?thesis
  proof (cases r)
    case (Inr x)
    then show ?thesis using CreateKey r createLabelContentKey_clearance [of W now n t db p "fst x" "snd x" p']
      by (cases "clearance_of db"; cases x) simp
  qed (use CreateKey r in \<open>cases "clearance_of db"; simp\<close>)
next
  case (Grant newId now u n t who)
  then show ?thesis
    using grantUserLabel_clearance [OF refl, where newId = newId and now = now and u = u and n = n and t = t and who = who and db = db]
    by (simp only: run_label.simps fst_conv)
next
  case (Revoke u n t)
  then show ?thesis by (auto simp: revokeUserLabel_def Let_def clearance_of_def grant_scope_def)
next
  case (WriteRecord newId now e n t x who)
  obtain r p' where r: "writeLabeledGroundTruth W newId now e n t x who db p = (r, p')" by (rule prod.exhaust)
  show ?thesis
  proof (cases r)
    case (Inr y)
    then show ?thesis using WriteRecord r writeLabeledGroundTruth_clearance [of W newId now e n t x who db p "fst y" "snd y" p']
      by (cases "clearance_of db"; cases y) simp
  qed (use WriteRecord r in \<open>cases "clearance_of db"; simp\<close>)
qed

lemma fold_label_refines:
  "clearance_of (fst (fold (run_label W) ops s)) = fold (spec_label (set (entity_ids (fst s)))) ops (clearance_of (fst s))"
proof (induction ops arbitrary: s)
  case (Cons op ops)
  have "entity_ids (fst (run_label W op s)) = entity_ids (fst s)"
    "clearance_of (fst (run_label W op s)) = spec_label (set (entity_ids (fst s))) op (clearance_of (fst s))"
    using run_label_refines [of W op "fst s" "snd s"] by simp_all
  then show ?case using Cons [of "run_label W op s"] by simp
qed simp

text \<open>C18: Every sequence of calls, errors included, keeps the tables to the specification of who holds which label: a
  label exists once created, a grant needs the label and the user's entity, and only revocation takes one back.\<close>

theorem clearance_refines:
  "clearance_of (fst (fold (run_label W) ops (db, p))) = fold (spec_label (set (entity_ids db))) ops (clearance_of db)"
  using fold_label_refines [of W ops "(db, p)"] by simp

lemma spec_ungranted:
  assumes "\<forall>op \<in> set ops. \<forall>newId now who. op \<noteq> Grant newId now u n t who" "(u, n, t) \<notin> snd LG"
  shows "(u, n, t) \<notin> snd (fold (spec_label E) ops LG)"
  using assms
proof (induction ops arbitrary: LG)
  case (Cons op ops)
  have "(u, n, t) \<notin> snd (spec_label E op LG)" using Cons.prems by (cases LG; cases op) auto
  then show ?case using Cons by simp
qed simp

text \<open>C21: Once a label is revoked, whatever calls follow, a read by that user is denied until the label is granted again.\<close>

theorem revoked_denied:
  assumes "\<forall>op \<in> set ops. \<forall>newId now who. op \<noteq> Grant newId now u n t who"
  shows "fst (readLabeledGroundTruth W e n t u (fst (fold (run_label W) (Revoke u n t # ops) s)) p') = Inl (LabelClearanceDeniedError u n)"
proof -
  let ?E = "set (entity_ids (fst s))"
  have "(u, n, t) \<notin> snd (spec_label ?E (Revoke u n t) (clearance_of (fst s)))" by (cases "clearance_of (fst s)") simp
  from spec_ungranted [OF assms this] have "\<not> userHasLabel (fst (fold (run_label W) (Revoke u n t # ops) s)) u n t"
    unfolding has_label_iff fold_label_refines by simp
  then show ?thesis by (simp add: readLabeledGroundTruth_def)
qed

section \<open>Writing and reading\<close>

lemma find_update_where:
  assumes "\<And>r. P (f r) \<longleftrightarrow> P r"
  shows "find P (update_where P f xs) = map_option f (find P xs)"
  using assms by (induction xs) (auto simp: update_where_def)

lemma getAccessLabel_scope: "getAccessLabel db n t = Some l \<Longrightarrow> al_name l = n \<and> al_tenant_id l = t"
  unfolding getAccessLabel_def find_Some_iff label_scope_def by blast

lemma getAccessLabel_wrapped:
  "getAccessLabel (db\<lparr>access_labels := update_where (label_scope n t) (\<lambda>l. l\<lparr>wrapped_content_key := k, al_updated_at := a\<rparr>) (access_labels db)\<rparr>) n t
     = map_option (\<lambda>l. l\<lparr>wrapped_content_key := k, al_updated_at := a\<rparr>) (getAccessLabel db n t)"
  by (simp add: getAccessLabel_def find_update_where label_scope_def)

text \<open>The row that a write inserts or updates is the row that a read in the same scope finds, where no other scope has the pair.\<close>

definition record_write :: "js_string \<Rightarrow> timestamp \<Rightarrow> js_string \<Rightarrow> js_string \<Rightarrow> js_string option \<Rightarrow> js_string \<Rightarrow> js_string
    \<Rightarrow> LabeledGroundTruth list \<Rightarrow> LabeledGroundTruth \<times> LabeledGroundTruth list" where
  "record_write newId now e n t content who gs =
     (case find (\<lambda>g. gt_entity_id g = e \<and> gt_label_name g = n) gs of
        Some g \<Rightarrow> (g\<lparr>encrypted_content := content, gt_created_by := who\<rparr>,
          update_where (\<lambda>g. gt_entity_id g = e \<and> gt_label_name g = n) (\<lambda>g. g\<lparr>encrypted_content := content, gt_created_by := who\<rparr>) gs)
      | None \<Rightarrow> let g = \<lparr>gt_id = newId, gt_entity_id = e, gt_label_name = n, gt_tenant_id = t,
                         encrypted_content = content, gt_created_by = who, gt_created_at = now\<rparr> in (g, gs @ [g]))"

lemma write_record:
  assumes "getAccessLabel db n t = Some l" "encryptLabeledContent W l x q = (Inr content, q1)" "e \<in> set (entity_ids db)"
    and "record_write newId now e n t content who (labeled_ground_truth db) = (g, gs)"
  shows "writeLabeledGroundTruth W newId now e n t x who db q = (Inr (g, db\<lparr>labeled_ground_truth := gs\<rparr>), q1)"
  using assms by (auto simp: writeLabeledGroundTruth_def record_write_def and_then_def Let_def split: option.splits)

lemma find_in_scope:
  assumes "\<forall>g \<in> set gs. gt_entity_id g = e \<and> gt_label_name g = n \<longrightarrow> gt_tenant_id g = t"
  shows "find (record_scope e n t) gs = find (\<lambda>g. gt_entity_id g = e \<and> gt_label_name g = n) gs"
  using assms by (intro find_cong) (auto simp: record_scope_def)

lemma record_write_found:
  assumes "record_write newId now e n t content who gs = (g, gs')"
    and "\<forall>g \<in> set gs. gt_entity_id g = e \<and> gt_label_name g = n \<longrightarrow> gt_tenant_id g = t"
  shows "find (record_scope e n t) gs' = Some g" "encrypted_content g = content"
proof -
  let ?P = "\<lambda>g. gt_entity_id g = e \<and> gt_label_name g = n"
  have found: "find ?P gs' = Some g \<and> encrypted_content g = content"
  proof (cases "find ?P gs")
    case None
    then have "find ?P (gs @ [h]) = (if ?P h then Some h else None)" for h by (induction gs) (auto split: if_splits)
    with None show ?thesis using assms(1) by (auto simp: record_write_def Let_def)
  next
    case (Some h)
    let ?f = "\<lambda>g. g\<lparr>encrypted_content := content, gt_created_by := who\<rparr>"
    have "g = ?f h" "gs' = update_where ?P ?f gs" using assms(1) Some by (simp_all add: record_write_def)
    moreover have "find ?P (update_where ?P ?f gs) = map_option ?f (find ?P gs)" by (rule find_update_where) simp
    ultimately show ?thesis using Some by simp
  qed
  moreover have "\<forall>g \<in> set gs'. ?P g \<longrightarrow> gt_tenant_id g = t"
  proof (cases "find ?P gs")
    case None
    then have "gs' = gs @ [g]" "gt_tenant_id g = t" using assms(1) by (auto simp: record_write_def Let_def)
    then show ?thesis using assms(2) by auto
  next
    case (Some h)
    then have "gs' = update_where ?P (\<lambda>g. g\<lparr>encrypted_content := content, gt_created_by := who\<rparr>) gs"
      using assms(1) by (simp add: record_write_def)
    then have "\<exists>h \<in> set gs. gt_entity_id h = gt_entity_id g' \<and> gt_label_name h = gt_label_name g' \<and> gt_tenant_id h = gt_tenant_id g'"
      if "g' \<in> set gs'" for g' using that by (auto simp: update_where_def)
    then show ?thesis using assms(2) by metis
  qed
  ultimately show "find (record_scope e n t) gs' = Some g" "encrypted_content g = content"
    by (simp_all add: find_in_scope)
qed

text \<open>A label whose stored key was generated for it by a process that is ready.\<close>

definition keyed :: "world \<Rightarrow> (process \<Rightarrow> bool) \<Rightarrow> AccessLabel \<Rightarrow> bytes \<Rightarrow> bool" where
  "keyed W ready l key \<longleftrightarrow>
     (\<exists>k p p'. ready p \<and> kmsGenerateDataKey W (labelEncryptionContext (al_name l) (al_tenant_id l)) p = (Inr k, p')
       \<and> wrapped_content_key l = Some (btoa (encryptedKey k)) \<and> key = plaintextKey k)"

text \<open>What label clearance needs of the key service, beyond its contract.\<close>

locale label_keys = data_keys "kmsGenerateDataKey W" "kmsDecryptDataKey W" ready passable for W :: world and ready and passable +
  assumes key_size: "ready p \<Longrightarrow> kmsGenerateDataKey W ctx p = (Inr k, p') \<Longrightarrow> length (plaintextKey k) = 32"
    and wrapped: "ready p \<Longrightarrow> kmsGenerateDataKey W (labelEncryptionContext n t) p = (Inr k, p')
      \<Longrightarrow> passable (labelEncryptionContext n t) \<Longrightarrow> encryptedKey k \<noteq> [] \<and> length (encryptedKey k) \<le> max_args W"
begin

lemma unwrap_keyed:
  assumes "keyed W ready l key" "ready q" "passable (labelEncryptionContext (al_name l) (al_tenant_id l))"
  obtains q' where "unwrapLabelDek W l q = (Inr key, q')" "ready q'" "length key = 32"
proof -
  obtain k p p' where k: "ready p" "kmsGenerateDataKey W (labelEncryptionContext (al_name l) (al_tenant_id l)) p = (Inr k, p')"
    "wrapped_content_key l = Some (btoa (encryptedKey k))" "key = plaintextKey k" using assms(1) unfolding keyed_def by blast
  obtain q' where "kmsDecryptDataKey W (encryptedKey k) (labelEncryptionContext (al_name l) (al_tenant_id l)) q = (Inr key, q')" "ready q'"
    using unwraps [OF k(1) assms(2) k(2)] k(4) by blast
  moreover have "btoa (encryptedKey k) \<noteq> []" using wrapped [OF k(1,2) assms(3)] by (intro btoa_nonempty) blast
  ultimately show thesis using that [of q'] k key_size [OF k(1,2)]
    by (auto simp: unwrapLabelDek_def base64ToUint8Array_def and_then_def importKey_def)
qed

lemma create_keyed:
  assumes "ready p" "getAccessLabel db n t = Some l0" "passable (labelEncryptionContext n t)"
  obtains l db1 p1 key where "createLabelContentKey W now n t db p = (Inr (l, db1), p1)" "keyed W ready l key"
    "getAccessLabel db1 n t = Some l" "entity_ids db1 = entity_ids db" "user_labels db1 = user_labels db"
    "labeled_ground_truth db1 = labeled_ground_truth db" "al_name l = n" "al_tenant_id l = t"
proof -
  obtain k p1 where k: "kmsGenerateDataKey W (labelEncryptionContext n t) p = (Inr k, p1)" using gen_works [OF assms(1,3)] by blast
  define f :: "AccessLabel \<Rightarrow> AccessLabel" where "f = (\<lambda>l. l\<lparr>wrapped_content_key := Some (btoa (encryptedKey k)), al_updated_at := now\<rparr>)"
  define db1 where "db1 = db\<lparr>access_labels := update_where (label_scope n t) f (access_labels db)\<rparr>"
  have made: "createLabelContentKey W now n t db p = (Inr (f l0, db1), p1)"
    using assms(2) k wrapped [OF assms(1) k assms(3)]
    by (simp add: createLabelContentKey_def and_then_def Let_def uint8ArrayToBase64_def f_def db1_def)
  have key: "keyed W ready (f l0) (plaintextKey k)" "al_name (f l0) = n" "al_tenant_id (f l0) = t"
    using assms(1) k getAccessLabel_scope [OF assms(2)] by (auto simp: keyed_def f_def)
  have "getAccessLabel db1 n t = Some (f l0)" using assms(2) by (simp add: db1_def f_def getAccessLabel_wrapped)
  then show thesis by (intro that [OF made key(1)]) (simp_all add: db1_def key)
qed

lemma decrypt_sealed:
  assumes "keyed W ready l key" "ready r" "gcm_opens W" "length iv = 12" "readable x"
    and "passable (labelEncryptionContext (al_name l) (al_tenant_id l))"
  shows "fst (decryptLabeledContent W l (sealed W key iv x) r) = Inr x"
proof -
  obtain r' where "unwrapLabelDek W l r = (Inr key, r')" by (rule unwrap_keyed [OF assms(1,2,6)])
  then show ?thesis using assms(3-5)
    by (simp add: decryptLabeledContent_def and_then_def split_sealed base64ToUint8Array_def open_with_def gcm_opens_def
        readable_def utf8_roundtrip)
qed

lemma write_then_read:
  assumes "ready p" "ready q" "ready r" "gcm_opens W" "random_lengths W" "spreads W" "gcm_lengths W" "readable x"
    and "getAccessLabel db n t = Some l0" "e \<in> set (entity_ids db)" "userHasLabel db u n t"
    and "\<forall>g \<in> set (labeled_ground_truth db). gt_entity_id g = e \<and> gt_label_name g = n \<longrightarrow> gt_tenant_id g = t"
    and "passable (labelEncryptionContext n t)"
  shows "\<exists>l db1 p1. createLabelContentKey W now n t db p = (Inr (l, db1), p1)
    \<and> (if fits W x
       then \<exists>g db2 q1. writeLabeledGroundTruth W newId now' e n t x who db1 q = (Inr (g, db2), q1)
         \<and> fst (readLabeledGroundTruth W e n t u db2 r) = Inr (g, x)
       else fst (writeLabeledGroundTruth W newId now' e n t x who db1 q) = Inl RangeError)"
proof -
  obtain l db1 p1 key where c: "createLabelContentKey W now n t db p = (Inr (l, db1), p1)" "keyed W ready l key" "getAccessLabel db1 n t = Some l"
    "entity_ids db1 = entity_ids db" "user_labels db1 = user_labels db" "labeled_ground_truth db1 = labeled_ground_truth db"
    "al_name l = n" "al_tenant_id l = t"
    by (rule create_keyed [OF assms(1,9,13)])
  note pass = assms(13) [folded c(7,8)]
  obtain q1 where q1: "unwrapLabelDek W l q = (Inr key, q1)" "length key = 32" by (rule unwrap_keyed [OF c(2) assms(2) pass])
  define iv content where "iv = random_values W (clock q1) 12" and "content = sealed W key iv x"
  have iv: "length iv = 12" using assms(5) by (simp add: iv_def random_lengths_def)
  have seal: "encryptLabeledContent W l x q = seal W key x q1" using q1(1) by (simp add: encryptLabeledContent_def and_then_def)
  show ?thesis
  proof (cases "fits W x")
    case True
    have enc: "encryptLabeledContent W l x q = (Inr content, q1\<lparr>clock := Suc (clock q1)\<rparr>)"
      unfolding seal content_def iv_def by (rule seal_fits [OF assms(6,5) q1(2) True])
    obtain g gs where g: "record_write newId now' e n t content who (labeled_ground_truth db1) = (g, gs)" by (rule prod.exhaust)
    define db2 where "db2 = db1\<lparr>labeled_ground_truth := gs\<rparr>"
    have "writeLabeledGroundTruth W newId now' e n t x who db1 q = (Inr (g, db2), q1\<lparr>clock := Suc (clock q1)\<rparr>)"
      unfolding db2_def using write_record [OF c(3) enc _ g] assms(10) c(4) by simp
    moreover have "find (record_scope e n t) (labeled_ground_truth db2) = Some g" "encrypted_content g = content"
      using record_write_found [OF g] assms(12) c(6) by (simp_all add: db2_def)
    moreover have "userHasLabel db2 u n t" "getAccessLabel db2 n t = Some l"
      using assms(11) c(3,5) by (simp_all add: userHasLabel_def getAccessLabel_def db2_def)
    moreover have "fst (decryptLabeledContent W l content r) = Inr x"
      unfolding content_def by (rule decrypt_sealed [OF c(2) assms(3,4) iv assms(8) pass])
    ultimately show ?thesis using c(1) True
      by (cases "decryptLabeledContent W l content r") (auto simp: readLabeledGroundTruth_def and_then_def)
  next
    case False
    then have "fst (writeLabeledGroundTruth W newId now' e n t x who db1 q) = Inl RangeError"
      using seal seal_too_long [OF assms(6,5,7) q1(2) False] c(3) by (simp add: writeLabeledGroundTruth_def and_then_def)
    with c(1) False show ?thesis by simp
  qed
qed

end

lemma utf8_encode_nonempty: "s \<noteq> [] \<Longrightarrow> utf8_encode s \<noteq> []"
  by (cases s rule: code_points.cases) (auto simp: utf8_encode_def encode_point_def)

lemma sort_entries_nonempty: "sort_entries le (e # es) \<noteq> []"
proof -
  have "insert_entry le e fs \<noteq> []" for fs by (cases fs) simp_all
  then show ?thesis by (simp add: sort_entries_def)
qed

lemma label_info_nonempty: "infoStr W (labelEncryptionContext n t) \<noteq> []"
proof -
  have "sort_entries (locale_le W) (labelEncryptionContext n t) \<noteq> []"
    using sort_entries_nonempty by (simp add: labelEncryptionContext_def)
  then obtain k v es where "sort_entries (locale_le W) (labelEncryptionContext n t) = (k, v) # es" by (metis neq_Nil_conv surj_pair)
  then show ?thesis by (cases es) (auto simp: infoStr_def lit_def)
qed

text \<open>A label whose name and tenant are short enough for its context, and the key the development backend wraps as the info, to
  be passed as arguments.\<close>

definition short_info :: "world \<Rightarrow> kms_context \<Rightarrow> bool" where
  "short_info W ctx \<longleftrightarrow> length (utf8_encode (infoStr W ctx)) \<le> max_args W"

definition short_label :: "world \<Rightarrow> js_string \<Rightarrow> js_string option \<Rightarrow> bool" where
  "short_label W n t \<longleftrightarrow> short_info W (labelEncryptionContext n t) \<and> short_context W (labelEncryptionContext n t)"

interpretation local_labels: label_keys W "\<lambda>p. local_ready raw p \<and> hkdf_lengths W" "short_info W" for W raw
proof
  fix p p' p1 ctx k n t
  show "\<exists>k p'. kmsGenerateDataKey W ctx p = (Inr k, p') \<and> local_ready raw p' \<and> hkdf_lengths W"
    if "local_ready raw p \<and> hkdf_lengths W" using that local_keys.gen_works by blast
  show "\<exists>p2. kmsDecryptDataKey W (encryptedKey k) ctx p' = (Inr (plaintextKey k), p2) \<and> local_ready raw p2 \<and> hkdf_lengths W"
    if "local_ready raw p \<and> hkdf_lengths W" "local_ready raw p' \<and> hkdf_lengths W" "kmsGenerateDataKey W ctx p = (Inr k, p1)"
    using that local_keys.unwraps by blast
  show "length (plaintextKey k) = 32"
    if "local_ready raw p \<and> hkdf_lengths W" "kmsGenerateDataKey W ctx p = (Inr k, p')"
    using that by (auto simp: kmsGenerateDataKey_ready hkdf_lengths_def)
  show "encryptedKey k \<noteq> [] \<and> length (encryptedKey k) \<le> max_args W"
    if "local_ready raw p \<and> hkdf_lengths W" "kmsGenerateDataKey W (labelEncryptionContext n t) p = (Inr k, p')"
      "short_info W (labelEncryptionContext n t)"
    using that by (auto simp: kmsGenerateDataKey_ready utf8_encode_nonempty label_info_nonempty short_info_def)
qed

interpretation vault_labels: label_keys W "vault_ready W v" "short_context W" for W v
proof
  fix p p' p1 ctx k n t
  have gen: "length (plaintextKey k) = 32 \<and> encryptedKey k \<noteq> [] \<and> length (encryptedKey k) \<le> max_args W"
    if p: "vault_ready W v p" "kmsGenerateDataKey W ctx p = (Inr k, p')" for p ctx k p'
  proof -
    obtain ct where "kmsGenerateDataKey W ctx p =
        (Inr \<lparr>plaintextKey = random_values W (clock p) 32, encryptedKey = utf8_encode ct\<rparr>, p\<lparr>clock := clock p + 2\<rparr>)" "ct \<noteq> []"
      "length (utf8_encode ct) \<le> max_args W"
      by (rule vault_generates [OF p(1) vault_generated_short [OF p]])
    then show ?thesis using p by (auto simp: vault_ready_def random_lengths_def utf8_encode_nonempty)
  qed
  show "length (plaintextKey k) = 32" if "vault_ready W v p" "kmsGenerateDataKey W ctx p = (Inr k, p')"
    using gen [OF that] by simp
  show "encryptedKey k \<noteq> [] \<and> length (encryptedKey k) \<le> max_args W"
    if "vault_ready W v p" "kmsGenerateDataKey W (labelEncryptionContext n t) p = (Inr k, p')"
    using gen [OF that] by simp
qed

text \<open>C20: With either backend, after a content key is created for a label, what is written under the label is read back
  by a holder of the label, in whatever process of the same key service: the text that was written. A text that does
  not fit, that is one whose ciphertext has more bytes than a call may have arguments, is refused with a RangeError. The text is
  well-formed and has no leading byte order mark, the pair of entity and label is not used in another scope, and the
  label's name and tenant fit themselves.\<close>

theorem labelled_write_read:
  assumes "(\<forall>o' \<in> {p, q, r}. local_ready raw o' \<and> hkdf_lengths W) \<or> (\<forall>o' \<in> {p, q, r}. vault_ready W v o')"
    and "gcm_opens W" "random_lengths W" "spreads W" "gcm_lengths W" "readable x" "(n, t) \<in> fst (clearance_of db)" "e \<in> set (entity_ids db)"
    and "(u, n, t) \<in> snd (clearance_of db)"
    and "\<forall>g \<in> set (labeled_ground_truth db). gt_entity_id g = e \<and> gt_label_name g = n \<longrightarrow> gt_tenant_id g = t"
    and "short_label W n t"
  shows "\<exists>l db1 p1. createLabelContentKey W now n t db p = (Inr (l, db1), p1)
    \<and> (if fits W x
       then \<exists>g db2 q1. writeLabeledGroundTruth W newId now' e n t x who db1 q = (Inr (g, db2), q1)
         \<and> fst (readLabeledGroundTruth W e n t u db2 r) = Inr (g, x)
       else fst (writeLabeledGroundTruth W newId now' e n t x who db1 q) = Inl RangeError)"
proof -
  obtain l0 where l0: "getAccessLabel db n t = Some l0" using assms(7) label_exists_iff by metis
  have u: "userHasLabel db u n t" using assms(9) has_label_iff by simp
  have short: "short_info W (labelEncryptionContext n t)" "short_context W (labelEncryptionContext n t)"
    using assms(11) by (simp_all add: short_label_def)
  from assms(1) show ?thesis
  proof
    assume "\<forall>o' \<in> {p, q, r}. local_ready raw o' \<and> hkdf_lengths W"
    then have k: "local_ready raw p \<and> hkdf_lengths W" "local_ready raw q \<and> hkdf_lengths W" "local_ready raw r \<and> hkdf_lengths W"
      by simp_all
    show ?thesis by (rule local_labels.write_then_read [OF k assms(2-6) l0 assms(8) u assms(10) short(1)])
  next
    assume "\<forall>o' \<in> {p, q, r}. vault_ready W v o'"
    then have k: "vault_ready W v p" "vault_ready W v q" "vault_ready W v r" by simp_all
    show ?thesis by (rule vault_labels.write_then_read [OF k assms(2-6) l0 assms(8) u assms(10) short(2)])
  qed
qed

section \<open>A pair in two scopes\<close>

lemma distinct_pair_find:
  assumes "distinct (map key gs)" "g \<in> set gs" "\<And>h. P h \<longleftrightarrow> key h = key g"
  shows "find P gs = Some g"
  using assms(1,2)
proof (induction gs)
  case (Cons a gs)
  show ?case
  proof (cases "g = a")
    case False
    then have "g \<in> set gs" using Cons.prems(2) by simp
    moreover from this have "key g \<in> set (map key gs)" by simp
    then have "key g \<noteq> key a" using Cons.prems(1) by auto
    ultimately have g: "g \<in> set gs" "key g \<noteq> key a" .
    then show ?thesis using Cons assms(3) [of a] by simp
  qed (use assms(3) in simp)
qed simp

lemma write_content:
  assumes "writeLabeledGroundTruth W newId now e n t x who db q = (Inr (g, db'), q')"
  obtains l content where "getAccessLabel db n t = Some l" "encryptLabeledContent W l x q = (Inr content, q')"
    "record_write newId now e n t content who (labeled_ground_truth db) = (g, labeled_ground_truth db')"
    "db' = db\<lparr>labeled_ground_truth := labeled_ground_truth db'\<rparr>"
  using assms by (auto simp: writeLabeledGroundTruth_def record_write_def and_then_def Let_def
      split: option.splits prod.splits sum.splits if_splits)

text \<open>The pair of entity and label is unique across tenants, so a write in one scope for a pair that another scope
  uses replaces the other scope's content, sealed with the key of the writer's label, and the row stays in the
  other scope: a holder in the writer's scope finds no record.\<close>

theorem cross_scope_write:
  assumes "writeLabeledGroundTruth W newId now e n t x who db q = (Inr (g, db'), q')"
    and "distinct (map (\<lambda>g. (gt_entity_id g, gt_label_name g)) (labeled_ground_truth db))"
    and "g0 \<in> set (labeled_ground_truth db)" "gt_entity_id g0 = e" "gt_label_name g0 = n" "gt_tenant_id g0 \<noteq> t"
    and "(u, n, t) \<in> snd (clearance_of db)"
  shows "\<exists>l content. getAccessLabel db n t = Some l \<and> fst (encryptLabeledContent W l x q) = Inr content
    \<and> find (record_scope e n (gt_tenant_id g0)) (labeled_ground_truth db') = Some (g0\<lparr>encrypted_content := content, gt_created_by := who\<rparr>)
    \<and> fst (readLabeledGroundTruth W e n t u db' r) = Inl (LabeledGroundTruthNotFoundError e n)"
proof -
  let ?key = "\<lambda>g. (gt_entity_id g, gt_label_name g)" and ?P = "\<lambda>g. gt_entity_id g = e \<and> gt_label_name g = n"
  obtain l content where w: "getAccessLabel db n t = Some l" "encryptLabeledContent W l x q = (Inr content, q')"
    "record_write newId now e n t content who (labeled_ground_truth db) = (g, labeled_ground_truth db')"
    "db' = db\<lparr>labeled_ground_truth := labeled_ground_truth db'\<rparr>"
    by (rule write_content [OF assms(1)])
  define f where "f = (\<lambda>g :: LabeledGroundTruth. g\<lparr>encrypted_content := content, gt_created_by := who\<rparr>)"
  have "find ?P (labeled_ground_truth db) = Some g0" by (rule distinct_pair_find [OF assms(2,3)]) (use assms(4,5) in auto)
  with w(3) have gs: "labeled_ground_truth db' = update_where ?P f (labeled_ground_truth db)" by (simp add: record_write_def f_def)
  then have keys: "map ?key (labeled_ground_truth db') = map ?key (labeled_ground_truth db)" by (simp add: update_where_def f_def)
  have g0: "f g0 \<in> set (labeled_ground_truth db')" using assms(3-5) by (force simp: gs update_where_def)
  have "find ?P (labeled_ground_truth db') = Some (f g0)"
    by (rule distinct_pair_find [where key = ?key, OF _ g0]) (use keys assms(2,4,5) in \<open>auto simp: f_def\<close>)
  then have only: "h = f g0" if "h \<in> set (labeled_ground_truth db')" "?P h" for h
    using distinct_pair_find [where key = ?key and P = ?P, OF _ that(1)] keys assms(2) that(2) by simp
  have tenant: "gt_tenant_id h = gt_tenant_id g0" if "h \<in> set (labeled_ground_truth db')" "?P h" for h
    unfolding only [OF that] by (simp add: f_def)
  have "find (record_scope e n t') (labeled_ground_truth db') = (if t' = gt_tenant_id g0 then Some (f g0) else None)" for t'
  proof (cases "t' = gt_tenant_id g0")
    case True
    have "find (record_scope e n t') (labeled_ground_truth db') = find ?P (labeled_ground_truth db')"
      by (rule find_in_scope) (use tenant True in blast)
    then show ?thesis using True \<open>find ?P (labeled_ground_truth db') = Some (f g0)\<close> by simp
  next
    case False
    then show ?thesis using tenant by (auto simp: find_None_iff record_scope_def)
  qed
  moreover have "user_labels db' = user_labels db" by (subst w(4)) simp
  then have "userHasLabel db' u n t" using assms(7) by (simp add: has_label_iff clearance_of_def)
  ultimately show ?thesis using w(1,2) assms(6) by (simp add: f_def readLabeledGroundTruth_def)
qed

section \<open>Samples\<close>

definition sample_label :: "js_string option \<Rightarrow> AccessLabel" where
  "sample_label t = \<lparr>al_name = lit ''secret'', al_description = [], al_tenant_id = t, al_created_by = lit ''root'',
     wrapped_content_key = Some (lit ''AAAA''), al_created_at = 1, al_updated_at = 1\<rparr>"

definition sample_record :: "js_string option \<Rightarrow> LabeledGroundTruth" where
  "sample_record t = \<lparr>gt_id = lit ''r'', gt_entity_id = lit ''e'', gt_label_name = lit ''secret'', gt_tenant_id = t,
     encrypted_content = lit ''enc:v1:x:y'', gt_created_by = lit ''root'', gt_created_at = 2\<rparr>"

definition sample_labels :: label_db where
  "sample_labels = \<lparr>entity_ids = [lit ''e'', lit ''ann''],
     access_labels = [sample_label (Some (lit ''t1'')), sample_label (Some (lit ''t2''))],
     user_labels = [\<lparr>ul_id = lit ''g'', ul_user_id = lit ''ann'', ul_label_name = lit ''secret'', ul_tenant_id = Some (lit ''t2''),
       granted_by = lit ''root'', granted_at = 3\<rparr>],
     labeled_ground_truth = [sample_record (Some (lit ''t1''))]\<rparr>"

lemma sample_local_ready: "local_ready [0, 0, 0] (sample_process (LocalDevKmsBackend None) c)"
  using sample_local [of c] by (simp add: coherent_def)

lemma sample_getAccessLabel: "getAccessLabel sample_labels (lit ''secret'') (Some (lit ''t2'')) = Some (sample_label (Some (lit ''t2'')))"
  by (simp add: getAccessLabel_def sample_labels_def sample_label_def label_scope_def)

lemma sample_atob: "atob (lit ''AAAA'') = Some [0, 0, 0]"
  by (simp add: atob_def lit_def ascii_ws_def strip_padding_def b64_value_def)

lemma sample_encrypts:
  assumes "fits sample_world x"
  shows "\<exists>c q. encryptLabeledContent sample_world (sample_label t) x (sample_process (LocalDevKmsBackend None) 1) = (Inr c, q)"
proof -
  have "unwrapLabelDek sample_world (sample_label t) (sample_process (LocalDevKmsBackend None) 1) =
      importKey (hkdf_bits sample_world [0, 0, 0] (utf8_encode (infoStr sample_world (labelEncryptionContext (lit ''secret'') t))))
        ((sample_process (LocalDevKmsBackend None) 1)\<lparr>kmsBackend := LocalDevKmsBackend (Some [0, 0, 0])\<rparr>)"
    using kmsDecryptDataKey_ready [OF sample_local_ready [of 1]]
    by (simp add: unwrapLabelDek_def sample_label_def base64ToUint8Array_def sample_atob and_then_def) (simp add: lit_def)
  then show ?thesis using sample_laws(4) assms seal_fits [OF sample_laws(5,3)]
    by (simp add: encryptLabeledContent_def and_then_def importKey_def hkdf_lengths_def)
qed

theorem cross_scope_write_witness:
  "\<exists>g db' q'. writeLabeledGroundTruth sample_world (lit ''f'') 9 (lit ''e'') (lit ''secret'') (Some (lit ''t2'')) (lit ''x'') (lit ''bob'')
        sample_labels (sample_process (LocalDevKmsBackend None) 1) = (Inr (g, db'), q')
    \<and> (\<exists>l content. getAccessLabel sample_labels (lit ''secret'') (Some (lit ''t2'')) = Some l
      \<and> fst (encryptLabeledContent sample_world l (lit ''x'') (sample_process (LocalDevKmsBackend None) 1)) = Inr content
      \<and> find (record_scope (lit ''e'') (lit ''secret'') (gt_tenant_id (sample_record (Some (lit ''t1''))))) (labeled_ground_truth db')
        = Some ((sample_record (Some (lit ''t1'')))\<lparr>encrypted_content := content, gt_created_by := lit ''bob''\<rparr>)
      \<and> fst (readLabeledGroundTruth sample_world (lit ''e'') (lit ''secret'') (Some (lit ''t2'')) (lit ''ann'') db'
          (sample_process (LocalDevKmsBackend None) 2)) = Inl (LabeledGroundTruthNotFoundError (lit ''e'') (lit ''secret'')))"
proof -
  have "fits sample_world (lit ''x'')" by (rule sample_fits_lit) simp
  then obtain c q where c: "encryptLabeledContent sample_world (sample_label (Some (lit ''t2''))) (lit ''x'') (sample_process (LocalDevKmsBackend None) 1)
      = (Inr c, q)" using sample_encrypts by blast
  obtain g gs where g: "record_write (lit ''f'') 9 (lit ''e'') (lit ''secret'') (Some (lit ''t2'')) c (lit ''bob'') (labeled_ground_truth sample_labels)
      = (g, gs)" by (rule prod.exhaust)
  have e: "lit ''e'' \<in> set (entity_ids sample_labels)" by (simp add: sample_labels_def)
  note w = write_record [OF sample_getAccessLabel c e g]
  have "distinct (map (\<lambda>g. (gt_entity_id g, gt_label_name g)) (labeled_ground_truth sample_labels))"
    "sample_record (Some (lit ''t1'')) \<in> set (labeled_ground_truth sample_labels)"
    "gt_entity_id (sample_record (Some (lit ''t1''))) = lit ''e''" "gt_label_name (sample_record (Some (lit ''t1''))) = lit ''secret''"
    "gt_tenant_id (sample_record (Some (lit ''t1''))) \<noteq> Some (lit ''t2'')"
    "(lit ''ann'', lit ''secret'', Some (lit ''t2'')) \<in> snd (clearance_of sample_labels)"
    by (simp_all add: sample_labels_def sample_record_def clearance_of_def)
  note cross_scope_write [OF w this]
  with w show ?thesis by blast
qed

theorem revoked_denied_witness:
  "fst (readLabeledGroundTruth sample_world (lit ''e'') (lit ''secret'') (Some (lit ''t2'')) (lit ''ann'')
     (fst (fold (run_label sample_world) [Revoke (lit ''ann'') (lit ''secret'') (Some (lit ''t2'')), CreateKey 5 (lit ''secret'') (Some (lit ''t2''))]
       (sample_labels, sample_process (LocalDevKmsBackend None) 1))) (sample_process (LocalDevKmsBackend None) 2))
   = Inl (LabelClearanceDeniedError (lit ''ann'') (lit ''secret''))"
  by (rule revoked_denied) simp

theorem labelled_write_read_witness:
  "\<exists>l db1 p1 g db2 q1.
      createLabelContentKey sample_world 5 (lit ''secret'') (Some (lit ''t2'')) (sample_labels\<lparr>labeled_ground_truth := []\<rparr>)
        (sample_process (VaultKmsBackend sample_vault) 1) = (Inr (l, db1), p1)
    \<and> writeLabeledGroundTruth sample_world (lit ''f'') 9 (lit ''e'') (lit ''secret'') (Some (lit ''t2'')) (lit ''hush'') (lit ''bob'') db1
        (sample_process (VaultKmsBackend sample_vault) 20) = (Inr (g, db2), q1)
    \<and> fst (readLabeledGroundTruth sample_world (lit ''e'') (lit ''secret'') (Some (lit ''t2'')) (lit ''ann'') db2
        (sample_process (VaultKmsBackend sample_vault) 40)) = Inr (g, lit ''hush'')"
proof -
  let ?W = sample_world and ?n = "lit ''secret''" and ?t = "Some (lit ''t2'')" and ?e = "lit ''e''" and ?u = "lit ''ann''" and ?x = "lit ''hush''"
  let ?db = "sample_labels\<lparr>labeled_ground_truth := []\<rparr>" and ?p = "\<lambda>c. sample_process (VaultKmsBackend sample_vault) c"
  have x: "readable ?x" "fits ?W ?x" by (simp add: readable_def well_formed_lit, simp add: lit_def) (simp add: sample_fits_lit)
  have ready: "(\<forall>o' \<in> {?p 1, ?p 20, ?p 40}. local_ready [] o' \<and> hkdf_lengths ?W)
      \<or> (\<forall>o' \<in> {?p 1, ?p 20, ?p 40}. vault_ready ?W sample_vault o')" by (simp add: sample_vault_ready)
  have "length (infoStr ?W (labelEncryptionContext ?n ?t)) \<le> 1000" "length (json_object (labelEncryptionContext ?n ?t)) \<le> 1000"
    by (simp_all add: labelEncryptionContext_def infoStr_def sort_entries_def sample_world_def json_object_def json_quote_def lit_def
        json_escape_def high_surrogate_def low_surrogate_def)
  then have short: "short_label ?W ?n ?t" using utf8_encode_length [of "infoStr ?W (labelEncryptionContext ?n ?t)"]
    by (simp add: short_label_def short_info_def sample_short_context) (simp add: sample_world_def)
  have db: "(?n, ?t) \<in> fst (clearance_of ?db)" "?e \<in> set (entity_ids ?db)" "(?u, ?n, ?t) \<in> snd (clearance_of ?db)"
    "\<forall>g \<in> set (labeled_ground_truth ?db). gt_entity_id g = ?e \<and> gt_label_name g = ?n \<longrightarrow> gt_tenant_id g = ?t"
    by (simp_all add: sample_labels_def sample_label_def clearance_of_def)
  from labelled_write_read [OF ready sample_laws(1,3,5,6) x(1) db short, of 5 "lit ''f''" 9 "lit ''bob''"]
  show ?thesis unfolding if_P [OF x(2)] by blast
qed

end
