(* ===== verification/Pii_Tokens.thy ===== *)
theory Pii_Tokens
  imports Kms "HOL-Library.AList" "HOL-Library.Sublist"
begin

text \<open>
  The tokeniser of personal data, \<^verbatim>\<open>src/packages/core/pii-tokeniser.ts\<close>: detection by regular expressions, resolution of
  overlaps, replacement by stable tokens and their registration.

  A regular expression is matched as the language prescribes, by backtracking: \<open>ends\<close> lists the ends of the matches that begin at a
  position, the preferred one first. The scanning loop, \<^verbatim>\<open>while ((m = r.exec(text)) !== null)\<close>, runs forever on an expression that matches
  the empty text; \<open>exec_all\<close> is then \<open>None\<close>.

  Parameters, the fields of \<open>tok_world\<close>: the platform's SHA-256, HKDF and HMAC, and \<^verbatim>\<open>toLowerCase\<close>.
\<close>

section \<open>Regular expressions\<close>

datatype rx =
    Chr "16 word \<Rightarrow> bool"
  | Seq rx rx
  | Alt rx rx
  | Rep nat "nat option" rx \<comment> \<open>greedy, from a least to an optional greatest number of times\<close>
  | Bound \<comment> \<open>\<^verbatim>\<open>\b\<close>\<close>

definition word_char :: "16 word \<Rightarrow> bool" where
  "word_char c \<longleftrightarrow> (48 \<le> c \<and> c \<le> 57) \<or> (65 \<le> c \<and> c \<le> 90) \<or> (97 \<le> c \<and> c \<le> 122) \<or> c = 95"

definition word_at :: "js_string \<Rightarrow> nat \<Rightarrow> bool" where
  "word_at s i \<longleftrightarrow> i < length s \<and> word_char (s ! i)"

definition at_bound :: "js_string \<Rightarrow> nat \<Rightarrow> bool" where
  "at_bound s i \<longleftrightarrow> (0 < i \<and> word_at s (i - 1)) \<noteq> word_at s i"

text \<open>Repetition: an optional round that consumes nothing fails. Each round uses up one of the fuel; \<open>iter_fuel\<close> shows that what \<open>ends\<close> gives is enough.\<close>

fun iter :: "(nat \<Rightarrow> nat list) \<Rightarrow> nat \<Rightarrow> nat \<Rightarrow> nat option \<Rightarrow> nat \<Rightarrow> nat list" where
  "iter f 0 m mx i = (if m = 0 then [i] else [])"
| "iter f (Suc k) m mx i =
     (if mx = Some 0 then [i]
      else concat (map (iter f k (m - 1) (map_option (\<lambda>n. n - 1) mx)) (filter (\<lambda>j. 0 < m \<or> i < j) (f i)))
        @ (if m = 0 then [i] else []))"

primrec ends :: "rx \<Rightarrow> js_string \<Rightarrow> nat \<Rightarrow> nat list" where
  "ends (Chr p) s i = (if i < length s \<and> p (s ! i) then [Suc i] else [])"
| "ends (Seq a b) s i = concat (map (ends b s) (ends a s i))"
| "ends (Alt a b) s i = ends a s i @ ends b s i"
| "ends (Rep m mx r) s i = iter (ends r s) (Suc (m + (length s - i))) m mx i"
| "ends Bound s i = (if at_bound s i then [i] else [])"

text \<open>\<^verbatim>\<open>exec\<close> from \<^verbatim>\<open>lastIndex\<close>: the first position with a match, and its preferred end.\<close>

definition exec :: "rx \<Rightarrow> js_string \<Rightarrow> nat \<Rightarrow> (nat \<times> nat) option" where
  "exec r s i = map_option (\<lambda>j. (j, hd (ends r s j))) (find (\<lambda>j. ends r s j \<noteq> []) [i..<Suc (length s)])"

partial_function (option) exec_all :: "rx \<Rightarrow> js_string \<Rightarrow> nat \<Rightarrow> (nat \<times> nat) list option" where
  "exec_all r s i =
     (case exec r s i of None \<Rightarrow> Some [] | Some (a, b) \<Rightarrow> Option.bind (exec_all r s b) (\<lambda>ms. Some ((a, b) # ms)))"

declare exec_all.simps [code]

text \<open>\<^verbatim>\<open>/^...$/.test\<close>.\<close>

definition full_match :: "rx \<Rightarrow> js_string \<Rightarrow> bool" where
  "full_match r s \<longleftrightarrow> length s \<in> set (ends r s 0)"

section \<open>The expressions\<close>

definition upper :: "16 word \<Rightarrow> bool" where "upper c \<longleftrightarrow> 65 \<le> c \<and> c \<le> 90"
definition lower :: "16 word \<Rightarrow> bool" where "lower c \<longleftrightarrow> 97 \<le> c \<and> c \<le> 122"
definition digit_unit :: "16 word \<Rightarrow> bool" where "digit_unit c \<longleftrightarrow> 48 \<le> c \<and> c \<le> 57"

definition one_of :: "string \<Rightarrow> 16 word \<Rightarrow> bool" where
  "one_of cs c \<longleftrightarrow> c \<in> set (lit cs)"

definition opt :: "rx \<Rightarrow> rx" where
  "opt r = Rep 0 (Some 1) r"

definition some :: "rx \<Rightarrow> rx" where
  "some r = Rep 1 None r"

fun seqs :: "rx list \<Rightarrow> rx" where
  "seqs [] = Rep 0 (Some 0) Bound"
| "seqs [r] = r"
| "seqs (r # rs) = Seq r (seqs rs)"

definition word_rx :: "string \<Rightarrow> rx" where
  "word_rx w = seqs (map (\<lambda>c. Chr (\<lambda>u. u = c)) (lit w))"

definition EMAIL_RX :: rx where
  "EMAIL_RX = seqs
     [some (Chr (\<lambda>c. upper c \<or> lower c \<or> digit_unit c \<or> one_of ''._%+-'' c)), Chr (\<lambda>c. c = 64),
      some (Chr (\<lambda>c. upper c \<or> lower c \<or> digit_unit c \<or> one_of ''.-'' c)), Chr (\<lambda>c. c = 46),
      Rep 2 None (Chr (\<lambda>c. upper c \<or> lower c))]"

definition PHONE_RX :: rx where
  "PHONE_RX = seqs
     [opt (seqs [Chr (\<lambda>c. c = 43), Rep 1 (Some 3) (Chr digit_unit), opt (Chr (\<lambda>c. ws c \<or> c = 45))]),
      opt (Chr (\<lambda>c. c = 40)), Rep 3 (Some 3) (Chr digit_unit), opt (Chr (\<lambda>c. c = 41)),
      opt (Chr (\<lambda>c. ws c \<or> one_of ''.-'' c)), Rep 3 (Some 3) (Chr digit_unit),
      opt (Chr (\<lambda>c. ws c \<or> one_of ''.-'' c)), Rep 4 (Some 4) (Chr digit_unit)]"

definition ORG_RX :: rx where
  "ORG_RX = seqs
     [some (seqs [Chr upper, some (Chr lower), some (Chr ws)]),
      Alt (word_rx ''Corp'') (Alt (word_rx ''Inc'') (Alt (word_rx ''Ltd'') (Alt (word_rx ''LLC'') (word_rx ''Co'')))),
      opt (Chr (\<lambda>c. c = 46))]"

definition PERSON_RX :: rx where
  "PERSON_RX = seqs
     [Bound, Chr upper, some (Chr lower), some (Chr ws), Rep 0 None (seqs [Chr upper, some (Chr lower), some (Chr ws)]),
      Chr upper, some (Chr lower), Bound]"

definition TRIMMED_RX :: rx where
  "TRIMMED_RX = seqs [Chr upper, some (Chr lower), some (seqs [some (Chr ws), Chr upper, some (Chr lower)])]"

section \<open>Detection\<close>

datatype PiiEntityType = PERSON | EMAIL | PHONE | ORG | LOC | GENERIC

record PiiSpan =
  raw :: js_string
  sp_type :: PiiEntityType
  sp_start :: nat
  sp_end :: nat

definition slice :: "js_string \<Rightarrow> nat \<Rightarrow> nat \<Rightarrow> js_string" where
  "slice s a b = take (b - a) (drop a s)"

definition add_matches :: "js_string \<Rightarrow> PiiEntityType \<Rightarrow> rx \<Rightarrow> PiiSpan list option" where
  "add_matches txt ty r =
     map_option (map (\<lambda>(a, b). \<lparr>raw = slice txt a b, sp_type = ty, sp_start = a, sp_end = b\<rparr>)) (exec_all r txt 0)"

definition COMMON_WORDS :: "js_string list" where
  "COMMON_WORDS = map lit
     [''Hello'', ''Hi'', ''Dear'', ''The'', ''A'', ''An'', ''This'', ''That'', ''These'', ''Those'', ''We'', ''Our'', ''Your'', ''My'',
      ''His'', ''Her'', ''Its'', ''Their'', ''Please'', ''Thank'', ''Best'', ''Kind'', ''If'', ''It'', ''In'', ''On'', ''At'', ''For'',
      ''To'', ''Of'', ''And'', ''Or'', ''But'', ''With'', ''From'', ''By'', ''As'', ''Is'', ''Are'', ''Was'', ''Were'', ''Have'',
      ''Has'', ''Had'', ''Do'', ''Does'', ''Did'', ''Will'', ''Would'', ''Could'', ''Should'', ''May'', ''Might'', ''Let'', ''Just'',
      ''So'', ''Also'', ''Please'', ''Welcome'', ''Regards'', ''Sent'', ''Subject'', ''Date'']"

text \<open>\<^verbatim>\<open>s.indexOf(t)\<close>, for a text that occurs.\<close>

fun index_of :: "js_string \<Rightarrow> js_string \<Rightarrow> nat" where
  "index_of [] t = 0"
| "index_of (c # s) t = (if take (length t) (c # s) = t then 0 else Suc (index_of s t))"

definition first_word :: "js_string \<Rightarrow> js_string" where
  "first_word s = takeWhile (\<lambda>c. \<not> ws c) s"

definition trimmed_rest :: "js_string \<Rightarrow> js_string" where
  "trimmed_rest s = dropWhile ws (drop (length (first_word s)) s)"

text \<open>The post-filter: the candidates kept, and the shorter ones to add at the end.\<close>

fun post_filter :: "PiiSpan list \<Rightarrow> PiiSpan list \<times> PiiSpan list" where
  "post_filter [] = ([], [])"
| "post_filter (c # cs) =
     (let (kept, again) = post_filter cs in
      if sp_type c = PERSON \<and> first_word (raw c) \<in> set COMMON_WORDS then
        let t = trimmed_rest (raw c) in
        (kept, if full_match TRIMMED_RX t
               then \<lparr>raw = t, sp_type = PERSON, sp_start = sp_start c + index_of (raw c) t, sp_end = sp_end c\<rparr> # again else again)
      else (c # kept, again))"

fun resolve :: "nat \<Rightarrow> PiiSpan list \<Rightarrow> PiiSpan list" where
  "resolve cursor [] = []"
| "resolve cursor (c # cs) = (if sp_start c < cursor then resolve cursor cs else c # resolve (sp_end c) cs)"

definition span_order :: "PiiSpan \<Rightarrow> nat \<times> int" where
  "span_order c = (sp_start c, - (int (sp_end c) - int (sp_start c)))"

definition detectPiiSpans :: "js_string \<Rightarrow> PiiSpan list option" where
  "detectPiiSpans txt =
     Option.bind (add_matches txt EMAIL EMAIL_RX) (\<lambda>emails.
     Option.bind (add_matches txt PHONE PHONE_RX) (\<lambda>phones.
     Option.bind (add_matches txt ORG ORG_RX) (\<lambda>orgs.
     Option.bind (add_matches txt PERSON PERSON_RX) (\<lambda>persons.
       let (kept, again) = post_filter (emails @ phones @ orgs @ persons)
       in Some (resolve 0 (sort_key span_order (kept @ again)))))))"

section \<open>Tokens and their store\<close>

record tok_world =
  sha256 :: "bytes \<Rightarrow> bytes"
  hkdf_sha256 :: "bytes \<Rightarrow> bytes \<Rightarrow> bytes"
  hmac_sha256 :: "bytes \<Rightarrow> bytes \<Rightarrow> bytes"
  toLowerCase :: "js_string \<Rightarrow> js_string"

datatype tok_error = TokenCollisionError js_string js_string | BadMasterKey

record PiiTokeniser =
  tenantId :: js_string
  store :: "js_string \<rightharpoonup> js_string"
  tenantKey :: "bytes option"

primrec type_name :: "PiiEntityType \<Rightarrow> js_string" where
  "type_name PERSON = lit ''PERSON''"
| "type_name EMAIL = lit ''EMAIL''"
| "type_name PHONE = lit ''PHONE''"
| "type_name ORG = lit ''ORG''"
| "type_name LOC = lit ''LOC''"
| "type_name GENERIC = lit ''GENERIC''"

definition store_key :: "js_string \<Rightarrow> js_string \<Rightarrow> js_string" where
  "store_key tenant token = tenant @ lit '':'' @ token"

definition register :: "js_string \<Rightarrow> js_string \<Rightarrow> js_string \<Rightarrow> (js_string \<rightharpoonup> js_string) \<Rightarrow> tok_error + (js_string \<rightharpoonup> js_string)" where
  "register tenant token realValue st =
     (case st (store_key tenant token) of
        Some existing \<Rightarrow> if existing \<noteq> realValue then Inl (TokenCollisionError token tenant)
                         else Inr (st(store_key tenant token \<mapsto> realValue))
      | None \<Rightarrow> Inr (st(store_key tenant token \<mapsto> realValue)))"

definition lookup_token :: "js_string \<Rightarrow> js_string \<Rightarrow> (js_string \<rightharpoonup> js_string) \<Rightarrow> js_string option" where
  "lookup_token tenant token st = st (store_key tenant token)"

definition canonicalise :: "tok_world \<Rightarrow> js_string \<Rightarrow> js_string" where
  "canonicalise W x = js_trim (toLowerCase W x)"

definition deriveTenantKeyBytes :: "tok_world \<Rightarrow> js_string option \<Rightarrow> js_string \<Rightarrow> tok_error + bytes" where
  "deriveTenantKeyBytes W masterHex tenant =
     (case masterHex of
        None \<Rightarrow> Inr (sha256 W (utf8_encode tenant))
      | Some hex \<Rightarrow>
          if hex = [] then Inr (sha256 W (utf8_encode tenant))
          else case parse_master hex of
                 None \<Rightarrow> Inl BadMasterKey
               | Some master \<Rightarrow> Inr (hkdf_sha256 W master (utf8_encode tenant)))"

definition getTenantKey :: "tok_world \<Rightarrow> js_string option \<Rightarrow> PiiTokeniser \<Rightarrow> tok_error + bytes \<times> PiiTokeniser" where
  "getTenantKey W master t =
     (case tenantKey t of
        Some k \<Rightarrow> Inr (k, t)
      | None \<Rightarrow> bind_res (deriveTenantKeyBytes W master (tenantId t)) (\<lambda>k. Inr (k, t\<lparr>tenantKey := Some k\<rparr>)))"

definition hex2 :: "byte \<Rightarrow> js_string" where
  "hex2 b = [hex_digit (unat b div 16), hex_digit (unat b mod 16)]"

definition token_of :: "tok_world \<Rightarrow> bytes \<Rightarrow> js_string \<Rightarrow> PiiEntityType \<Rightarrow> js_string" where
  "token_of W key rawValue ty =
     type_name ty @ lit ''_'' @ take 8 (concat (map hex2 (hmac_sha256 W key (utf8_encode (canonicalise W rawValue)))))"

definition span_token :: "tok_world \<Rightarrow> bytes \<Rightarrow> PiiSpan \<Rightarrow> js_string" where
  "span_token W key sp = token_of W key (raw sp) (sp_type sp)"

definition deriveToken :: "tok_world \<Rightarrow> js_string option \<Rightarrow> js_string \<Rightarrow> PiiEntityType \<Rightarrow> PiiTokeniser \<Rightarrow> tok_error + js_string \<times> PiiTokeniser" where
  "deriveToken W master rawValue ty t =
     bind_res (getTenantKey W master t) (\<lambda>(k, t'). Inr (token_of W k rawValue ty, t'))"

section \<open>Tokenisation\<close>

fun replace_loop :: "tok_world \<Rightarrow> js_string option \<Rightarrow> PiiSpan list \<Rightarrow> js_string \<Rightarrow> (js_string \<times> js_string) list \<Rightarrow> PiiTokeniser
    \<Rightarrow> tok_error + js_string \<times> (js_string \<times> js_string) list \<times> PiiTokeniser" where
  "replace_loop W master [] anonymised tokens t = Inr (anonymised, tokens, t)"
| "replace_loop W master (sp # spans) anonymised tokens t =
     bind_res (deriveToken W master (raw sp) (sp_type sp) t) (\<lambda>(token, t').
       replace_loop W master spans (take (sp_start sp) anonymised @ token @ drop (sp_end sp) anonymised)
         (AList.update token (raw sp) tokens) t')"

fun register_loop :: "(js_string \<times> js_string) list \<Rightarrow> PiiTokeniser \<Rightarrow> tok_error option \<times> PiiTokeniser" where
  "register_loop [] t = (None, t)"
| "register_loop ((token, r) # tokens) t =
     (case register (tenantId t) token r (store t) of
        Inl e \<Rightarrow> (Some e, t)
      | Inr st \<Rightarrow> register_loop tokens (t\<lparr>store := st\<rparr>))"

definition tokenise :: "tok_world \<Rightarrow> js_string option \<Rightarrow> js_string \<Rightarrow> PiiTokeniser
    \<Rightarrow> ((tok_error + js_string \<times> (js_string \<times> js_string) list) \<times> PiiTokeniser) option" where
  "tokenise W master txt t =
     map_option (\<lambda>spans.
       case replace_loop W master (sort_key (\<lambda>s. - int (sp_start s)) spans) txt [] t of
         Inl e \<Rightarrow> (Inl e, t)
       | Inr (anonymised, tokens, t') \<Rightarrow>
           (case register_loop tokens t' of
              (Some e, t'') \<Rightarrow> (Inl e, t'')
            | (None, t'') \<Rightarrow> (Inr (anonymised, tokens), t'')))
     (detectPiiSpans txt)"

section \<open>Matches\<close>

fun min_len :: "rx \<Rightarrow> nat" where
  "min_len (Chr p) = 1"
| "min_len (Seq a b) = min_len a + min_len b"
| "min_len (Alt a b) = min (min_len a) (min_len b)"
| "min_len (Rep m mx r) = m * min_len r"
| "min_len Bound = 0"

fun rx_ok :: "rx \<Rightarrow> bool" where
  "rx_ok (Seq a b) = (rx_ok a \<and> rx_ok b)"
| "rx_ok (Alt a b) = (rx_ok a \<and> rx_ok b)"
| "rx_ok (Rep m mx r) = ((case mx of None \<Rightarrow> True | Some n \<Rightarrow> m \<le> n) \<and> rx_ok r)"
| "rx_ok _ = True"

lemma iter_bounds:
  assumes "\<And>i j. i \<le> N \<Longrightarrow> j \<in> set (f i) \<Longrightarrow> i + d \<le> j \<and> j \<le> N"
    and "i \<le> N" "case mx of None \<Rightarrow> True | Some n \<Rightarrow> m \<le> n" "j \<in> set (iter f k m mx i)"
  shows "i + m * d \<le> j \<and> j \<le> N"
  using assms(2-)
proof (induction k arbitrary: m mx i)
  case 0
  then show ?case by (auto split: if_splits)
next
  case (Suc k)
  show ?case
  proof (cases "mx = Some 0 \<or> j = i \<and> m = 0")
    case True
    then show ?thesis using Suc.prems by auto
  next
    case False
    then obtain j1 where j1: "j1 \<in> set (f i)" "j \<in> set (iter f k (m - 1) (map_option (\<lambda>n. n - 1) mx) j1)"
      using Suc.prems(3) by (auto split: if_splits)
    have b: "i + d \<le> j1" "j1 \<le> N" using assms(1) [OF Suc.prems(1) j1(1)] by auto
    have "j1 + (m - 1) * d \<le> j \<and> j \<le> N"
      by (rule Suc.IH [OF b(2) _ j1(2)]) (use Suc.prems(2) in \<open>auto split: option.splits\<close>)
    then show ?thesis using b by (cases m) auto
  qed
qed

lemma ends_bounds:
  "rx_ok r \<Longrightarrow> i \<le> length s \<Longrightarrow> j \<in> set (ends r s i) \<Longrightarrow> i + min_len r \<le> j \<and> j \<le> length s"
proof (induction r arbitrary: i j)
  case (Seq a b)
  from Seq.prems(3) obtain l where l: "l \<in> set (ends a s i)" "j \<in> set (ends b s l)" by auto
  have "i + min_len a \<le> l \<and> l \<le> length s" using Seq.IH(1) [of i l] Seq.prems l by simp
  moreover from this have "l + min_len b \<le> j \<and> j \<le> length s" using Seq.IH(2) [of l j] Seq.prems l by simp
  ultimately show ?case by simp
next
  case (Alt a b)
  from Alt.prems(3) consider "j \<in> set (ends a s i)" | "j \<in> set (ends b s i)" by auto
  then show ?case
  proof cases
    case 1
    then have "i + min_len a \<le> j \<and> j \<le> length s" using Alt.IH(1) [of i j] Alt.prems by simp
    then show ?thesis by (simp add: min_def)
  next
    case 2
    then have "i + min_len b \<le> j \<and> j \<le> length s" using Alt.IH(2) [of i j] Alt.prems by simp
    then show ?thesis by (simp add: min_def)
  qed
next
  case (Rep m mx r)
  then have "i + m * min_len r \<le> j \<and> j \<le> length s"
    by (intro iter_bounds [where f = "ends r s" and k = "Suc (m + (length s - i))" and mx = mx]) simp_all
  then show ?case by simp
qed (auto split: if_splits)

text \<open>The fuel is enough: more of it changes nothing.\<close>

lemma iter_fuel:
  assumes "\<And>i j. i \<le> N \<Longrightarrow> j \<in> set (f i) \<Longrightarrow> i \<le> j \<and> j \<le> N" "i \<le> N" "m + (N - i) < k"
  shows "iter f (Suc k) m mx i = iter f k m mx i"
  using assms(2-)
proof (induction k arbitrary: m mx i)
  case (Suc k)
  have "iter f (Suc k) (m - 1) mx' j = iter f k (m - 1) mx' j" if j: "j \<in> set (f i)" "0 < m \<or> i < j" for j mx'
  proof (rule Suc.IH)
    show "j \<le> N" using assms(1) Suc.prems(1) j by blast
    show "m - 1 + (N - j) < k" using assms(1) [OF Suc.prems(1) j(1)] j(2) Suc.prems by auto
  qed
  then have "map (iter f (Suc k) (m - 1) mx') (filter (\<lambda>j. 0 < m \<or> i < j) (f i)) = map (iter f k (m - 1) mx') (filter (\<lambda>j. 0 < m \<or> i < j) (f i))"
    for mx' by (intro map_cong refl) auto
  then show ?case by (simp only: iter.simps(2) [of f "Suc k" m mx i] iter.simps(2) [of f k m mx i])
qed simp

lemma find_in: "find P xs = Some x \<Longrightarrow> x \<in> set xs \<and> P x"
  by (induction xs) (auto split: if_splits)

lemma exec_bounds:
  assumes "rx_ok r" "exec r s i = Some (a, b)"
  shows "i \<le> a \<and> a + min_len r \<le> b \<and> b \<le> length s"
proof -
  have f: "find (\<lambda>j. ends r s j \<noteq> []) [i..<Suc (length s)] = Some a" and b: "b = hd (ends r s a)"
    using assms(2) by (auto simp: exec_def)
  then have "a \<in> set [i..<Suc (length s)]" "ends r s a \<noteq> []" using find_in by fast+
  moreover from this have "b \<in> set (ends r s a)" using b by simp
  ultimately show ?thesis using ends_bounds [OF assms(1), of a s b] by (simp only: set_upt atLeastLessThan_iff) simp
qed

lemma exec_all_returns:
  assumes "rx_ok r" "0 < min_len r"
  shows "\<exists>ms. exec_all r s i = Some ms \<and> (\<forall>(a, b) \<in> set ms. i \<le> a \<and> a < b \<and> b \<le> length s)"
proof (induction "Suc (length s) - i" arbitrary: i rule: less_induct)
  case less
  show ?case
  proof (cases "exec r s i")
    case None
    then show ?thesis by (subst exec_all.simps) simp
  next
    case (Some m)
    obtain a b where m: "m = (a, b)" by (rule prod.exhaust)
    have ab: "i \<le> a" "a < b" "b \<le> length s" using exec_bounds [OF assms(1), of s i a b] Some m assms(2) by auto
    then obtain ms where ms: "exec_all r s b = Some ms" "\<forall>(a, b) \<in> set ms. b \<le> length s \<and> a < b \<and> i \<le> a"
      using less [of b] by fastforce
    then have "exec_all r s i = Some ((a, b) # ms)" using Some m by (subst exec_all.simps) simp
    then show ?thesis using ab ms by auto
  qed
qed

lemmas rx_defs = EMAIL_RX_def PHONE_RX_def ORG_RX_def PERSON_RX_def TRIMMED_RX_def some_def opt_def word_rx_def lit_def

lemma rx_total: "rx_ok r \<and> 0 < min_len r" if "r \<in> {EMAIL_RX, PHONE_RX, ORG_RX, PERSON_RX, TRIMMED_RX}"
  using that by (auto simp: rx_defs)

section \<open>Spans\<close>

text \<open>A span lies in the text, is not empty, and its raw value ends where the span ends.\<close>

definition span_ok :: "js_string \<Rightarrow> PiiSpan \<Rightarrow> bool" where
  "span_ok txt c \<longleftrightarrow> sp_start c < sp_end c \<and> sp_end c \<le> length txt \<and> suffix (raw c) (slice txt (sp_start c) (sp_end c))"

fun chain :: "nat \<Rightarrow> PiiSpan list \<Rightarrow> bool" where
  "chain cursor [] = True"
| "chain cursor (c # cs) = (cursor \<le> sp_start c \<and> chain (sp_end c) cs)"

definition exact_span :: "js_string \<Rightarrow> PiiSpan \<Rightarrow> bool" where
  "exact_span txt c \<longleftrightarrow> sp_start c < sp_end c \<and> sp_end c \<le> length txt \<and> raw c = slice txt (sp_start c) (sp_end c)"

lemma exact_ok: "exact_span txt c \<Longrightarrow> span_ok txt c"
  by (simp add: exact_span_def span_ok_def)

lemma add_matches_returns:
  assumes "r \<in> {EMAIL_RX, PHONE_RX, ORG_RX, PERSON_RX}"
  obtains cs where "add_matches txt ty r = Some cs" "\<forall>c \<in> set cs. exact_span txt c"
proof -
  have "rx_ok r" "0 < min_len r" using rx_total [of r] assms by auto
  from exec_all_returns [OF this, of "txt" 0] obtain ms where ms: "exec_all r txt 0 = Some ms"
    "\<forall>(a, b) \<in> set ms. a < b \<and> b \<le> length txt" by fastforce
  then show thesis by (intro that) (auto simp: add_matches_def exact_span_def dest!: bspec)
qed

lemma length_slice: "b \<le> length s \<Longrightarrow> length (slice s a b) = b - a"
  by (simp add: slice_def)

lemma drop_slice: "drop k (slice s a b) = slice s (a + k) b"
  by (simp add: slice_def drop_take add.commute)

lemma index_of_occurs: "take (length t) (drop k s) = t \<Longrightarrow> k \<le> length s \<Longrightarrow> index_of s t \<le> k"
proof (induction s arbitrary: k)
  case (Cons c s)
  then show ?case by (cases k) auto
qed simp

lemma trimmed_rest_suffix: "suffix (trimmed_rest s) s"
  unfolding trimmed_rest_def by (rule suffix_order.trans [OF suffix_dropWhile suffix_drop])

lemma retrimmed_ok:
  assumes "exact_span txt c" "full_match TRIMMED_RX (trimmed_rest (raw c))"
  shows "span_ok txt \<lparr>raw = trimmed_rest (raw c), sp_type = ty, sp_start = sp_start c + index_of (raw c) (trimmed_rest (raw c)), sp_end = sp_end c\<rparr>"
proof -
  let ?t = "trimmed_rest (raw c)" and ?n = "index_of (raw c) (trimmed_rest (raw c))"
  have "0 < length ?t" using ends_bounds [of TRIMMED_RX 0 ?t "length ?t"] rx_total [of TRIMMED_RX] assms(2)
    by (auto simp: full_match_def)
  moreover obtain p where p: "raw c = p @ ?t" using trimmed_rest_suffix [of "raw c"] unfolding suffix_def by blast
  have n: "?n \<le> length p" by (rule index_of_occurs) (subst p, simp, subst p, simp)
  moreover have len: "length (raw c) = sp_end c - sp_start c" using assms(1) by (simp add: exact_span_def length_slice)
  moreover have "length (raw c) = length p + length ?t" by (subst p) simp
  ultimately have "sp_start c + ?n < sp_end c" by linarith
  moreover have "suffix ?t (drop ?n (raw c))" using n by (subst (2) p) (simp add: suffix_def)
  then have "suffix ?t (slice txt (sp_start c + ?n) (sp_end c))" using assms(1) by (simp add: exact_span_def drop_slice)
  ultimately show ?thesis using assms(1) by (simp add: span_ok_def exact_span_def)
qed

lemma post_filter_ok:
  assumes "\<forall>c \<in> set cs. exact_span txt c" "post_filter cs = (kept, again)"
  shows "\<forall>c \<in> set (kept @ again). span_ok txt c"
  using assms
proof (induction cs arbitrary: kept again)
  case (Cons c cs)
  obtain k a where ka: "post_filter cs = (k, a)" by (rule prod.exhaust)
  then have IH: "\<forall>c \<in> set (k @ a). span_ok txt c" using Cons.IH Cons.prems(1) by simp
  have c: "exact_span txt c" using Cons.prems(1) by simp
  show ?case using Cons.prems(2) IH exact_ok [OF c] retrimmed_ok [OF c]
    by (simp add: ka Let_def split: if_splits) auto
qed simp

lemma resolve_chain: "(\<forall>c \<in> set cs. sp_start c < sp_end c) \<Longrightarrow> chain cursor (resolve cursor cs)"
  by (induction cs arbitrary: cursor) auto

lemma set_resolve: "c \<in> set (resolve cursor cs) \<Longrightarrow> c \<in> set cs"
  by (induction cs arbitrary: cursor) (auto split: if_splits)

text \<open>The candidates of a text, after the post-filter.\<close>

definition candidates :: "js_string \<Rightarrow> PiiSpan list option" where
  "candidates txt =
     Option.bind (add_matches txt EMAIL EMAIL_RX) (\<lambda>emails.
     Option.bind (add_matches txt PHONE PHONE_RX) (\<lambda>phones.
     Option.bind (add_matches txt ORG ORG_RX) (\<lambda>orgs.
     map_option (\<lambda>persons. let (kept, again) = post_filter (emails @ phones @ orgs @ persons) in kept @ again)
       (add_matches txt PERSON PERSON_RX))))"

lemma detect_candidates: "detectPiiSpans txt = map_option (\<lambda>cs. resolve 0 (sort_key span_order cs)) (candidates txt)"
  by (auto simp: detectPiiSpans_def candidates_def Let_def split: Option.bind_splits prod.splits)

lemma candidates_ok:
  obtains cs where "candidates txt = Some cs" "\<forall>c \<in> set cs. span_ok txt c"
proof -
  obtain e where e: "add_matches txt EMAIL EMAIL_RX = Some e" "\<forall>c \<in> set e. exact_span txt c"
    by (rule add_matches_returns [of EMAIL_RX]) simp
  obtain p where p: "add_matches txt PHONE PHONE_RX = Some p" "\<forall>c \<in> set p. exact_span txt c"
    by (rule add_matches_returns [of PHONE_RX]) simp
  obtain org where org: "add_matches txt ORG ORG_RX = Some org" "\<forall>c \<in> set org. exact_span txt c"
    by (rule add_matches_returns [of ORG_RX]) simp
  obtain q where q: "add_matches txt PERSON PERSON_RX = Some q" "\<forall>c \<in> set q. exact_span txt c"
    by (rule add_matches_returns [of PERSON_RX]) simp
  obtain kept again where k: "post_filter (e @ p @ org @ q) = (kept, again)" by (rule prod.exhaust)
  have "\<forall>c \<in> set (e @ p @ org @ q). exact_span txt c" using e p org q by auto
  from post_filter_ok [OF this k] show thesis
    by (intro that [of "kept @ again"]) (simp_all add: candidates_def e p org q k)
qed

lemma detection_spans:
  obtains spans where "detectPiiSpans txt = Some spans" "chain 0 spans" "\<forall>c \<in> set spans. span_ok txt c"
proof -
  obtain cs where cs: "candidates txt = Some cs" "\<forall>c \<in> set cs. span_ok txt c" by (rule candidates_ok)
  have "chain 0 (resolve 0 (sort_key span_order cs))" by (rule resolve_chain) (use cs in \<open>auto simp: span_ok_def\<close>)
  then show thesis using cs by (intro that [of "resolve 0 (sort_key span_order cs)"]) (auto simp: detect_candidates dest!: set_resolve)
qed

text \<open>C17: Detection returns on every text, and the spans it returns lie in the text, are not empty, follow one another without
  overlap, and each has a raw value that ends where the span ends.\<close>

theorem detection_returns:
  "\<exists>spans. detectPiiSpans txt = Some spans \<and> chain 0 spans \<and> list_all (span_ok txt) spans"
  by (rule detection_spans [of "txt"]) (simp add: list_all_iff)

lemma resolve_covers:
  assumes "sorted (map sp_start cs)" "c \<in> set cs" "\<forall>c \<in> set cs. sp_start c < sp_end c"
  shows "sp_start c < cursor \<or> (\<exists>d \<in> set (resolve cursor cs). sp_start d \<le> sp_start c \<and> sp_start c < sp_end d)"
  using assms
proof (induction cs arbitrary: cursor)
  case (Cons a cs)
  show ?case
  proof (cases "c = a")
    case True
    then show ?thesis using Cons.prems by auto
  next
    case False
    then have c: "c \<in> set cs" "sp_start a \<le> sp_start c" using Cons.prems by auto
    have "sp_start c < cur \<or> (\<exists>d \<in> set (resolve cur cs). sp_start d \<le> sp_start c \<and> sp_start c < sp_end d)" for cur
      using Cons.IH [of cur] Cons.prems c(1) by simp
    from this [of cursor] this [of "sp_end a"] show ?thesis using c(2) by auto
  qed
qed simp

text \<open>No candidate is passed over where it begins: the first unit of every candidate lies in a span that is replaced.\<close>

theorem candidates_covered:
  assumes "candidates txt = Some cs" "detectPiiSpans txt = Some spans" "c \<in> set cs"
  shows "\<exists>d \<in> set spans. sp_start d \<le> sp_start c \<and> sp_start c < sp_end d"
proof -
  have ok: "\<forall>c \<in> set cs. span_ok txt c" by (rule candidates_ok [of "txt"]) (use assms(1) in simp)
  have "sorted (map span_order (sort_key span_order cs))" by simp
  then have "sorted (map sp_start (sort_key span_order cs))"
    unfolding sorted_map by (rule sorted_wrt_mono_rel [rotated]) (auto simp: span_order_def)
  from resolve_covers [OF this, of c 0] show ?thesis using assms ok by (auto simp: detect_candidates span_ok_def)
qed

section \<open>Replacement\<close>

text \<open>The text with its spans replaced, written from left to right.\<close>

fun assemble :: "(PiiSpan \<Rightarrow> js_string) \<Rightarrow> js_string \<Rightarrow> nat \<Rightarrow> PiiSpan list \<Rightarrow> js_string" where
  "assemble tok txt pos [] = drop pos txt"
| "assemble tok txt pos (c # cs) = slice txt pos (sp_start c) @ tok c @ assemble tok txt (sp_end c) cs"

lemma replace_assemble:
  assumes "chain pos spans" "\<forall>c \<in> set spans. sp_start c < sp_end c \<and> sp_end c \<le> length txt" "pos \<le> length txt"
  shows "foldr (\<lambda>c a. take (sp_start c) a @ tok c @ drop (sp_end c) a) spans txt = take pos txt @ assemble tok txt pos spans"
  using assms
proof (induction spans arbitrary: pos)
  case (Cons c cs)
  have c: "sp_start c < sp_end c" "sp_end c \<le> length txt" "pos \<le> sp_start c" using Cons.prems by auto
  have "foldr (\<lambda>c a. take (sp_start c) a @ tok c @ drop (sp_end c) a) cs txt = take (sp_end c) txt @ assemble tok txt (sp_end c) cs"
    using Cons.IH [of "sp_end c"] Cons.prems c by auto
  moreover have "take (sp_start c) txt = take pos txt @ slice txt pos (sp_start c)"
    using c(3) by (simp add: slice_def take_add [symmetric])
  ultimately show ?case using c by simp
qed simp

lemma chain_starts:
  assumes "chain pos spans" "\<forall>c \<in> set spans. sp_start c < sp_end c"
  shows "sorted_wrt (\<lambda>c d. sp_start c < sp_start d) spans \<and> (\<forall>c \<in> set spans. pos \<le> sp_start c)"
  using assms
proof (induction spans arbitrary: pos)
  case (Cons c cs)
  have "sorted_wrt (\<lambda>c d. sp_start c < sp_start d) cs \<and> (\<forall>d \<in> set cs. sp_end c \<le> sp_start d)"
    using Cons.IH [of "sp_end c"] Cons.prems by auto
  then show ?case using Cons.prems by fastforce
qed simp

text \<open>Sorting by falling start reverses a chain.\<close>

lemma sort_chain:
  assumes "sorted_wrt (\<lambda>c d. sp_start c < sp_start d) spans"
  shows "sort_key (\<lambda>s. - int (sp_start s)) spans = rev spans"
proof (rule properties_for_sort_key)
  have "distinct (map sp_start spans)" using assms by (induction spans) auto
  then have inj: "inj_on sp_start (set spans)" "distinct spans" by (simp_all add: distinct_map)
  show "filter (\<lambda>x. - int (sp_start k) = - int (sp_start x)) (rev spans) = filter (\<lambda>x. - int (sp_start k) = - int (sp_start x)) spans"
    if "k \<in> set (rev spans)" for k
  proof -
    have "filter (\<lambda>x. - int (sp_start k) = - int (sp_start x)) xs = filter (\<lambda>x. k = x) xs" if "set xs = set spans" for xs
      using inj(1) \<open>k \<in> set (rev spans)\<close> that by (intro filter_cong) (auto dest: inj_onD)
    moreover have "filter (\<lambda>x. k = x) (rev spans) = filter (\<lambda>x. k = x) spans"
      by (metis rev_filter rev_replicate replicate_length_filter)
    ultimately show ?thesis by simp
  qed
  show "sorted (map (\<lambda>s. - int (sp_start s)) (rev spans))"
    unfolding sorted_map sorted_wrt_rev by (rule sorted_wrt_mono_rel [OF _ assms]) auto
qed simp

lemma replace_loop_keyed:
  assumes "tenantKey t = Some k"
  shows "replace_loop W master spans a tokens t =
    Inr (fold (\<lambda>c a. take (sp_start c) a @ token_of W k (raw c) (sp_type c) @ drop (sp_end c) a) spans a,
         fold (\<lambda>c. AList.update (token_of W k (raw c) (sp_type c)) (raw c)) spans tokens, t)"
  using assms by (induction spans arbitrary: a tokens) (simp_all add: deriveToken_def getTenantKey_def)

lemma replace_loop_exact:
  assumes "getTenantKey W master t = Inr (k, t')" "spans \<noteq> []"
  shows "replace_loop W master spans a tokens t =
    Inr (fold (\<lambda>c a. take (sp_start c) a @ token_of W k (raw c) (sp_type c) @ drop (sp_end c) a) spans a,
         fold (\<lambda>c. AList.update (token_of W k (raw c) (sp_type c)) (raw c)) spans tokens, t')"
proof -
  have "tenantKey t' = Some k" using assms(1) by (auto simp: getTenantKey_def bind_res_Inr_iff split: option.splits)
  then show ?thesis using assms by (cases spans) (simp_all add: deriveToken_def replace_loop_keyed)
qed

text \<open>The token map: one entry for each token, whose value is a raw text with that token.\<close>

lemma token_map:
  "map_of (fold (\<lambda>c. AList.update (tok c) (raw c)) spans []) x = map_option raw (find (\<lambda>c. tok c = x) (rev spans))"
proof (induction spans rule: rev_induct)
  case (snoc c cs)
  then show ?case by (simp add: update_conv')
qed simp

section \<open>Registration\<close>

lemma store_key_eq: "store_key tenant x = store_key tenant y \<longleftrightarrow> x = y"
  by (simp add: store_key_def)

lemma register_loop_ok:
  assumes "register_loop tokens t = (None, t')" "distinct (map fst tokens)"
  shows "tenantId t' = tenantId t \<and> tenantKey t' = tenantKey t
    \<and> (\<forall>(x, r) \<in> set tokens. store t' (store_key (tenantId t) x) = Some r)
    \<and> (\<forall>y. y \<notin> store_key (tenantId t) ` fst ` set tokens \<longrightarrow> store t' y = store t y)"
  using assms
proof (induction tokens arbitrary: t)
  case (Cons e tokens)
  obtain x r where e: "e = (x, r)" by (rule prod.exhaust)
  obtain st where st: "register (tenantId t) x r (store t) = Inr st" "register_loop tokens (t\<lparr>store := st\<rparr>) = (None, t')"
    using Cons.prems(1) e by (auto split: sum.splits)
  then have upd: "st = (store t)(store_key (tenantId t) x \<mapsto> r)" by (auto simp: register_def split: option.splits if_splits)
  note IH = Cons.IH [OF st(2)]
  have "x \<notin> fst ` set tokens" using Cons.prems(2) e by simp
  then have x: "store_key (tenantId t) x \<notin> store_key (tenantId t) ` fst ` set tokens" by (force simp: store_key_eq)
  show ?case using IH Cons.prems(2) x e by (auto simp: upd)
qed simp

lemma register_loop_error:
  assumes "register_loop tokens t = (Some e, t')" "distinct (map fst tokens)"
  shows "\<exists>(x, r) \<in> set tokens. \<exists>r'. e = TokenCollisionError x (tenantId t) \<and> store t (store_key (tenantId t) x) = Some r' \<and> r' \<noteq> r"
  using assms
proof (induction tokens arbitrary: t)
  case (Cons d tokens)
  obtain x r where d: "d = (x, r)" by (rule prod.exhaust)
  show ?case
  proof (cases "register (tenantId t) x r (store t)")
    case (Inl e')
    then show ?thesis using Cons.prems(1) d by (auto simp: register_def split: option.splits if_splits)
  next
    case (Inr st)
    then have upd: "st = (store t)(store_key (tenantId t) x \<mapsto> r)" by (auto simp: register_def split: option.splits if_splits)
    have "register_loop tokens (t\<lparr>store := st\<rparr>) = (Some e, t')" using Cons.prems(1) d Inr by simp
    from Cons.IH [OF this] obtain y q r' where y: "(y, q) \<in> set tokens" "e = TokenCollisionError y (tenantId t)"
      "st (store_key (tenantId t) y) = Some r'" "r' \<noteq> q" using Cons.prems(2) by auto
    have "y \<noteq> x" using y(1) Cons.prems(2) d by force
    then have "store t (store_key (tenantId t) y) = Some r'" using y(3) by (simp add: upd store_key_eq)
    then show ?thesis using y by auto
  qed
qed simp

lemma distinct_tokens: "distinct (map fst (fold (\<lambda>c. AList.update (tok c) (r c)) spans ts))" if "distinct (map fst ts)"
  using that by (induction spans arbitrary: ts) (simp_all add: distinct_update)

text \<open>The tokens of a text: for every span its token, with the raw value of a span of that token.\<close>

lemma token_map_spans:
  fixes tok :: "PiiSpan \<Rightarrow> js_string" and spans :: "PiiSpan list"
  defines "tokens \<equiv> fold (\<lambda>c. AList.update (tok c) (raw c)) (rev spans) []"
  shows "distinct (map fst tokens)" "fst ` set tokens = tok ` set spans"
    "(x, r) \<in> set tokens \<Longrightarrow> \<exists>c \<in> set spans. tok c = x \<and> raw c = r"
    "c \<in> set spans \<Longrightarrow> \<exists>d \<in> set spans. tok d = tok c \<and> (tok c, raw d) \<in> set tokens"
proof -
  show d: "distinct (map fst tokens)" unfolding tokens_def by (rule distinct_tokens) simp
  have m: "map_of tokens y = map_option raw (find (\<lambda>c. tok c = y) spans)" for y unfolding tokens_def token_map by simp
  show 3: "\<exists>c \<in> set spans. tok c = x \<and> raw c = r" if "(x, r) \<in> set tokens" for x r
  proof -
    have "map_option raw (find (\<lambda>c. tok c = x) spans) = Some r" using m [of x] map_of_is_SomeI [OF d that] by simp
    then obtain c where "find (\<lambda>c. tok c = x) spans = Some c" "raw c = r" by auto
    then show ?thesis using find_in by fast
  qed
  show 4: "\<exists>d \<in> set spans. tok d = tok c \<and> (tok c, raw d) \<in> set tokens" if c: "c \<in> set spans" for c
  proof -
    obtain d where d: "find (\<lambda>d. tok d = tok c) spans = Some d" using c by (metis (mono_tags, lifting) find_None_iff option.exhaust)
    then have "map_of tokens (tok c) = Some (raw d)" by (simp add: m)
    then show ?thesis using find_in [OF d] map_of_SomeD by fast
  qed
  show "fst ` set tokens = tok ` set spans" using 3 4 by force
qed

text \<open>C16: Where the tenant's key can be derived, tokenisation returns. On success the text is the original with every span replaced by
  its token and nothing else changed, every token resolves in the store to the raw value of a span of the text with that token,
  and no other entry of the store changed. It fails only where a token of the text is registered for another raw value.\<close>

theorem tokenise_outcome:
  assumes "getTenantKey W master t = Inr (k, t0)"
  shows "\<exists>spans out t'. detectPiiSpans txt = Some spans \<and> tokenise W master txt t = Some (out, t') \<and>
    (case out of
       Inr (anonymised, tokens) \<Rightarrow>
         anonymised = assemble (span_token W k) txt 0 spans
         \<and> (\<forall>c \<in> set spans. \<exists>d \<in> set spans. span_token W k d = span_token W k c \<and> lookup_token (tenantId t) (span_token W k c) (store t') = Some (raw d))
         \<and> (\<forall>y. y \<notin> store_key (tenantId t) ` span_token W k ` set spans \<longrightarrow> store t' y = store t y)
     | Inl e \<Rightarrow> \<exists>c \<in> set spans. \<exists>r. e = TokenCollisionError (span_token W k c) (tenantId t)
         \<and> lookup_token (tenantId t) (span_token W k c) (store t) = Some r \<and> r \<noteq> raw c)"
proof -
  define tok where "tok = span_token W k"
  obtain spans where spans: "detectPiiSpans txt = Some spans" "chain 0 spans" "\<forall>c \<in> set spans. span_ok txt c"
    by (rule detection_spans)
  then have ok: "\<forall>c \<in> set spans. sp_start c < sp_end c \<and> sp_end c \<le> length txt" by (simp add: span_ok_def)
  have rev: "sort_key (\<lambda>s. - int (sp_start s)) spans = rev spans" using chain_starts [OF spans(2)] ok sort_chain by blast
  define tokens where "tokens = fold (\<lambda>c. AList.update (tok c) (raw c)) (rev spans) []"
  note T = token_map_spans [where tok = tok and spans = spans, folded tokens_def]
  define t1 where "t1 = (if spans = [] then t else t0)"
  have t0: "tenantId t1 = tenantId t" "store t1 = store t"
    using assms(1) by (auto simp: t1_def getTenantKey_def bind_res_Inr_iff split: option.splits)
  have loop: "replace_loop W master (rev spans) txt [] t = Inr (assemble tok txt 0 spans, tokens, t1)"
  proof (cases "spans = []")
    case False
    then show ?thesis using replace_loop_exact [OF assms(1), of "rev spans" "txt" "[]"] replace_assemble [OF spans(2) ok, of tok]
      by (simp add: t1_def tokens_def tok_def span_token_def [abs_def] foldr_conv_fold)
  qed (simp add: t1_def tokens_def)
  obtain err t' where reg: "register_loop tokens t1 = (err, t')" by (rule prod.exhaust)
  show ?thesis
  proof (cases err)
    case None
    then have "tokenise W master txt t = Some (Inr (assemble tok txt 0 spans, tokens), t')"
      by (simp add: tokenise_def spans(1) rev loop reg)
    moreover note register_loop_ok [OF reg [unfolded None] T(1)]
    moreover have "\<exists>d \<in> set spans. tok d = tok c \<and> lookup_token (tenantId t) (tok c) (store t') = Some (raw d)" if "c \<in> set spans" for c
      using T(4) [OF that] register_loop_ok [OF reg [unfolded None] T(1)] t0 by (auto simp: lookup_token_def)
    ultimately show ?thesis using spans(1) t0 T(2) unfolding tok_def by (intro exI [of _ spans]) auto
  next
    case (Some e)
    then have "tokenise W master txt t = Some (Inl e, t')" by (simp add: tokenise_def spans(1) rev loop reg)
    moreover have "\<exists>c \<in> set spans. \<exists>r. e = TokenCollisionError (tok c) (tenantId t) \<and> lookup_token (tenantId t) (tok c) (store t) = Some r \<and> r \<noteq> raw c"
      using register_loop_error [OF reg [unfolded Some] T(1)] T(3) t0 by (fastforce simp: lookup_token_def)
    ultimately show ?thesis using spans(1) unfolding tok_def by (intro exI [of _ spans]) auto
  qed
qed

section \<open>Samples\<close>

definition ascii_lower :: "16 word \<Rightarrow> 16 word" where
  "ascii_lower c = (if upper c then c + 32 else c)"

definition sample_tok_world :: tok_world where
  "sample_tok_world = \<lparr>sha256 = (\<lambda>m. m), hkdf_sha256 = (\<lambda>k m. m @ k), hmac_sha256 = (\<lambda>k m. m @ k), toLowerCase = map ascii_lower\<rparr>"

definition sample_tokeniser :: PiiTokeniser where
  "sample_tokeniser = \<lparr>tenantId = lit ''t'', store = (\<lambda>_. None), tenantKey = None\<rparr>"

text \<open>A trimmed candidate is looked up again in the candidate it came from, and where the common word repeats, the span covers more than its raw value.\<close>

lemma repeated_common_word:
  "detectPiiSpans (lit ''May May May'') = Some [\<lparr>raw = lit ''May May'', sp_type = PERSON, sp_start = 0, sp_end = 11\<rparr>]"
  by code_simp

text \<open>The earlier start wins, not the longer match: an e-mail address that runs on from a telephone number stays in the text.\<close>

lemma email_after_phone:
  "detectPiiSpans (lit ''(555) 123-4567bob@x.io'')
     = Some [\<lparr>raw = lit ''(555) 123-4567'', sp_type = PHONE, sp_start = 0, sp_end = 14\<rparr>]"
  by code_simp

text \<open>Two spellings of one address have one token, and the second to be registered is refused.\<close>

lemma case_variant_collides:
  "Option.bind (tokenise sample_tok_world None (lit ''A@x.io'') sample_tokeniser) (\<lambda>(first, t).
     map_option (\<lambda>(second, _). (first, second)) (tokenise sample_tok_world None (lit ''a@x.io'') t))
   = Some (Inr (lit ''EMAIL_6140782e'', [(lit ''EMAIL_6140782e'', lit ''A@x.io'')]),
           Inl (TokenCollisionError (lit ''EMAIL_6140782e'') (lit ''t'')))"
  by code_simp

lemma sample_key: "getTenantKey sample_tok_world None sample_tokeniser
    = Inr (utf8_encode (lit ''t''), sample_tokeniser\<lparr>tenantKey := Some (utf8_encode (lit ''t''))\<rparr>)"
  by (simp add: getTenantKey_def sample_tokeniser_def sample_tok_world_def deriveTenantKeyBytes_def)

theorem tokenise_outcome_witness:
  "\<exists>spans out t'. detectPiiSpans (lit ''Hi Al Bo'') = Some spans \<and> tokenise sample_tok_world None (lit ''Hi Al Bo'') sample_tokeniser = Some (out, t') \<and>
    (case out of
       Inr (anonymised, tokens) \<Rightarrow>
         anonymised = assemble (span_token sample_tok_world (utf8_encode (lit ''t''))) (lit ''Hi Al Bo'') 0 spans
         \<and> (\<forall>c \<in> set spans. \<exists>d \<in> set spans.
              span_token sample_tok_world (utf8_encode (lit ''t'')) d = span_token sample_tok_world (utf8_encode (lit ''t'')) c
              \<and> lookup_token (tenantId sample_tokeniser) (span_token sample_tok_world (utf8_encode (lit ''t'')) c) (store t') = Some (raw d))
         \<and> (\<forall>y. y \<notin> store_key (tenantId sample_tokeniser) ` span_token sample_tok_world (utf8_encode (lit ''t'')) ` set spans
              \<longrightarrow> store t' y = store sample_tokeniser y)
     | Inl e \<Rightarrow> \<exists>c \<in> set spans. \<exists>r. e = TokenCollisionError (span_token sample_tok_world (utf8_encode (lit ''t'')) c) (tenantId sample_tokeniser)
         \<and> lookup_token (tenantId sample_tokeniser) (span_token sample_tok_world (utf8_encode (lit ''t'')) c) (store sample_tokeniser) = Some r
         \<and> r \<noteq> raw c)"
  by (rule tokenise_outcome [OF sample_key])

theorem candidates_covered_witness:
  "\<exists>d \<in> set [\<lparr>raw = lit ''Al Bo'', sp_type = PERSON, sp_start = 3, sp_end = 8\<rparr>]. sp_start d \<le> 3 \<and> 3 < sp_end d"
proof -
  let ?c = "\<lparr>raw = lit ''Al Bo'', sp_type = PERSON, sp_start = 3, sp_end = 8\<rparr> :: PiiSpan"
  have "candidates (lit ''Hi Al Bo'') = Some [?c]" by code_simp
  moreover have "detectPiiSpans (lit ''Hi Al Bo'') = Some [?c]" by code_simp
  ultimately show ?thesis using candidates_covered [of "lit ''Hi Al Bo''" "[?c]" "[?c]" ?c] by simp
qed

end
