(* ===== verification/Identity_Dictionary.thy ===== *)
theory Identity_Dictionary
  imports Pii_Tokens Encryption
begin

text \<open>
  The two stores behind the tokeniser: the one in memory, of \<^verbatim>\<open>pii-tokeniser.ts\<close>, and the encrypted table of
  \<^verbatim>\<open>src/packages/db/identity-dictionary.ts\<close>. \<open>identity_store\<close> is the part of the contract that both keep: a new token resolves to
  its value, and what resolves is not changed by a later call of any process and any tenant, failed or not. That a second
  value for a token is refused, and that a token belongs to a tenant, only the first one keeps.
\<close>

section \<open>The table\<close>

record IdentityTokenRow =
  it_token :: js_string
  real_name :: js_string
  real_email :: js_string
  real_org :: js_string

definition IDENTITY_ENTITY_TYPE :: js_string where
  "IDENTITY_ENTITY_TYPE = lit ''identity_token''"

definition pg_register :: "world \<Rightarrow> js_string \<Rightarrow> js_string \<Rightarrow> js_string \<Rightarrow> IdentityTokenRow list \<Rightarrow> IdentityTokenRow list act" where
  "pg_register W tenant token realValue rows =
     and_then (encryptField W IDENTITY_ENTITY_TYPE realValue) (\<lambda>encRealName.
     and_then (encryptField W IDENTITY_ENTITY_TYPE []) (\<lambda>encRealEmail.
     and_then (encryptField W IDENTITY_ENTITY_TYPE tenant) (\<lambda>encRealOrg.
       return (if token \<in> it_token ` set rows then rows
               else rows @ [\<lparr>it_token = token, real_name = encRealName, real_email = encRealEmail, real_org = encRealOrg\<rparr>]))))"

definition pg_lookup :: "world \<Rightarrow> js_string \<Rightarrow> js_string \<Rightarrow> IdentityTokenRow list \<Rightarrow> js_string option act" where
  "pg_lookup W tenant token rows =
     (case find_row it_token token rows of
        None \<Rightarrow> return None
      | Some row \<Rightarrow> and_then (decryptField W IDENTITY_ENTITY_TYPE (real_name row)) (\<lambda>x. return (Some x)))"

section \<open>The contract\<close>

text \<open>A call is made by a process for a tenant; it says if it succeeded, and a failed one leaves the store as it is.\<close>

fun reg_all :: "('p \<Rightarrow> js_string \<Rightarrow> js_string \<Rightarrow> js_string \<Rightarrow> 's \<Rightarrow> bool \<times> 's) \<Rightarrow> ('p \<times> js_string \<times> js_string \<times> js_string) list \<Rightarrow> 's \<Rightarrow> 's" where
  "reg_all reg [] s = s"
| "reg_all reg ((p, t, x, v) # calls) s = reg_all reg calls (snd (reg p t x v s))"

locale identity_store =
  fixes reg :: "'p \<Rightarrow> js_string \<Rightarrow> js_string \<Rightarrow> js_string \<Rightarrow> 's \<Rightarrow> bool \<times> 's"
    and look :: "'p \<Rightarrow> js_string \<Rightarrow> js_string \<Rightarrow> 's \<Rightarrow> 'e + js_string option"
    and able :: "'p \<Rightarrow> bool" and storable :: "js_string \<Rightarrow> js_string \<Rightarrow> bool"
  assumes reg_new: "able p \<Longrightarrow> able q \<Longrightarrow> storable t v \<Longrightarrow> look p t x s = Inr None
      \<Longrightarrow> fst (reg p t x v s) \<and> look q t x (snd (reg p t x v s)) = Inr (Some v)"
    and reg_keeps: "look q t y s = Inr (Some w) \<Longrightarrow> look q t y (snd (reg p u x v s)) = Inr (Some w)"
begin

lemma reg_all_keeps: "look q t y s = Inr (Some w) \<Longrightarrow> look q t y (reg_all reg calls s) = Inr (Some w)"
  by (induction calls arbitrary: s) (auto simp: reg_keeps)

lemma first_value_stays:
  assumes "able p" "able q" "storable t v" "look p t x s = Inr None"
  shows "fst (reg p t x v s) \<and> look q t x (reg_all reg ((p, t, x, v) # calls) s) = Inr (Some v)"
  using reg_new [OF assms] reg_all_keeps by simp

end

text \<open>The store in memory, of one process.\<close>

definition mem_reg :: "unit \<Rightarrow> js_string \<Rightarrow> js_string \<Rightarrow> js_string \<Rightarrow> (js_string \<rightharpoonup> js_string) \<Rightarrow> bool \<times> (js_string \<rightharpoonup> js_string)" where
  "mem_reg p t x v s = (case register t x v s of Inl _ \<Rightarrow> (False, s) | Inr s' \<Rightarrow> (True, s'))"

definition mem_look :: "unit \<Rightarrow> js_string \<Rightarrow> js_string \<Rightarrow> (js_string \<rightharpoonup> js_string) \<Rightarrow> unit + js_string option" where
  "mem_look p t x s = Inr (lookup_token t x s)"

interpretation memory: identity_store mem_reg mem_look "\<lambda>_. True" "\<lambda>_ _. True"
  by unfold_locales (auto simp: mem_reg_def mem_look_def register_def lookup_token_def split: option.splits if_splits)

section \<open>The table keeps the contract\<close>

definition pg_reg :: "world \<Rightarrow> process \<Rightarrow> js_string \<Rightarrow> js_string \<Rightarrow> js_string \<Rightarrow> IdentityTokenRow list \<Rightarrow> bool \<times> IdentityTokenRow list" where
  "pg_reg W p t x v rows = (case fst (pg_register W t x v rows p) of Inl _ \<Rightarrow> (False, rows) | Inr rows' \<Rightarrow> (True, rows'))"

definition pg_look :: "world \<Rightarrow> process \<Rightarrow> js_string \<Rightarrow> js_string \<Rightarrow> IdentityTokenRow list \<Rightarrow> fault + js_string option" where
  "pg_look W p t x rows = fst (pg_lookup W t x rows p)"

text \<open>A process that holds the master key, with the laws of the cryptography.\<close>

definition pg_able :: "world \<Rightarrow> bytes \<Rightarrow> process \<Rightarrow> bool" where
  "pg_able W mk p \<longleftrightarrow> coherent W mk p \<and> isEncryptionEnabled p \<and> hkdf_lengths W \<and> random_lengths W \<and> gcm_opens W \<and> spreads W"

text \<open>The three columns of a row can be sealed, and the value survives its encoding.\<close>

definition pg_storable :: "world \<Rightarrow> js_string \<Rightarrow> js_string \<Rightarrow> bool" where
  "pg_storable W t v \<longleftrightarrow> readable v \<and> fits W v \<and> fits W [] \<and> fits W t"

lemma pg_register_outcome:
  obtains e where "fst (pg_register W t x v rows p) = Inl e"
  | n m r where "fst (pg_register W t x v rows p) = Inr (if x \<in> it_token ` set rows then rows
      else rows @ [\<lparr>it_token = x, real_name = n, real_email = m, real_org = r\<rparr>])"
proof (cases "pg_register W t x v rows p")
  case (Pair res p')
  then show thesis
    using that by (auto simp: pg_register_def and_then_def split: prod.splits sum.splits)
qed

lemma pg_register_row:
  assumes "pg_able W mk p" "pg_storable W t v"
  obtains n m r where "fst (pg_register W t x v rows p) = Inr (if x \<in> it_token ` set rows then rows
      else rows @ [\<lparr>it_token = x, real_name = n, real_email = m, real_org = r\<rparr>])"
    "seals W (field_key W mk IDENTITY_ENTITY_TYPE) v n"
proof -
  have W: "hkdf_lengths W" "random_lengths W" "spreads W" "isEncryptionEnabled p" "same_process W mk p p"
    and fit: "fits W v" "fits W []" "fits W t"
    using assms by (simp_all add: pg_able_def pg_storable_def same_process_def)
  note step = encryptField_step(1) [OF W(1-4), where et = IDENTITY_ENTITY_TYPE]
  obtain n p1 where 1: "encryptField W IDENTITY_ENTITY_TYPE v p = (Inr n, p1)" "same_process W mk p p1"
    "seals W (field_key W mk IDENTITY_ENTITY_TYPE) v n" using step [OF W(5) fit(1)] by blast
  obtain m p2 where 2: "encryptField W IDENTITY_ENTITY_TYPE [] p1 = (Inr m, p2)" "same_process W mk p p2" using step [OF 1(2) fit(2)] by blast
  obtain r p3 where 3: "encryptField W IDENTITY_ENTITY_TYPE t p2 = (Inr r, p3)" using step [OF 2(2) fit(3)] by blast
  show thesis by (rule that [of n m r]) (use 1 2 3 in \<open>simp_all add: pg_register_def and_then_def\<close>)
qed

lemma find_row_snoc: "find_row key k (xs @ [y]) = (if k \<in> key ` set xs then find_row key k xs else if key y = k then Some y else None)"
  by (induction xs) (auto simp: find_row_def)

lemma find_row_some: "find_row key k xs = Some y \<Longrightarrow> k \<in> key ` set xs"
  unfolding find_row_def by (induction xs) (auto split: if_splits)

lemma find_row_none: "find_row key k xs = None \<longleftrightarrow> k \<notin> key ` set xs"
  unfolding find_row_def by (induction xs) (auto split: if_splits)

lemma pg_look_none: "pg_look W p t x rows = Inr None \<longleftrightarrow> x \<notin> it_token ` set rows"
  by (auto simp: pg_look_def pg_lookup_def and_then_def find_row_none [symmetric] split: option.splits prod.splits sum.splits)

lemma pg_look_cong: "find_row it_token x rows = find_row it_token x rows' \<Longrightarrow> pg_look W p t x rows = pg_look W p t' x rows'"
  by (simp add: pg_look_def pg_lookup_def)

lemma pg_look_sealed:
  assumes "pg_able W mk q" "find_row it_token x rows = Some row" "readable v"
    and "seals W (field_key W mk IDENTITY_ENTITY_TYPE) v (real_name row)"
  shows "pg_look W q t x rows = Inr (Some v)"
proof -
  have q: "coherent W mk q" "hkdf_lengths W" "gcm_opens W" "isEncryptionEnabled q" using assms(1) by (simp_all add: pg_able_def)
  obtain q' where "decryptField W IDENTITY_ENTITY_TYPE (real_name row) q = (Inr v, q')"
    by (rule decryptField_seals [OF q assms(4,3)])
  then show ?thesis using assms(2) by (simp add: pg_look_def pg_lookup_def and_then_def)
qed

lemma pg_reg_finds:
  assumes "find_row it_token y rows = Some row"
  shows "find_row it_token y (snd (pg_reg W p t x v rows)) = Some row"
proof (rule pg_register_outcome [of W t x v rows p])
  fix n m r
  assume "fst (pg_register W t x v rows p) = Inr (if x \<in> it_token ` set rows then rows
      else rows @ [\<lparr>it_token = x, real_name = n, real_email = m, real_org = r\<rparr>])"
  then show ?thesis using assms find_row_some [OF assms] by (simp add: pg_reg_def find_row_snoc)
qed (use assms in \<open>simp add: pg_reg_def\<close>)

interpretation table: identity_store "pg_reg W" "pg_look W" "pg_able W mk" "pg_storable W" for W mk
proof
  fix p q t v x rows
  assume able: "pg_able W mk p" "pg_able W mk q" and fit: "pg_storable W t v" and new: "pg_look W p t x rows = Inr None"
  obtain n m r where reg: "fst (pg_register W t x v rows p) = Inr (if x \<in> it_token ` set rows then rows
      else rows @ [\<lparr>it_token = x, real_name = n, real_email = m, real_org = r\<rparr>])"
    and n: "seals W (field_key W mk IDENTITY_ENTITY_TYPE) v n"
    by (rule pg_register_row [OF able(1) fit])
  have "readable v" using fit by (simp add: pg_storable_def)
  then show "fst (pg_reg W p t x v rows) \<and> pg_look W q t x (snd (pg_reg W p t x v rows)) = Inr (Some v)"
    using reg n new pg_look_sealed [OF able(2), of x _ _ v] by (simp add: pg_reg_def pg_look_none find_row_snoc)
next
  fix q t y rows w p u x v
  assume look: "pg_look W q t y rows = Inr (Some w)"
  then have "find_row it_token y rows \<noteq> None" using pg_look_none [of W q t y rows] find_row_none [of it_token y rows] by auto
  then obtain row where "find_row it_token y rows = Some row" by blast
  with pg_reg_finds [OF this] show "pg_look W q t y (snd (pg_reg W p u x v rows)) = Inr (Some w)"
    using look pg_look_cong by metis
qed

text \<open>C23: In the encrypted table a token that is not registered is registered with its value by any process that has the
  master key, for any tenant, and from then on resolves to this value for every process with that key and every tenant,
  through any list of later registrations by any processes and tenants, failed ones included: another tenant's value for the
  same token is dropped without an error. The value and the tenant are short enough to be sealed, and the value is
  well-formed and does not begin with a byte order mark.\<close>

theorem dictionary_keeps_first:
  assumes "pg_able W mk p" "pg_able W mk q" "pg_storable W t v" "x \<notin> it_token ` set rows"
  shows "\<exists>rows' p'. pg_register W t x v rows p = (Inr rows', p')
    \<and> fst (pg_lookup W t' x (reg_all (pg_reg W) calls rows') q) = Inr (Some v)"
proof -
  have "pg_look W p t x rows = Inr None" using assms(4) by (simp add: pg_look_none)
  from table.first_value_stays [OF assms(1-3) this, of calls]
  have reg: "fst (pg_reg W p t x v rows)"
    and look: "pg_look W q t' x (reg_all (pg_reg W) calls (snd (pg_reg W p t x v rows))) = Inr (Some v)"
    using pg_look_cong [OF refl] by (simp, metis reg_all.simps(2))
  from reg obtain rows' p' where "pg_register W t x v rows p = (Inr rows', p')"
    by (cases "pg_register W t x v rows p") (auto simp: pg_reg_def split: sum.splits)
  then show ?thesis using look by (simp add: pg_reg_def pg_look_def)
qed

theorem dictionary_keeps_first_witness:
  "\<exists>rows' p'. pg_register sample_world (lit ''t1'') (lit ''EMAIL_1'') (lit ''A@x.io'') [] (sample_process (LocalDevKmsBackend None) 3) = (Inr rows', p')
    \<and> fst (pg_lookup sample_world (lit ''t2'') (lit ''EMAIL_1'')
        (reg_all (pg_reg sample_world) [(sample_process (LocalDevKmsBackend None) 8, lit ''t2'', lit ''EMAIL_1'', lit ''b@y.io'')] rows')
        (sample_process (LocalDevKmsBackend None) 60)) = Inr (Some (lit ''A@x.io''))"
proof (rule dictionary_keeps_first)
  show "pg_able sample_world [0, 0, 0] (sample_process (LocalDevKmsBackend None) 3)"
    "pg_able sample_world [0, 0, 0] (sample_process (LocalDevKmsBackend None) 60)"
    using sample_local sample_laws sample_enabled(1) by (simp_all add: pg_able_def)
  show "pg_storable sample_world (lit ''t1'') (lit ''A@x.io'')"
    using sample_fits_lit [of "[]"] sample_fits_lit [of "''t1''"] sample_fits_lit [of "''A@x.io''"]
    by (simp add: pg_storable_def readable_def well_formed_lit) (simp add: lit_def)
qed simp

end
