(* ===== verification/Write_Off.thy ===== *)
theory Write_Off
  imports Payment_Plans
begin

text \<open>
  Settlement proposals and write-off approvals, \<^verbatim>\<open>src/packages/db/write-off-approvals.ts\<close>. A proposal
  whose implied write-off exceeds the threshold is stored for review; any other is applied at once. The
  threshold is \<open>None\<close> for \<^verbatim>\<open>Number.POSITIVE_INFINITY\<close>. Both mutations are transactions; the audit events
  they hand to the optional \<^verbatim>\<open>auditWriter\<close> (whose failures are caught) are part of their results.
\<close>

section \<open>Data\<close>

datatype WriteOffApprovalDecision = D_approved | D_rejected

record WriteOffApproval =
  wa_id :: string
  wa_collection_case_id :: string
  wa_invoice_id :: string
  wa_customer_id :: string
  wa_customer_name :: string
  wa_invoice_amount :: money
  wa_proposed_by :: string
  wa_reviewed_by :: "string option"
  wa_settlement_amount :: money
  wa_implied_write_off_amount :: money
  wa_status :: WriteOffApprovalStatus
  wa_notes :: "string option"
  wa_review_notes :: "string option"
  wa_reviewed_at :: "timestamp option"
  wa_created_at :: timestamp
  wa_updated_at :: timestamp

record SettlementApplication =
  sa_case_id :: string
  sa_invoice_id :: string
  sa_invoice_status :: InvoiceStatus
  sa_case_status :: CollectionCaseStatus
  sa_resolution_type :: ResolutionType

record SettlementProposalOutcome =
  so_approval :: "WriteOffApproval option"
  so_auto_approved :: bool
  so_settlement :: "SettlementApplication option"

datatype audit_value = AV_text string | AV_num rat | AV_null

record audit_event =
  ev_actor_id :: string
  ev_action :: string
  ev_entity_type :: string
  ev_entity_id :: string
  ev_before :: "(string \<times> audit_value) list option"
  ev_after :: "(string \<times> audit_value) list option"
  ev_ts :: timestamp

record SettlementProposal =
  sp_collection_case_id :: string
  sp_settlement_amount :: rat
  sp_notes :: "string option"
  sp_proposed_by :: string
  sp_actor_id :: string
  sp_has_audit_writer :: bool

record ApprovalDecision =
  ad_approval_id :: string
  ad_decision :: WriteOffApprovalDecision
  ad_reviewed_by :: string
  ad_review_notes :: "string option"
  ad_actor_id :: string
  ad_has_audit_writer :: bool

text \<open>What \<^verbatim>\<open>Number(raw)\<close> gives for the trimmed environment variable; \<open>None\<close> when it is unset or blank.\<close>

datatype js_number = Not_finite | Finite rat

definition getWriteOffApprovalThreshold :: "js_number option \<Rightarrow> rat option" where
  "getWriteOffApprovalThreshold raw =
     (case raw of Some (Finite parsed) \<Rightarrow> if parsed \<ge> 0 then Some parsed else None | _ \<Rightarrow> None)"

definition exceeds :: "rat \<Rightarrow> rat option \<Rightarrow> bool" where
  "exceeds x threshold = (case threshold of None \<Rightarrow> False | Some t \<Rightarrow> x > t)"

section \<open>Queries\<close>

text \<open>The columns of an approval joined with its customer and its invoice.\<close>

definition mapApprovalRow :: "write_off_row \<Rightarrow> customer_row \<Rightarrow> invoice_row \<Rightarrow> WriteOffApproval" where
  "mapApprovalRow w c i = \<lparr>
     wa_id = wo_id w, wa_collection_case_id = wo_case_id w, wa_invoice_id = wo_invoice_id w,
     wa_customer_id = wo_customer_id w, wa_customer_name = company_name c, wa_invoice_amount = inv_amount i,
     wa_proposed_by = wo_proposed_by w, wa_reviewed_by = wo_reviewed_by w,
     wa_settlement_amount = wo_settlement_amount w,
     wa_implied_write_off_amount = wo_implied_write_off_amount w, wa_status = wo_status w,
     wa_notes = wo_notes w, wa_review_notes = wo_review_notes w, wa_reviewed_at = wo_reviewed_at w,
     wa_created_at = wo_created_at w, wa_updated_at = wo_updated_at w\<rparr>"

definition joined_approval :: "ledger \<Rightarrow> write_off_row \<Rightarrow> WriteOffApproval option" where
  "joined_approval db w =
     Option.bind (customer_of (wo_customer_id w) db) (\<lambda>c.
     Option.bind (invoice_of (wo_invoice_id w) db) (\<lambda>i. Some (mapApprovalRow w c i)))"

definition loadCaseAndInvoice ::
  "string \<Rightarrow> ledger \<Rightarrow> (case_row \<times> invoice_row \<times> customer_row) option" where
  "loadCaseAndInvoice collectionCaseId db =
     Option.bind (case_of collectionCaseId db) (\<lambda>cc.
     Option.bind (invoice_of (cc_invoice_id cc) db) (\<lambda>i.
     Option.bind (customer_of (inv_customer_id i) db) (\<lambda>c. Some (cc, i, c))))"

definition listWriteOffApprovals ::
  "WriteOffApprovalStatus option \<Rightarrow> int option \<Rightarrow> int option \<Rightarrow> ledger \<Rightarrow> app_error + WriteOffApproval list" where
  "listWriteOffApprovals status lmt ofs db =
     (let lmt' = min (max (case lmt of None \<Rightarrow> 50 | Some l \<Rightarrow> l) 1) 200;
          ofs' = max (case ofs of None \<Rightarrow> 0 | Some k \<Rightarrow> k) 0
      in db_res (sql_page lmt' ofs'
           (sort_key (\<lambda>w. - wa_created_at w)
             (List.map_filter (joined_approval db)
               (filter (\<lambda>w. case status of None \<Rightarrow> True | Some s \<Rightarrow> wo_status w = s) (write_offs db))))))"

definition write_off_of :: "string \<Rightarrow> ledger \<Rightarrow> write_off_row option" where
  "write_off_of k db = find_row wo_id k (write_offs db)"

definition getWriteOffApproval :: "string \<Rightarrow> ledger \<Rightarrow> WriteOffApproval option" where
  "getWriteOffApproval approvalId db = Option.bind (write_off_of approvalId db) (joined_approval db)"

definition getLatestWriteOffApprovalForCase :: "string \<Rightarrow> ledger \<Rightarrow> WriteOffApproval option" where
  "getLatestWriteOffApprovalForCase collectionCaseId db =
     first_by (\<lambda>w. - wa_created_at w) (\<lambda>w. True)
       (List.map_filter (joined_approval db) (filter (\<lambda>w. wo_case_id w = collectionCaseId) (write_offs db)))"

section \<open>Mutations\<close>

definition case_status_msg :: "CollectionCaseStatus \<Rightarrow> string" where
  "case_status_msg s = (case s of C_open \<Rightarrow> ''open'' | C_resolved \<Rightarrow> ''resolved''
     | C_escalated \<Rightarrow> ''escalated'' | C_written_off \<Rightarrow> ''written_off'')"

definition settle_case :: "timestamp \<Rightarrow> CollectionCaseStatus \<Rightarrow> case_row \<Rightarrow> case_row" where
  "settle_case now s c = c\<lparr>cc_status := s, cc_resolution_type := Some R_settlement,
     cc_resolved_at := Some now, cc_updated_at := now\<rparr>"

definition settlement_statuses :: "money \<Rightarrow> money \<Rightarrow> InvoiceStatus \<times> CollectionCaseStatus" where
  "settlement_statuses invoice_amount settlement_amount =
     (let remaining = max 0 (invoice_amount - settlement_amount) in
      if remaining > 0 then (I_written_off, C_written_off) else (I_settled, C_resolved))"

definition settlement_event ::
  "timestamp \<Rightarrow> string \<Rightarrow> string \<Rightarrow> string \<Rightarrow> money \<Rightarrow> money \<Rightarrow> audit_event" where
  "settlement_event now review_status actor case_id invoice_amount settlement_amount =
     (let (invoiceStatus, caseStatus) = settlement_statuses invoice_amount settlement_amount in \<lparr>
        ev_actor_id = actor, ev_action = ''write_off_approval.'' @ review_status,
        ev_entity_type = ''collection_case'', ev_entity_id = case_id,
        ev_before = Some [(''invoice_status'', AV_text ''in_collection''), (''case_status'', AV_text ''open'')],
        ev_after = Some [(''invoice_status'', AV_text (status_msg invoiceStatus)),
          (''case_status'', AV_text (case_status_msg caseStatus)),
          (''resolution_type'', AV_text ''settlement''), (''settlement_amount'', AV_num settlement_amount)],
        ev_ts = now\<rparr>)"

definition applySettlement ::
  "timestamp \<Rightarrow> string \<Rightarrow> string \<Rightarrow> money \<Rightarrow> money \<Rightarrow> ledger \<Rightarrow> app_error + (SettlementApplication \<times> ledger)" where
  "applySettlement now case_id invoice_id invoice_amount settlement_amount db =
     (let (invoiceStatus, caseStatus) = settlement_statuses invoice_amount settlement_amount in
      bind_res (sql_update_invoice_status now invoice_id invoiceStatus db) (\<lambda>db1.
        Inr (\<lparr>sa_case_id = case_id, sa_invoice_id = invoice_id, sa_invoice_status = invoiceStatus,
              sa_case_status = caseStatus, sa_resolution_type = R_settlement\<rparr>,
             sql_update_case case_id (settle_case now caseStatus) db1)))"

definition requested_event :: "timestamp \<Rightarrow> string \<Rightarrow> write_off_row \<Rightarrow> audit_event" where
  "requested_event now actor w = \<lparr>
     ev_actor_id = actor, ev_action = ''write_off_approval.requested'',
     ev_entity_type = ''write_off_approval'', ev_entity_id = wo_id w, ev_before = None,
     ev_after = Some [(''collection_case_id'', AV_text (wo_case_id w)), (''invoice_id'', AV_text (wo_invoice_id w)),
       (''customer_id'', AV_text (wo_customer_id w)), (''settlement_amount'', AV_num (wo_settlement_amount w)),
       (''implied_write_off_amount'', AV_num (wo_implied_write_off_amount w)),
       (''status'', AV_text ''pending_approval'')],
     ev_ts = now\<rparr>"

definition proposeSettlement ::
  "(string list \<Rightarrow> string) \<Rightarrow> timestamp \<Rightarrow> rat option \<Rightarrow> SettlementProposal \<Rightarrow> ledger
     \<Rightarrow> app_error + ((SettlementProposalOutcome \<times> audit_event list) \<times> ledger)" where
  "proposeSettlement uuid now threshold input db =
     bind_res (require (0 < sp_settlement_amount input) (Thrown ''settlement_amount must be a positive number'')) (\<lambda>_.
     case loadCaseAndInvoice (sp_collection_case_id input) db of
       None \<Rightarrow> Inl (Thrown (''Collection case not found: '' @ sp_collection_case_id input))
     | Some (cc, i, c) \<Rightarrow>
         bind_res (require (cc_status cc = C_open)
           (Thrown (''Collection case '' @ sp_collection_case_id input @ '' is not open''))) (\<lambda>_.
         bind_res (require (sp_settlement_amount input \<le> inv_amount i)
           (Thrown ''settlement_amount cannot exceed the invoice amount'')) (\<lambda>_.
         let implied = max 0 (inv_amount i - sp_settlement_amount input) in
         if exceeds implied threshold then
           bind_res (numeric_18_2 (sp_settlement_amount input)) (\<lambda>amount.
           bind_res (numeric_18_2 implied) (\<lambda>write_off.
           let w = \<lparr>wo_id = uuid (map wo_id (write_offs db)), wo_case_id = sp_collection_case_id input,
                 wo_invoice_id = inv_id i, wo_customer_id = cust_id c, wo_proposed_by = sp_proposed_by input,
                 wo_reviewed_by = None, wo_settlement_amount = amount, wo_implied_write_off_amount = write_off,
                 wo_status = W_pending_approval, wo_notes = sp_notes input, wo_review_notes = None,
                 wo_reviewed_at = None, wo_created_at = now, wo_updated_at = now\<rparr>
           in bind_res (sql_insert_write_off w db) (\<lambda>db'.
              Inr ((\<lparr>so_approval = Some (mapApprovalRow w c i), so_auto_approved = False, so_settlement = None\<rparr>,
                    if sp_has_audit_writer input then [requested_event now (sp_actor_id input) w] else []), db'))))
         else
           bind_res (applySettlement now (sp_collection_case_id input) (inv_id i) (inv_amount i)
               (sp_settlement_amount input) db) (\<lambda>(settlement, db').
             Inr ((\<lparr>so_approval = None, so_auto_approved = True, so_settlement = Some settlement\<rparr>,
                   if sp_has_audit_writer input
                   then [settlement_event now ''auto_approved'' (sp_actor_id input) (sp_collection_case_id input)
                           (inv_amount i) (sp_settlement_amount input)] else []), db')))))"

definition decision_status :: "WriteOffApprovalDecision \<Rightarrow> WriteOffApprovalStatus" where
  "decision_status d = (case d of D_approved \<Rightarrow> W_approved | D_rejected \<Rightarrow> W_rejected)"

definition review_row :: "timestamp \<Rightarrow> ApprovalDecision \<Rightarrow> write_off_row \<Rightarrow> write_off_row" where
  "review_row now input w = w\<lparr>wo_status := decision_status (ad_decision input),
     wo_reviewed_by := Some (ad_reviewed_by input), wo_review_notes := ad_review_notes input,
     wo_reviewed_at := Some now, wo_updated_at := now\<rparr>"

definition rejected_event :: "timestamp \<Rightarrow> ApprovalDecision \<Rightarrow> audit_event" where
  "rejected_event now input = \<lparr>
     ev_actor_id = ad_actor_id input, ev_action = ''write_off_approval.rejected'',
     ev_entity_type = ''write_off_approval'', ev_entity_id = ad_approval_id input,
     ev_before = Some [(''status'', AV_text ''pending_approval'')],
     ev_after = Some [(''status'', AV_text ''rejected''), (''review_notes'',
       case ad_review_notes input of None \<Rightarrow> AV_null | Some n \<Rightarrow> AV_text n)],
     ev_ts = now\<rparr>"

text \<open>The settlement of an approved request, before the request itself is updated.\<close>

definition settle_approved ::
  "timestamp \<Rightarrow> ApprovalDecision \<Rightarrow> WriteOffApproval \<Rightarrow> ledger
     \<Rightarrow> app_error + ((SettlementApplication option \<times> audit_event list) \<times> ledger)" where
  "settle_approved now input current db =
     (case loadCaseAndInvoice (wa_collection_case_id current) db of
        None \<Rightarrow> Inl (Thrown (''Collection case not found: '' @ wa_collection_case_id current))
      | Some (cc, i, c) \<Rightarrow>
          bind_res (require (cc_status cc = C_open)
            (Thrown (''Collection case '' @ wa_collection_case_id current @ '' is not open''))) (\<lambda>_.
          bind_res (applySettlement now (wa_collection_case_id current) (wa_invoice_id current) (inv_amount i)
              (wa_settlement_amount current) db) (\<lambda>(settlement, db').
            Inr ((Some settlement,
                  if ad_has_audit_writer input
                  then [settlement_event now ''approved'' (ad_actor_id input) (wa_collection_case_id current)
                          (inv_amount i) (wa_settlement_amount current)] else []), db'))))"

definition decideWriteOffApproval ::
  "timestamp \<Rightarrow> ApprovalDecision \<Rightarrow> ledger
     \<Rightarrow> app_error + ((WriteOffApproval \<times> SettlementApplication option \<times> audit_event list) \<times> ledger)" where
  "decideWriteOffApproval now input db =
     (case getWriteOffApproval (ad_approval_id input) db of
        None \<Rightarrow> Inl (Thrown (''Write-off approval not found: '' @ ad_approval_id input))
      | Some current \<Rightarrow>
          bind_res (require (wa_status current = W_pending_approval)
            (Thrown (''Write-off approval '' @ ad_approval_id input @ '' is not pending''))) (\<lambda>_.
          bind_res
            (if ad_decision input = D_approved then settle_approved now input current db
             else Inr ((None, if ad_has_audit_writer input then [rejected_event now input] else []), db))
            (\<lambda>((settlement, events), db1).
              let db2 = sql_update_write_off (ad_approval_id input) (review_row now input) db1 in
              case getWriteOffApproval (ad_approval_id input) db2 of
                None \<Rightarrow> Inl (Thrown ''no row returned'')
              | Some updated \<Rightarrow> Inr ((updated, settlement, events), db2))))"

section \<open>Contracts\<close>

interpretation settle_case: row_update cc_id "settle_case now s" for now s
  by unfold_locales (simp add: settle_case_def)

interpretation close_case: case_update "settle_case now (snd (settlement_statuses a b))" for now a b
  by unfold_locales (auto simp: settle_case_def settlement_statuses_def Let_def split: if_splits)

interpretation review_row: row_update wo_id "review_row now input" for now input
  by unfold_locales (simp add: review_row_def)

lemma keeps_applySettlement:
  assumes "applySettlement now cid iid a b db = Inr (r, db')"
  shows "keeps db db'"
proof -
  obtain db1 where 1: "sql_update_invoice_status now iid (fst (settlement_statuses a b)) db = Inr db1"
    "db' = sql_update_case cid (settle_case now (snd (settlement_statuses a b))) db1"
    using assms by (auto simp: applySettlement_def bind_res_Inr_iff split: prod.splits)
  from keeps_stmts(8) [OF 1(1)] close_case.keeps_case 1(2) show ?thesis by (auto intro: keeps_trans)
qed

lemma sound_proposeSettlement: "sound (proposeSettlement uuid now threshold input)"
  unfolding sound_def
  by (auto simp: proposeSettlement_def bind_res_Inr_iff Let_def split: option.splits prod.splits if_splits
      intro: keeps_stmts(5) keeps_applySettlement)

lemma keeps_review: "keeps db (sql_update_write_off k (review_row now input) db)"
  by (rule keeps_update_write_off) (simp_all add: review_row_def)

lemma sound_decideWriteOffApproval: "sound (decideWriteOffApproval now input)"
  unfolding sound_def
  by (auto simp: decideWriteOffApproval_def settle_approved_def bind_res_Inr_iff Let_def
      split: option.splits prod.splits if_splits
      intro: keeps_review keeps_trans [OF keeps_applySettlement keeps_review])

section \<open>Applying a settlement\<close>

lemma status_of_set_status:
  assumes "sql_update_invoice_status now k s db = Inr db1"
  shows "status_of j db1 = (if j = k \<and> status_of j db \<noteq> None then Some s else status_of j db)"
proof (cases "invoice_of j db")
  case (Some r)
  then have "inv_id r = j" by (auto simp: invoice_of_def dest: find_row_key)
  with Some show ?thesis using invoice_of_set_status [OF assms, of j] by (simp add: status_of_def)
qed (use invoice_of_set_status [OF assms, of j] in \<open>simp add: status_of_def\<close>)

lemma status_guard:
  assumes "sql_update_invoice_status now k s db = Inr db1" and "status_of k db = Some s0"
  shows "guard_invoice_status_transition s0 s"
proof -
  obtain r where "invoice_of k db = Some r" "inv_status r = s0" using assms(2) by (auto simp: status_of_def)
  then have "r \<in> set (invoices db)" "inv_id r = k" "inv_status r = s0"
    by (auto simp: invoice_of_def dest: find_row_SomeD)
  with assms(1) show ?thesis by (auto simp: sql_update_invoice_status_def sql_update_invoice_Inr)
qed

lemma settlement_statuses_eq:
  "settlement_statuses a b = (if b < a then (I_written_off, C_written_off) else (I_settled, C_resolved))"
  by (auto simp: settlement_statuses_def Let_def)

lemma settlement_statuses_sel [simp]:
  "fst (settlement_statuses a b) = (if b < a then I_written_off else I_settled)"
  "snd (settlement_statuses a b) = (if b < a then C_written_off else C_resolved)"
  by (auto simp: settlement_statuses_def Let_def)

lemma settlement_guard:
  assumes "guard_invoice_status_transition s (fst (settlement_statuses a b))"
    and "s \<noteq> fst (settlement_statuses a b)"
  shows "s = I_in_collection"
  using assms by (cases s) (auto simp: guard_invoice_status_transition_def split: if_splits)

lemma applySettlement_InrD:
  assumes "applySettlement now cid iid a b db = Inr (r, db')"
  shows "\<exists>db1. sql_update_invoice_status now iid (fst (settlement_statuses a b)) db = Inr db1
    \<and> db' = sql_update_case cid (settle_case now (snd (settlement_statuses a b))) db1"
  using assms by (auto simp: applySettlement_def bind_res_Inr_iff settlement_statuses_eq split: if_splits)

lemma applySettlement_write_offs: "applySettlement now cid iid a b db = Inr (r, db') \<Longrightarrow> write_offs db' = write_offs db"
  by (auto simp: sql_update_case_def sql_update_invoice_status_def sql_update_invoice_Inr dest!: applySettlement_InrD)

lemma applySettlement_changes:
  assumes "applySettlement now cid iid a b db = Inr (r, db')" and "status_of k db' \<noteq> status_of k db"
  shows "k = iid \<and> status_of k db = Some I_in_collection \<and> status_of k db' = Some (fst (settlement_statuses a b))"
proof -
  obtain db1 where 1: "sql_update_invoice_status now iid (fst (settlement_statuses a b)) db = Inr db1"
    "db' = sql_update_case cid (settle_case now (snd (settlement_statuses a b))) db1"
    using applySettlement_InrD [OF assms(1)] by blast
  have "status_of k db' = status_of k db1" using 1(2) by (simp add: status_of_def invoice_of_def sql_update_case_def)
  with status_of_set_status [OF 1(1), of k] assms(2) obtain s where k: "k = iid" "status_of k db = Some s"
    "status_of k db' = Some (fst (settlement_statuses a b))" "s \<noteq> fst (settlement_statuses a b)"
    by (auto split: if_splits)
  with settlement_guard status_guard [OF 1(1), of s] show ?thesis by auto
qed

lemma applySettlement_ok:
  assumes "ledger_wf db" and "status_of iid db = Some I_in_collection" and "case_of cid db = Some c"
  shows "\<exists>r db'. applySettlement now cid iid a b db = Inr (r, db')
    \<and> status_of iid db' = Some (fst (settlement_statuses a b))
    \<and> case_of cid db' = Some (settle_case now (snd (settlement_statuses a b)) c)
    \<and> write_offs db' = write_offs db \<and> ledger_wf db'"
proof -
  obtain r where r: "invoice_of iid db = Some r" "inv_status r = I_in_collection"
    using assms(2) by (auto simp: status_of_def)
  have "guard_invoice_status_transition (inv_status r) (fst (settlement_statuses a b))"
    using r(2) by (simp add: guard_invoice_status_transition_def)
  from set_status_ok [OF assms(1) r(1) this, of now] obtain t where
    upd: "sql_update_invoice_status now iid (fst (settlement_statuses a b)) db = Inr (db\<lparr>invoices := t\<rparr>)" by blast
  let ?db' = "sql_update_case cid (settle_case now (snd (settlement_statuses a b))) (db\<lparr>invoices := t\<rparr>)"
  obtain x where run: "applySettlement now cid iid a b db = Inr (x, ?db')"
    using upd by (cases "b < a") (auto simp: applySettlement_def settlement_statuses_eq)
  have "ledger_wf ?db'" using keeps_applySettlement [OF run] assms(1) by (simp add: keeps_def)
  moreover have "status_of iid ?db' = Some (fst (settlement_statuses a b))"
    using status_of_set_status [OF upd, of iid] assms(2)
    by (auto simp: status_of_def invoice_of_def sql_update_case_def)
  moreover have "case_of cid ?db' = Some (settle_case now (snd (settlement_statuses a b)) c)"
    using assms(3) by (simp add: case_of_def sql_update_case_def settle_case.find_update_self)
  ultimately show ?thesis using run by (auto simp: sql_update_case_def)
qed

section \<open>Properties\<close>

lemma decide_InrD:
  assumes "decideWriteOffApproval now input db = Inr (out, db')"
  shows "\<exists>w current db1. write_off_of (ad_approval_id input) db = Some w
    \<and> joined_approval db w = Some current \<and> wo_status w = W_pending_approval
    \<and> db' = sql_update_write_off (ad_approval_id input) (review_row now input) db1
    \<and> (if ad_decision input = D_approved
       then (\<exists>cc i c r. loadCaseAndInvoice (wo_case_id w) db = Some (cc, i, c) \<and> cc_status cc = C_open
         \<and> applySettlement now (wo_case_id w) (wo_invoice_id w) (inv_amount i) (wo_settlement_amount w) db = Inr (r, db1))
       else db1 = db)"
proof -
  obtain current where cur: "getWriteOffApproval (ad_approval_id input) db = Some current"
    "wa_status current = W_pending_approval"
    using assms by (auto simp: decideWriteOffApproval_def bind_res_Inr_iff split: option.splits)
  obtain w where w: "write_off_of (ad_approval_id input) db = Some w" "joined_approval db w = Some current"
    using cur(1) by (auto simp: getWriteOffApproval_def bind_eq_Some_conv)
  have f: "wa_status current = wo_status w" "wa_collection_case_id current = wo_case_id w"
    "wa_invoice_id current = wo_invoice_id w" "wa_settlement_amount current = wo_settlement_amount w"
    using w(2) by (auto simp: joined_approval_def bind_eq_Some_conv mapApprovalRow_def)
  from assms cur w f show ?thesis
    by (auto simp: decideWriteOffApproval_def settle_approved_def bind_res_Inr_iff Let_def
        split: option.splits prod.splits if_splits)
qed

lemma propose_InrD:
  assumes "proposeSettlement uuid now threshold input db = Inr (out, db')"
  shows "\<exists>cc i c. loadCaseAndInvoice (sp_collection_case_id input) db = Some (cc, i, c)
    \<and> cc_status cc = C_open \<and> 0 < sp_settlement_amount input \<and> sp_settlement_amount input \<le> inv_amount i
    \<and> (if exceeds (inv_amount i - sp_settlement_amount input) threshold then \<exists>w. db' = db\<lparr>write_offs := write_offs db @ [w]\<rparr>
       else \<exists>r. applySettlement now (sp_collection_case_id input) (inv_id i) (inv_amount i)
         (sp_settlement_amount input) db = Inr (r, db'))"
proof -
  have ins: "d' = d\<lparr>write_offs := write_offs d @ [w]\<rparr>" if "sql_insert_write_off w d = Inr d'" for w d d'
    using that by (auto simp: sql_insert_Inr_iffs)
  show ?thesis
    using assms
    by (auto simp: proposeSettlement_def bind_res_Inr_iff Let_def max_absorb2
        split: option.splits prod.splits if_splits dest: ins)
qed

lemma decision_changes:
  assumes "decideWriteOffApproval now decision db = Inr (out, db')" and "status_of k db' \<noteq> status_of k db"
  shows "ad_decision decision = D_approved \<and> status_of k db = Some I_in_collection
    \<and> (\<exists>w. write_off_of (ad_approval_id decision) db = Some w \<and> wo_status w = W_pending_approval
      \<and> wo_invoice_id w = k \<and> write_off_of (ad_approval_id decision) db' = Some (review_row now decision w))
    \<and> status_of k db' \<in> {Some I_settled, Some I_written_off}"
proof -
  obtain w current db1 where w: "write_off_of (ad_approval_id decision) db = Some w" "wo_status w = W_pending_approval"
    "db' = sql_update_write_off (ad_approval_id decision) (review_row now decision) db1"
    and eff: "if ad_decision decision = D_approved
       then (\<exists>cc i c r. loadCaseAndInvoice (wo_case_id w) db = Some (cc, i, c) \<and> cc_status cc = C_open
         \<and> applySettlement now (wo_case_id w) (wo_invoice_id w) (inv_amount i) (wo_settlement_amount w) db = Inr (r, db1))
       else db1 = db"
    using decide_InrD [OF assms(1)] by blast
  have st: "status_of k db' = status_of k db1"
    by (simp add: w(3) status_of_def invoice_of_def sql_update_write_off_def)
  have app: "ad_decision decision = D_approved"
  proof (rule ccontr)
    assume "\<not> ?thesis"
    with eff st assms(2) show False by simp
  qed
  with eff obtain cc i c r where load: "loadCaseAndInvoice (wo_case_id w) db = Some (cc, i, c)"
    and apl: "applySettlement now (wo_case_id w) (wo_invoice_id w) (inv_amount i) (wo_settlement_amount w) db = Inr (r, db1)"
    by auto
  have "write_offs db1 = write_offs db" using applySettlement_write_offs [OF apl] .
  then have "write_off_of (ad_approval_id decision) db' = Some (review_row now decision w)"
    using w(1,3) by (simp add: write_off_of_def sql_update_write_off_def review_row.find_update_self)
  with applySettlement_changes [OF apl, of k] assms(2) st app w(1,2) show ?thesis
    by auto
qed

text \<open>C5: No invoice is settled or written off without authority. A proposal changes an invoice only if
  that is the in-collection invoice of an open case, the settlement is positive and at most its amount,
  and the implied write-off does not exceed the threshold; a decision changes an invoice only by
  approving a pending request for it. The new status is \<^verbatim>\<open>written_off\<close> when an amount remains and
  \<^verbatim>\<open>settled\<close> otherwise.\<close>

theorem write_off_authorised:
  "(\<forall>out db' k. proposeSettlement uuid now threshold input db = Inr (out, db') \<and> status_of k db' \<noteq> status_of k db
     \<longrightarrow> (\<exists>c i. case_of (sp_collection_case_id input) db = Some c \<and> cc_status c = C_open
       \<and> cc_invoice_id c = k \<and> invoice_of k db = Some i \<and> inv_status i = I_in_collection
       \<and> 0 < sp_settlement_amount input \<and> sp_settlement_amount input \<le> inv_amount i
       \<and> \<not> exceeds (inv_amount i - sp_settlement_amount input) threshold
       \<and> status_of k db' = Some (if sp_settlement_amount input < inv_amount i then I_written_off else I_settled)))
   \<and> (\<forall>out db' k. decideWriteOffApproval now decision db = Inr (out, db') \<and> status_of k db' \<noteq> status_of k db
     \<longrightarrow> ad_decision decision = D_approved \<and> status_of k db = Some I_in_collection
       \<and> (\<exists>w. write_off_of (ad_approval_id decision) db = Some w \<and> wo_status w = W_pending_approval
         \<and> wo_invoice_id w = k \<and> write_off_of (ad_approval_id decision) db' = Some (review_row now decision w))
       \<and> status_of k db' \<in> {Some I_settled, Some I_written_off})"
proof (intro conjI allI impI)
  fix out db' k
  assume "proposeSettlement uuid now threshold input db = Inr (out, db') \<and> status_of k db' \<noteq> status_of k db"
  then have run: "proposeSettlement uuid now threshold input db = Inr (out, db')"
    and diff: "status_of k db' \<noteq> status_of k db" by simp_all
  from propose_InrD [OF run] obtain cc i c where row: "loadCaseAndInvoice (sp_collection_case_id input) db = Some (cc, i, c)"
    "cc_status cc = C_open" "0 < sp_settlement_amount input" "sp_settlement_amount input \<le> inv_amount i"
    and eff: "if exceeds (inv_amount i - sp_settlement_amount input) threshold
      then \<exists>w. db' = db\<lparr>write_offs := write_offs db @ [w]\<rparr>
      else \<exists>r. applySettlement now (sp_collection_case_id input) (inv_id i) (inv_amount i) (sp_settlement_amount input) db = Inr (r, db')"
    by blast
  from row(1) have cc: "case_of (sp_collection_case_id input) db = Some cc" "invoice_of (cc_invoice_id cc) db = Some i"
    by (auto simp: loadCaseAndInvoice_def bind_eq_Some_conv)
  then have id: "inv_id i = cc_invoice_id cc" by (auto simp: invoice_of_def dest: find_row_SomeD)
  have no: "\<not> exceeds (inv_amount i - sp_settlement_amount input) threshold"
    using eff diff by (auto simp: status_of_def invoice_of_def split: if_splits)
  then obtain r where "applySettlement now (sp_collection_case_id input) (inv_id i) (inv_amount i) (sp_settlement_amount input) db = Inr (r, db')"
    using eff by auto
  from applySettlement_changes [OF this diff] cc id row no
  show "\<exists>c i. case_of (sp_collection_case_id input) db = Some c \<and> cc_status c = C_open
       \<and> cc_invoice_id c = k \<and> invoice_of k db = Some i \<and> inv_status i = I_in_collection
       \<and> 0 < sp_settlement_amount input \<and> sp_settlement_amount input \<le> inv_amount i
       \<and> \<not> exceeds (inv_amount i - sp_settlement_amount input) threshold
       \<and> status_of k db' = Some (if sp_settlement_amount input < inv_amount i then I_written_off else I_settled)"
    by (auto simp: status_of_def)
next
  fix out db' k
  assume "decideWriteOffApproval now decision db = Inr (out, db') \<and> status_of k db' \<noteq> status_of k db"
  then have run: "decideWriteOffApproval now decision db = Inr (out, db')"
    and diff: "status_of k db' \<noteq> status_of k db" by simp_all
  note d = decision_changes [OF run diff]
  then show "ad_decision decision = D_approved" "status_of k db = Some I_in_collection"
    "\<exists>w. write_off_of (ad_approval_id decision) db = Some w \<and> wo_status w = W_pending_approval
       \<and> wo_invoice_id w = k \<and> write_off_of (ad_approval_id decision) db' = Some (review_row now decision w)"
    "status_of k db' \<in> {Some I_settled, Some I_written_off}" by blast+
qed

definition demo_proposal :: "rat \<Rightarrow> SettlementProposal" where
  "demo_proposal amount = \<lparr>sp_collection_case_id = ''k'', sp_settlement_amount = amount, sp_notes = None,
     sp_proposed_by = ''agent'', sp_actor_id = ''agent'', sp_has_audit_writer = True\<rparr>"

lemma demo_load:
  "\<exists>i c. loadCaseAndInvoice ''k'' (demo_case_ledger s) = Some (demo_case, i, c) \<and> inv_amount i = 100
    \<and> inv_id i = ''i'' \<and> inv_status i = s"
  by (simp add: loadCaseAndInvoice_def demo_case_ledger_def demo_ledger_def empty_ledger_def demo_case_def
      case_of_def invoice_of_def customer_of_def)

lemma demo_case_ledger_of:
  "case_of ''k'' (demo_case_ledger s) = Some demo_case" "status_of ''i'' (demo_case_ledger s) = Some s"
  "write_offs (demo_case_ledger s) = []"
  by (simp_all add: demo_case_ledger_def demo_ledger_def empty_ledger_def demo_case_def case_of_def
      status_of_def invoice_of_def)

text \<open>The outcome of a proposal on an open case, on every branch. An invalid amount is an error; a
  write-off above the threshold only adds a pending request; any other settles the in-collection invoice
  and closes the case at once, adding no request; for a paid invoice the settlement is an error.\<close>

theorem propose_outcome:
  assumes "ledger_wf db" and "fresh uuid"
    and "loadCaseAndInvoice (sp_collection_case_id input) db = Some (cc, i, c)" and "cc_status cc = C_open"
    and "numeric_18_2 (sp_settlement_amount input) = Inr amount"
    and "numeric_18_2 (inv_amount i - sp_settlement_amount input) = Inr write_off"
  shows "if sp_settlement_amount input \<le> 0 \<or> inv_amount i < sp_settlement_amount input
    then \<exists>e. proposeSettlement uuid now threshold input db = Inl e
    else if exceeds (inv_amount i - sp_settlement_amount input) threshold
    then \<exists>out w. proposeSettlement uuid now threshold input db = Inr (out, db\<lparr>write_offs := write_offs db @ [w]\<rparr>)
      \<and> wo_status w = W_pending_approval \<and> wo_case_id w = sp_collection_case_id input
      \<and> wo_invoice_id w = inv_id i \<and> wo_settlement_amount w = amount
      \<and> wo_implied_write_off_amount w = write_off
    else if inv_status i = I_in_collection
    then \<exists>out db' cc'. proposeSettlement uuid now threshold input db = Inr (out, db')
      \<and> so_auto_approved (fst out) \<and> write_offs db' = write_offs db
      \<and> status_of (inv_id i) db' = Some (if sp_settlement_amount input < inv_amount i then I_written_off else I_settled)
      \<and> case_of (sp_collection_case_id input) db' = Some cc' \<and> cc_resolution_type cc' = Some R_settlement
      \<and> cc_status cc' = (if sp_settlement_amount input < inv_amount i then C_written_off else C_resolved)
    else inv_status i = I_paid \<longrightarrow> (\<exists>e. proposeSettlement uuid now threshold input db = Inl e)"
proof -
  let ?s = "sp_settlement_amount input" and ?cid = "sp_collection_case_id input"
  have rows: "case_of ?cid db = Some cc" "invoice_of (cc_invoice_id cc) db = Some i"
    "customer_of (inv_customer_id i) db = Some c"
    using assms(3) by (auto simp: loadCaseAndInvoice_def bind_eq_Some_conv)
  then have i: "i \<in> set (invoices db)" "inv_id i = cc_invoice_id cc" "c \<in> set (customers db)" "cc \<in> set (cases db)" "cc_id cc = ?cid"
    by (auto simp: case_of_def invoice_of_def customer_of_def dest: find_row_SomeD)
  have stat: "status_of (inv_id i) db = Some (inv_status i)" using rows(2) i(2) by (simp add: status_of_def)
  show ?thesis
  proof (cases "?s \<le> 0 \<or> inv_amount i < ?s")
    case True
    then show ?thesis using assms(3,4) by (auto simp: proposeSettlement_def require_def)
  next
    case valid: False
    then have implied: "max 0 (inv_amount i - ?s) = inv_amount i - ?s" by simp
    show ?thesis
    proof (cases "exceeds (inv_amount i - ?s) threshold")
      case True
      let ?w = "\<lparr>wo_id = uuid (map wo_id (write_offs db)), wo_case_id = ?cid, wo_invoice_id = inv_id i,
        wo_customer_id = cust_id c, wo_proposed_by = sp_proposed_by input, wo_reviewed_by = None,
        wo_settlement_amount = amount, wo_implied_write_off_amount = write_off,
        wo_status = W_pending_approval, wo_notes = sp_notes input, wo_review_notes = None,
        wo_reviewed_at = None, wo_created_at = now, wo_updated_at = now\<rparr>"
      have "wo_id ?w \<notin> wo_id ` set (write_offs db)"
        using assms(2) by (simp add: fresh_def) (metis set_map)
      moreover have "?cid \<in> cc_id ` set (cases db)" using i(4,5) by (metis imageI)
      ultimately have "sql_insert_write_off ?w db = Inr (db\<lparr>write_offs := write_offs db @ [?w]\<rparr>)"
        using i(1,3) by (simp add: sql_insert_Inr_iffs)
      with True valid implied assms(3-6) obtain out where run:
        "proposeSettlement uuid now threshold input db = Inr (out, db\<lparr>write_offs := write_offs db @ [?w]\<rparr>)"
        by (simp add: proposeSettlement_def require_def Let_def)
      have "\<exists>out w. proposeSettlement uuid now threshold input db = Inr (out, db\<lparr>write_offs := write_offs db @ [w]\<rparr>)
          \<and> wo_status w = W_pending_approval \<and> wo_case_id w = ?cid \<and> wo_invoice_id w = inv_id i
          \<and> wo_settlement_amount w = amount \<and> wo_implied_write_off_amount w = write_off"
        by (rule exI [of _ out], rule exI [of _ ?w]) (simp add: run)
      with True valid show ?thesis by simp
    next
      case no: False
      have run: "proposeSettlement uuid now threshold input db =
          bind_res (applySettlement now ?cid (inv_id i) (inv_amount i) ?s db) (\<lambda>(settlement, db').
             Inr ((\<lparr>so_approval = None, so_auto_approved = True, so_settlement = Some settlement\<rparr>,
                   if sp_has_audit_writer input
                   then [settlement_event now ''auto_approved'' (sp_actor_id input) ?cid (inv_amount i) ?s] else []), db'))"
        using no valid implied assms(3,4) by (simp add: proposeSettlement_def require_def Let_def)
      show ?thesis
      proof (cases "inv_status i = I_in_collection")
        case True
        with applySettlement_ok [OF assms(1) _ rows(1), of "inv_id i" now "inv_amount i" ?s] stat no valid run
        show ?thesis by (auto simp: settle_case_def)
      next
        case False
        have "\<exists>e. applySettlement now ?cid (inv_id i) (inv_amount i) ?s db = Inl e" if "inv_status i = I_paid"
        proof (cases "applySettlement now ?cid (inv_id i) (inv_amount i) ?s db")
          case (Inr x)
          then obtain r db' where "applySettlement now ?cid (inv_id i) (inv_amount i) ?s db = Inr (r, db')" by (cases x) auto
          with status_guard stat that have "guard_invoice_status_transition I_paid (fst (settlement_statuses (inv_amount i) ?s))"
            by (metis applySettlement_InrD)
          then show ?thesis by (simp add: guard_invoice_status_transition_def split: if_splits)
        qed simp
        with False no valid run show ?thesis by auto
      qed
    qed
  qed
qed

theorem propose_outcome_witness:
  "\<exists>out w. proposeSettlement long_uuid 0 (Some 30) (demo_proposal 60) (demo_case_ledger I_in_collection) =
      Inr (out, (demo_case_ledger I_in_collection)\<lparr>write_offs := [w]\<rparr>) \<and> wo_status w = W_pending_approval"
proof -
  obtain i c where "loadCaseAndInvoice ''k'' (demo_case_ledger I_in_collection) = Some (demo_case, i, c)" "inv_amount i = 100"
    using demo_load by blast
  moreover have "numeric_18_2 60 = Inr 60" "numeric_18_2 40 = Inr 40"
    using numeric_cents [of 60] numeric_cents [of 40] by simp_all
  ultimately show ?thesis
    using propose_outcome [OF demo_case_ledger_wf fresh_long_uuid, of "demo_proposal 60" I_in_collection demo_case i c
        60 40 0 "Some 30"]
    by (auto simp: demo_proposal_def demo_case_def exceeds_def demo_case_ledger_of)
qed

theorem write_off_authorised_witness:
  "\<exists>out db' i. proposeSettlement long_uuid 0 None (demo_proposal 60) (demo_case_ledger I_in_collection) = Inr (out, db')
     \<and> invoice_of ''i'' (demo_case_ledger I_in_collection) = Some i \<and> inv_status i = I_in_collection
     \<and> status_of ''i'' db' = Some (if 60 < inv_amount i then I_written_off else I_settled)"
proof -
  obtain i c where load: "loadCaseAndInvoice ''k'' (demo_case_ledger I_in_collection) = Some (demo_case, i, c)"
    "inv_amount i = 100" "inv_id i = ''i''" using demo_load by blast
  obtain r db' where "applySettlement 0 ''k'' ''i'' 100 60 (demo_case_ledger I_in_collection) = Inr (r, db')"
    "status_of ''i'' db' = Some I_written_off"
    using applySettlement_ok [OF demo_case_ledger_wf demo_case_ledger_of(2,1), of 0 100 60] by auto
  then have "\<exists>out. proposeSettlement long_uuid 0 None (demo_proposal 60) (demo_case_ledger I_in_collection) = Inr (out, db')"
    using load by (simp add: proposeSettlement_def demo_proposal_def demo_case_def require_def exceeds_def Let_def)
  then obtain out where "proposeSettlement long_uuid 0 None (demo_proposal 60) (demo_case_ledger I_in_collection) = Inr (out, db')" ..
  moreover have "status_of ''i'' db' \<noteq> status_of ''i'' (demo_case_ledger I_in_collection)"
    using \<open>status_of ''i'' db' = Some I_written_off\<close> by (simp add: demo_case_ledger_of)
  ultimately show ?thesis
    using write_off_authorised [THEN conjunct1, rule_format, OF conjI, of long_uuid 0 None "demo_proposal 60"
        "demo_case_ledger I_in_collection" out db' "''i''"]
    by (auto simp: demo_proposal_def)
qed

lemma joined_exists:
  assumes "ledger_wf db" and "write_off_of k db = Some w"
  shows "\<exists>current. joined_approval db w = Some current \<and> wa_status current = wo_status w
    \<and> wa_collection_case_id current = wo_case_id w \<and> wa_invoice_id current = wo_invoice_id w
    \<and> wa_settlement_amount current = wo_settlement_amount w"
proof -
  have w: "w \<in> set (write_offs db)" using assms(2) by (auto simp: write_off_of_def dest: find_row_SomeD)
  have "wo_customer_id w \<in> cust_id ` set (customers db)" "wo_invoice_id w \<in> inv_id ` set (invoices db)"
    using assms(1) w by (auto simp: wf_defs)
  then have "customer_of (wo_customer_id w) db \<noteq> None" "invoice_of (wo_invoice_id w) db \<noteq> None"
    using find_row_None_iff [of cust_id "wo_customer_id w" "customers db"]
      find_row_None_iff [of inv_id "wo_invoice_id w" "invoices db"]
    by (auto simp: customer_of_def invoice_of_def)
  then show ?thesis by (auto simp: joined_approval_def mapApprovalRow_def)
qed

lemma reviewed_readable:
  assumes "ledger_wf db" and "write_off_of k db = Some w"
  shows "\<exists>u. getWriteOffApproval k (sql_update_write_off k (review_row now input) db) = Some u"
proof -
  let ?db = "sql_update_write_off k (review_row now input) db"
  have "ledger_wf ?db" using keeps_review assms(1) by (simp add: keeps_def)
  moreover have "write_off_of k ?db = Some (review_row now input w)"
    using assms(2) by (simp add: write_off_of_def sql_update_write_off_def review_row.find_update_self)
  ultimately show ?thesis using joined_exists [of ?db k "review_row now input w"] by (auto simp: getWriteOffApproval_def)
qed

text \<open>C36: The outcome of deciding a pending request whose case is the open case of an in-collection
  invoice. A rejection marks the request rejected and touches neither invoices nor cases; an approval
  marks it approved, settles or writes off the invoice and closes the case.\<close>

theorem decide_outcome:
  assumes "ledger_wf db" and "write_off_of (ad_approval_id input) db = Some w" and "wo_status w = W_pending_approval"
    and "loadCaseAndInvoice (wo_case_id w) db = Some (cc, i, c)" and "cc_status cc = C_open"
    and "inv_id i = wo_invoice_id w" and "inv_status i = I_in_collection"
  shows "\<exists>out db' w' cc'. decideWriteOffApproval now input db = Inr (out, db')
    \<and> write_off_of (ad_approval_id input) db' = Some w' \<and> wo_reviewed_by w' = Some (ad_reviewed_by input)
    \<and> case_of (wo_case_id w) db' = Some cc'
    \<and> (case ad_decision input of
         D_rejected \<Rightarrow> wo_status w' = W_rejected \<and> invoices db' = invoices db \<and> cases db' = cases db
       | D_approved \<Rightarrow> wo_status w' = W_approved
           \<and> status_of (inv_id i) db' = Some (if wo_settlement_amount w < inv_amount i then I_written_off else I_settled)
           \<and> cc_status cc' = (if wo_settlement_amount w < inv_amount i then C_written_off else C_resolved))"
proof -
  obtain cur where cur: "joined_approval db w = Some cur" "wa_status cur = wo_status w"
    "wa_collection_case_id cur = wo_case_id w" "wa_invoice_id cur = wo_invoice_id w"
    "wa_settlement_amount cur = wo_settlement_amount w"
    using joined_exists [OF assms(1,2)] by blast
  have get: "getWriteOffApproval (ad_approval_id input) db = Some cur"
    using assms(2) cur(1) by (simp add: getWriteOffApproval_def)
  have rows: "case_of (wo_case_id w) db = Some cc" "invoice_of (cc_invoice_id cc) db = Some i"
    using assms(4) by (auto simp: loadCaseAndInvoice_def bind_eq_Some_conv)
  then have "cc_invoice_id cc = inv_id i" by (auto simp: invoice_of_def dest: find_row_SomeD)
  with rows(2) assms(6,7) have stat: "status_of (wo_invoice_id w) db = Some I_in_collection"
    by (simp add: status_of_def)
  have reviewed: "write_off_of (ad_approval_id input) (sql_update_write_off (ad_approval_id input) (review_row now input) d) =
      Some (review_row now input w)" if "write_offs d = write_offs db" for d
    using assms(2) that by (simp add: write_off_of_def sql_update_write_off_def review_row.find_update_self)
  have frame: "status_of j (sql_update_write_off k f d) = status_of j d"
    "case_of j (sql_update_write_off k f d) = case_of j d"
    "invoices (sql_update_write_off k f d) = invoices d" "cases (sql_update_write_off k f d) = cases d" for j k f d
    by (simp_all add: status_of_def invoice_of_def case_of_def sql_update_write_off_def)
  show ?thesis
  proof (cases "ad_decision input")
    case D_rejected
    from reviewed_readable [OF assms(1,2)] obtain u where
      "getWriteOffApproval (ad_approval_id input) (sql_update_write_off (ad_approval_id input) (review_row now input) db) = Some u"
      by blast
    with D_rejected get cur(2) assms(3) reviewed [of db] rows(1) show ?thesis
      by (auto simp: decideWriteOffApproval_def require_def Let_def frame review_row_def decision_status_def)
  next
    case D_approved
    obtain r db1 where 1: "applySettlement now (wo_case_id w) (wo_invoice_id w) (inv_amount i) (wo_settlement_amount w) db = Inr (r, db1)"
      "status_of (wo_invoice_id w) db1 = Some (fst (settlement_statuses (inv_amount i) (wo_settlement_amount w)))"
      "case_of (wo_case_id w) db1 = Some (settle_case now (snd (settlement_statuses (inv_amount i) (wo_settlement_amount w))) cc)"
      "write_offs db1 = write_offs db" "ledger_wf db1"
      using applySettlement_ok [OF assms(1) stat rows(1)] by blast
    have "write_off_of (ad_approval_id input) db1 = Some w" using 1(4) assms(2) by (simp add: write_off_of_def)
    from reviewed_readable [OF 1(5) this] obtain u where
      "getWriteOffApproval (ad_approval_id input) (sql_update_write_off (ad_approval_id input) (review_row now input) db1) = Some u"
      by blast
    with D_approved get cur(2-5) assms(3-6) reviewed [OF 1(4)] 1(1-3) show ?thesis
      by (auto simp: decideWriteOffApproval_def settle_approved_def require_def Let_def frame review_row_def
          decision_status_def settle_case_def)
  qed
qed

section \<open>Decisions are final\<close>

datatype wo_op =
    Propose "string list \<Rightarrow> string" timestamp "rat option" SettlementProposal
  | Decide timestamp ApprovalDecision

fun wo_step :: "wo_op \<Rightarrow> ledger \<Rightarrow> ledger" where
  "wo_step (Propose uuid now threshold input) db = commit db (proposeSettlement uuid now threshold input db)"
| "wo_step (Decide now input) db = commit db (decideWriteOffApproval now input db)"

definition decided :: "string \<Rightarrow> write_off_row \<Rightarrow> ledger \<Rightarrow> bool" where
  "decided k w db \<longleftrightarrow> write_off_of k db = Some w \<and> wo_status w \<noteq> W_pending_approval"

lemma decide_decided:
  assumes "decided (ad_approval_id input) w db"
  shows "\<exists>e. decideWriteOffApproval now input db = Inl e"
  using assms decide_InrD [of now input db]
  by (cases "decideWriteOffApproval now input db") (fastforce simp: decided_def)+

interpretation wo: invariant_system wo_step "\<lambda>_. True" "decided k w" for k w
proof unfold_locales
  fix db op
  assume dec: "decided k w db"
  show "decided k w (wo_step op db)"
  proof (cases op)
    case (Propose uuid now th input)
    have "\<exists>new. write_offs db' = write_offs db @ new" if "proposeSettlement uuid now th input db = Inr (out, db')" for out db'
      using propose_InrD [OF that] applySettlement_write_offs by (fastforce split: if_splits)
    with dec Propose show ?thesis
      by (cases "proposeSettlement uuid now th input db") (fastforce simp: decided_def write_off_of_def find_row_append)+
  next
    case (Decide now input)
    show ?thesis
    proof (cases "decideWriteOffApproval now input db")
      case (Inr x)
      then obtain out db' where run: "decideWriteOffApproval now input db = Inr (out, db')" by (cases x) auto
      then have "ad_approval_id input \<noteq> k" using decide_decided [of input w db now] dec by auto
      moreover obtain db1 where "db' = sql_update_write_off (ad_approval_id input) (review_row now input) db1"
        "write_offs db1 = write_offs db"
        using decide_InrD [OF run] applySettlement_write_offs by (fastforce split: if_splits)
      ultimately show ?thesis using run dec Decide
        by (simp add: decided_def write_off_of_def sql_update_write_off_def review_row.find_update_other)
    qed (use dec Decide in simp)
  qed
qed

text \<open>A decision is final: once a request is approved or rejected, no sequence of proposals and
  decisions changes its row, and deciding it again is an error.\<close>

theorem decision_final:
  assumes "write_off_of k db = Some w" and "wo_status w \<noteq> W_pending_approval"
  shows "write_off_of k (fold wo_step ops db) = Some w
    \<and> (\<forall>now input. ad_approval_id input = k \<longrightarrow> (\<exists>e. decideWriteOffApproval now input (fold wo_step ops db) = Inl e))"
proof -
  have "decided k w (fold wo_step ops db)"
    using wo.run_inv [of k w db ops] assms by (simp add: decided_def list_all_iff)
  then show ?thesis using decide_decided by (auto simp: decided_def)
qed

definition demo_write_off :: "WriteOffApprovalStatus \<Rightarrow> write_off_row" where
  "demo_write_off s = \<lparr>wo_id = ''w'', wo_case_id = ''k'', wo_invoice_id = ''i'', wo_customer_id = ''c'',
     wo_proposed_by = ''agent'', wo_reviewed_by = None, wo_settlement_amount = 60,
     wo_implied_write_off_amount = 40, wo_status = s, wo_notes = None, wo_review_notes = None,
     wo_reviewed_at = None, wo_created_at = 0, wo_updated_at = 0\<rparr>"

definition demo_wo_ledger :: "WriteOffApprovalStatus \<Rightarrow> ledger" where
  "demo_wo_ledger s = (demo_case_ledger I_in_collection)\<lparr>write_offs := [demo_write_off s]\<rparr>"

definition demo_decision :: "WriteOffApprovalDecision \<Rightarrow> ApprovalDecision" where
  "demo_decision d = \<lparr>ad_approval_id = ''w'', ad_decision = d, ad_reviewed_by = ''fc'', ad_review_notes = None,
     ad_actor_id = ''fc'', ad_has_audit_writer = False\<rparr>"

lemmas demo_wo_defs = demo_wo_ledger_def demo_write_off_def demo_case_ledger_def demo_ledger_def
  empty_ledger_def demo_case_def demo_decision_def

theorem decide_outcome_witness:
  "\<exists>out db'. decideWriteOffApproval 5 (demo_decision D_approved) (demo_wo_ledger W_pending_approval) = Inr (out, db')
     \<and> status_of ''i'' db' = Some I_written_off"
proof -
  let ?db = "demo_wo_ledger W_pending_approval"
  have "ledger_wf ?db" by (simp add: demo_wo_defs wf_defs one_open_case_def)
  moreover have "write_off_of ''w'' ?db = Some (demo_write_off W_pending_approval)"
    by (simp add: demo_wo_defs write_off_of_def)
  moreover obtain i c where "loadCaseAndInvoice ''k'' ?db = Some (demo_case, i, c)" "inv_amount i = 100"
    "inv_id i = ''i''" "inv_status i = I_in_collection"
    by (simp add: loadCaseAndInvoice_def demo_wo_defs case_of_def invoice_of_def customer_of_def)
  ultimately show ?thesis
    using decide_outcome [of ?db "demo_decision D_approved" "demo_write_off W_pending_approval" demo_case i c 5]
    by (auto simp: demo_decision_def demo_write_off_def demo_case_def)
qed

theorem decision_final_witness:
  "write_off_of ''w'' (fold wo_step [Decide 5 (demo_decision D_approved), Propose long_uuid 6 None (demo_proposal 60)]
     (demo_wo_ledger W_rejected)) = Some (demo_write_off W_rejected)"
proof -
  have "write_off_of ''w'' (demo_wo_ledger W_rejected) = Some (demo_write_off W_rejected)"
    "wo_status (demo_write_off W_rejected) \<noteq> W_pending_approval"
    by (simp_all add: demo_wo_defs write_off_of_def)
  from decision_final [OF this] show ?thesis by blast
qed

end
