(* ===== verification/Collections.thy ===== *)
theory Collections
  imports Write_Off
begin

text \<open>
  The collections agent's view, \<^verbatim>\<open>src/packages/db/collection-cases.ts\<close>: the case queue, the case detail,
  contact logs and the assignment of agents. Two queries order by a column they cast to text, so the
  model sorts by the decimal string; text is compared byte by byte.
\<close>

section \<open>Data\<close>

record CollectionCaseRow =
  cr_case :: case_row
  cr_invoice_amount :: money
  cr_invoice_currency :: string
  cr_invoice_due_date :: "date option"
  cr_invoice_status :: InvoiceStatus
  cr_days_overdue :: int
  cr_customer_name :: string
  cr_customer_id :: string

record CollectionCaseDetail =
  cd_case :: case_row
  cd_invoice :: invoice_row
  cd_customer :: customer_row
  cd_payments :: "payment_row list"
  cd_contact_logs :: "contact_row list"
  cd_dunning_actions :: "dunning_row list"
  cd_payment_plans :: "PaymentPlanSummary list"
  cd_latest_write_off_approval :: "WriteOffApproval option"

record ContactLogOptions =
  cl_collection_case_id :: string
  cl_agent_id :: string
  cl_contact_type :: ContactType
  cl_outcome :: string
  cl_notes :: "string option"
  cl_contacted_at :: "timestamp option"

section \<open>Operations\<close>

text \<open>\<^verbatim>\<open>GREATEST\<close> ignores a NULL argument, so an invoice without due date is 0 days overdue.\<close>

definition case_days_overdue :: "timestamp \<Rightarrow> invoice_row \<Rightarrow> int" where
  "case_days_overdue now i = (case inv_due_date i of None \<Rightarrow> 0 | Some d \<Rightarrow> days_overdue now d)"

definition case_row_of :: "timestamp \<Rightarrow> ledger \<Rightarrow> case_row \<Rightarrow> CollectionCaseRow option" where
  "case_row_of now db cc =
     Option.bind (invoice_of (cc_invoice_id cc) db) (\<lambda>i.
     Option.bind (customer_of (inv_customer_id i) db) (\<lambda>c. Some \<lparr>
       cr_case = cc, cr_invoice_amount = inv_amount i, cr_invoice_currency = inv_currency i,
       cr_invoice_due_date = inv_due_date i, cr_invoice_status = inv_status i,
       cr_days_overdue = case_days_overdue now i, cr_customer_name = company_name c, cr_customer_id = cust_id c\<rparr>))"

text \<open>\<^verbatim>\<open>ORDER BY cc.escalation_level DESC, days_overdue DESC\<close>, the second key being the text column.\<close>

definition case_before :: "CollectionCaseRow \<Rightarrow> CollectionCaseRow \<Rightarrow> bool" where
  "case_before x y \<longleftrightarrow>
     (let ex = cc_escalation_level (cr_case x); ey = cc_escalation_level (cr_case y) in
      ex > ey \<or> ex = ey \<and> decimal (nat (cr_days_overdue x)) \<ge> decimal (nat (cr_days_overdue y)))"

fun insert_case :: "CollectionCaseRow \<Rightarrow> CollectionCaseRow list \<Rightarrow> CollectionCaseRow list" where
  "insert_case x [] = [x]"
| "insert_case x (y # ys) = (if case_before x y then x # y # ys else y # insert_case x ys)"

definition listCollectionCases ::
  "timestamp \<Rightarrow> string \<Rightarrow> CollectionCaseStatus list option \<Rightarrow> ledger \<Rightarrow> CollectionCaseRow list" where
  "listCollectionCases now agent_id status db =
     (let statuses = (case status of None \<Rightarrow> [C_open, C_escalated] | Some ss \<Rightarrow> ss)
      in foldr insert_case
           (List.map_filter (case_row_of now db)
             (filter (\<lambda>cc. cc_agent_id cc = Some agent_id \<and> cc_status cc \<in> set statuses) (cases db))) [])"

definition getCollectionCaseDetail :: "string \<Rightarrow> ledger \<Rightarrow> CollectionCaseDetail option" where
  "getCollectionCaseDetail caseId db =
     (case loadCaseAndInvoice caseId db of
        None \<Rightarrow> None
      | Some (cc, i, c) \<Rightarrow> Some \<lparr>
          cd_case = cc, cd_invoice = i, cd_customer = c,
          cd_payments = sort_key pay_received_at (filter (\<lambda>p. pay_invoice_id p = inv_id i) (payments db)),
          cd_contact_logs = sort_key con_contacted_at (filter (\<lambda>l. con_case_id l = caseId) (contacts db)),
          cd_dunning_actions = listDunningActions (inv_id i) db,
          cd_payment_plans = listPaymentPlansForCase caseId db,
          cd_latest_write_off_approval = getLatestWriteOffApprovalForCase caseId db\<rparr>)"

definition createContactLog ::
  "(string list \<Rightarrow> string) \<Rightarrow> timestamp \<Rightarrow> ContactLogOptions \<Rightarrow> ledger \<Rightarrow> app_error + (contact_row \<times> ledger)" where
  "createContactLog uuid now opts db =
     (let row = \<lparr>con_id = uuid (map con_id (contacts db)), con_case_id = cl_collection_case_id opts,
            con_agent_id = cl_agent_id opts, con_type = cl_contact_type opts, con_outcome = cl_outcome opts,
            con_notes = cl_notes opts,
            con_contacted_at = (case cl_contacted_at opts of None \<Rightarrow> now | Some t \<Rightarrow> t), con_created_at = now\<rparr>
      in bind_res (sql_insert_contact row db) (\<lambda>db'. Inr (row, db')))"

definition set_agent :: "timestamp \<Rightarrow> string \<Rightarrow> case_row \<Rightarrow> case_row" where
  "set_agent now agentId c = c\<lparr>cc_agent_id := Some agentId, cc_updated_at := now\<rparr>"

definition assignAgentToCase :: "timestamp \<Rightarrow> string \<Rightarrow> string \<Rightarrow> ledger \<Rightarrow> app_error + (unit \<times> ledger)" where
  "assignAgentToCase now caseId agentId db = Inr ((), sql_update_case caseId (set_agent now agentId) db)"

definition open_cases :: "string \<Rightarrow> ledger \<Rightarrow> nat" where
  "open_cases a db =
     length (filter (\<lambda>cc. cc_agent_id cc = Some a \<and> cc_status cc \<in> {C_open, C_escalated}) (cases db))"

text \<open>\<^verbatim>\<open>COUNT(cc.id)\<close> after the join counts a case once per occurrence of its agent in the argument.\<close>

definition open_count :: "string list \<Rightarrow> ledger \<Rightarrow> string \<Rightarrow> nat" where
  "open_count agentIds db a = count_list agentIds a * open_cases a db"

definition getAgentWithFewestOpenCases :: "string list \<Rightarrow> ledger \<Rightarrow> string option" where
  "getAgentWithFewestOpenCases agentIds db =
     (case agentIds of
        [] \<Rightarrow> None
      | a0 # _ \<Rightarrow>
          (case first_by (\<lambda>a. (decimal (open_count agentIds db a), a)) (\<lambda>_. True) (remdups agentIds) of
             None \<Rightarrow> Some a0
           | Some a \<Rightarrow> Some a))"

section \<open>Contracts\<close>

interpretation set_agent: case_update "set_agent now agentId" for now agentId
  by unfold_locales (simp_all add: set_agent_def)

lemma sound_assignAgentToCase: "sound (assignAgentToCase now caseId agentId)"
  by (auto simp: sound_def assignAgentToCase_def set_agent.keeps_case)

lemma sound_createContactLog: "sound (createContactLog uuid now opts)"
  using keeps_stmts(7) by (auto simp: sound_def createContactLog_def Let_def bind_res_Inr_iff)

section \<open>Assignment\<close>

lemma less_char_iff: "c < d \<longleftrightarrow> of_char c < (of_char d :: nat)"
  by (simp add: less_char_def)

lemma digit_less: "m < 10 \<Longrightarrow> n < 10 \<Longrightarrow> digit m < digit n \<longleftrightarrow> m < n"
  by (simp add: digit_def less_char_iff)

lemma digit_le: "m < 10 \<Longrightarrow> n < 10 \<Longrightarrow> digit m \<le> digit n \<longleftrightarrow> m \<le> n"
  using digit_less [of n m] by (simp add: linorder_not_less [symmetric])

lemma digit_eq: "m < 10 \<Longrightarrow> n < 10 \<Longrightarrow> digit m = digit n \<longleftrightarrow> m = n"
  using digit_less [of m n] digit_less [of n m] by (metis less_irrefl linorder_neqE_nat)

lemma decimal_one: "n < 10 \<Longrightarrow> decimal n = [digit n]"
  by (simp add: decimal.simps)

lemma decimal_teen: "10 \<le> n \<Longrightarrow> n < 20 \<Longrightarrow> decimal n = [digit 1, digit (n - 10)]"
proof -
  assume n: "10 \<le> n" "n < 20"
  then have "n div 10 = 1" "n mod 10 = n - 10" by presburger+
  with n show ?thesis by (simp add: decimal.simps [of n] decimal_one)
qed

lemma count_list_distinct: "distinct xs \<Longrightarrow> x \<in> set xs \<Longrightarrow> count_list xs x = 1"
  by (induction xs) auto

text \<open>Agents are assigned fairly as long as the counts have one digit: the agent chosen from a list
  without duplicates has no more open or escalated cases than any other, and the least id among those
  with that few.\<close>

theorem fewest_cases_small:
  assumes "distinct agentIds" and "agentIds \<noteq> []" and "\<forall>a \<in> set agentIds. open_cases a db < 10"
  shows "\<exists>a \<in> set agentIds. getAgentWithFewestOpenCases agentIds db = Some a
    \<and> (\<forall>b \<in> set agentIds. open_cases a db < open_cases b db \<or> open_cases a db = open_cases b db \<and> a \<le> b)"
proof -
  have one: "open_count agentIds db b = open_cases b db" if "b \<in> set agentIds" for b
    using that assms(1) by (simp add: open_count_def count_list_distinct)
  let ?key = "\<lambda>a. (decimal (open_count agentIds db a), a)"
  obtain a where a: "first_by ?key (\<lambda>_. True) (remdups agentIds) = Some a"
    using first_by_None [of ?key "\<lambda>_. True" "remdups agentIds"] assms(2)
    by (cases "first_by ?key (\<lambda>_. True) (remdups agentIds)") auto
  have mem: "a \<in> set agentIds" using first_by_SomeD(1) [OF a] by simp
  have "open_cases a db < open_cases b db \<or> open_cases a db = open_cases b db \<and> a \<le> b"
    if b: "b \<in> set agentIds" for b
  proof -
    have "?key a \<le> ?key b" using first_by_SomeD(3) [OF a] b by simp
    then show ?thesis
      using b mem assms(3) by (auto simp: one decimal_one digit_less digit_le digit_eq)
  qed
  moreover have "getAgentWithFewestOpenCases agentIds db = Some a"
    unfolding getAgentWithFewestOpenCases_def a using assms(2) by (simp split: list.split)
  ultimately show ?thesis using mem by blast
qed

text \<open>The counts are compared as text: an agent with ten to nineteen open cases is chosen over one
  with two to nine.\<close>

theorem fewest_cases_wrong:
  assumes "a \<noteq> b" and "10 \<le> open_cases a db" and "open_cases a db < 20"
    and "2 \<le> open_cases b db" and "open_cases b db < 10"
  shows "getAgentWithFewestOpenCases [a, b] db = Some a"
proof -
  have "decimal (open_cases a db) < decimal (open_cases b db)"
    using assms by (simp add: decimal_teen decimal_one digit_less)
  then have "first_by (\<lambda>x. (decimal (open_count [a, b] db x), x)) (\<lambda>_. True) [a, b] = Some a"
    using assms(1) by (simp add: first_by_def open_count_def)
  with assms(1) show ?thesis by (simp add: getAgentWithFewestOpenCases_def)
qed

definition demo_agents :: "nat \<Rightarrow> nat \<Rightarrow> ledger" where
  "demo_agents m n = (demo_ledger I_in_collection)\<lparr>cases :=
     replicate m (demo_case\<lparr>cc_agent_id := Some ''a''\<rparr>) @ replicate n (demo_case\<lparr>cc_agent_id := Some ''b''\<rparr>)\<rparr>"

lemma demo_agents_count:
  "open_cases ''a'' (demo_agents m n) = m" "open_cases ''b'' (demo_agents m n) = n"
  by (simp_all add: demo_agents_def open_cases_def demo_case_def)

theorem fewest_cases_small_witness: "getAgentWithFewestOpenCases [''a'', ''b''] (demo_agents 7 3) = Some ''b''"
  using fewest_cases_small [of "[''a'', ''b'']" "demo_agents 7 3"] by (auto simp: demo_agents_count)

theorem fewest_cases_wrong_witness: "getAgentWithFewestOpenCases [''a'', ''b''] (demo_agents 12 2) = Some ''a''"
  using fewest_cases_wrong [of "''a''" "''b''" "demo_agents 12 2"] by (simp add: demo_agents_count)

end
