(* ===== verification/Machine_Log.thy ===== *)
theory Machine_Log
  imports DB_Prelude
begin

text \<open>
  The interface the logged state machines share: a current state per key and an append-only log of transitions. A step
  leaves everything alone, opens a key in the initial state, or moves one key along its table and logs the move. The
  locale \<open>logged_machine\<close> proves once that then the log of a key is its true history.
\<close>

text \<open>The log of a key, pairs of source and target, tells the path it took to its current state.\<close>

definition log_tells :: "('s \<Rightarrow> 's list) \<Rightarrow> 's \<Rightarrow> ('s option \<times> 's) list \<Rightarrow> 's option \<Rightarrow> bool" where
  "log_tells succs s0 rows current \<longleftrightarrow> (case current of
       None \<Rightarrow> rows = []
     | Some s \<Rightarrow> (\<exists>path. map snd rows = s0 # path
         \<and> map fst rows = None # map Some (butlast (s0 # path))
         \<and> legal_path succs s0 path \<and> last (s0 # path) = s))"

lemma butlast_snoc_last: "butlast (x # xs @ [y]) = butlast (x # xs) @ [last (x # xs)]"
proof -
  have "butlast ((x # xs) @ [y]) = x # xs" by (rule butlast_snoc)
  also have "\<dots> = butlast (x # xs) @ [last (x # xs)]" by (rule append_butlast_last_id [symmetric]) simp
  finally show ?thesis unfolding append_Cons .
qed

lemma log_tells_start [simp]: "log_tells succs s0 [(None, s0)] (Some s0)"
  by (simp add: log_tells_def)

lemma log_tells_snoc:
  assumes "log_tells succs s0 rows (Some s)" and "t \<in> set (succs s)"
  shows "log_tells succs s0 (rows @ [(Some s, t)]) (Some t)"
proof -
  obtain path where p: "map snd rows = s0 # path" "map fst rows = None # map Some (butlast (s0 # path))"
    "legal_path succs s0 path" "last (s0 # path) = s"
    using assms(1) by (auto simp: log_tells_def)
  show ?thesis
    unfolding log_tells_def option.case
  proof (intro exI conjI)
    show "map snd (rows @ [(Some s, t)]) = s0 # (path @ [t])" using p(1) by simp
    show "map fst (rows @ [(Some s, t)]) = None # map Some (butlast (s0 # path @ [t]))"
      unfolding butlast_snoc_last using p(2,4) by simp
    show "legal_path succs s0 (path @ [t])" unfolding legal_path_snoc using p(3,4) assms(2) by blast
  qed simp
qed

locale logged_machine =
  fixes step :: "'op \<Rightarrow> 'db \<Rightarrow> 'db"
    and ok :: "'op \<Rightarrow> bool"
    and current :: "'k \<Rightarrow> 'db \<Rightarrow> 's option"
    and hist :: "'k \<Rightarrow> 'db \<Rightarrow> ('s option \<times> 's) list"
    and mode :: "'k \<Rightarrow> 'db \<Rightarrow> 'm"
    and succs :: "'m \<Rightarrow> 's \<Rightarrow> 's list"
    and s0 :: 's
    and key :: "'op \<Rightarrow> 'k"
  assumes step_other: "ok op \<Longrightarrow> k \<noteq> key op \<Longrightarrow>
      current k (step op db) = current k db \<and> hist k (step op db) = hist k db \<and> mode k (step op db) = mode k db"
    and step_key: "ok op \<Longrightarrow> k = key op \<Longrightarrow>
      (current k (step op db) = current k db \<and> hist k (step op db) = hist k db \<and> mode k (step op db) = mode k db)
      \<or> (current k db = None \<and> current k (step op db) = Some s0 \<and> hist k (step op db) = hist k db @ [(None, s0)])
      \<or> (\<exists>s t. current k db = Some s \<and> t \<in> set (succs (mode k db) s) \<and> current k (step op db) = Some t
           \<and> hist k (step op db) = hist k db @ [(Some s, t)] \<and> mode k (step op db) = mode k db)"
begin

definition told :: "'db \<Rightarrow> bool" where
  "told db \<longleftrightarrow> (\<forall>k. log_tells (succs (mode k db)) s0 (hist k db) (current k db))"

lemma told_step: "told db \<Longrightarrow> ok op \<Longrightarrow> told (step op db)"
  unfolding told_def
proof
  fix k
  assume old: "\<forall>k. log_tells (succs (mode k db)) s0 (hist k db) (current k db)" and ok: "ok op"
  show "log_tells (succs (mode k (step op db))) s0 (hist k (step op db)) (current k (step op db))"
  proof (cases "k = key op")
    case False
    with old step_other [OF ok] show ?thesis by simp
  next
    case True
    show ?thesis using step_key [OF ok True, of db]
    proof (elim disjE conjE exE)
      assume "current k db = None" "current k (step op db) = Some s0" "hist k (step op db) = hist k db @ [(None, s0)]"
      moreover have "hist k db = []" using old [rule_format, of k] \<open>current k db = None\<close> by (simp add: log_tells_def)
      ultimately show ?thesis by simp
    next
      fix s t
      assume "current k db = Some s" "t \<in> set (succs (mode k db) s)" "current k (step op db) = Some t"
        "hist k (step op db) = hist k db @ [(Some s, t)]" "mode k (step op db) = mode k db"
      then show ?thesis using log_tells_snoc old by metis
    qed (use old in simp)
  qed
qed

sublocale invariant_system step ok told
  by unfold_locales (rule told_step)

lemma history_exact:
  assumes "\<And>k. current k db = None \<and> hist k db = []" and "list_all ok ops"
  shows "log_tells (succs (mode k (fold step ops db))) s0 (hist k (fold step ops db)) (current k (fold step ops db))"
proof -
  have "told db" using assms(1) by (simp add: told_def log_tells_def)
  then have "told (fold step ops db)" using assms(2) by (rule run_inv)
  then show ?thesis by (simp add: told_def)
qed

end

end
