(* ===== verification/State_Machines.thy ===== *)
theory State_Machines
  imports Machine_Log
begin

text \<open>
  The two pipeline state machines: autolearn jobs, \<^verbatim>\<open>src/packages/db/autolearn-state-machine.ts\<close>, and
  e-mail ingestion, \<^verbatim>\<open>src/packages/db/email-ingestion-state-machine.ts\<close>. Each has its table of legal
  transitions, its error classes as an error type, and its store. Calls are taken one at a time: each
  job and each e-mail is driven by one worker. A failing call writes nothing.
\<close>

section \<open>Autolearn jobs\<close>

datatype AutolearnState =
    WORKER_STARTED | FETCHING_GROUND_TRUTH | FETCHING_WIKI | WRITING_TEMP_FILES | CLAUDE_CLI_RUNNING
  | WRITING_NEW_VERSION | EMBEDDING | AWAITING_REVIEW | PUBLISHED | REJECTED | COMPLETE | FAILED

datatype AutolearnSourceType = GARDENING | DEEPCLEAN

fun AUTOLEARN_TRANSITIONS :: "AutolearnState \<Rightarrow> AutolearnState list" where
  "AUTOLEARN_TRANSITIONS WORKER_STARTED = [FETCHING_GROUND_TRUTH, FAILED]"
| "AUTOLEARN_TRANSITIONS FETCHING_GROUND_TRUTH = [FETCHING_WIKI, FAILED]"
| "AUTOLEARN_TRANSITIONS FETCHING_WIKI = [WRITING_TEMP_FILES, FAILED]"
| "AUTOLEARN_TRANSITIONS WRITING_TEMP_FILES = [CLAUDE_CLI_RUNNING, FAILED]"
| "AUTOLEARN_TRANSITIONS CLAUDE_CLI_RUNNING = [WRITING_NEW_VERSION, FAILED]"
| "AUTOLEARN_TRANSITIONS WRITING_NEW_VERSION = [EMBEDDING, FAILED]"
| "AUTOLEARN_TRANSITIONS EMBEDDING = [AWAITING_REVIEW, FAILED]"
| "AUTOLEARN_TRANSITIONS AWAITING_REVIEW = [PUBLISHED, REJECTED, FAILED]"
| "AUTOLEARN_TRANSITIONS PUBLISHED = [COMPLETE, FAILED]"
| "AUTOLEARN_TRANSITIONS REJECTED = []"
| "AUTOLEARN_TRANSITIONS COMPLETE = []"
| "AUTOLEARN_TRANSITIONS FAILED = []"

definition TERMINAL_STATES :: "AutolearnState list" where
  "TERMINAL_STATES = [COMPLETE, REJECTED, FAILED]"

datatype autolearn_error =
    InvalidTransitionError AutolearnState AutolearnState
  | AutolearnJobNotFoundError string
  | AutolearnDbError db_error

record AutolearnJobRow =
  aj_id :: string
  aj_tenant_id :: string
  aj_customer_id :: string
  aj_dept_id :: string
  aj_source_type :: AutolearnSourceType
  aj_state :: AutolearnState
  aj_task_queue_id :: "string option"
  aj_error_message :: "string option"
  aj_wiki_version_id :: "string option"
  aj_requires_explicit_approval :: bool
  aj_created_at :: timestamp
  aj_updated_at :: timestamp

record CreateAutolearnJobOptions =
  co_tenant_id :: string
  co_customer_id :: string
  co_dept_id :: string
  co_source_type :: "AutolearnSourceType option"
  co_task_queue_id :: "string option"
  co_requires_explicit_approval :: "bool option"

record AdvanceStateOptions =
  as_job_id :: string
  as_to :: AutolearnState
  as_error_message :: "string option"
  as_wiki_version_id :: "string option"

definition lift_autolearn :: "db_error + 'a \<Rightarrow> autolearn_error + 'a" where
  "lift_autolearn m = (case m of Inl e \<Rightarrow> Inl (AutolearnDbError e) | Inr a \<Rightarrow> Inr a)"

definition createAutolearnJob ::
  "(string list \<Rightarrow> string) \<Rightarrow> timestamp \<Rightarrow> CreateAutolearnJobOptions \<Rightarrow> AutolearnJobRow list
     \<Rightarrow> autolearn_error + (AutolearnJobRow \<times> AutolearnJobRow list)" where
  "createAutolearnJob uuid now opts jobs =
     (let row = \<lparr>aj_id = uuid (map aj_id jobs), aj_tenant_id = co_tenant_id opts,
            aj_customer_id = co_customer_id opts, aj_dept_id = co_dept_id opts,
            aj_source_type = (case co_source_type opts of None \<Rightarrow> GARDENING | Some t \<Rightarrow> t),
            aj_state = WORKER_STARTED, aj_task_queue_id = co_task_queue_id opts, aj_error_message = None,
            aj_wiki_version_id = None,
            aj_requires_explicit_approval = (case co_requires_explicit_approval opts of None \<Rightarrow> False | Some b \<Rightarrow> b),
            aj_created_at = now, aj_updated_at = now\<rparr>
      in bind_res (lift_autolearn (insert_row aj_id row jobs)) (\<lambda>t. Inr (row, t)))"

definition advance_row :: "timestamp \<Rightarrow> AdvanceStateOptions \<Rightarrow> AutolearnJobRow \<Rightarrow> AutolearnJobRow" where
  "advance_row now opts j = j\<lparr>aj_state := as_to opts,
     aj_error_message := (if as_to opts = FAILED then as_error_message opts else None),
     aj_wiki_version_id := (case as_wiki_version_id opts of None \<Rightarrow> aj_wiki_version_id j | Some w \<Rightarrow> Some w),
     aj_updated_at := now\<rparr>"

definition getAutolearnJob :: "string \<Rightarrow> AutolearnJobRow list \<Rightarrow> AutolearnJobRow option" where
  "getAutolearnJob k jobs = find_row aj_id k jobs"

definition advanceAutolearnState ::
  "timestamp \<Rightarrow> AdvanceStateOptions \<Rightarrow> AutolearnJobRow list
     \<Rightarrow> autolearn_error + (AutolearnJobRow \<times> AutolearnJobRow list)" where
  "advanceAutolearnState now opts jobs =
     (case getAutolearnJob (as_job_id opts) jobs of
        None \<Rightarrow> Inl (AutolearnJobNotFoundError (as_job_id opts))
      | Some current \<Rightarrow>
          if as_to opts \<notin> set (AUTOLEARN_TRANSITIONS (aj_state current))
          then Inl (InvalidTransitionError (aj_state current) (as_to opts))
          else Inr (advance_row now opts current,
                 update_where (\<lambda>j. aj_id j = as_job_id opts) (advance_row now opts) jobs))"

definition listAutolearnJobs ::
  "string \<Rightarrow> string \<Rightarrow> int option \<Rightarrow> AutolearnJobRow list \<Rightarrow> autolearn_error + AutolearnJobRow list" where
  "listAutolearnJobs tenant customer lmt jobs =
     lift_autolearn (sql_page (case lmt of None \<Rightarrow> 50 | Some l \<Rightarrow> l) 0
       (sort_key (\<lambda>j. - aj_created_at j)
         (filter (\<lambda>j. aj_tenant_id j = tenant \<and> aj_customer_id j = customer) jobs)))"

fun autolearn_rank :: "AutolearnState \<Rightarrow> nat" where
  "autolearn_rank WORKER_STARTED = 0"
| "autolearn_rank FETCHING_GROUND_TRUTH = 1"
| "autolearn_rank FETCHING_WIKI = 2"
| "autolearn_rank WRITING_TEMP_FILES = 3"
| "autolearn_rank CLAUDE_CLI_RUNNING = 4"
| "autolearn_rank WRITING_NEW_VERSION = 5"
| "autolearn_rank EMBEDDING = 6"
| "autolearn_rank AWAITING_REVIEW = 7"
| "autolearn_rank PUBLISHED = 8"
| "autolearn_rank _ = 9"

interpretation autolearn: terminal_graph AUTOLEARN_TRANSITIONS autolearn_rank 9 "\<lambda>s. s \<in> set TERMINAL_STATES"
proof unfold_locales
  fix s t
  show "t \<in> set (AUTOLEARN_TRANSITIONS s) \<Longrightarrow> autolearn_rank s < autolearn_rank t" by (cases s) auto
  show "autolearn_rank s \<le> 9" by (cases s) auto
  show "(s \<in> set TERMINAL_STATES) = (AUTOLEARN_TRANSITIONS s = [])"
    by (cases s) (simp_all add: TERMINAL_STATES_def)
qed

interpretation advance_row: row_update aj_id "advance_row now opts" for now opts
  by unfold_locales (simp add: advance_row_def)

datatype autolearn_op =
    Create_job "string list \<Rightarrow> string" timestamp CreateAutolearnJobOptions
  | Advance_job timestamp AdvanceStateOptions

fun autolearn_step :: "autolearn_op \<Rightarrow> AutolearnJobRow list \<Rightarrow> AutolearnJobRow list" where
  "autolearn_step (Create_job uuid now opts) jobs = commit jobs (createAutolearnJob uuid now opts jobs)"
| "autolearn_step (Advance_job now opts) jobs = commit jobs (advanceAutolearnState now opts jobs)"

lemma autolearn_step_job:
  assumes "getAutolearnJob k jobs = Some j"
  shows "\<exists>j'. getAutolearnJob k (autolearn_step op jobs) = Some j'
    \<and> (j' = j \<or> aj_state j' \<in> set (AUTOLEARN_TRANSITIONS (aj_state j)))"
proof (cases op)
  case (Create_job uuid now opts)
  then show ?thesis
    using assms
    by (cases "createAutolearnJob uuid now opts jobs")
       (auto simp: createAutolearnJob_def Let_def lift_autolearn_def getAutolearnJob_def insert_row_def
        find_row_append bind_res_Inr_iff split: sum.splits if_splits)
next
  case (Advance_job now opts)
  show ?thesis
  proof (cases "as_job_id opts = k \<and> as_to opts \<in> set (AUTOLEARN_TRANSITIONS (aj_state j))")
    case True
    then have "getAutolearnJob k (autolearn_step op jobs) = Some (advance_row now opts j)"
      using assms Advance_job
      by (simp add: advanceAutolearnState_def getAutolearnJob_def advance_row.find_update_self)
    with True show ?thesis by (simp add: advance_row_def)
  next
    case False
    then have "getAutolearnJob k (autolearn_step op jobs) = Some j"
      using assms Advance_job
      by (cases "as_job_id opts = k") (auto simp: advanceAutolearnState_def getAutolearnJob_def advance_row.find_update_other split: option.splits)
    then show ?thesis by simp
  qed
qed

lemma autolearn_path:
  assumes "getAutolearnJob k jobs = Some j"
  shows "\<exists>j' path. getAutolearnJob k (fold autolearn_step ops jobs) = Some j'
    \<and> legal_path AUTOLEARN_TRANSITIONS (aj_state j) path \<and> aj_state j' = last (aj_state j # path)
    \<and> (path = [] \<longrightarrow> j' = j)"
  using assms
proof (induction ops arbitrary: jobs j)
  case Nil
  then show ?case by (intro exI [of _ j] exI [of _ "[]"]) simp
next
  case (Cons op ops)
  obtain j1 where 1: "getAutolearnJob k (autolearn_step op jobs) = Some j1"
    "j1 = j \<or> aj_state j1 \<in> set (AUTOLEARN_TRANSITIONS (aj_state j))"
    using autolearn_step_job [OF Cons.prems] by blast
  obtain j' path where 2: "getAutolearnJob k (fold autolearn_step ops (autolearn_step op jobs)) = Some j'"
    "legal_path AUTOLEARN_TRANSITIONS (aj_state j1) path" "aj_state j' = last (aj_state j1 # path)"
    "path = [] \<longrightarrow> j' = j1"
    using Cons.IH [OF 1(1)] by blast
  show ?case
  proof (cases "j1 = j")
    case True
    with 2 show ?thesis by auto
  next
    case False
    with 1 2 show ?thesis by (intro exI [of _ j'] exI [of _ "aj_state j1 # path"]) auto
  qed
qed

text \<open>An autolearn job only moves forward along the table: under any sequence of job creations and
  advances its state follows a legal path that never repeats a state and takes at most nine steps, and a
  job in a terminal state keeps its row unchanged.\<close>

theorem autolearn_forward:
  assumes "getAutolearnJob k jobs = Some j"
  shows "\<exists>j' path. getAutolearnJob k (fold autolearn_step ops jobs) = Some j'
    \<and> legal_path AUTOLEARN_TRANSITIONS (aj_state j) path \<and> aj_state j' = last (aj_state j # path)
    \<and> distinct (aj_state j # path) \<and> length path \<le> 9
    \<and> (aj_state j \<in> set TERMINAL_STATES \<longrightarrow> j' = j)"
proof -
  obtain j' path where p: "getAutolearnJob k (fold autolearn_step ops jobs) = Some j'"
    "legal_path AUTOLEARN_TRANSITIONS (aj_state j) path" "aj_state j' = last (aj_state j # path)"
    "path = [] \<longrightarrow> j' = j"
    using autolearn_path [OF assms] by blast
  with autolearn.path_distinct [OF p(2)] autolearn.path_length [OF p(2)] autolearn.terminal_stays [OF _ p(2)]
  show ?thesis by (intro exI [of _ j'] exI [of _ path]) auto
qed

definition demo_job :: "AutolearnState \<Rightarrow> AutolearnJobRow" where
  "demo_job s = \<lparr>aj_id = ''j'', aj_tenant_id = ''t'', aj_customer_id = ''c'', aj_dept_id = ''d'',
     aj_source_type = GARDENING, aj_state = s, aj_task_queue_id = None, aj_error_message = None,
     aj_wiki_version_id = None, aj_requires_explicit_approval = False, aj_created_at = 0, aj_updated_at = 0\<rparr>"

theorem autolearn_forward_witness:
  "getAutolearnJob ''j'' (fold autolearn_step [Advance_job 1 \<lparr>as_job_id = ''j'', as_to = PUBLISHED,
     as_error_message = None, as_wiki_version_id = None\<rparr>] [demo_job REJECTED]) = Some (demo_job REJECTED)"
proof -
  have "getAutolearnJob ''j'' [demo_job REJECTED] = Some (demo_job REJECTED)"
    "aj_state (demo_job REJECTED) \<in> set TERMINAL_STATES"
    by (simp_all add: getAutolearnJob_def demo_job_def TERMINAL_STATES_def)
  with autolearn_forward [of "''j''" "[demo_job REJECTED]" "demo_job REJECTED"] show ?thesis by blast
qed

section \<open>E-mail ingestion\<close>

datatype EmailIngestionState =
    IMAP_RECEIVED | ANONYMISING | STORING | QUEUED | INDEXED | INGESTION_FAILED

fun EMAIL_TRANSITIONS :: "EmailIngestionState \<Rightarrow> EmailIngestionState list" where
  "EMAIL_TRANSITIONS IMAP_RECEIVED = [ANONYMISING]"
| "EMAIL_TRANSITIONS ANONYMISING = [STORING, INGESTION_FAILED]"
| "EMAIL_TRANSITIONS STORING = [QUEUED, INGESTION_FAILED]"
| "EMAIL_TRANSITIONS QUEUED = [INDEXED]"
| "EMAIL_TRANSITIONS INDEXED = []"
| "EMAIL_TRANSITIONS INGESTION_FAILED = [ANONYMISING, STORING]"

datatype email_error =
    IllegalTransitionError EmailIngestionState EmailIngestionState
  | NoIngestionState string
  | EmailDbError db_error

record EmailIngestionTransitionRow =
  et_id :: string
  et_email_id :: string
  et_from_state :: "EmailIngestionState option"
  et_to_state :: EmailIngestionState
  et_transitioned_at :: timestamp
  et_reason :: "string option"

record email_state_row =
  es_email_id :: string
  es_state :: EmailIngestionState
  es_updated_at :: timestamp

record email_db =
  email_states :: "email_state_row list"
  email_transitions :: "EmailIngestionTransitionRow list"

record TransitionInput =
  ti_emailId :: string
  ti_toState :: EmailIngestionState
  ti_reason :: "string option"

record TransitionResult =
  tr_transitionRow :: EmailIngestionTransitionRow
  tr_newState :: EmailIngestionState

text \<open>Neither operation runs in a transaction: when the second statement fails, the effect of the first stays.
  The result therefore carries the tables beside the outcome.\<close>

type_synonym email_result = "(email_error + TransitionResult) \<times> email_db"

definition log_transition ::
  "(string list \<Rightarrow> string) \<Rightarrow> timestamp \<Rightarrow> string \<Rightarrow> EmailIngestionState option \<Rightarrow> EmailIngestionState \<Rightarrow> string option
     \<Rightarrow> email_db \<Rightarrow> email_result" where
  "log_transition uuid now k from to reason db =
     (let row = \<lparr>et_id = uuid (map et_id (email_transitions db)), et_email_id = k, et_from_state = from,
            et_to_state = to, et_transitioned_at = now, et_reason = reason\<rparr>
      in case insert_row et_id row (email_transitions db) of
           Inl e \<Rightarrow> (Inl (EmailDbError e), db)
         | Inr t \<Rightarrow> (Inr \<lparr>tr_transitionRow = row, tr_newState = to\<rparr>, db\<lparr>email_transitions := t\<rparr>))"

definition initEmailState ::
  "(string list \<Rightarrow> string) \<Rightarrow> timestamp \<Rightarrow> string \<Rightarrow> string option \<Rightarrow> email_db \<Rightarrow> email_result" where
  "initEmailState uuid now k reason db =
     (case insert_row es_email_id \<lparr>es_email_id = k, es_state = IMAP_RECEIVED, es_updated_at = now\<rparr> (email_states db) of
        Inl e \<Rightarrow> (Inl (EmailDbError e), db)
      | Inr t \<Rightarrow> log_transition uuid now k None IMAP_RECEIVED reason (db\<lparr>email_states := t\<rparr>))"

definition getEmailState :: "string \<Rightarrow> email_db \<Rightarrow> EmailIngestionState option" where
  "getEmailState k db = map_option es_state (find_row es_email_id k (email_states db))"

definition set_email_state :: "timestamp \<Rightarrow> EmailIngestionState \<Rightarrow> email_state_row \<Rightarrow> email_state_row" where
  "set_email_state now s r = r\<lparr>es_state := s, es_updated_at := now\<rparr>"

definition transition ::
  "(string list \<Rightarrow> string) \<Rightarrow> timestamp \<Rightarrow> TransitionInput \<Rightarrow> email_db \<Rightarrow> email_result" where
  "transition uuid now input db =
     (case getEmailState (ti_emailId input) db of
        None \<Rightarrow> (Inl (NoIngestionState (ti_emailId input)), db)
      | Some currentState \<Rightarrow>
          if ti_toState input \<notin> set (EMAIL_TRANSITIONS currentState)
          then (Inl (IllegalTransitionError currentState (ti_toState input)), db)
          else log_transition uuid now (ti_emailId input) (Some currentState) (ti_toState input) (ti_reason input)
                 (db\<lparr>email_states := update_where (\<lambda>r. es_email_id r = ti_emailId input)
                    (set_email_state now (ti_toState input)) (email_states db)\<rparr>))"

definition getTransitionHistory :: "string \<Rightarrow> email_db \<Rightarrow> EmailIngestionTransitionRow list" where
  "getTransitionHistory k db =
     sort_key (\<lambda>r. (et_transitioned_at r, et_id r)) (filter (\<lambda>r. et_email_id r = k) (email_transitions db))"

interpretation set_email_state: row_update es_email_id "set_email_state now s" for now s
  by unfold_locales (simp add: set_email_state_def)

datatype email_op =
    Init_email "string list \<Rightarrow> string" timestamp string "string option"
  | Move_email "string list \<Rightarrow> string" timestamp TransitionInput

fun email_step :: "email_op \<Rightarrow> email_db \<Rightarrow> email_db" where
  "email_step (Init_email uuid now k reason) db = snd (initEmailState uuid now k reason db)"
| "email_step (Move_email uuid now input) db = snd (transition uuid now input db)"

text \<open>The identifiers \<^verbatim>\<open>gen_random_uuid()\<close> draws are new.\<close>

fun fresh_ids :: "email_op \<Rightarrow> bool" where
  "fresh_ids (Init_email uuid now k reason) \<longleftrightarrow> (\<forall>ids. uuid ids \<notin> set ids)"
| "fresh_ids (Move_email uuid now input) \<longleftrightarrow> (\<forall>ids. uuid ids \<notin> set ids)"

definition empty_emails :: email_db where
  "empty_emails = \<lparr>email_states = [], email_transitions = []\<rparr>"

definition email_log :: "string \<Rightarrow> email_db \<Rightarrow> EmailIngestionTransitionRow list" where
  "email_log k db = filter (\<lambda>r. et_email_id r = k) (email_transitions db)"

definition email_hist :: "string \<Rightarrow> email_db \<Rightarrow> (EmailIngestionState option \<times> EmailIngestionState) list" where
  "email_hist k db = map (\<lambda>r. (et_from_state r, et_to_state r)) (email_log k db)"

lemma log_transition_fresh:
  assumes "\<forall>ids. uuid ids \<notin> set ids"
  shows "\<exists>row. log_transition uuid now k from to reason db
      = (Inr \<lparr>tr_transitionRow = row, tr_newState = to\<rparr>, db\<lparr>email_transitions := email_transitions db @ [row]\<rparr>)
    \<and> et_email_id row = k \<and> et_from_state row = from \<and> et_to_state row = to"
proof -
  have "uuid (map et_id (email_transitions db)) \<notin> et_id ` set (email_transitions db)"
    using assms [rule_format, of "map et_id (email_transitions db)"] by simp
  then show ?thesis by (simp add: log_transition_def Let_def insert_row_def)
qed

lemma email_init_effect:
  assumes "\<forall>ids. uuid ids \<notin> set ids"
  shows "snd (initEmailState uuid now k reason db) = db
    \<or> getEmailState k db = None
      \<and> (\<exists>row. email_log k (snd (initEmailState uuid now k reason db)) = email_log k db @ [row]
           \<and> et_from_state row = None \<and> et_to_state row = IMAP_RECEIVED)
      \<and> getEmailState k (snd (initEmailState uuid now k reason db)) = Some IMAP_RECEIVED
      \<and> (\<forall>j. j \<noteq> k \<longrightarrow> email_log j (snd (initEmailState uuid now k reason db)) = email_log j db
           \<and> getEmailState j (snd (initEmailState uuid now k reason db)) = getEmailState j db)"
proof (cases "k \<in> es_email_id ` set (email_states db)")
  case True
  then show ?thesis by (simp add: initEmailState_def insert_row_def)
next
  case False
  let ?t = "email_states db @ [\<lparr>es_email_id = k, es_state = IMAP_RECEIVED, es_updated_at = now\<rparr>]"
  obtain row where run: "initEmailState uuid now k reason db
      = (Inr \<lparr>tr_transitionRow = row, tr_newState = IMAP_RECEIVED\<rparr>,
         db\<lparr>email_states := ?t, email_transitions := email_transitions db @ [row]\<rparr>)"
    and row: "et_email_id row = k" "et_from_state row = None" "et_to_state row = IMAP_RECEIVED"
    using log_transition_fresh [OF assms, of now k None IMAP_RECEIVED reason "db\<lparr>email_states := ?t\<rparr>"] False
    by (auto simp: initEmailState_def insert_row_def)
  have "find_row es_email_id k (email_states db) = None" using False by (simp add: find_row_None_iff)
  then show ?thesis
    unfolding run using row by (auto simp: email_log_def getEmailState_def find_row_append split: option.splits)
qed

lemma email_move_effect:
  assumes "\<forall>ids. uuid ids \<notin> set ids" and "db' = snd (transition uuid now input db)"
  shows "db' = db
    \<or> (\<exists>s row. getEmailState (ti_emailId input) db = Some s \<and> ti_toState input \<in> set (EMAIL_TRANSITIONS s)
      \<and> email_log (ti_emailId input) db' = email_log (ti_emailId input) db @ [row]
      \<and> et_from_state row = Some s \<and> et_to_state row = ti_toState input
      \<and> getEmailState (ti_emailId input) db' = Some (ti_toState input)
      \<and> (\<forall>j. j \<noteq> ti_emailId input \<longrightarrow> email_log j db' = email_log j db \<and> getEmailState j db' = getEmailState j db))"
proof (cases "\<exists>s. getEmailState (ti_emailId input) db = Some s \<and> ti_toState input \<in> set (EMAIL_TRANSITIONS s)")
  case False
  then show ?thesis using assms(2) by (auto simp: transition_def split: option.splits)
next
  case True
  let ?k = "ti_emailId input"
  let ?t = "update_where (\<lambda>r. es_email_id r = ?k) (set_email_state now (ti_toState input)) (email_states db)"
  from True obtain s where s: "getEmailState ?k db = Some s" "ti_toState input \<in> set (EMAIL_TRANSITIONS s)" by blast
  obtain row where row: "db' = db\<lparr>email_states := ?t, email_transitions := email_transitions db @ [row]\<rparr>"
    "et_email_id row = ?k" "et_from_state row = Some s" "et_to_state row = ti_toState input"
    using log_transition_fresh [OF assms(1), of now ?k "Some s" "ti_toState input" "ti_reason input" "db\<lparr>email_states := ?t\<rparr>"]
      s assms(2) by (auto simp: transition_def)
  have "getEmailState ?k db' = Some (ti_toState input)"
    using s(1) row(1) by (auto simp: getEmailState_def set_email_state.find_update_self set_email_state_def)
  moreover have "\<forall>j. j \<noteq> ?k \<longrightarrow> email_log j db' = email_log j db \<and> getEmailState j db' = getEmailState j db"
    using row(1,2) by (auto simp: getEmailState_def set_email_state.find_update_other email_log_def)
  ultimately show ?thesis using s row by (intro disjI2 exI [of _ s] exI [of _ row]) (simp add: email_log_def)
qed

fun email_key :: "email_op \<Rightarrow> string" where
  "email_key (Init_email uuid now k reason) = k"
| "email_key (Move_email uuid now input) = ti_emailId input"

interpretation emails: logged_machine email_step fresh_ids getEmailState email_hist "\<lambda>_ _. ()"
  "\<lambda>_. EMAIL_TRANSITIONS" IMAP_RECEIVED email_key
proof unfold_locales
  fix op k db
  assume ok: "fresh_ids op" and other: "k \<noteq> email_key op"
  show "getEmailState k (email_step op db) = getEmailState k db \<and> email_hist k (email_step op db) = email_hist k db \<and> () = ()"
  proof (cases op)
    case (Init_email uuid now j reason)
    then show ?thesis using email_init_effect [of uuid now j reason db] ok other by (auto simp: email_hist_def)
  next
    case (Move_email uuid now input)
    then show ?thesis using email_move_effect [OF _ refl, of uuid now input db] ok other by (auto simp: email_hist_def)
  qed
next
  fix op k db
  assume ok: "fresh_ids op" and k: "k = email_key op"
  show "getEmailState k (email_step op db) = getEmailState k db \<and> email_hist k (email_step op db) = email_hist k db \<and> () = ()
    \<or> getEmailState k db = None \<and> getEmailState k (email_step op db) = Some IMAP_RECEIVED
      \<and> email_hist k (email_step op db) = email_hist k db @ [(None, IMAP_RECEIVED)]
    \<or> (\<exists>s t. getEmailState k db = Some s \<and> t \<in> set (EMAIL_TRANSITIONS s) \<and> getEmailState k (email_step op db) = Some t
      \<and> email_hist k (email_step op db) = email_hist k db @ [(Some s, t)] \<and> () = ())"
  proof (cases op)
    case (Init_email uuid now j reason)
    then show ?thesis using email_init_effect [of uuid now j reason db] ok k by (auto simp: email_hist_def)
  next
    case (Move_email uuid now input)
    then show ?thesis using email_move_effect [OF _ refl, of uuid now input db] ok k by (auto simp: email_hist_def)
  qed
qed

text \<open>C39: The transition log of an e-mail is its true history: after any sequence of initialisations and
  transitions, the logged target states start at \<^verbatim>\<open>IMAP_RECEIVED\<close>, form a legal path, chain with the
  logged source states and end in the current state; an e-mail without state has no log.\<close>

theorem email_history_exact:
  assumes "list_all fresh_ids ops" and "db = fold email_step ops empty_emails"
  shows "case getEmailState k db of
     None \<Rightarrow> email_log k db = []
   | Some s \<Rightarrow> (\<exists>path. map et_to_state (email_log k db) = IMAP_RECEIVED # path
       \<and> map et_from_state (email_log k db) = None # map Some (butlast (IMAP_RECEIVED # path))
       \<and> legal_path EMAIL_TRANSITIONS IMAP_RECEIVED path \<and> last (IMAP_RECEIVED # path) = s)"
proof -
  have "getEmailState j empty_emails = None \<and> email_hist j empty_emails = []" for j
    by (simp add: email_hist_def email_log_def getEmailState_def empty_emails_def)
  from emails.history_exact [OF this assms(1), of k] show ?thesis
    by (cases "getEmailState k db") (simp_all add: log_tells_def email_hist_def comp_def flip: assms(2))
qed

definition count_uuid :: "string list \<Rightarrow> string" where
  "count_uuid ids = replicate (Suc (sum_list (map length ids))) (CHR ''x'')"

lemma count_uuid_fresh: "count_uuid ids \<notin> set ids"
proof
  assume "count_uuid ids \<in> set ids"
  then have "length (count_uuid ids) \<le> sum_list (map length ids)" by (simp add: member_le_sum_list)
  then show False by (simp add: count_uuid_def)
qed

lemmas email_run = initEmailState_def transition_def log_transition_def getEmailState_def Let_def
  insert_row_def empty_emails_def email_log_def update_where_def set_email_state_def count_uuid_def

theorem email_history_exact_witness:
  "\<exists>path. map et_to_state (email_log ''e'' (fold email_step [Init_email count_uuid 0 ''e'' None,
      Move_email count_uuid 1 \<lparr>ti_emailId = ''e'', ti_toState = ANONYMISING, ti_reason = None\<rparr>] empty_emails))
     = IMAP_RECEIVED # path \<and> legal_path EMAIL_TRANSITIONS IMAP_RECEIVED path \<and> last (IMAP_RECEIVED # path) = ANONYMISING"
proof -
  let ?ops = "[Init_email count_uuid 0 ''e'' None,
      Move_email count_uuid 1 \<lparr>ti_emailId = ''e'', ti_toState = ANONYMISING, ti_reason = None\<rparr>]"
  define db where "db = fold email_step ?ops empty_emails"
  have fresh: "list_all fresh_ids ?ops" by (simp add: count_uuid_fresh)
  have "getEmailState ''e'' db = Some ANONYMISING" by (simp add: db_def email_run)
  then obtain path where "map et_to_state (email_log ''e'' db) = IMAP_RECEIVED # path"
    "legal_path EMAIL_TRANSITIONS IMAP_RECEIVED path" "last (IMAP_RECEIVED # path) = ANONYMISING"
    using email_history_exact [OF fresh db_def, of "''e''"] by auto
  then show ?thesis unfolding db_def by (intro exI [of _ path] conjI)
qed

text \<open>An e-mail whose anonymisation failed can be stored without anonymising it again: the table
  accepts \<^verbatim>\<open>FAILED\<close> to \<^verbatim>\<open>STORING\<close> whatever step had failed, so the e-mail reaches \<^verbatim>\<open>INDEXED\<close>.\<close>

theorem failed_anonymisation_stored:
  "let move = (\<lambda>t s. Move_email count_uuid t \<lparr>ti_emailId = ''e'', ti_toState = s, ti_reason = None\<rparr>);
       db = fold email_step [Init_email count_uuid 0 ''e'' None, move 1 ANONYMISING, move 2 INGESTION_FAILED,
         move 3 STORING, move 4 QUEUED, move 5 INDEXED] empty_emails
   in getEmailState ''e'' db = Some INDEXED
      \<and> map et_to_state (email_log ''e'' db) = [IMAP_RECEIVED, ANONYMISING, INGESTION_FAILED, STORING, QUEUED, INDEXED]"
  by (simp add: email_run)

end
