(* ===== verification/Auth_Limits.thy ===== *)
theory Auth_Limits
  imports DB_Prelude
begin

text \<open>
  Limits on login attempts and requests: the progressive lockout of \<^verbatim>\<open>src/packages/db/auth-lockout.ts\<close> and the
  in-process sliding-window limiters of \<^verbatim>\<open>src/apps/server/src/security/rate-limiter.ts\<close>.

  Lockout times are microseconds, as the table keeps them, read back with millisecond precision; limiter times are
  the milliseconds of \<^verbatim>\<open>Date.now()\<close>. \<open>disabled\<close> is the test of \<^verbatim>\<open>RATE_LIMIT_DISABLED\<close>. The shared cleanup timer is an
  operation \<open>cleanup\<close> that may run at any moment; the response builder \<^verbatim>\<open>tooManyRequests\<close> is left out.
\<close>

section \<open>Progressive lockout\<close>

definition LOCKOUT_THRESHOLD :: int where "LOCKOUT_THRESHOLD = 5"

definition LOCKOUT_DURATION_SECONDS :: int where "LOCKOUT_DURATION_SECONDS = 15 * 60"

definition delaySecondsFor :: "int \<Rightarrow> int" where
  "delaySecondsFor failCount = (if failCount \<le> 0 then 0 else 2 ^ nat (failCount - 1))"

record LockoutState =
  ls_blocked :: bool
  ls_retryAfterSeconds :: int
  ls_lockedOut :: bool

record lockout_row =
  lk_user_id :: string
  lk_failed_count :: int
  lk_delay_until :: "timestamp option"
  lk_locked_until :: "timestamp option"
  lk_updated_at :: timestamp

record lockout_db =
  lk_entities :: "string list"
  lk_rows :: "lockout_row list"

definition ceil_seconds :: "timestamp \<Rightarrow> int" where
  "ceil_seconds t = - (- t div second)"

definition not_locked :: LockoutState where
  "not_locked = \<lparr>ls_blocked = False, ls_retryAfterSeconds = 0, ls_lockedOut = False\<rparr>"

definition until :: "timestamp \<Rightarrow> timestamp option \<Rightarrow> timestamp option" where
  "until now t = (case t of None \<Rightarrow> None | Some u \<Rightarrow> if js_date u > js_date now then Some (js_date u - js_date now) else None)"

definition checkLockout :: "timestamp \<Rightarrow> string \<Rightarrow> lockout_db \<Rightarrow> LockoutState" where
  "checkLockout now user db =
     (case find_row lk_user_id user (lk_rows db) of
        None \<Rightarrow> not_locked
      | Some row \<Rightarrow>
          (case until now (lk_locked_until row) of
             Some d \<Rightarrow> \<lparr>ls_blocked = True, ls_retryAfterSeconds = ceil_seconds d, ls_lockedOut = True\<rparr>
           | None \<Rightarrow>
               (case until now (lk_delay_until row) of
                  Some d \<Rightarrow> \<lparr>ls_blocked = True, ls_retryAfterSeconds = ceil_seconds d, ls_lockedOut = False\<rparr>
                | None \<Rightarrow> not_locked)))"

definition bump :: "timestamp \<Rightarrow> lockout_row \<Rightarrow> lockout_row" where
  "bump now r = r\<lparr>lk_failed_count := lk_failed_count r + 1, lk_updated_at := now\<rparr>"

definition lock_row :: "timestamp \<Rightarrow> lockout_row \<Rightarrow> lockout_row" where
  "lock_row now r = r\<lparr>lk_locked_until := Some (now + LOCKOUT_DURATION_SECONDS * second), lk_delay_until := None,
     lk_updated_at := now\<rparr>"

definition delay_row :: "timestamp \<Rightarrow> int \<Rightarrow> lockout_row \<Rightarrow> lockout_row" where
  "delay_row now secs r = r\<lparr>lk_delay_until := Some (now + secs * second), lk_locked_until := None, lk_updated_at := now\<rparr>"

definition upsert_lockout ::
  "lockout_row \<Rightarrow> (lockout_row \<Rightarrow> lockout_row) \<Rightarrow> lockout_db \<Rightarrow> db_error + lockout_db" where
  "upsert_lockout row upd db =
     (if lk_user_id row \<in> lk_user_id ` set (lk_rows db)
      then Inr (db\<lparr>lk_rows := update_where (\<lambda>r. lk_user_id r = lk_user_id row) upd (lk_rows db)\<rparr>)
      else if lk_user_id row \<notin> set (lk_entities db) then Inl (ForeignKeyViolation (lk_user_id row))
      else Inr (db\<lparr>lk_rows := lk_rows db @ [row]\<rparr>))"

definition recordFailedAttempt :: "timestamp \<Rightarrow> string \<Rightarrow> lockout_db \<Rightarrow> db_error + (LockoutState \<times> lockout_db)" where
  "recordFailedAttempt now user db =
     bind_res (upsert_lockout \<lparr>lk_user_id = user, lk_failed_count = 1, lk_delay_until = Some (now + 1 * second),
         lk_locked_until = None, lk_updated_at = now\<rparr> (bump now) db) (\<lambda>db1.
     let newCount = (case find_row lk_user_id user (lk_rows db1) of None \<Rightarrow> 0 | Some r \<Rightarrow> lk_failed_count r) in
     if newCount \<ge> LOCKOUT_THRESHOLD then
       Inr (\<lparr>ls_blocked = True, ls_retryAfterSeconds = LOCKOUT_DURATION_SECONDS, ls_lockedOut = True\<rparr>,
            db1\<lparr>lk_rows := update_where (\<lambda>r. lk_user_id r = user) (lock_row now) (lk_rows db1)\<rparr>)
     else
       (let delaySec = delaySecondsFor newCount in
        Inr (\<lparr>ls_blocked = True, ls_retryAfterSeconds = delaySec, ls_lockedOut = False\<rparr>,
            db1\<lparr>lk_rows := update_where (\<lambda>r. lk_user_id r = user) (delay_row now delaySec) (lk_rows db1)\<rparr>)))"

definition clear_row :: "timestamp \<Rightarrow> lockout_row \<Rightarrow> lockout_row" where
  "clear_row now r = r\<lparr>lk_failed_count := 0, lk_delay_until := None, lk_locked_until := None, lk_updated_at := now\<rparr>"

definition resetLockout :: "timestamp \<Rightarrow> string \<Rightarrow> lockout_db \<Rightarrow> db_error + lockout_db" where
  "resetLockout now user db =
     upsert_lockout \<lparr>lk_user_id = user, lk_failed_count = 0, lk_delay_until = None, lk_locked_until = None,
       lk_updated_at = now\<rparr> (clear_row now) db"

section \<open>Sliding windows\<close>

record RateLimitResult =
  rl_allowed :: bool
  rl_limit :: int
  rl_remaining :: int
  rl_resetAt :: int

type_synonym stamp_store = "string \<Rightarrow> int list option"

record RateLimiter =
  windowMs :: int
  maxRequests :: int
  rl_store :: stamp_store

definition stamps :: "string \<Rightarrow> stamp_store \<Rightarrow> int list" where
  "stamps key m = (case m key of None \<Rightarrow> [] | Some ts \<Rightarrow> ts)"

definition window_check :: "int \<Rightarrow> int \<Rightarrow> string \<Rightarrow> stamp_store \<Rightarrow> int \<Rightarrow> RateLimitResult" where
  "window_check window most key m now =
     (let timestamps = filter (\<lambda>ts. ts > now - window) (stamps key m);
          count = int (length timestamps);
          allowed = count < most;
          oldest = (case timestamps of [] \<Rightarrow> now | t # _ \<Rightarrow> t)
      in \<lparr>rl_allowed = allowed, rl_limit = most, rl_remaining = max 0 (most - count - (if allowed then 1 else 0)),
          rl_resetAt = - (- (oldest + window) div 1000)\<rparr>)"

definition window_consume :: "int \<Rightarrow> string \<Rightarrow> int \<Rightarrow> stamp_store \<Rightarrow> stamp_store" where
  "window_consume window key now m = m(key \<mapsto> filter (\<lambda>ts. ts > now - window) (stamps key m) @ [now])"

definition window_cleanup :: "int \<Rightarrow> int \<Rightarrow> stamp_store \<Rightarrow> stamp_store" where
  "window_cleanup window now m = (\<lambda>key. case m key of
       None \<Rightarrow> None
     | Some timestamps \<Rightarrow>
         (let active = filter (\<lambda>ts. ts > now - window) timestamps in if active = [] then None else Some active))"

definition check :: "bool \<Rightarrow> string \<Rightarrow> int \<Rightarrow> RateLimiter \<Rightarrow> RateLimitResult" where
  "check disabled key now r =
     (if disabled then \<lparr>rl_allowed = True, rl_limit = maxRequests r, rl_remaining = maxRequests r, rl_resetAt = 0\<rparr>
      else window_check (windowMs r) (maxRequests r) key (rl_store r) now)"

definition consume :: "bool \<Rightarrow> string \<Rightarrow> int \<Rightarrow> RateLimiter \<Rightarrow> RateLimiter" where
  "consume disabled key now r =
     (if disabled then r else r\<lparr>rl_store := window_consume (windowMs r) key now (rl_store r)\<rparr>)"

definition cleanup :: "int \<Rightarrow> RateLimiter \<Rightarrow> RateLimiter" where
  "cleanup now r = r\<lparr>rl_store := window_cleanup (windowMs r) now (rl_store r)\<rparr>"

definition reset :: "RateLimiter \<Rightarrow> RateLimiter" where
  "reset r = r\<lparr>rl_store := Map.empty\<rparr>"

section \<open>Tenant limits\<close>

record TenantRatePolicy =
  authMaxAttempts :: "int option"
  authWindowMs :: "int option"
  embeddingMaxReads :: "int option"
  embeddingWindowMs :: "int option"

definition DEFAULT_TENANT_POLICY :: TenantRatePolicy where
  "DEFAULT_TENANT_POLICY = \<lparr>authMaxAttempts = Some 10, authWindowMs = Some (15 * 60 * 1000),
     embeddingMaxReads = Some 50, embeddingWindowMs = Some (60 * 1000)\<rparr>"

type_synonym policy_store = "string \<Rightarrow> TenantRatePolicy option"

definition setTenantRatePolicy :: "string \<Rightarrow> TenantRatePolicy option \<Rightarrow> policy_store \<Rightarrow> policy_store" where
  "setTenantRatePolicy tenant policy ps = ps(tenant := policy)"

definition or_default :: "'a option \<Rightarrow> 'a option \<Rightarrow> 'a option" where
  "or_default a d = (case a of None \<Rightarrow> d | Some x \<Rightarrow> Some x)"

definition getTenantRatePolicy :: "string \<Rightarrow> policy_store \<Rightarrow> TenantRatePolicy" where
  "getTenantRatePolicy tenant ps =
     (case ps tenant of
        None \<Rightarrow> DEFAULT_TENANT_POLICY
      | Some p \<Rightarrow> \<lparr>authMaxAttempts = or_default (authMaxAttempts p) (authMaxAttempts DEFAULT_TENANT_POLICY),
           authWindowMs = or_default (authWindowMs p) (authWindowMs DEFAULT_TENANT_POLICY),
           embeddingMaxReads = or_default (embeddingMaxReads p) (embeddingMaxReads DEFAULT_TENANT_POLICY),
           embeddingWindowMs = or_default (embeddingWindowMs p) (embeddingWindowMs DEFAULT_TENANT_POLICY)\<rparr>)"

datatype dimension = Auth | Embedding

record TenantRateLimiter =
  tl_dimension :: dimension
  tl_store :: stamp_store

definition getPolicy :: "string \<Rightarrow> policy_store \<Rightarrow> TenantRateLimiter \<Rightarrow> int \<times> int" where
  "getPolicy tenant ps l =
     (let policy = getTenantRatePolicy tenant ps in
      case tl_dimension l of
        Auth \<Rightarrow> (the (authWindowMs policy), the (authMaxAttempts policy))
      | Embedding \<Rightarrow> (the (embeddingWindowMs policy), the (embeddingMaxReads policy)))"

definition tenant_key :: "string \<Rightarrow> string \<Rightarrow> string" where
  "tenant_key tenant actor = tenant @ '':'' @ actor"

definition tenant_check ::
  "bool \<Rightarrow> policy_store \<Rightarrow> string \<Rightarrow> string \<Rightarrow> int \<Rightarrow> TenantRateLimiter \<Rightarrow> RateLimitResult" where
  "tenant_check disabled ps tenant actor now l =
     (let (window, most) = getPolicy tenant ps l in
      if disabled then \<lparr>rl_allowed = True, rl_limit = most, rl_remaining = most, rl_resetAt = 0\<rparr>
      else window_check window most (tenant_key tenant actor) (tl_store l) now)"

definition tenant_consume ::
  "bool \<Rightarrow> policy_store \<Rightarrow> string \<Rightarrow> string \<Rightarrow> int \<Rightarrow> TenantRateLimiter \<Rightarrow> TenantRateLimiter" where
  "tenant_consume disabled ps tenant actor now l =
     (if disabled then l
      else l\<lparr>tl_store := window_consume (fst (getPolicy tenant ps l)) (tenant_key tenant actor) now (tl_store l)\<rparr>)"

definition tenant_cleanup :: "int \<Rightarrow> TenantRateLimiter \<Rightarrow> TenantRateLimiter" where
  "tenant_cleanup now l = l\<lparr>tl_store := window_cleanup
     (max (the (authWindowMs DEFAULT_TENANT_POLICY)) (the (embeddingWindowMs DEFAULT_TENANT_POLICY))) now (tl_store l)\<rparr>"

definition tenant_reset :: "TenantRateLimiter \<Rightarrow> TenantRateLimiter" where
  "tenant_reset l = l\<lparr>tl_store := Map.empty\<rparr>"

section \<open>What the lockout promises\<close>

text \<open>
  Abstractly a user has a number of consecutive failures and a moment before which nothing is tried again. \<open>gap\<close>
  is the pause the \<open>n\<close>-th failure costs.
\<close>

definition gap :: "int \<Rightarrow> timestamp" where
  "gap n = (if n \<ge> 5 then 900 else 2 ^ nat (n - 1)) * second"

definition lockout_abs :: "lockout_db \<Rightarrow> string \<Rightarrow> int \<times> timestamp option" where
  "lockout_abs db user = (case find_row lk_user_id user (lk_rows db) of
       None \<Rightarrow> (0, None)
     | Some r \<Rightarrow> (lk_failed_count r, map_option js_date
         (if lk_locked_until r = None then lk_delay_until r else lk_locked_until r)))"

definition lockout_wf :: "lockout_db \<Rightarrow> bool" where
  "lockout_wf db \<longleftrightarrow>
     (\<forall>r \<in> set (lk_rows db). lk_failed_count r \<ge> 0 \<and> (lk_locked_until r = None \<or> lk_delay_until r = None))"

definition too_early :: "timestamp \<Rightarrow> timestamp option \<Rightarrow> bool" where
  "too_early now t = (case t of None \<Rightarrow> False | Some u \<Rightarrow> js_date now < u)"

interpretation bump: row_update lk_user_id "bump now" for now by unfold_locales (simp add: bump_def)
interpretation lock_row: row_update lk_user_id "lock_row now" for now by unfold_locales (simp add: lock_row_def)
interpretation delay_row: row_update lk_user_id "delay_row now secs" for now secs
  by unfold_locales (simp add: delay_row_def)
interpretation clear_row: row_update lk_user_id "clear_row now" for now by unfold_locales (simp add: clear_row_def)

lemma js_date_shift: "js_date (t + n * second) = js_date t + n * second"
proof -
  have "(t + n * second) mod 1000 = t mod 1000"
    by (simp add: second_def mod_add_eq [symmetric] flip: mod_mult_right_eq)
  then show ?thesis by (simp add: js_date_def)
qed

lemma js_date_gap: "js_date (t + gap n) = js_date t + gap n"
  by (simp only: gap_def js_date_shift)

lemma delay_is_gap: "0 < n \<Longrightarrow> n < LOCKOUT_THRESHOLD \<Longrightarrow> delaySecondsFor n * second = gap n"
  by (simp add: delaySecondsFor_def gap_def LOCKOUT_THRESHOLD_def)

lemma lock_is_gap: "LOCKOUT_THRESHOLD \<le> n \<Longrightarrow> LOCKOUT_DURATION_SECONDS * second = gap n"
  by (simp add: gap_def LOCKOUT_THRESHOLD_def LOCKOUT_DURATION_SECONDS_def)

lemma checkLockout_abs:
  assumes "lockout_wf db"
  shows "ls_blocked (checkLockout now user db) \<longleftrightarrow> too_early now (snd (lockout_abs db user))"
proof (cases "find_row lk_user_id user (lk_rows db)")
  case None
  then show ?thesis by (simp add: checkLockout_def lockout_abs_def not_locked_def too_early_def)
next
  case (Some r)
  then have "lk_locked_until r = None \<or> lk_delay_until r = None"
    using assms find_row_in unfolding lockout_wf_def by metis
  with Some show ?thesis
    by (cases "lk_locked_until r"; cases "lk_delay_until r")
       (simp_all add: checkLockout_def lockout_abs_def not_locked_def too_early_def until_def)
qed

lemma upsert_lockout_find:
  assumes "upsert_lockout row upd db = Inr db'" and "\<And>r. lk_user_id (upd r) = lk_user_id r"
  shows "find_row lk_user_id u (lk_rows db') =
      (if u = lk_user_id row
       then Some (case find_row lk_user_id u (lk_rows db) of None \<Rightarrow> row | Some r \<Rightarrow> upd r)
       else find_row lk_user_id u (lk_rows db))"
    and "lk_entities db' = lk_entities db"
    and "set (lk_rows db') \<subseteq> insert row (set (lk_rows db) \<union> upd ` set (lk_rows db))"
proof -
  note up = row_update.find_update [of lk_user_id upd, OF row_update.intro, OF assms(2)]
  let ?k = "lk_user_id row"
  show "find_row lk_user_id u (lk_rows db') =
      (if u = ?k then Some (case find_row lk_user_id u (lk_rows db) of None \<Rightarrow> row | Some r \<Rightarrow> upd r)
       else find_row lk_user_id u (lk_rows db))"
  proof (cases "?k \<in> lk_user_id ` set (lk_rows db)")
    case True
    then have "find_row lk_user_id ?k (lk_rows db) \<noteq> None" by (simp add: find_row_None_iff)
    moreover have "lk_user_id r = u" if "find_row lk_user_id u (lk_rows db) = Some r" for r
      using that by (rule find_row_key)
    ultimately show ?thesis using assms(1) True
      by (cases "find_row lk_user_id u (lk_rows db)") (auto simp: upsert_lockout_def up)
  next
    case False
    then have "find_row lk_user_id ?k (lk_rows db) = None" by (simp add: find_row_None_iff)
    then show ?thesis using assms(1) False
      by (auto simp: upsert_lockout_def find_row_append split: if_splits option.splits)
  qed
  show "lk_entities db' = lk_entities db" "set (lk_rows db') \<subseteq> insert row (set (lk_rows db) \<union> upd ` set (lk_rows db))"
    using assms(1) by (auto simp: upsert_lockout_def set_update_where split: if_splits)
qed

lemma upsert_lockout_ok:
  "lk_user_id row \<in> set (lk_entities db) \<Longrightarrow> \<exists>db'. upsert_lockout row upd db = Inr db'"
  by (simp add: upsert_lockout_def)

text \<open>The row a failure leaves behind, in one step.\<close>

definition punished :: "timestamp \<Rightarrow> lockout_row \<Rightarrow> lockout_row" where
  "punished now r = (if lk_failed_count r \<ge> LOCKOUT_THRESHOLD then lock_row now r
     else delay_row now (delaySecondsFor (lk_failed_count r)) r)"

interpretation punished: row_update lk_user_id "punished now" for now
  by unfold_locales (simp add: punished_def lock_row_def delay_row_def)

lemma recordFailedAttempt_cases:
  assumes "recordFailedAttempt now user db = Inr (s, db')"
  obtains db1 r where "upsert_lockout \<lparr>lk_user_id = user, lk_failed_count = 1, lk_delay_until = Some (now + 1 * second),
         lk_locked_until = None, lk_updated_at = now\<rparr> (bump now) db = Inr db1"
    and "find_row lk_user_id user (lk_rows db1) = Some r"
    and "lk_entities db' = lk_entities db1"
    and "\<forall>u. find_row lk_user_id u (lk_rows db') = (if u = user then Some (punished now r) else find_row lk_user_id u (lk_rows db1))"
    and "set (lk_rows db') \<subseteq> set (lk_rows db1) \<union> (\<Union>secs. delay_row now secs ` set (lk_rows db1)) \<union> lock_row now ` set (lk_rows db1)"
proof -
  let ?row = "\<lparr>lk_user_id = user, lk_failed_count = 1, lk_delay_until = Some (now + 1 * second),
         lk_locked_until = None, lk_updated_at = now\<rparr>"
  obtain db1 where up: "upsert_lockout ?row (bump now) db = Inr db1"
    using assms by (auto simp: recordFailedAttempt_def bind_res_Inr_iff)
  from upsert_lockout_find(1) [OF up bump.key_upd, of user]
  obtain r where r: "find_row lk_user_id user (lk_rows db1) = Some r" by simp
  have u: "lk_user_id r' = u" if "find_row lk_user_id u (lk_rows db1) = Some r'" for r' u
    using that by (rule find_row_key)
  show thesis
  proof (cases "lk_failed_count r \<ge> LOCKOUT_THRESHOLD")
    case True
    then have db': "db' = db1\<lparr>lk_rows := update_where (\<lambda>r. lk_user_id r = user) (lock_row now) (lk_rows db1)\<rparr>"
      using assms r by (simp add: recordFailedAttempt_def up [simplified])
    show ?thesis
      by (rule that [OF up r]) (use True r u in
          \<open>auto simp: db' punished_def lock_row.find_update set_update_where map_option_case split: option.splits\<close>)
  next
    case False
    then have db': "db' = db1\<lparr>lk_rows := update_where (\<lambda>r. lk_user_id r = user)
        (delay_row now (delaySecondsFor (lk_failed_count r))) (lk_rows db1)\<rparr>"
      using assms r by (simp add: recordFailedAttempt_def up [simplified] Let_def)
    show ?thesis
      by (rule that [OF up r]) (use False r u in
          \<open>auto simp: db' punished_def delay_row.find_update set_update_where map_option_case split: option.splits\<close>)
  qed
qed

lemma lockout_wf_row:
  "lockout_wf db \<Longrightarrow> find_row lk_user_id u (lk_rows db) = Some r \<Longrightarrow> lk_failed_count r \<ge> 0"
  using find_row_in unfolding lockout_wf_def by metis

lemma recordFailedAttempt_abs:
  assumes "lockout_wf db" and "recordFailedAttempt now user db = Inr (s, db')"
  shows "lockout_wf db'" and "lk_entities db' = lk_entities db"
    and "lockout_abs db' = (lockout_abs db)(user := (fst (lockout_abs db user) + 1,
           Some (js_date now + gap (fst (lockout_abs db user) + 1))))"
proof -
  let ?row = "\<lparr>lk_user_id = user, lk_failed_count = 1, lk_delay_until = Some (now + 1 * second),
         lk_locked_until = None, lk_updated_at = now\<rparr>"
  let ?n = "fst (lockout_abs db user) + 1"
  obtain db1 r where up: "upsert_lockout ?row (bump now) db = Inr db1"
    and r: "find_row lk_user_id user (lk_rows db1) = Some r"
    and ent: "lk_entities db' = lk_entities db1"
    and found: "\<forall>u. find_row lk_user_id u (lk_rows db') = (if u = user then Some (punished now r) else find_row lk_user_id u (lk_rows db1))"
    and rows: "set (lk_rows db') \<subseteq> set (lk_rows db1) \<union> (\<Union>secs. delay_row now secs ` set (lk_rows db1)) \<union> lock_row now ` set (lk_rows db1)"
    by (rule recordFailedAttempt_cases [OF assms(2)]) (rule that)
  note up_find = upsert_lockout_find [OF up bump.key_upd]
  have wf1: "lockout_wf db1"
    using assms(1) up_find(3) unfolding lockout_wf_def by (fastforce simp: bump_def)
  then show "lockout_wf db'"
    using rows unfolding lockout_wf_def by (fastforce simp: lock_row_def delay_row_def)
  show "lk_entities db' = lk_entities db" using ent up_find(2) by simp
  have n: "lk_failed_count r = ?n" "?n > 0"
    using r up_find(1) [of user] lockout_wf_row [OF assms(1), of user]
    by (auto simp: lockout_abs_def bump_def split: option.splits)
  have "lockout_abs db' user = (?n, Some (js_date now + gap ?n))"
    using n by (simp add: lockout_abs_def found punished_def lock_row_def delay_row_def js_date_gap lock_is_gap delay_is_gap)
  moreover have "lockout_abs db' u = lockout_abs db u" if "u \<noteq> user" for u
    using that by (simp add: lockout_abs_def found up_find(1))
  ultimately show "lockout_abs db' = (lockout_abs db)(user := (?n, Some (js_date now + gap ?n)))"
    by (auto simp: fun_eq_iff)
qed

lemma recordFailedAttempt_ok:
  assumes "user \<in> set (lk_entities db)"
  shows "\<exists>s db'. recordFailedAttempt now user db = Inr (s, db')"
proof -
  obtain db1 where "upsert_lockout \<lparr>lk_user_id = user, lk_failed_count = 1, lk_delay_until = Some (now + 1 * second),
         lk_locked_until = None, lk_updated_at = now\<rparr> (bump now) db = Inr db1"
    using upsert_lockout_ok assms by force
  then show ?thesis by (simp add: recordFailedAttempt_def Let_def)
qed

lemma resetLockout_abs:
  assumes "lockout_wf db" and "resetLockout now user db = Inr db'"
  shows "lockout_wf db'" and "lk_entities db' = lk_entities db"
    and "lockout_abs db' = (lockout_abs db)(user := (0, None))"
proof -
  note up = upsert_lockout_find [OF assms(2) [unfolded resetLockout_def] clear_row.key_upd]
  show "lockout_wf db'" using assms(1) up(3) unfolding lockout_wf_def by (fastforce simp: clear_row_def)
  show "lk_entities db' = lk_entities db" by (rule up(2))
  show "lockout_abs db' = (lockout_abs db)(user := (0, None))"
    by (auto simp: fun_eq_iff lockout_abs_def up(1) clear_row_def split: option.splits)
qed

text \<open>
  A series of wrong passwords from several users, as the login handlers process it: an attempt that \<open>checkLockout\<close>
  blocks never reaches the password check, so an attempt counts only if it was let through.
\<close>

fun failing_logins :: "(string \<times> timestamp) list \<Rightarrow> lockout_db \<Rightarrow> lockout_db option" where
  "failing_logins [] db = Some db"
| "failing_logins ((user, now) # es) db =
     (if ls_blocked (checkLockout now user db) then None
      else case recordFailedAttempt now user db of Inl _ \<Rightarrow> None | Inr (_, db') \<Rightarrow> failing_logins es db')"

definition times_of :: "string \<Rightarrow> (string \<times> timestamp) list \<Rightarrow> timestamp list" where
  "times_of user es = map (js_date \<circ> snd) (filter (\<lambda>e. fst e = user) es)"

fun paced :: "int \<Rightarrow> timestamp option \<Rightarrow> timestamp list \<Rightarrow> bool" where
  "paced n earliest [] = True"
| "paced n earliest (t # ts) =
     ((case earliest of None \<Rightarrow> True | Some u \<Rightarrow> u \<le> t) \<and> paced (n + 1) (Some (t + gap (n + 1))) ts)"

lemma failing_logins_paced:
  assumes "lockout_wf db" and "fst ` set es \<subseteq> set (lk_entities db)"
  shows "failing_logins es db \<noteq> None \<longleftrightarrow>
    (\<forall>user. paced (fst (lockout_abs db user)) (snd (lockout_abs db user)) (times_of user es))"
  using assms
proof (induction es arbitrary: db)
  case Nil
  then show ?case by (simp add: times_of_def)
next
  case (Cons e es)
  obtain user now where e: "e = (user, now)" by (cases e)
  let ?paced = "\<lambda>db es u. paced (fst (lockout_abs db u)) (snd (lockout_abs db u)) (times_of u es)"
  from Cons.prems(2) e have "user \<in> set (lk_entities db)" by simp
  then obtain s db' where step: "recordFailedAttempt now user db = Inr (s, db')"
    using recordFailedAttempt_ok by blast
  note post = recordFailedAttempt_abs [OF Cons.prems(1) step]
  have IH: "failing_logins es db' \<noteq> None \<longleftrightarrow> (\<forall>u. ?paced db' es u)"
    by (rule Cons.IH [OF post(1)]) (use Cons.prems(2) post(2) in auto)
  let ?early = "too_early now (snd (lockout_abs db user))"
  have self: "?paced db (e # es) user \<longleftrightarrow> \<not> ?early \<and> ?paced db' es user"
    by (cases "snd (lockout_abs db user)") (auto simp: e times_of_def post(3) too_early_def)
  have other: "?paced db (e # es) u \<longleftrightarrow> ?paced db' es u" if "u \<noteq> user" for u
    using that by (simp add: e times_of_def post(3))
  have "failing_logins (e # es) db \<noteq> None \<longleftrightarrow> \<not> ?early \<and> failing_logins es db' \<noteq> None"
    using checkLockout_abs [OF Cons.prems(1)] by (simp add: e step)
  also have "\<dots> \<longleftrightarrow> (\<forall>u. ?paced db (e # es) u)"
    using IH self other by metis
  finally show ?case .
qed

lemma gap_nonneg [simp]: "0 \<le> gap n"
  by (simp add: gap_def second_def)

lemma paced_last:
  "paced n (Some u) (t # ts) \<Longrightarrow> 5 \<le> n \<Longrightarrow> u + int (length ts) * (900 * second) \<le> last (t # ts)"
proof (induction ts arbitrary: n u t)
  case (Cons t' ts)
  then have "t + gap (n + 1) + int (length ts) * (900 * second) \<le> last (t' # ts)" and "u \<le> t"
    using Cons.IH [of "n + 1" "t + gap (n + 1)" t'] by simp_all
  moreover have "gap (n + 1) = 900 * second" using Cons.prems by (simp add: gap_def)
  ultimately show ?case by (simp add: algebra_simps)
qed simp

lemma paced_from_zero:
  assumes "paced 0 None ts" and "5 < length ts"
  shows "hd ts + (15 + 900 * (int (length ts) - 5)) * second \<le> last ts"
proof -
  obtain a b c d e f rest where ts: "ts = a # b # c # d # e # f # rest"
    using assms(2) by (auto simp: less_eq_Suc_le Suc_le_length_iff numeral_eq_Suc)
  have "e + gap 5 + int (length rest) * (900 * second) \<le> last (f # rest)"
    using paced_last [of 5 "e + gap 5" f rest] assms(1) by (simp add: ts)
  moreover have "a + gap 1 \<le> b" "b + gap 2 \<le> c" "c + gap 3 \<le> d" "d + gap 4 \<le> e"
    using assms(1) by (simp_all add: ts)
  ultimately show ?thesis by (simp add: ts gap_def second_def algebra_simps)
qed

text \<open>C13: The lockout implements one counter and one waiting time per user: a check blocks exactly before that
  time, a failure adds one and moves the time to 1, 2, 4 or 8 seconds and from the fifth failure on fifteen minutes
  after now, a success clears both, and no call touches another user.\<close>

theorem lockout_refines:
  assumes "lockout_wf db"
  shows "(ls_blocked (checkLockout now user db) \<longleftrightarrow> too_early now (snd (lockout_abs db user)))
    \<and> (\<forall>s db'. recordFailedAttempt now user db = Inr (s, db') \<longrightarrow> lockout_wf db' \<and>
        lockout_abs db' = (lockout_abs db)(user := (fst (lockout_abs db user) + 1,
          Some (js_date now + gap (fst (lockout_abs db user) + 1)))))
    \<and> (\<forall>db'. resetLockout now user db = Inr db' \<longrightarrow> lockout_wf db' \<and>
        lockout_abs db' = (lockout_abs db)(user := (0, None)))
    \<and> (user \<in> set (lk_entities db) \<longrightarrow> (\<exists>r. recordFailedAttempt now user db = Inr r) \<and> (\<exists>db'. resetLockout now user db = Inr db'))"
proof (intro conjI allI impI)
  show "ls_blocked (checkLockout now user db) \<longleftrightarrow> too_early now (snd (lockout_abs db user))"
    by (rule checkLockout_abs [OF assms])
  show "\<exists>r. recordFailedAttempt now user db = Inr r" if "user \<in> set (lk_entities db)"
    using recordFailedAttempt_ok [OF that] by blast
  show "\<exists>db'. resetLockout now user db = Inr db'" if "user \<in> set (lk_entities db)"
    unfolding resetLockout_def using that by (intro upsert_lockout_ok) simp
qed (fact recordFailedAttempt_abs [OF assms] resetLockout_abs [OF assms])+

definition demo_lockout :: lockout_db where
  "demo_lockout = \<lparr>lk_entities = [''u'', ''v''], lk_rows = []\<rparr>"

theorem lockout_refines_witness:
  "snd (lockout_abs demo_lockout ''u'') = None \<and> \<not> ls_blocked (checkLockout 7 ''u'' demo_lockout)
   \<and> (\<exists>r. recordFailedAttempt 7 ''u'' demo_lockout = Inr r)"
  using lockout_refines [of demo_lockout 7 "''u''"]
  by (simp add: demo_lockout_def lockout_wf_def lockout_abs_def too_early_def)

text \<open>From a cleared state a series of failing logins gets through exactly when every user paces it, each
  attempt waiting out the pause of the failure before; so guessing is slow, the \<open>n\<close>-th failure of a user
  coming no sooner than \<open>15 + 900 (n - 5)\<close> seconds after the first.\<close>

theorem lockout_pace:
  assumes "lk_rows db = []" and "fst ` set es \<subseteq> set (lk_entities db)"
  shows "(failing_logins es db \<noteq> None \<longleftrightarrow> (\<forall>user. paced 0 None (times_of user es)))
    \<and> (failing_logins es db \<noteq> None \<longrightarrow> (\<forall>user. 5 < length (times_of user es) \<longrightarrow>
         hd (times_of user es) + (15 + 900 * (int (length (times_of user es)) - 5)) * second \<le> last (times_of user es)))"
proof -
  have "failing_logins es db \<noteq> None \<longleftrightarrow> (\<forall>user. paced 0 None (times_of user es))"
    using failing_logins_paced [of db es] assms by (simp add: lockout_wf_def lockout_abs_def)
  then show ?thesis using paced_from_zero by blast
qed

theorem lockout_pace_witness:
  "failing_logins [(''u'', 0), (''v'', 0), (''u'', second)] demo_lockout \<noteq> None
   \<and> failing_logins [(''u'', 0), (''v'', 0), (''u'', second), (''u'', 2 * second)] demo_lockout = None"
proof
  have ok: "lk_rows demo_lockout = []"
    by (simp add: demo_lockout_def)
  let ?fast = "[(''u'', 0), (''v'', 0), (''u'', second), (''u'', 2 * second)]"
  let ?slow = "[(''u'', 0), (''v'', 0), (''u'', second)]"
  have es: "fst ` set ?fast \<subseteq> set (lk_entities demo_lockout)" "fst ` set ?slow \<subseteq> set (lk_entities demo_lockout)"
    by (simp_all add: demo_lockout_def)
  have "paced 0 None (times_of user ?slow)" for user
    by (cases "user = ''u''"; cases "user = ''v''") (simp_all add: times_of_def js_date_def second_def gap_def)
  then show "failing_logins ?slow demo_lockout \<noteq> None"
    using lockout_pace [OF ok es(2), THEN conjunct1] by blast
  have "\<not> paced 0 None (times_of ''u'' ?fast)"
    by (simp add: times_of_def js_date_def second_def gap_def)
  then show "failing_logins ?fast demo_lockout = None"
    using lockout_pace [OF ok es(1), THEN conjunct1] by blast
qed

section \<open>What the limiters promise\<close>

text \<open>
  The traffic a limiter sees: requests, which are checked and consumed when allowed, and the sweeps of the cleanup
  timer. \<open>serve\<close> keeps the log of the requests let through beside the limiter's own state; \<open>log_step\<close> is the reference,
  which decides from the complete log and never forgets anything.
\<close>

datatype 'k traffic = Request 'k int | Sweep int

fun moment :: "'k traffic \<Rightarrow> int" where
  "moment (Request k t) = t"
| "moment (Sweep t) = t"

fun serve :: "('k \<Rightarrow> int \<Rightarrow> 's \<Rightarrow> bool) \<Rightarrow> ('k \<Rightarrow> int \<Rightarrow> 's \<Rightarrow> 's) \<Rightarrow> (int \<Rightarrow> 's \<Rightarrow> 's) \<Rightarrow>
    'k traffic \<Rightarrow> 's \<times> ('k \<times> int) list \<Rightarrow> 's \<times> ('k \<times> int) list" where
  "serve allow use sweep (Request k t) (s, tr) = (if allow k t s then (use k t s, tr @ [(k, t)]) else (s, tr))"
| "serve allow use sweep (Sweep t) (s, tr) = (sweep t s, tr)"

definition logged :: "'k \<Rightarrow> ('k \<times> int) list \<Rightarrow> int list" where
  "logged k tr = map snd (filter (\<lambda>e. fst e = k) tr)"

definition since :: "int \<Rightarrow> int list \<Rightarrow> int list" where
  "since start ts = filter (\<lambda>t. t > start) ts"

fun log_step :: "('k \<Rightarrow> int) \<Rightarrow> ('k \<Rightarrow> int) \<Rightarrow> 'k traffic \<Rightarrow> ('k \<times> int) list \<Rightarrow> ('k \<times> int) list" where
  "log_step window most (Request k t) tr =
     (if int (length (since (t - window k) (logged k tr))) < most k then tr @ [(k, t)] else tr)"
| "log_step window most (Sweep t) tr = tr"

lemma logged_simps [simp]:
  "logged k [] = []" "logged k (tr @ [(k', t)]) = logged k tr @ (if k' = k then [t] else [])"
  by (simp_all add: logged_def)

lemma since_simps [simp]:
  "since a [] = []" "since a (ts @ us) = since a ts @ since a us" "since a [t] = (if t > a then [t] else [])"
  by (simp_all add: since_def)

lemma since_since [simp]: "a \<le> b \<Longrightarrow> since b (since a ts) = since b ts"
  by (simp add: since_def) (metis (mono_tags, lifting) filter_cong order.strict_trans1)

lemma since_shrinks: "a \<le> b \<Longrightarrow> length (since b ts) \<le> length (since a ts)"
  by (induction ts) (auto simp: since_def)

locale sliding_window =
  fixes allow :: "'k \<Rightarrow> int \<Rightarrow> 's \<Rightarrow> bool"
    and use :: "'k \<Rightarrow> int \<Rightarrow> 's \<Rightarrow> 's"
    and sweep :: "int \<Rightarrow> 's \<Rightarrow> 's"
    and ok :: "'s \<Rightarrow> bool"
    and seen :: "'s \<Rightarrow> 'k \<Rightarrow> int list"
    and window :: "'k \<Rightarrow> int"
    and most :: "'k \<Rightarrow> int"
  assumes allow_iff: "ok s \<Longrightarrow> allow k t s \<longleftrightarrow> int (length (since (t - window k) (seen s k))) < most k"
    and use_ok: "ok s \<Longrightarrow> ok (use k t s)"
    and use_seen: "ok s \<Longrightarrow> t \<le> u \<Longrightarrow> since (u - window k') (seen (use k t s) k') =
      since (u - window k') (seen s k' @ (if k' = k then [t] else []))"
    and sweep_ok: "ok s \<Longrightarrow> ok (sweep t s)"
    and sweep_seen: "ok s \<Longrightarrow> t \<le> u \<Longrightarrow> since (u - window k) (seen (sweep t s) k) = since (u - window k) (seen s k)"
begin

text \<open>At time \<open>now\<close> the state agrees with the log on everything a later check can see.\<close>

definition agrees :: "int \<Rightarrow> 's \<Rightarrow> ('k \<times> int) list \<Rightarrow> bool" where
  "agrees now s tr \<longleftrightarrow> ok s \<and>
     (\<forall>u \<ge> now. \<forall>k. since (u - window k) (seen s k) = since (u - window k) (logged k tr))"

lemma agrees_step:
  assumes "agrees now s tr" and "now \<le> moment e" and "serve allow use sweep e (s, tr) = (s', tr')"
  shows "agrees (moment e) s' tr'" and "tr' = log_step window most e tr"
proof -
  from assms(1) have ok: "ok s"
    and same: "\<And>u k. now \<le> u \<Longrightarrow> since (u - window k) (seen s k) = since (u - window k) (logged k tr)"
    by (auto simp: agrees_def)
  show "agrees (moment e) s' tr'"
  proof (cases e)
    case (Request k t)
    show ?thesis
    proof (cases "allow k t s")
      case True
      with Request assms(2,3) show ?thesis by (auto simp: agrees_def ok use_ok use_seen same)
    next
      case False
      with Request assms(1-3) show ?thesis by (auto simp: agrees_def)
    qed
  next
    case (Sweep t)
    with assms(2,3) show ?thesis by (auto simp: agrees_def ok sweep_ok sweep_seen same)
  qed
  show "tr' = log_step window most e tr"
    using assms(2,3) by (cases e) (auto simp: allow_iff [OF ok] same split: if_splits)
qed

lemma agrees_run:
  "agrees now s tr \<Longrightarrow> sorted (now # map moment es) \<Longrightarrow>
     snd (fold (serve allow use sweep) es (s, tr)) = fold (log_step window most) es tr"
proof (induction es arbitrary: now s tr)
  case (Cons e es)
  obtain s' tr' where e: "serve allow use sweep e (s, tr) = (s', tr')" by fastforce
  have "agrees (moment e) s' tr'" "tr' = log_step window most e tr"
    using agrees_step [OF Cons.prems(1) _ e] Cons.prems(2) by simp_all
  with Cons e show ?case by simp
qed simp

lemma run_equals_log:
  assumes "ok s" and "\<And>k. seen s k = []" and "sorted (map moment es)"
  shows "snd (fold (serve allow use sweep) es (s, [])) = fold (log_step window most) es []"
proof (cases es)
  case (Cons e es')
  show ?thesis
    by (rule agrees_run [of "moment e"]) (use assms Cons in \<open>auto simp: agrees_def\<close>)
qed simp

end

text \<open>The reference keeps every window within its limit.\<close>

definition in_limit :: "('k \<Rightarrow> int) \<Rightarrow> ('k \<Rightarrow> int) \<Rightarrow> ('k \<times> int) list \<Rightarrow> bool" where
  "in_limit window most tr \<longleftrightarrow> (\<forall>k u.
     int (length (filter (\<lambda>t. u - window k < t \<and> t \<le> u) (logged k tr))) \<le> max 0 (most k))"

lemma in_limit_append:
  assumes "in_limit window most tr" and "\<forall>t \<in> set (logged k tr). t \<le> now"
    and "int (length (since (now - window k) (logged k tr))) < most k"
  shows "in_limit window most (tr @ [(k, now)])"
  unfolding in_limit_def
proof (intro allI)
  fix k' u
  let ?in = "\<lambda>t. u - window k' < t \<and> t \<le> u"
  show "int (length (filter ?in (logged k' (tr @ [(k, now)])))) \<le> max 0 (most k')"
  proof (cases "k = k' \<and> ?in now")
    case True
    have "length (filter ?in (logged k tr)) \<le> length (since (now - window k) (logged k tr))"
    proof -
      have "filter ?in (logged k tr) = filter ?in (since (u - window k) (logged k tr))"
        using True by (simp add: since_def conj_commute conj_left_commute cong: conj_cong)
      then have "length (filter ?in (logged k tr)) \<le> length (since (u - window k) (logged k tr))"
        by (metis length_filter_le)
      also have "\<dots> \<le> length (since (now - window k) (logged k tr))"
        using True by (intro since_shrinks) simp
      finally show ?thesis .
    qed
    with True assms(3) show ?thesis by simp
  next
    case False
    then have "filter ?in (logged k' (tr @ [(k, now)])) = filter ?in (logged k' tr)" by auto
    then show ?thesis using assms(1) unfolding in_limit_def by simp
  qed
qed

lemma log_run_within:
  assumes "sorted (now # map moment es)" and "in_limit window most tr" and "\<forall>e \<in> set tr. snd e \<le> now"
  shows "in_limit window most (fold (log_step window most) es tr)"
  using assms
proof (induction es arbitrary: now tr)
  case (Cons e es)
  have "in_limit window most (log_step window most e tr)"
  proof (cases e)
    case (Request k t)
    have "\<forall>t' \<in> set (logged k tr). t' \<le> t"
      using Cons.prems(1,3) Request by (fastforce simp: logged_def)
    with Request Cons.prems(2) show ?thesis using in_limit_append [of window most tr k t] by simp
  qed (use Cons.prems(2) in simp)
  moreover have "\<forall>e' \<in> set (log_step window most e tr). snd e' \<le> moment e"
  proof
    fix e' assume "e' \<in> set (log_step window most e tr)"
    then have "e' \<in> set tr \<or> snd e' = moment e" by (cases e) (auto split: if_splits)
    then show "snd e' \<le> moment e" using Cons.prems(1,3) by fastforce
  qed
  ultimately show ?case using Cons.IH [of "moment e"] Cons.prems(1) by simp
qed simp

lemma log_within:
  assumes "sorted (map moment es)"
  shows "in_limit window most (fold (log_step window most) es [])"
proof (cases es)
  case (Cons e es')
  show ?thesis by (rule log_run_within [of "moment e"]) (use assms Cons in \<open>simp_all add: in_limit_def\<close>)
qed (simp add: in_limit_def)

lemma seen_consume:
  "t \<le> u \<Longrightarrow> since (u - window) (stamps k' (window_consume window k t m)) =
     since (u - window) (stamps k' m @ (if k' = k then [t] else []))"
  by (simp add: window_consume_def stamps_def flip: since_def)

lemma seen_cleanup:
  "window \<le> swept \<Longrightarrow> t \<le> u \<Longrightarrow>
     since (u - window) (stamps k (window_cleanup swept t m)) = since (u - window) (stamps k m)"
proof -
  assume "window \<le> swept" "t \<le> u"
  then have "since (u - window) (since (t - swept) ts) = since (u - window) ts" for ts
    by (intro since_since) simp
  moreover have "stamps k (window_cleanup swept t m) = since (t - swept) (stamps k m)"
    by (simp add: window_cleanup_def stamps_def Let_def since_def split: option.splits)
  ultimately show ?thesis by simp
qed

lemma allowed_iff:
  "rl_allowed (window_check window most k m t) \<longleftrightarrow> int (length (since (t - window) (stamps k m))) < most"
  by (simp add: window_check_def since_def Let_def)

definition configured :: "int \<Rightarrow> int \<Rightarrow> RateLimiter \<Rightarrow> bool" where
  "configured window most r \<longleftrightarrow> windowMs r = window \<and> maxRequests r = most"

interpretation limiter: sliding_window "\<lambda>k t r. rl_allowed (check False k t r)" "consume False" cleanup
    "configured window most" "\<lambda>r k. stamps k (rl_store r)" "\<lambda>_. window" "\<lambda>_. most" for window most
  by unfold_locales
     (simp_all add: configured_def check_def consume_def cleanup_def allowed_iff seen_consume seen_cleanup)

interpretation tenant_limiter: sliding_window "\<lambda>k t l. rl_allowed (tenant_check False ps tenant k t l)"
    "tenant_consume False ps tenant" tenant_cleanup
    "\<lambda>l. tl_dimension l = d \<and> fst (getPolicy tenant ps l) \<le> 15 * 60 * 1000"
    "\<lambda>l k. stamps (tenant_key tenant k) (tl_store l)"
    "\<lambda>_. fst (getPolicy tenant ps \<lparr>tl_dimension = d, tl_store = Map.empty\<rparr>)"
    "\<lambda>_. snd (getPolicy tenant ps \<lparr>tl_dimension = d, tl_store = Map.empty\<rparr>)" for ps tenant d
  by unfold_locales
     (auto simp: tenant_check_def tenant_consume_def tenant_cleanup_def allowed_iff seen_consume seen_cleanup
        getPolicy_def DEFAULT_TENANT_POLICY_def tenant_key_def case_prod_beta split: dimension.splits)

text \<open>C12: The limiter, which keeps only the recent time stamps of each key and lets a timer sweep old ones away,
  decides every request of every key exactly as a reference that remembers all requests ever let through.\<close>

theorem limiter_equals_log:
  assumes "sorted (map moment es)"
    and "r = \<lparr>windowMs = window, maxRequests = most, rl_store = Map.empty\<rparr>"
  shows "snd (fold (serve (\<lambda>k t r. rl_allowed (check False k t r)) (consume False) cleanup) es (r, []))
    = fold (log_step (\<lambda>_. window) (\<lambda>_. most)) es []"
  by (rule limiter.run_equals_log) (use assms in \<open>simp_all add: configured_def stamps_def\<close>)

theorem limiter_equals_log_witness:
  "snd (fold (serve (\<lambda>k t r. rl_allowed (check False k t r)) (consume False) cleanup)
      [Request ''a'' 0, Request ''a'' 5, Sweep 12, Request ''a'' 13]
      (\<lparr>windowMs = 10, maxRequests = 1, rl_store = Map.empty\<rparr>, [])) = [(''a'', 0), (''a'', 13)]"
  using limiter_equals_log [of "[Request ''a'' 0, Request ''a'' 5, Sweep 12, Request ''a'' 13]" _ 10 1, OF _ refl]
  by (simp add: logged_def since_def)

text \<open>From a fresh or reset limiter, whatever the requests and sweeps, no window of \<open>windowMs\<close> ever holds more than \<open>maxRequests\<close> admitted
  requests of one key, and per tenant and actor the same holds of the tenant's policy as long as its window is at
  most fifteen minutes.\<close>

theorem limiter_bound:
  assumes "sorted (map moment es)" and "sorted (map moment es')"
    and "fst (getPolicy tenant ps l) \<le> 15 * 60 * 1000"
  shows "in_limit (\<lambda>_. windowMs r) (\<lambda>_. maxRequests r) (snd (fold (serve (\<lambda>k t r. rl_allowed (check False k t r)) (consume False) cleanup)
        es (reset r, [])))
    \<and> in_limit (\<lambda>_. fst (getPolicy tenant ps l))
        (\<lambda>_. snd (getPolicy tenant ps l))
        (snd (fold (serve (\<lambda>k t l. rl_allowed (tenant_check False ps tenant k t l)) (tenant_consume False ps tenant)
          tenant_cleanup) es' (tenant_reset l, [])))"
proof
  show "in_limit (\<lambda>_. windowMs r) (\<lambda>_. maxRequests r) (snd (fold (serve (\<lambda>k t r. rl_allowed (check False k t r)) (consume False) cleanup)
        es (reset r, [])))"
    by (subst limiter.run_equals_log [of "windowMs r" "maxRequests r"])
       (simp_all add: configured_def reset_def stamps_def assms log_within)
  have policy: "getPolicy tenant ps (tenant_reset l) = getPolicy tenant ps l"
    "getPolicy tenant ps \<lparr>tl_dimension = tl_dimension l, tl_store = Map.empty\<rparr> = getPolicy tenant ps l"
    "tl_dimension (tenant_reset l) = tl_dimension l" "tl_store (tenant_reset l) = Map.empty"
    by (simp_all add: getPolicy_def tenant_reset_def)
  show "in_limit (\<lambda>_. fst (getPolicy tenant ps l))
        (\<lambda>_. snd (getPolicy tenant ps l))
        (snd (fold (serve (\<lambda>k t l. rl_allowed (tenant_check False ps tenant k t l)) (tenant_consume False ps tenant)
          tenant_cleanup) es' (tenant_reset l, [])))"
    by (subst tenant_limiter.run_equals_log [where d = "tl_dimension l"])
       (use assms(3) in \<open>simp_all add: policy stamps_def assms log_within\<close>)
qed

definition demo_policies :: "int \<Rightarrow> policy_store" where
  "demo_policies window = setTenantRatePolicy ''t''
     (Some \<lparr>authMaxAttempts = Some 1, authWindowMs = Some window, embeddingMaxReads = None, embeddingWindowMs = None\<rparr>) Map.empty"

theorem limiter_bound_witness:
  "in_limit (\<lambda>_. 600000) (\<lambda>_. 1) (snd (fold (serve (\<lambda>k t l. rl_allowed (tenant_check False (demo_policies 600000) ''t'' k t l))
      (tenant_consume False (demo_policies 600000) ''t'') tenant_cleanup)
      [Request ''a'' 0, Sweep 7, Request ''a'' 9] (tenant_reset \<lparr>tl_dimension = Auth, tl_store = Map.empty\<rparr>, [])))"
proof -
  let ?l = "\<lparr>tl_dimension = Auth, tl_store = Map.empty\<rparr>"
  have p: "getPolicy ''t'' (demo_policies 600000) ?l = (600000, 1)"
    by (simp add: getPolicy_def getTenantRatePolicy_def demo_policies_def setTenantRatePolicy_def or_default_def)
  show ?thesis
    using limiter_bound [of "[]" "[Request ''a'' 0, Sweep 7, Request ''a'' 9]" "''t''" "demo_policies 600000" ?l] p
    by simp
qed

text \<open>With a longer window the sweep forgets requests that still count: a tenant with one attempt an hour gets a
  second one after twenty minutes.\<close>

theorem sweep_forgets:
  "snd (fold (serve (\<lambda>k t l. rl_allowed (tenant_check False (demo_policies 3600000) ''t'' k t l))
      (tenant_consume False (demo_policies 3600000) ''t'') tenant_cleanup)
      [Request ''a'' 0, Sweep 1200000, Request ''a'' 1200000] (\<lparr>tl_dimension = Auth, tl_store = Map.empty\<rparr>, []))
    = [(''a'', 0), (''a'', 1200000)]"
  by (simp add: tenant_check_def tenant_consume_def tenant_cleanup_def window_check_def window_consume_def window_cleanup_def
      getPolicy_def getTenantRatePolicy_def demo_policies_def setTenantRatePolicy_def or_default_def
      DEFAULT_TENANT_POLICY_def stamps_def tenant_key_def Let_def)

end
