(* ===== verification/Chunker.thy ===== *)
theory Chunker
  imports JS_Strings "HOL-Library.Sublist"
begin

text \<open>
  The sentence-bounded text chunker of \<^verbatim>\<open>src/packages/core/chunker.ts\<close>.

  The two splits the code does are by
  regular expressions of one shape, a white-space run behind a lookbehind, so one scanner \<open>js_split\<close> runs both: its
  flag says whether the text read so far satisfies the lookbehind. \<open>maxTokens\<close> is a rational number; NaN and the
  infinities fail the same test as fractions do.
\<close>

section \<open>Splitting and joining\<close>

function js_split :: "(bool \<Rightarrow> 16 word \<Rightarrow> bool) \<Rightarrow> bool \<Rightarrow> js_string \<Rightarrow> js_string \<Rightarrow> js_string list" where
  "js_split behind e acc [] = [acc]"
| "js_split behind e acc (c # cs) =
     (if e \<and> ws c then acc # js_split behind e [] (dropWhile ws cs) else js_split behind (behind e c) (acc @ [c]) cs)"
  by pat_completeness auto
termination
  by (relation "measure (\<lambda>(_, _, _, t). length t)") (auto simp: length_dropWhile_le less_Suc_eq_le)

definition split_ws :: "js_string \<Rightarrow> js_string list" where
  "split_ws t = js_split (\<lambda>_ _. True) True [] t"

fun join_words :: "js_string list \<Rightarrow> js_string" where
  "join_words [] = []"
| "join_words [w] = w"
| "join_words (w # v # us) = w @ [32] @ join_words (v # us)"

section \<open>The chunker\<close>

record TextChunk =
  tc_text :: js_string
  tc_tokenCount :: nat

record ChunkOptions =
  maxTokens :: "rat option"

datatype chunk_error = RangeError rat

definition countTokens :: "js_string \<Rightarrow> nat" where
  "countTokens text = (let trimmed = js_trim text in if trimmed = [] then 0 else length (split_ws trimmed))"

text \<open>The lookbehind: \<open>.\<close>, \<open>!\<close> or \<open>?\<close>, then closing quotes, brackets and white space.\<close>

definition sentence_end :: "bool \<Rightarrow> 16 word \<Rightarrow> bool" where
  "sentence_end e c \<longleftrightarrow> c \<in> {46, 33, 63} \<or> (e \<and> (c \<in> {39, 34, 41, 93, 125} \<or> ws c))"

definition splitIntoSentences :: "js_string \<Rightarrow> js_string list" where
  "splitIntoSentences text = filter (\<lambda>s. s \<noteq> []) (map js_trim (js_split sentence_end False [] text))"

definition makeChunk :: "js_string list \<Rightarrow> TextChunk" where
  "makeChunk words = \<lparr>tc_text = join_words words, tc_tokenCount = length words\<rparr>"

text \<open>The slices of an oversized sentence; \<open>n\<close> is positive here.\<close>

function slices :: "nat \<Rightarrow> 'a list \<Rightarrow> 'a list list" where
  "slices n xs = (if xs = [] \<or> n = 0 then [] else take n xs # slices n (drop n xs))"
  by pat_completeness auto
termination
  by (relation "measure (\<lambda>(_, xs). length xs)") auto

declare slices.simps [simp del]

fun chunk_loop :: "nat \<Rightarrow> js_string list \<Rightarrow> TextChunk list \<Rightarrow> js_string list \<Rightarrow> TextChunk list" where
  "chunk_loop n [] chunks currentWords =
     (if currentWords \<noteq> [] then chunks @ [makeChunk currentWords] else chunks)"
| "chunk_loop n (sentence # sentences) chunks currentWords =
     (let sentenceWords = filter (\<lambda>w. w \<noteq> []) (split_ws (js_trim sentence)) in
      if sentenceWords = [] then chunk_loop n sentences chunks currentWords
      else
        (let (chunks, currentWords) =
           (if currentWords \<noteq> [] \<and> length currentWords + length sentenceWords > n
            then (chunks @ [makeChunk currentWords], []) else (chunks, currentWords)) in
         if length sentenceWords > n then
           (let (chunks, currentWords) =
              (if currentWords \<noteq> [] then (chunks @ [makeChunk currentWords], []) else (chunks, currentWords)) in
            chunk_loop n sentences (chunks @ map makeChunk (slices n sentenceWords)) currentWords)
         else chunk_loop n sentences chunks (currentWords @ sentenceWords)))"

definition chunkText :: "js_string \<Rightarrow> ChunkOptions \<Rightarrow> chunk_error + TextChunk list" where
  "chunkText text opts =
     (let most = (case maxTokens opts of None \<Rightarrow> 512 | Some n \<Rightarrow> n) in
      if most \<noteq> of_int \<lfloor>most\<rfloor> \<or> most < 1 then Inl (RangeError most)
      else
        (let trimmed = js_trim text in
         if trimmed = [] then Inr []
         else Inr (chunk_loop (nat \<lfloor>most\<rfloor>) (splitIntoSentences trimmed) [] [])))"

section \<open>Words\<close>

text \<open>The words of a text, as a specification: the maximal runs without white space.\<close>

fun scan_words :: "js_string \<Rightarrow> js_string \<Rightarrow> js_string list" where
  "scan_words acc [] = (if acc = [] then [] else [acc])"
| "scan_words acc (c # cs) =
     (if ws c then (if acc = [] then [] else [acc]) @ scan_words [] cs else scan_words (acc @ [c]) cs)"

definition words_of :: "js_string \<Rightarrow> js_string list" where
  "words_of t = scan_words [] t"

definition solid :: "js_string \<Rightarrow> bool" where
  "solid w \<longleftrightarrow> w \<noteq> [] \<and> list_all (\<lambda>c. \<not> ws c) w"

lemma words_of_Nil [simp]: "words_of [] = []"
  by (simp add: words_of_def)

lemma scan_words_dropWhile [simp]: "scan_words [] (dropWhile ws t) = scan_words [] t"
  by (induction t) auto

lemma scan_words_cut: "ws c \<Longrightarrow> scan_words acc (a @ c # b) = scan_words acc a @ scan_words [] b"
  by (induction a arbitrary: acc) auto

lemma words_of_cut: "ws c \<Longrightarrow> words_of (a @ c # b) = words_of a @ words_of b"
  by (simp add: words_of_def scan_words_cut)

lemma words_of_blank: "list_all ws b \<Longrightarrow> words_of (a @ b) = words_of a"
proof (induction b)
  case (Cons c b)
  moreover have "words_of b = []" if "list_all ws b" using that
    by (induction b) (simp_all add: words_of_def)
  ultimately show ?case by (simp add: words_of_cut)
qed simp

lemma scan_words_solid: "list_all (\<lambda>c. \<not> ws c) w \<Longrightarrow> scan_words acc w = (if acc @ w = [] then [] else [acc @ w])"
  by (induction w arbitrary: acc) auto

lemma words_of_solid: "solid w \<Longrightarrow> words_of w = [w]"
  by (simp add: words_of_def scan_words_solid solid_def)

lemma words_of_all_solid: "w \<in> set (words_of t) \<Longrightarrow> solid w"
proof -
  have "list_all (\<lambda>c. \<not> ws c) acc \<Longrightarrow> list_all solid (scan_words acc t)" for acc
    by (induction t arbitrary: acc) (simp_all add: solid_def)
  from this [of "[]"] show "w \<in> set (words_of t) \<Longrightarrow> solid w" by (simp add: words_of_def list_all_iff)
qed

lemma words_of_trim [simp]: "words_of (js_trim t) = words_of t"
proof -
  have "words_of (rev (dropWhile ws (rev u))) = words_of u" for u
  proof -
    have "u = rev (dropWhile ws (rev u)) @ rev (takeWhile ws (rev u))"
      by (metis rev_append rev_rev_ident takeWhile_dropWhile_id)
    moreover have "list_all ws (rev (takeWhile ws (rev u)))"
      by (auto simp: list_all_iff dest: set_takeWhileD)
    ultimately show ?thesis using words_of_blank by metis
  qed
  then show ?thesis by (simp add: js_trim_def words_of_def)
qed

lemma words_of_join: "list_all solid us \<Longrightarrow> words_of (join_words us) = us"
  by (induction us rule: join_words.induct) (simp_all add: words_of_solid words_of_cut ws_def)

text \<open>The scanner cuts only at white space, so it loses no word.\<close>

lemma js_split_words: "concat (map words_of (js_split behind e acc t)) = words_of (acc @ t)"
proof (induction behind e acc t rule: js_split.induct)
  case (2 behind e acc c cs)
  then show ?case by (auto simp: words_of_cut) (simp add: words_of_def)
qed simp

lemma split_ws_words: "filter (\<lambda>w. w \<noteq> []) (split_ws t) = words_of t"
proof -
  have "filter (\<lambda>w. w \<noteq> []) (js_split (\<lambda>_ _. True) e acc t) = scan_words acc t" if "e" for e acc
    using that by (induction "\<lambda>(_ :: bool) (_ :: 16 word). True" e acc t rule: js_split.induct) auto
  then show ?thesis by (simp add: split_ws_def words_of_def)
qed

lemma js_split_solid:
  assumes "e" and "\<not> ws (last (acc @ t))" and "acc \<noteq> [] \<or> t \<noteq> [] \<and> \<not> ws (hd t)"
  shows "[] \<notin> set (js_split (\<lambda>_ _. True) e acc t)"
  using assms
proof (induction "\<lambda>(_ :: bool) (_ :: 16 word). True" e acc t rule: js_split.induct)
  case (2 e acc c cs)
  show ?case
  proof (cases "ws c")
    case True
    with 2 have "acc \<noteq> []" "cs \<noteq> []" "\<not> ws (last cs)" by (auto split: if_splits)
    then have "dropWhile ws cs \<noteq> []" by (auto simp: dropWhile_eq_Nil_conv)
    then have "\<not> ws (hd (dropWhile ws cs))" "last (dropWhile ws cs) = last cs"
      by (simp add: hd_dropWhile) (metis \<open>dropWhile ws cs \<noteq> []\<close> last_appendR takeWhile_dropWhile_id)
    then show ?thesis using True 2 \<open>acc \<noteq> []\<close> \<open>dropWhile ws cs \<noteq> []\<close> \<open>\<not> ws (last cs)\<close> by simp
  next
    case False
    then show ?thesis using 2 by simp
  qed
qed simp

lemma trim_ends: "js_trim t \<noteq> [] \<Longrightarrow> \<not> ws (hd (js_trim t)) \<and> \<not> ws (last (js_trim t))"
proof -
  assume ne: "js_trim t \<noteq> []"
  let ?u = "dropWhile ws t"
  from ne have u: "dropWhile ws (rev ?u) \<noteq> []" by (simp add: js_trim_def)
  then have "\<not> ws (last (js_trim t))" by (simp add: js_trim_def last_rev hd_dropWhile)
  moreover have "?u = js_trim t @ rev (takeWhile ws (rev ?u))"
    by (metis js_trim_def rev_append rev_rev_ident takeWhile_dropWhile_id)
  then have "hd (js_trim t) = hd ?u" "?u \<noteq> []" using ne by (metis hd_append2, metis append_is_Nil_conv)
  then have "\<not> ws (hd (js_trim t))" by (simp add: hd_dropWhile)
  ultimately show ?thesis by simp
qed

lemma countTokens_words: "countTokens t = length (words_of t)"
proof (cases "js_trim t = []")
  case True
  then show ?thesis using words_of_trim [of t] by (simp add: countTokens_def)
next
  case False
  with trim_ends have "[] \<notin> set (split_ws (js_trim t))"
    unfolding split_ws_def by (intro js_split_solid) auto
  then have "filter (\<lambda>w. w \<noteq> []) (split_ws (js_trim t)) = split_ws (js_trim t)"
    by (metis (mono_tags, lifting) filter_True)
  then show ?thesis using False by (simp add: countTokens_def split_ws_words)
qed

lemma sentences_words: "concat (map words_of (splitIntoSentences t)) = words_of t"
proof -
  have "concat (map words_of (filter (\<lambda>s. s \<noteq> []) us)) = concat (map words_of us)" for us
    by (induction us) auto
  then show ?thesis
    using js_split_words [of sentence_end False "[]" t] by (simp add: splitIntoSentences_def comp_def)
qed

section \<open>What the loop emits\<close>

lemma slices_concat: "0 < n \<Longrightarrow> concat (slices n xs) = xs"
proof (induction n xs rule: slices.induct)
  case (1 n xs)
  then show ?case by (cases "xs = []") (simp_all add: slices.simps [of n xs] slices.simps [of n "[]"])
qed

lemma slices_sizes: "ys \<in> set (slices n xs) \<Longrightarrow> 0 < length ys \<and> length ys \<le> n"
proof (induction n xs rule: slices.induct)
  case (1 n xs)
  then show ?case by (subst (asm) (2) slices.simps) (auto split: if_splits)
qed

text \<open>The groups of words behind the chunks: sizes within the limit, no short sentence cut.\<close>

definition grouping :: "nat \<Rightarrow> js_string list \<Rightarrow> js_string list \<Rightarrow> js_string list list \<Rightarrow> bool" where
  "grouping n sentences current groups \<longleftrightarrow>
     concat groups = current @ concat (map words_of sentences)
     \<and> (\<forall>g \<in> set groups. 0 < length g \<and> length g \<le> n)
     \<and> (current \<noteq> [] \<longrightarrow> (\<exists>g gs. groups = g # gs \<and> prefix current g))
     \<and> (\<forall>s \<in> set sentences. length (words_of s) \<le> n \<longrightarrow> words_of s \<noteq> [] \<longrightarrow> (\<exists>g \<in> set groups. sublist (words_of s) g))"

lemma chunk_loop_groups:
  assumes "0 < n" and "length current \<le> n"
  shows "\<exists>groups. chunk_loop n sentences chunks current = chunks @ map makeChunk groups \<and> grouping n sentences current groups"
  using assms(2)
proof (induction sentences arbitrary: chunks current)
  case Nil
  show ?case
    by (rule exI [of _ "if current = [] then [] else [current]"]) (use Nil assms(1) in \<open>simp add: grouping_def\<close>)
next
  case (Cons s ss)
  let ?sw = "words_of s"
  have sw: "filter (\<lambda>w. w \<noteq> []) (split_ws (js_trim s)) = ?sw" by (simp add: split_ws_words)
  consider (blank) "?sw = []"
    | (flush) "?sw \<noteq> []" "current \<noteq> []" "length current + length ?sw > n" "length ?sw \<le> n"
    | (big) "?sw \<noteq> []" "length ?sw > n"
    | (join) "?sw \<noteq> []" "length current + length ?sw \<le> n"
    using Cons.prems by (cases "current = []"; cases "length ?sw > n"; cases "length current + length ?sw > n"; force)
  then show ?case
  proof cases
    case blank
    then show ?thesis using Cons.IH [OF Cons.prems, of chunks] by (simp add: sw grouping_def)
  next
    case flush
    obtain gs where gs: "chunk_loop n ss (chunks @ [makeChunk current]) ?sw = (chunks @ [makeChunk current]) @ map makeChunk gs"
      "grouping n ss ?sw gs" using Cons.IH [OF flush(4)] by blast
    then obtain g gs' where g: "gs = g # gs'" "prefix ?sw g" using flush(1) by (auto simp: grouping_def)
    have "grouping n (s # ss) current (current # gs)"
      using gs(2) g flush Cons.prems by (auto simp: grouping_def)
    moreover have "chunk_loop n (s # ss) chunks current = chunks @ map makeChunk (current # gs)"
      using flush gs(1) by (simp add: sw)
    ultimately show ?thesis by blast
  next
    case big
    define cur where "cur = (if current = [] then [] else [current])"
    let ?chunks = "chunks @ map makeChunk (cur @ slices n ?sw)"
    obtain gs where gs: "chunk_loop n ss ?chunks [] = ?chunks @ map makeChunk gs" "grouping n ss [] gs"
      using Cons.IH [of "[]" ?chunks] by auto
    have "grouping n (s # ss) current (cur @ slices n ?sw @ gs)"
      using gs(2) big Cons.prems slices_concat [OF assms(1)] slices_sizes
      by (auto simp: grouping_def cur_def)
    moreover have "chunk_loop n (s # ss) chunks current = chunks @ map makeChunk (cur @ slices n ?sw @ gs)"
      using big gs(1) by (cases "current = []") (simp_all add: sw cur_def)
    ultimately show ?thesis by blast
  next
    case join
    obtain gs where gs: "chunk_loop n ss chunks (current @ ?sw) = chunks @ map makeChunk gs"
      "grouping n ss (current @ ?sw) gs" using Cons.IH [of "current @ ?sw"] join(2) by auto
    then obtain g gs' where g: "gs = g # gs'" "prefix (current @ ?sw) g" using join(1) by (auto simp: grouping_def)
    then have "sublist ?sw g" "prefix current g"
      by (auto simp: prefix_def)
    then have "grouping n (s # ss) current gs"
      using gs(2) g join by (auto simp: grouping_def)
    moreover have "chunk_loop n (s # ss) chunks current = chunks @ map makeChunk gs"
      using join gs(1) by (auto simp: sw)
    ultimately show ?thesis by blast
  qed
qed

lemma chunkText_groups:
  assumes "chunkText text opts = Inr chunks" and "most = (case maxTokens opts of None \<Rightarrow> 512 | Some n \<Rightarrow> n)"
  obtains groups where "chunks = map makeChunk groups" and "grouping (nat \<lfloor>most\<rfloor>) (splitIntoSentences (js_trim text)) [] groups"
    and "concat groups = words_of text" and "of_nat (nat \<lfloor>most\<rfloor>) = most"
proof (cases "js_trim text = []")
  case True
  then have "chunks = []" using assms by (auto simp: chunkText_def Let_def split: if_splits)
  moreover have "splitIntoSentences [] = []" by (simp add: splitIntoSentences_def js_trim_def)
  moreover have "words_of text = []" using words_of_trim [of "text"] True by simp
  moreover have "of_nat (nat \<lfloor>most\<rfloor>) = most"
    using assms by (auto simp: chunkText_def Let_def split: if_splits)
  ultimately show thesis using True by (intro that [of "[]"]) (simp_all add: grouping_def)
next
  case False
  let ?n = "nat \<lfloor>most\<rfloor>"
  have most: "of_nat ?n = most" "1 \<le> most" and chunks: "chunks = chunk_loop ?n (splitIntoSentences (js_trim text)) [] []"
    using assms False by (auto simp: chunkText_def Let_def split: if_splits)
  from most have "0 < ?n" by linarith
  then obtain groups where "chunks = map makeChunk groups" and g: "grouping ?n (splitIntoSentences (js_trim text)) [] groups"
    using chunk_loop_groups [of ?n "[]" "splitIntoSentences (js_trim text)" "[]"] chunks by auto
  moreover from g have "concat groups = words_of text" by (simp add: grouping_def sentences_words)
  ultimately show thesis using that most(1) by blast
qed

lemma group_words:
  assumes "concat groups = words_of text" and "g \<in> set groups"
  shows "words_of (join_words g) = g"
proof (rule words_of_join)
  have "set g \<subseteq> set (words_of text)" using assms by (auto simp flip: assms(1))
  then show "list_all solid g" using words_of_all_solid by (auto simp: list_all_iff)
qed

text \<open>C15: Chunking fails with a RangeError exactly when \<open>maxTokens\<close> is not a positive integer; otherwise it
  returns, and the words of the chunks, in order, are the words of the text: none is lost, repeated or moved.\<close>

theorem chunk_roundtrip:
  assumes "most = (case maxTokens opts of None \<Rightarrow> 512 | Some n \<Rightarrow> n)"
  shows "(chunkText text opts = Inl (RangeError most) \<longleftrightarrow> \<not> (\<exists>n :: nat. 0 < n \<and> most = of_nat n))
    \<and> ((\<exists>n :: nat. 0 < n \<and> most = of_nat n) \<longrightarrow>
         (\<exists>chunks. chunkText text opts = Inr chunks \<and> concat (map (words_of \<circ> tc_text) chunks) = words_of text))"
proof (cases "\<exists>n :: nat. 0 < n \<and> most = of_nat n")
  case True
  then have "\<exists>chunks. chunkText text opts = Inr chunks"
    using assms by (cases "js_trim text = []") (auto simp: chunkText_def Let_def)
  then obtain chunks where chunks: "chunkText text opts = Inr chunks" ..
  obtain groups where g: "chunks = map makeChunk groups" "concat groups = words_of text"
    using chunkText_groups [OF chunks assms] by metis
  have "map (words_of \<circ> tc_text) chunks = groups"
    unfolding g(1) map_map by (rule map_idI) (simp add: makeChunk_def group_words [OF g(2)])
  with True g(2) chunks show ?thesis by simp
next
  case False
  have "most \<noteq> of_int \<lfloor>most\<rfloor> \<or> most < 1"
  proof (rule ccontr)
    assume "\<not> ?thesis"
    then have "0 < nat \<lfloor>most\<rfloor>" "most = of_nat (nat \<lfloor>most\<rfloor>)" by auto
    with False show False by blast
  qed
  then have "chunkText text opts = Inl (RangeError most)" using assms by (simp add: chunkText_def Let_def)
  with False show ?thesis by simp
qed

text \<open>Every chunk reports its own number of tokens, which is between one and \<open>maxTokens\<close>, and a sentence of at most
  \<open>maxTokens\<close> words is never cut: its words stand together in one chunk.\<close>

theorem chunk_limits:
  assumes "chunkText text opts = Inr chunks" and "most = (case maxTokens opts of None \<Rightarrow> 512 | Some n \<Rightarrow> n)"
  shows "(\<forall>c \<in> set chunks. tc_tokenCount c = countTokens (tc_text c) \<and> 0 < tc_tokenCount c \<and> of_nat (tc_tokenCount c) \<le> most)
    \<and> (\<forall>s \<in> set (splitIntoSentences (js_trim text)). 0 < countTokens s \<longrightarrow> of_nat (countTokens s) \<le> most \<longrightarrow>
         (\<exists>c \<in> set chunks. sublist (words_of s) (words_of (tc_text c))))"
proof -
  obtain groups where g: "chunks = map makeChunk groups" "concat groups = words_of text"
    "grouping (nat \<lfloor>most\<rfloor>) (splitIntoSentences (js_trim text)) [] groups" and most: "of_nat (nat \<lfloor>most\<rfloor>) = most"
    using chunkText_groups [OF assms] by metis
  have le: "of_nat k \<le> most \<longleftrightarrow> k \<le> nat \<lfloor>most\<rfloor>" for k
    using most by (metis of_nat_le_iff)
  show ?thesis using g(3) unfolding grouping_def le
    by (auto simp: g(1) makeChunk_def countTokens_words group_words [OF g(2)])
qed

text \<open>\<open>Hi. I am.\<close> with at most two tokens a chunk.\<close>

definition demo_text :: js_string where
  "demo_text = [72, 105, 46, 32, 73, 32, 97, 109, 46]"

lemma demo_chunks:
  "chunkText demo_text \<lparr>maxTokens = Some 2\<rparr> = Inr [makeChunk [[72, 105, 46]], makeChunk [[73], [97, 109, 46]]]"
  by (simp add: chunkText_def demo_text_def js_trim_def splitIntoSentences_def sentence_end_def split_ws_def ws_def)

theorem chunk_roundtrip_witness:
  "\<exists>chunks. chunkText demo_text \<lparr>maxTokens = Some 2\<rparr> = Inr chunks
     \<and> concat (map (words_of \<circ> tc_text) chunks) = words_of demo_text"
proof -
  have "\<exists>n :: nat. 0 < n \<and> (2 :: rat) = of_nat n" by (rule exI [of _ 2]) simp
  then show ?thesis using chunk_roundtrip [of 2 "\<lparr>maxTokens = Some 2\<rparr>" demo_text] by simp
qed

theorem chunk_limits_witness:
  "tc_tokenCount (makeChunk [[73], [97, 109, 46]]) = countTokens (tc_text (makeChunk [[73], [97, 109, 46]]))"
  using chunk_limits [OF demo_chunks refl] by simp

end
