(* ===== verification/Audit_Log.thy ===== *)
theory Audit_Log
  imports JS_Strings
begin

text \<open>
  The hash-chained audit log: the canonical text and hash of an event (\<^verbatim>\<open>src/packages/core/audit.ts\<close>), the writers of
  \<^verbatim>\<open>src/apps/server/src/policies/audit-service.ts\<close>, \<^verbatim>\<open>src/packages/db/corpus-chunk-store.ts\<close>,
  \<^verbatim>\<open>src/apps/server/src/api/bdm-campaign.ts\<close> and \<^verbatim>\<open>src/packages/db/annotation-state-machine.ts\<close>, and the
  verification of \<^verbatim>\<open>src/apps/server/src/api/audit.ts\<close>.

  Parameters: \<open>sha\<close>, the hexadecimal SHA-256 digest of the UTF-8 form of a text; \<open>store\<close>, what PostgreSQL returns for a
  JSONB value, documented to keep the value up to the order of object keys; \<open>text_col\<close>, what it returns for a JSONB
  parameter given as a text, documented in \<^verbatim>\<open>audit-service.ts\<close> to be a JSON string; \<open>uuid\<close>, the identifier drawn beside those
  in use. A JSON number is its text. Time stamps are the 24-character texts of \<^verbatim>\<open>toISOString\<close>, which the table keeps to
  the millisecond and whose order as texts is their order in time. The writers' serializable transactions make each
  one step.
\<close>

section \<open>Canonical JSON\<close>

datatype js_value =
    JNull | JBool bool | JNum js_string | JStr js_string | JArr "js_value list"
  | JObj "(js_string \<times> js_value) list"

fun js_join :: "js_string list \<Rightarrow> js_string" where
  "js_join [] = []"
| "js_join [x] = x"
| "js_join (x # y # zs) = x @ [44] @ js_join (y # zs)"

text \<open>One entry of an object: key, colon, text of the value.\<close>

definition json_entry :: "js_string \<times> js_string \<Rightarrow> js_string" where
  "json_entry f = json_quote (fst f) @ [58] @ snd f"

primrec canonicalJson :: "js_value \<Rightarrow> js_string" where
  "canonicalJson JNull = lit ''null''"
| "canonicalJson (JBool b) = (if b then lit ''true'' else lit ''false'')"
| "canonicalJson (JNum w) = w"
| "canonicalJson (JStr s) = json_quote s"
| "canonicalJson (JArr vs) = [91] @ js_join (map canonicalJson vs) @ [93]"
| "canonicalJson (JObj fs) =
     [123] @ js_join (map json_entry (sort_key fst (map (map_prod id canonicalJson) fs))) @ [125]"

text \<open>\<^verbatim>\<open>JSON.stringify\<close> leaves the keys in the order of the object.\<close>

primrec JSON_stringify :: "js_value \<Rightarrow> js_string" where
  "JSON_stringify JNull = lit ''null''"
| "JSON_stringify (JBool b) = (if b then lit ''true'' else lit ''false'')"
| "JSON_stringify (JNum w) = w"
| "JSON_stringify (JStr s) = json_quote s"
| "JSON_stringify (JArr vs) = [91] @ js_join (map JSON_stringify vs) @ [93]"
| "JSON_stringify (JObj fs) = [123] @ js_join (map json_entry (map (map_prod id JSON_stringify) fs)) @ [125]"

text \<open>Values up to key order, and the values the theorems speak of: number texts are numbers, keys are distinct.\<close>

primrec normal :: "js_value \<Rightarrow> js_value" where
  "normal JNull = JNull"
| "normal (JBool b) = JBool b"
| "normal (JNum w) = JNum w"
| "normal (JStr s) = JStr s"
| "normal (JArr vs) = JArr (map normal vs)"
| "normal (JObj fs) = JObj (sort_key fst (map (map_prod id normal) fs))"

definition number_unit :: "16 word \<Rightarrow> bool" where
  "number_unit c \<longleftrightarrow> c \<in> {43, 45, 46, 69, 101} \<or> (48 \<le> c \<and> c \<le> 57)"

primrec proper :: "js_value \<Rightarrow> bool" where
  "proper JNull = True"
| "proper (JBool b) = True"
| "proper (JNum w) = (w \<noteq> [] \<and> list_all number_unit w)"
| "proper (JStr s) = True"
| "proper (JArr vs) = list_all id (map proper vs)"
| "proper (JObj fs) = (distinct (map fst fs) \<and> list_all snd (map (map_prod id proper) fs))"

section \<open>Events and their hash\<close>

record AuditEventInput =
  ai_actor_id :: js_string
  ai_action :: js_string
  ai_entity_type :: js_string
  ai_entity_id :: js_string
  ai_before :: js_value
  ai_after :: js_value
  ai_ip :: "js_string option"
  ai_user_agent :: "js_string option"
  ai_correlation_id :: "js_string option"
  ai_ts :: js_string

record AuditEventRow = AuditEventInput +
  ae_id :: string
  ae_prev_hash :: js_string
  ae_hash :: js_string

definition payload_text :: "'a AuditEventInput_scheme \<Rightarrow> js_string" where
  \<open>payload_text p =
     lit ''{"actor_id":'' @ json_quote (ai_actor_id p) @ lit '',"action":'' @ json_quote (ai_action p)
     @ lit '',"entity_type":'' @ json_quote (ai_entity_type p) @ lit '',"entity_id":'' @ json_quote (ai_entity_id p)
     @ lit '',"before":'' @ canonicalJson (ai_before p) @ lit '',"after":'' @ canonicalJson (ai_after p)
     @ lit '',"ts":'' @ json_quote (ai_ts p) @ lit ''}''\<close>

definition computeAuditHash :: "(js_string \<Rightarrow> js_string) \<Rightarrow> js_string \<Rightarrow> 'a AuditEventInput_scheme \<Rightarrow> js_string" where
  "computeAuditHash sha prevHash payload = sha (prevHash @ payload_text payload)"

section \<open>Writers\<close>

definition chain_key :: "AuditEventRow \<Rightarrow> js_string \<times> string" where
  "chain_key r = (ai_ts r, ae_id r)"

definition GENESIS_HASH :: js_string where
  "GENESIS_HASH = replicate 64 48"

text \<open>\<^verbatim>\<open>ORDER BY ts DESC, id DESC LIMIT 1\<close>\<close>

definition latest :: "AuditEventRow list \<Rightarrow> AuditEventRow option" where
  "latest rows = (case rev (sort_key chain_key rows) of [] \<Rightarrow> None | r # _ \<Rightarrow> Some r)"

text \<open>The columns of an inserted row; the two JSONB columns are given as they are read back.\<close>

definition event_row ::
  "js_value \<Rightarrow> js_value \<Rightarrow> string \<Rightarrow> js_string \<Rightarrow> js_string \<Rightarrow> AuditEventInput \<Rightarrow> AuditEventRow" where
  "event_row before after k prevHash hash e =
     \<lparr>ai_actor_id = ai_actor_id e, ai_action = ai_action e, ai_entity_type = ai_entity_type e,
      ai_entity_id = ai_entity_id e, ai_before = before, ai_after = after, ai_ip = ai_ip e,
      ai_user_agent = ai_user_agent e, ai_correlation_id = ai_correlation_id e, ai_ts = ai_ts e,
      ae_id = k, ae_prev_hash = prevHash, ae_hash = hash\<rparr>"

definition stored_row ::
  "(js_value \<Rightarrow> js_value) \<Rightarrow> string \<Rightarrow> js_string \<Rightarrow> js_string \<Rightarrow> AuditEventInput \<Rightarrow> AuditEventRow" where
  "stored_row store k prevHash hash e = event_row (store (ai_before e)) (store (ai_after e)) k prevHash hash e"

text \<open>A writer that passes \<^verbatim>\<open>JSON.stringify(afterPayload)\<close> for the JSONB parameter, while the hash is over the object.\<close>

definition text_row ::
  "(js_string \<Rightarrow> js_value) \<Rightarrow> string \<Rightarrow> js_string \<Rightarrow> js_string \<Rightarrow> AuditEventInput \<Rightarrow> AuditEventRow" where
  "text_row text_col k prevHash hash e = event_row JNull (text_col (JSON_stringify (ai_after e))) k prevHash hash e"

definition append_row ::
  "(js_string \<Rightarrow> js_string) \<Rightarrow> (string \<Rightarrow> js_string \<Rightarrow> js_string \<Rightarrow> AuditEventInput \<Rightarrow> AuditEventRow) \<Rightarrow> (string list \<Rightarrow> string)
     \<Rightarrow> js_string \<Rightarrow> AuditEventInput \<Rightarrow> AuditEventRow list \<Rightarrow> db_error + (AuditEventRow \<times> AuditEventRow list)" where
  "append_row sha mk uuid prevHash event rows =
     (let row = mk (uuid (map ae_id rows)) prevHash (computeAuditHash sha prevHash event) event in
      bind_res (insert_row ae_id row rows) (\<lambda>rows'. Inr (row, rows')))"

definition append_event ::
  "(js_string \<Rightarrow> js_string) \<Rightarrow> (js_value \<Rightarrow> js_value) \<Rightarrow> (string list \<Rightarrow> string) \<Rightarrow> js_string \<Rightarrow> AuditEventInput
     \<Rightarrow> AuditEventRow list \<Rightarrow> db_error + (AuditEventRow \<times> AuditEventRow list)" where
  "append_event sha store uuid prevHash event rows = append_row sha (stored_row store) uuid prevHash event rows"

text \<open>The audit service; its INSERT has no \<^verbatim>\<open>correlation_id\<close>.\<close>

definition emitAuditEvent ::
  "(js_string \<Rightarrow> js_string) \<Rightarrow> (js_value \<Rightarrow> js_value) \<Rightarrow> (string list \<Rightarrow> string) \<Rightarrow> js_string option \<Rightarrow> AuditEventInput
     \<Rightarrow> AuditEventRow list \<Rightarrow> db_error + (AuditEventRow \<times> AuditEventRow list)" where
  "emitAuditEvent sha store uuid env_genesis event rows =
     (let genesis = (case env_genesis of None \<Rightarrow> GENESIS_HASH | Some g \<Rightarrow> g);
          prevHash = (case latest rows of None \<Rightarrow> genesis | Some r \<Rightarrow> ae_hash r)
      in append_event sha store uuid prevHash (event\<lparr>ai_correlation_id := None\<rparr>) rows)"

definition corpus_event :: "js_string \<Rightarrow> js_string \<Rightarrow> js_string \<Rightarrow> js_string option \<Rightarrow> js_string \<Rightarrow> AuditEventInput" where
  "corpus_event actorId tenantId topK correlationId ts =
     \<lparr>ai_actor_id = actorId, ai_action = lit ''corpus_chunk.similarity_query'', ai_entity_type = lit ''corpus_chunk'',
      ai_entity_id = tenantId, ai_before = JNull,
      ai_after = JObj [(lit ''top_k'', JNum topK), (lit ''tenant_id'', JStr tenantId)],
      ai_ip = None, ai_user_agent = None, ai_correlation_id = correlationId, ai_ts = ts\<rparr>"

definition writeAuditEvent ::
  "(js_string \<Rightarrow> js_string) \<Rightarrow> (js_string \<Rightarrow> js_value) \<Rightarrow> (string list \<Rightarrow> string) \<Rightarrow> js_string \<Rightarrow> js_string \<Rightarrow> js_string
     \<Rightarrow> js_string option \<Rightarrow> js_string \<Rightarrow> AuditEventRow list \<Rightarrow> db_error + (AuditEventRow \<times> AuditEventRow list)" where
  "writeAuditEvent sha text_col uuid actorId tenantId topK correlationId ts rows =
     append_row sha (text_row text_col) uuid (case latest rows of None \<Rightarrow> GENESIS_HASH | Some r \<Rightarrow> ae_hash r)
       (corpus_event actorId tenantId topK correlationId ts) rows"

definition campaign_event :: "js_string \<Rightarrow> js_string \<Rightarrow> js_string \<Rightarrow> js_string \<Rightarrow> AuditEventInput" where
  "campaign_event actorId tenantId rowCount ts =
     \<lparr>ai_actor_id = actorId, ai_action = lit ''bdm_campaign.export'', ai_entity_type = lit ''campaign_export'',
      ai_entity_id = tenantId, ai_before = JNull,
      ai_after = JObj [(lit ''tenant_id'', JStr tenantId), (lit ''row_count'', JNum rowCount), (lit ''format'', JStr (lit ''csv''))],
      ai_ip = None, ai_user_agent = None, ai_correlation_id = None, ai_ts = ts\<rparr>"

definition writeCampaignExportAuditEvent ::
  "(js_string \<Rightarrow> js_string) \<Rightarrow> (js_string \<Rightarrow> js_value) \<Rightarrow> (string list \<Rightarrow> string) \<Rightarrow> js_string \<Rightarrow> js_string \<Rightarrow> js_string
     \<Rightarrow> js_string \<Rightarrow> AuditEventRow list \<Rightarrow> db_error + (AuditEventRow \<times> AuditEventRow list)" where
  "writeCampaignExportAuditEvent sha text_col uuid actorId tenantId rowCount ts rows =
     append_row sha (text_row text_col) uuid (case latest rows of None \<Rightarrow> GENESIS_HASH | Some r \<Rightarrow> ae_hash r)
       (campaign_event actorId tenantId rowCount ts) rows"

section \<open>Verification\<close>

text \<open>\<open>None\<close> is \<^verbatim>\<open>{ valid: true }\<close>, \<open>Some k\<close> names the first invalid row.\<close>

fun verify_loop :: "(js_string \<Rightarrow> js_string) \<Rightarrow> js_string \<Rightarrow> AuditEventRow list \<Rightarrow> string option" where
  "verify_loop sha expectedPrevHash [] = None"
| "verify_loop sha expectedPrevHash (row # rows) =
     (if ae_prev_hash row \<noteq> expectedPrevHash then Some (ae_id row)
      else if computeAuditHash sha (ae_prev_hash row) row \<noteq> ae_hash row then Some (ae_id row)
      else verify_loop sha (ae_hash row) rows)"

definition verifyAudit :: "(js_string \<Rightarrow> js_string) \<Rightarrow> js_string option \<Rightarrow> AuditEventRow list \<Rightarrow> string option" where
  "verifyAudit sha env_genesis rows =
     verify_loop sha (case env_genesis of None \<Rightarrow> GENESIS_HASH | Some g \<Rightarrow> g) (sort_key chain_key rows)"

section \<open>The canonical text determines the value\<close>

definition delimited :: "js_string \<Rightarrow> bool" where
  "delimited r \<longleftrightarrow> r = [] \<or> hd r \<in> {44, 93, 125}"

lemma delimited_simps [simp]:
  "delimited []" "delimited (44 # r)" "delimited (93 # r)" "delimited (125 # r)"
  by (simp_all add: delimited_def)

lemma js_join_Cons: "js_join (x # xs) = x @ concat (map (Cons 44) xs)"
  by (induction xs arbitrary: x) simp_all

lemma sort_key_map: "sort_key f (map g xs) = map g (sort_key (f \<circ> g) xs)"
proof -
  have "insort_key f (g x) (map g ys) = map g (insort_key (f \<circ> g) x ys)" for x ys
    by (induction ys) simp_all
  then show ?thesis by (induction xs) simp_all
qed

lemma sorted_fields: "sort_key fst (map (map_prod id f) fs) = map (map_prod id f) (sort_key fst fs)"
  by (simp add: sort_key_map comp_def)

text \<open>Lists of delimited items, each readable on its own.\<close>

definition reads :: "('a \<Rightarrow> js_string) \<Rightarrow> ('a \<Rightarrow> 'b) \<Rightarrow> 'a set \<Rightarrow> 'a set \<Rightarrow> bool" where
  "reads enc nrm A B \<longleftrightarrow> (\<forall>x \<in> A. \<forall>y \<in> B. \<forall>r r'. delimited r \<longrightarrow> delimited r' \<longrightarrow>
     enc x @ r = enc y @ r' \<longrightarrow> nrm x = nrm y \<and> r = r')"

lemma tail_reads:
  assumes "reads enc nrm (set xs) (set ys)" and "close \<in> {93, 125}"
    and "concat (map (\<lambda>x. 44 # enc x) xs) @ close # r = concat (map (\<lambda>x. 44 # enc x) ys) @ close # r'"
  shows "map nrm xs = map nrm ys \<and> r = r'"
  using assms
proof (induction xs arbitrary: ys)
  case Nil
  then show ?case by (cases ys) auto
next
  case (Cons x xs)
  then obtain y ys' where ys: "ys = y # ys'" by (cases ys) auto
  let ?tail = "\<lambda>zs r. concat (map (\<lambda>x. 44 # enc x) zs) @ close # r"
  have "delimited (?tail zs r)" for zs r
    using Cons.prems(2) by (cases zs) auto
  moreover have "enc x @ ?tail xs r = enc y @ ?tail ys' r'"
    using Cons.prems(3) by (simp add: ys)
  ultimately have "nrm x = nrm y" and tails: "?tail xs r = ?tail ys' r'"
    using Cons.prems(1) unfolding reads_def ys by (simp_all, blast+)
  moreover have "reads enc nrm (set xs) (set ys')" using Cons.prems(1) by (simp add: reads_def ys)
  ultimately show ?case using Cons.IH [of ys', OF _ Cons.prems(2) tails] by (simp add: ys)
qed

lemma join_reads:
  assumes "reads enc nrm (set xs) (set ys)" and "close \<in> {93, 125}"
    and "\<forall>x \<in> set xs \<union> set ys. enc x \<noteq> [] \<and> hd (enc x) \<notin> {93, 125}"
    and eq: "js_join (map enc xs) @ close # r = js_join (map enc ys) @ close # r'"
  shows "map nrm xs = map nrm ys \<and> r = r'"
proof (cases xs)
  case Nil
  have "ys = []"
  proof (cases ys)
    case (Cons y ys')
    then have "enc y \<noteq> []" "hd (enc y) \<noteq> close" using assms(2,3) by auto
    moreover have "hd (enc y @ concat (map (Cons 44) (map enc ys')) @ close # r') = close"
      using eq Nil Cons by (simp add: js_join_Cons) (metis list.sel(1))
    ultimately show ?thesis by simp
  qed
  then show ?thesis using eq Nil by simp
next
  case (Cons x xs')
  have x: "enc x \<noteq> []" "hd (enc x) \<noteq> close" using assms(2,3) Cons by auto
  have "ys \<noteq> []"
  proof
    assume "ys = []"
    then have "hd (enc x @ concat (map (Cons 44) (map enc xs')) @ close # r) = close"
      using eq Cons by (simp add: js_join_Cons)
    then show False using x by simp
  qed
  then obtain y ys' where ys: "ys = y # ys'" by (cases ys) auto
  have "44 # js_join (map enc zs) @ s = concat (map (\<lambda>x. 44 # enc x) zs) @ s" if "zs \<noteq> []" for zs s
    using that by (cases zs) (simp_all add: js_join_Cons comp_def)
  from this [of xs "close # r"] this [of ys "close # r'"]
  have "concat (map (\<lambda>x. 44 # enc x) xs) @ close # r = concat (map (\<lambda>x. 44 # enc x) ys) @ close # r'"
    using eq Cons ys by simp
  then show ?thesis by (rule tail_reads [OF assms(1,2)])
qed

text \<open>The first unit of a text tells the kind of value.\<close>

fun kind :: "js_value \<Rightarrow> nat" where
  "kind JNull = 0"
| "kind (JBool b) = 1"
| "kind (JNum w) = 2"
| "kind (JStr s) = 3"
| "kind (JArr vs) = 4"
| "kind (JObj fs) = 5"

definition unit_kind :: "16 word \<Rightarrow> nat" where
  "unit_kind c = (if c = 110 then 0 else if c = 116 \<or> c = 102 then 1 else if number_unit c then 2
     else if c = 34 then 3 else if c = 91 then 4 else if c = 123 then 5 else 6)"

lemma number_not_letter [simp]:
  "number_unit c \<Longrightarrow> c \<notin> {110, 116, 102, 34, 91, 123, 44, 93, 125}"
  unfolding number_unit_def by (elim disjE) (auto simp: word_le_nat_alt)

lemma canonical_head: "proper v \<Longrightarrow> canonicalJson v \<noteq> [] \<and> unit_kind (hd (canonicalJson v)) = kind v"
proof (cases v)
  case (JNum w)
  assume "proper v"
  with JNum have w: "w \<noteq> []" "number_unit (hd w)" by (auto simp: list_all_iff)
  then show ?thesis using number_not_letter [OF w(2)] JNum by (simp add: unit_kind_def)
qed (simp_all add: unit_kind_def lit_def number_unit_def json_quote_def)

lemma number_reads:
  assumes "list_all number_unit a" and "list_all number_unit b" and "delimited r" and "delimited r'" and "a @ r = b @ r'"
  shows "a = b \<and> r = r'"
proof -
  have "takeWhile number_unit (x @ s) = x" if "list_all number_unit x" "delimited s" for x s
  proof -
    have "takeWhile number_unit s = []"
      using that(2) number_not_letter [of "hd s"] by (cases s) (auto simp: delimited_def)
    with that(1) show ?thesis by (simp add: takeWhile_append2 list_all_iff)
  qed
  then show ?thesis using assms by (metis same_append_eq)
qed

lemma not_closing: "proper v \<Longrightarrow> canonicalJson v \<noteq> [] \<and> hd (canonicalJson v) \<notin> {93, 125}"
proof -
  assume "proper v"
  then have "canonicalJson v \<noteq> []" "unit_kind (hd (canonicalJson v)) < 6"
    using canonical_head by (auto simp: less_Suc_eq numeral_eq_Suc) (cases v; simp)
  moreover have "unit_kind 93 = 6" "unit_kind 125 = 6"
    by (simp_all add: unit_kind_def number_unit_def)
  ultimately show ?thesis by auto
qed

lemma same_kind:
  assumes "proper v" and "proper w" and "canonicalJson v @ r = canonicalJson w @ r'"
  shows "kind w = kind v"
  using canonical_head [OF assms(1)] canonical_head [OF assms(2)] assms(3) by (metis hd_append2)

lemma fields_read:
  assumes "reads (canonicalJson \<circ> snd) (normal \<circ> snd) (set fs) (set gs)"
    and "js_join (map json_entry (map (map_prod id canonicalJson) fs)) @ 125 # r
       = js_join (map json_entry (map (map_prod id canonicalJson) gs)) @ 125 # r'"
  shows "map (map_prod id normal) fs = map (map_prod id normal) gs \<and> r = r'"
proof -
  define enc where "enc = json_entry \<circ> map_prod id canonicalJson"
  have enc: "enc f = json_quote (fst f) @ 58 # canonicalJson (snd f)" for f
    by (simp add: enc_def json_entry_def)
  have "reads enc (map_prod id normal) (set fs) (set gs)"
    unfolding reads_def
  proof (intro ballI allI impI)
    fix f g r r'
    assume f: "f \<in> set fs" and g: "g \<in> set gs" and d: "delimited r" "delimited r'" and eq: "enc f @ r = enc g @ r'"
    from eq have "fst f = fst g" "canonicalJson (snd f) @ r = canonicalJson (snd g) @ r'"
      by (simp_all add: enc json_quote_inj)
    moreover have "normal (snd f) = normal (snd g) \<and> r = r'"
      using assms(1) f g d calculation(2) by (simp add: reads_def)
    ultimately show "map_prod id normal f = map_prod id normal g \<and> r = r'"
      by (simp add: map_prod_def split_beta)
  qed
  moreover have "\<forall>x \<in> set fs \<union> set gs. enc x \<noteq> [] \<and> hd (enc x) \<notin> {93, 125}"
    by (simp add: enc json_quote_def)
  ultimately show ?thesis
    using join_reads [of enc "map_prod id normal" fs gs 125 r r'] assms(2) by (simp add: enc_def comp_def)
qed

lemma canonical_reads:
  "proper v \<Longrightarrow> proper w \<Longrightarrow> delimited r \<Longrightarrow> delimited r' \<Longrightarrow> canonicalJson v @ r = canonicalJson w @ r' \<Longrightarrow>
     normal v = normal w \<and> r = r'"
proof (induction v arbitrary: w r r')
  case JNull
  then show ?case using same_kind [OF JNull.prems(1,2,5)] by (cases w) (auto simp: lit_def)
next
  case (JBool b)
  then show ?case using same_kind [OF JBool.prems(1,2,5)] by (cases w) (auto simp: lit_def split: if_splits)
next
  case (JNum a)
  then show ?case using same_kind [OF JNum.prems(1,2,5)] number_reads [of a _ r r'] by (cases w) auto
next
  case (JStr s)
  then show ?case using same_kind [OF JStr.prems(1,2,5)] by (cases w) (auto simp: json_quote_inj)
next
  case (JArr vs)
  obtain us where w: "w = JArr us" using same_kind [OF JArr.prems(1,2,5)] by (cases w) auto
  have pr: "\<forall>x \<in> set vs. proper x" "\<forall>x \<in> set us. proper x"
    using JArr.prems(1,2) by (auto simp: w list_all_iff)
  have "reads canonicalJson normal (set vs) (set us)"
    using JArr.IH pr unfolding reads_def by blast
  moreover have "\<forall>x \<in> set vs \<union> set us. canonicalJson x \<noteq> [] \<and> hd (canonicalJson x) \<notin> {93, 125}"
    using pr not_closing by blast
  ultimately show ?case using join_reads [of canonicalJson normal vs us 93 r r'] JArr.prems(5) by (simp add: w)
next
  case (JObj fs)
  obtain gs where w: "w = JObj gs" using same_kind [OF JObj.prems(1,2,5)] by (cases w) auto
  have pr: "\<forall>x \<in> set fs. proper (snd x)" "\<forall>x \<in> set gs. proper (snd x)"
    using JObj.prems(1,2) by (auto simp: w list_all_iff)
  have "normal (snd f) = normal (snd g) \<and> q = q'"
    if "f \<in> set fs" "g \<in> set gs" "delimited q" "delimited q'" "canonicalJson (snd f) @ q = canonicalJson (snd g) @ q'" for f g q q'
    by (rule JObj.IH [of f]) (use that pr in \<open>auto simp: snds.simps prod_set_simps\<close>)
  then have "reads (canonicalJson \<circ> snd) (normal \<circ> snd) (set (sort_key fst fs)) (set (sort_key fst gs))"
    by (simp add: reads_def)
  from fields_read [OF this, of r r'] JObj.prems(5) show ?case by (simp add: w sorted_fields)
qed

lemma canonical_normal: "canonicalJson (normal v) = canonicalJson v"
proof (induction v)
  case (JArr vs)
  then show ?case by (simp cong: map_cong)
next
  case (JObj fs)
  let ?c = "map_prod id canonicalJson" and ?n = "map_prod id normal"
  have "map ?c (map ?n (sort_key fst fs)) = map ?c (sort_key fst fs)"
    using JObj by (auto simp: map_prod_def split_beta)
  then show ?case
    by (simp only: normal.simps canonicalJson.simps sorted_fields sort_key_id_if_sorted sorted_sort_key)
qed simp_all

text \<open>C14: Two JSON values have the same canonical text exactly when they are the same up to the order of object keys
  at every level: the order in which PostgreSQL returns the keys cannot change a hash, and no other difference can hide
  behind an equal text.\<close>

theorem canonical_json_exact:
  assumes "proper v" and "proper w"
  shows "canonicalJson v = canonicalJson w \<longleftrightarrow> normal v = normal w"
proof
  assume "canonicalJson v = canonicalJson w"
  then show "normal v = normal w" using canonical_reads [OF assms, of "[]" "[]"] by simp
next
  assume "normal v = normal w"
  then show "canonicalJson v = canonicalJson w" by (metis canonical_normal)
qed

theorem canonical_json_exact_witness:
  "canonicalJson (JObj [(lit ''b'', JNum (lit ''1'')), (lit ''a'', JArr [JNull, JBool True])])
   = canonicalJson (JObj [(lit ''a'', JArr [JNull, JBool True]), (lit ''b'', JNum (lit ''1''))])
   \<and> canonicalJson (JStr (lit ''1'')) \<noteq> canonicalJson (JNum (lit ''1''))"
proof
  show "canonicalJson (JObj [(lit ''b'', JNum (lit ''1'')), (lit ''a'', JArr [JNull, JBool True])])
    = canonicalJson (JObj [(lit ''a'', JArr [JNull, JBool True]), (lit ''b'', JNum (lit ''1''))])"
    by (rule iffD2 [OF canonical_json_exact]) (simp_all add: lit_def number_unit_def)
  show "canonicalJson (JStr (lit ''1'')) \<noteq> canonicalJson (JNum (lit ''1''))"
    using canonical_json_exact [of "JStr (lit ''1'')" "JNum (lit ''1'')"] by (simp add: lit_def number_unit_def)
qed

section \<open>Chains\<close>

definition payload_value where
  "payload_value p = (ai_actor_id p, ai_action p, ai_entity_type p, ai_entity_id p, normal (ai_before p),
     normal (ai_after p), ai_ts p)"

definition proper_event :: "'a AuditEventInput_scheme \<Rightarrow> bool" where
  "proper_event p \<longleftrightarrow> proper (ai_before p) \<and> proper (ai_after p)"

lemma payload_value_text: "payload_value p = payload_value q \<Longrightarrow> payload_text p = payload_text q"
proof -
  assume "payload_value p = payload_value q"
  then have "canonicalJson (ai_before p) = canonicalJson (ai_before q)" "canonicalJson (ai_after p) = canonicalJson (ai_after q)"
    "ai_actor_id p = ai_actor_id q" "ai_action p = ai_action q" "ai_entity_type p = ai_entity_type q"
    "ai_entity_id p = ai_entity_id q" "ai_ts p = ai_ts q"
    by (simp_all add: payload_value_def) (metis canonical_normal)+
  then show "payload_text p = payload_text q" by (simp add: payload_text_def)
qed

lemma payload_text_value:
  assumes "proper_event p" and "proper_event q"
  shows "payload_text p = payload_text q \<longleftrightarrow> payload_value p = payload_value q"
proof
  assume eq: "payload_text p = payload_text q"
  then have strs: "ai_actor_id p = ai_actor_id q" "ai_action p = ai_action q" "ai_entity_type p = ai_entity_type q"
    "ai_entity_id p = ai_entity_id q"
    and rest: "canonicalJson (ai_before p) @ lit '',\"after\":'' @ canonicalJson (ai_after p) @ lit '',\"ts\":'' @ json_quote (ai_ts p) @ lit ''}''
      = canonicalJson (ai_before q) @ lit '',\"after\":'' @ canonicalJson (ai_after q) @ lit '',\"ts\":'' @ json_quote (ai_ts q) @ lit ''}''"
    by (simp_all add: payload_text_def json_quote_inj)
  have comma: "delimited (lit (CHR '','' # s) @ r)" for s r by (simp add: lit_def delimited_def)
  have before: "normal (ai_before p) = normal (ai_before q)"
    and rest: "canonicalJson (ai_after p) @ lit '',\"ts\":'' @ json_quote (ai_ts p) @ lit ''}''
      = canonicalJson (ai_after q) @ lit '',\"ts\":'' @ json_quote (ai_ts q) @ lit ''}''"
    using canonical_reads [OF _ _ comma comma rest] assms by (simp_all add: proper_event_def)
  have "normal (ai_after p) = normal (ai_after q)" "json_quote (ai_ts p) @ lit ''}'' = json_quote (ai_ts q) @ lit ''}''"
    using canonical_reads [OF _ _ comma comma rest] assms by (simp_all add: proper_event_def)
  with strs before show "payload_value p = payload_value q" by (simp add: payload_value_def json_quote_inj)
qed (rule payload_value_text)

definition head_hash :: "js_string \<Rightarrow> AuditEventRow list \<Rightarrow> js_string" where
  "head_hash genesis rows = (if rows = [] then genesis else ae_hash (last rows))"

lemma verify_snoc:
  "verify_loop sha g (rows @ [row]) = None \<longleftrightarrow>
     verify_loop sha g rows = None \<and> ae_prev_hash row = head_hash g rows
     \<and> computeAuditHash sha (ae_prev_hash row) row = ae_hash row"
  by (induction rows arbitrary: g) (auto simp: head_hash_def)

lemma latest_head: "(case latest rows of None \<Rightarrow> g | Some r \<Rightarrow> ae_hash r) = head_hash g (sort_key chain_key rows)"
proof -
  have "(case latest rows of None \<Rightarrow> g | Some r \<Rightarrow> ae_hash r)
      = (case rev (sort_key chain_key rows) of [] \<Rightarrow> g | r # _ \<Rightarrow> ae_hash r)"
    by (simp add: latest_def split: list.splits)
  also have "\<dots> = head_hash g (sort_key chain_key rows)"
    by (cases "sort_key chain_key rows" rule: rev_cases) (simp_all add: head_hash_def)
  finally show ?thesis .
qed

lemma insort_snoc_max: "f x \<le> f row \<Longrightarrow> insort_key f x (ys @ [row]) = insort_key f x ys @ [row]"
  by (induction ys) simp_all

lemma sort_key_snoc_max: "\<forall>r \<in> set rows. f r \<le> f row \<Longrightarrow> sort_key f (rows @ [row]) = sort_key f rows @ [row]"
  by (induction rows) (simp_all add: insort_snoc_max)

lemma append_row_ok:
  assumes "\<forall>ids. uuid ids \<notin> set ids" and "\<And>k p h. ae_id (mk k p h e) = k" "\<And>k p h. ai_ts (mk k p h e) = ai_ts e"
    and "\<forall>r \<in> set rows. ai_ts r < ai_ts e"
    and row_def: "row = mk (uuid (map ae_id rows)) prevHash (computeAuditHash sha prevHash e) e"
  shows "append_row sha mk uuid prevHash e rows = Inr (row, rows @ [row])"
    and "sort_key chain_key (rows @ [row]) = sort_key chain_key rows @ [row]"
proof -
  have "uuid (map ae_id rows) \<notin> ae_id ` set rows" using assms(1) [rule_format, of "map ae_id rows"] by simp
  then show "append_row sha mk uuid prevHash e rows = Inr (row, rows @ [row])"
    by (simp add: append_row_def insert_row_def Let_def assms(2) row_def)
  show "sort_key chain_key (rows @ [row]) = sort_key chain_key rows @ [row]"
    using assms(3,4) by (intro sort_key_snoc_max) (auto simp: chain_key_def less_eq_prod_simp row_def)
qed

datatype audit_op =
    Emit "string list \<Rightarrow> string" AuditEventInput
  | Similarity_query "string list \<Rightarrow> string" js_string js_string js_string "js_string option" js_string
  | Campaign_export "string list \<Rightarrow> string" js_string js_string js_string js_string

fun audit_step ::
  "(js_string \<Rightarrow> js_string) \<Rightarrow> (js_value \<Rightarrow> js_value) \<Rightarrow> (js_string \<Rightarrow> js_value) \<Rightarrow> js_string option \<Rightarrow> audit_op
     \<Rightarrow> AuditEventRow list \<Rightarrow> AuditEventRow list" where
  "audit_step sha store text_col env (Emit uuid e) rows = commit rows (emitAuditEvent sha store uuid env e rows)"
| "audit_step sha store text_col env (Similarity_query uuid a t k c ts) rows =
     commit rows (writeAuditEvent sha text_col uuid a t k c ts rows)"
| "audit_step sha store text_col env (Campaign_export uuid a t n ts) rows =
     commit rows (writeCampaignExportAuditEvent sha text_col uuid a t n ts rows)"

fun op_event :: "audit_op \<Rightarrow> AuditEventInput" where
  "op_event (Emit uuid e) = e\<lparr>ai_correlation_id := None\<rparr>"
| "op_event (Similarity_query uuid a t k c ts) = corpus_event a t k c ts"
| "op_event (Campaign_export uuid a t n ts) = campaign_event a t n ts"

fun op_uuid :: "audit_op \<Rightarrow> string list \<Rightarrow> string" where
  "op_uuid (Emit uuid e) = uuid"
| "op_uuid (Similarity_query uuid a t k c ts) = uuid"
| "op_uuid (Campaign_export uuid a t n ts) = uuid"

text \<open>The writers that pass a text for the JSONB parameter, and the event as the table keeps it.\<close>

fun writes_text :: "audit_op \<Rightarrow> bool" where
  "writes_text (Emit uuid e) = False"
| "writes_text op = True"

definition kept_event :: "audit_op \<Rightarrow> AuditEventInput" where
  "kept_event op = (if writes_text op then (op_event op)\<lparr>ai_after := JStr (JSON_stringify (ai_after (op_event op)))\<rparr>
     else op_event op)"

definition op_row ::
  "(js_value \<Rightarrow> js_value) \<Rightarrow> (js_string \<Rightarrow> js_value) \<Rightarrow> audit_op \<Rightarrow> string \<Rightarrow> js_string \<Rightarrow> js_string \<Rightarrow> AuditEventInput
     \<Rightarrow> AuditEventRow" where
  "op_row store text_col op = (if writes_text op then text_row text_col else stored_row store)"

lemma op_row_fields [simp]:
  "ae_id (op_row store text_col op k p h e) = k" "ae_prev_hash (op_row store text_col op k p h e) = p"
  "ae_hash (op_row store text_col op k p h e) = h" "ai_ts (op_row store text_col op k p h e) = ai_ts e"
  by (simp_all add: op_row_def text_row_def stored_row_def event_row_def)

lemma audit_step_append:
  assumes "(case env of None \<Rightarrow> GENESIS_HASH | Some g \<Rightarrow> g) = GENESIS_HASH"
  shows "audit_step sha store text_col env op rows = commit rows (append_row sha (op_row store text_col op) (op_uuid op)
     (head_hash GENESIS_HASH (sort_key chain_key rows)) (op_event op) rows)"
  using assms by (cases op) (simp_all add: emitAuditEvent_def writeAuditEvent_def writeCampaignExportAuditEvent_def
    append_event_def op_row_def Let_def flip: latest_head)

lemma op_row_payload:
  assumes "\<And>v. normal (store v) = normal v" and "\<And>t. text_col t = JStr t"
  shows "payload_value (op_row store text_col op k p h (op_event op)) = payload_value (kept_event op)"
    and "payload_text (op_row store text_col op k p h (op_event op)) = payload_text (op_event op) \<longleftrightarrow> \<not> writes_text op"
proof -
  have canonical: "canonicalJson (store v) = canonicalJson v" for v by (metis assms(1) canonical_normal)
  have before: "writes_text op \<Longrightarrow> ai_before (op_event op) = JNull"
    and after: "writes_text op \<Longrightarrow> \<exists>fs. ai_after (op_event op) = JObj fs"
    by (cases op; simp add: corpus_event_def campaign_event_def)+
  then show "payload_value (op_row store text_col op k p h (op_event op)) = payload_value (kept_event op)"
    by (simp add: op_row_def text_row_def stored_row_def event_row_def payload_value_def kept_event_def assms)
  show "payload_text (op_row store text_col op k p h (op_event op)) = payload_text (op_event op) \<longleftrightarrow> \<not> writes_text op"
  proof (cases "writes_text op")
    case True
    then obtain fs where "ai_after (op_event op) = JObj fs" using after by blast
    with True before show ?thesis
      by (simp add: op_row_def text_row_def event_row_def payload_text_def assms(2) json_quote_def)
  qed (simp add: op_row_def stored_row_def event_row_def payload_text_def canonical)
qed

lemma verify_after:
  "verify_loop sha g (xs @ ys) = (case verify_loop sha g xs of None \<Rightarrow> verify_loop sha (head_hash g xs) ys | Some k \<Rightarrow> Some k)"
proof (induction xs arbitrary: g)
  case (Cons x xs)
  have "head_hash g (x # xs) = head_hash (ae_hash x) xs" by (simp add: head_hash_def)
  with Cons show ?case by (auto split: option.split)
qed (simp add: head_hash_def)

text \<open>No two of the texts hashed for one new event, as written and as read back, collide.\<close>

definition no_collision :: "(js_string \<Rightarrow> js_string) \<Rightarrow> audit_op list \<Rightarrow> AuditEventRow list \<Rightarrow> bool" where
  "no_collision sha ops new \<longleftrightarrow> list_all (\<lambda>(op, row). payload_text row \<noteq> payload_text (op_event op) \<longrightarrow>
     sha (ae_prev_hash row @ payload_text row) \<noteq> sha (ae_prev_hash row @ payload_text (op_event op))) (zip ops new)"

definition first_text_row :: "audit_op list \<Rightarrow> AuditEventRow list \<Rightarrow> string option" where
  "first_text_row ops new = map_option (ae_id \<circ> snd) (List.find (writes_text \<circ> fst) (zip ops new))"

lemma audit_run:
  assumes "(case env of None \<Rightarrow> GENESIS_HASH | Some g \<Rightarrow> g) = GENESIS_HASH" and "\<And>v. normal (store v) = normal v"
    and "\<And>t. text_col t = JStr t" and "list_all (\<lambda>op. \<forall>ids. op_uuid op ids \<notin> set ids) ops"
    and "sorted_wrt (<) (map (ai_ts \<circ> op_event) ops)"
    and "\<forall>r \<in> set rows. \<forall>op \<in> set ops. ai_ts r < ai_ts (op_event op)"
  shows "\<exists>new. fold (audit_step sha store text_col env) ops rows = rows @ new \<and> length new = length ops
    \<and> sort_key chain_key (rows @ new) = sort_key chain_key rows @ new
    \<and> map payload_value new = map (payload_value \<circ> kept_event) ops
    \<and> (no_collision sha ops new \<longrightarrow>
         verify_loop sha (head_hash GENESIS_HASH (sort_key chain_key rows)) new = first_text_row ops new)"
  using assms(4-)
proof (induction ops arbitrary: rows)
  case Nil
  then show ?case by (simp add: first_text_row_def)
next
  case (Cons op ops)
  let ?g = "head_hash GENESIS_HASH (sort_key chain_key rows)"
  let ?row = "op_row store text_col op (op_uuid op (map ae_id rows)) ?g (computeAuditHash sha ?g (op_event op)) (op_event op)"
  have fresh: "\<forall>ids. op_uuid op ids \<notin> set ids" and late: "\<forall>r \<in> set rows. ai_ts r < ai_ts (op_event op)"
    using Cons.prems by simp_all
  note row = append_row_ok [of "op_uuid op" "op_row store text_col op" "op_event op" rows ?row ?g sha, OF fresh _ _ late refl, simplified]
  have step: "audit_step sha store text_col env op rows = rows @ [?row]"
    by (simp add: audit_step_append [OF assms(1)] row(1))
  have "\<forall>r \<in> set (rows @ [?row]). \<forall>o' \<in> set ops. ai_ts r < ai_ts (op_event o')" using Cons.prems(2,3) by auto
  from Cons.IH [OF _ _ this] Cons.prems obtain new where
    new: "fold (audit_step sha store text_col env) ops (rows @ [?row]) = (rows @ [?row]) @ new" "length new = length ops"
      "sort_key chain_key ((rows @ [?row]) @ new) = (sort_key chain_key rows @ [?row]) @ new"
      "map payload_value new = map (payload_value \<circ> kept_event) ops"
    and loop: "no_collision sha ops new \<Longrightarrow>
      verify_loop sha (head_hash GENESIS_HASH (sort_key chain_key rows @ [?row])) new = first_text_row ops new"
    by (auto simp: row(2) simp del: append_assoc)
  have "verify_loop sha ?g (?row # new) = first_text_row (op # ops) (?row # new)" if "no_collision sha (op # ops) (?row # new)"
  proof -
    have "payload_text ?row = payload_text (op_event op) \<longleftrightarrow> \<not> writes_text op"
      by (rule op_row_payload(2)) (rule assms(2,3))+
    then have "computeAuditHash sha ?g ?row \<noteq> computeAuditHash sha ?g (op_event op) \<longleftrightarrow> writes_text op"
      using that unfolding computeAuditHash_def no_collision_def by (cases "writes_text op") simp_all
    then show ?thesis using that loop by (simp add: first_text_row_def no_collision_def head_hash_def)
  qed
  with new step op_row_payload(1) [of store text_col, OF assms(2,3)] show ?case
    by (intro exI [of _ "?row # new"]) simp
qed

lemma objects_kept:
  assumes "list_all (\<lambda>op. \<not> writes_text op) ops" and "map payload_value new = map (payload_value \<circ> kept_event) ops"
  shows "no_collision sha ops new" and "first_text_row ops new = None"
proof -
  have "payload_text row = payload_text (op_event op)" if pair: "(op, row) \<in> set (zip ops new)" for op row
  proof -
    obtain i where i: "i < length ops" "i < length new" "op = ops ! i" "row = new ! i"
      using pair by (auto simp: set_zip)
    then have "\<not> writes_text op" using assms(1) by (simp add: list_all_iff)
    then show ?thesis using arg_cong [OF assms(2), of "\<lambda>xs. xs ! i"] i by (intro payload_value_text) (simp add: kept_event_def)
  qed
  then show "no_collision sha ops new" by (auto simp: no_collision_def list_all_iff)
  show "first_text_row ops new = None"
    using assms(1) by (auto simp: first_text_row_def find_None_iff list_all_iff dest: set_zip_leftD)
qed

lemma tamper_loop:
  assumes "verify_loop sha g xs = None" and "verify_loop sha g ys = None" and "length xs = length ys"
    and "head_hash g xs = head_hash g ys" and "\<And>t. length (sha t) = 64" and "length g = 64"
    and "\<forall>r \<in> set xs \<union> set ys. proper_event r"
    and "inj_on sha ((\<lambda>r. ae_prev_hash r @ payload_text r) ` (set xs \<union> set ys))"
  shows "map payload_value xs = map payload_value ys"
  using assms(1-4,7-)
proof (induction xs arbitrary: ys rule: rev_induct)
  case (snoc x xs)
  then obtain ys' y where ys: "ys = ys' @ [y]" by (cases ys rule: rev_cases) auto
  note vx = snoc.prems(1) [unfolded verify_snoc] and vy = snoc.prems(2) [unfolded ys verify_snoc]
  have len: "length (head_hash g zs) = 64" if "verify_loop sha g zs = None" for zs
  proof (cases zs rule: rev_cases)
    case (snoc us u)
    have "ae_hash u = sha (ae_prev_hash u @ payload_text u)"
      using that unfolding snoc verify_snoc computeAuditHash_def by metis
    then show ?thesis by (simp add: snoc head_hash_def assms(5))
  qed (simp add: head_hash_def assms(6))
  have "ae_hash x = ae_hash y" using snoc.prems(4) by (simp add: head_hash_def ys)
  then have "sha (ae_prev_hash x @ payload_text x) = sha (ae_prev_hash y @ payload_text y)"
    using vx vy unfolding computeAuditHash_def by metis
  then have "ae_prev_hash x @ payload_text x = ae_prev_hash y @ payload_text y"
    by (rule inj_onD [OF snoc.prems(6)]) (simp_all add: ys)
  then have same: "ae_prev_hash x = ae_prev_hash y" "payload_text x = payload_text y"
    using vx vy len by (metis append_eq_append_conv)+
  have "map payload_value xs = map payload_value ys'"
  proof (rule snoc.IH)
    show "inj_on sha ((\<lambda>r. ae_prev_hash r @ payload_text r) ` (set xs \<union> set ys'))"
      by (rule inj_on_subset [OF snoc.prems(6)]) (auto simp: ys)
  qed (use vx vy same(1) snoc.prems(3,5) ys in auto)
  moreover have "payload_value x = payload_value y"
    using payload_text_value [of x y] same(2) snoc.prems(5) by (simp add: ys)
  ultimately show ?case by (simp add: ys)
qed simp

text \<open>C8: For every sequence of writes of the three chain writers, in the order of their time stamps, from any log that
  verifies: each write appends one row, carrying the event's own payload in the case of \<open>emitAuditEvent\<close> and the JSON
  text of the payload, as a string, in the case of the two writers that pass \<^verbatim>\<open>JSON.stringify(afterPayload)\<close>; and
  \<open>/api/audit/verify\<close> answers valid exactly as long as no row of these two has been written, and reports the first such
  row otherwise, whatever key order the database gives JSON objects back in. The report of a text row supposes that the
  hash of its event does not coincide with the hash of what is read back.\<close>

theorem audit_chain_verifies:
  assumes "env = None \<or> env = Some GENESIS_HASH" and "\<forall>v. normal (store v) = normal v" and "\<forall>t. text_col t = JStr t"
    and "list_all (\<lambda>op. \<forall>ids. op_uuid op ids \<notin> set ids) ops"
    and "verifyAudit sha env rows = None"
    and "sorted_wrt (<) (map (ai_ts \<circ> op_event) ops)"
    and "\<forall>r \<in> set rows. \<forall>op \<in> set ops. ai_ts r < ai_ts (op_event op)"
  shows "\<exists>new. fold (audit_step sha store text_col env) ops rows = rows @ new
    \<and> map payload_value new = map (payload_value \<circ> kept_event) ops
    \<and> (no_collision sha ops new \<longrightarrow> verifyAudit sha env (rows @ new) = first_text_row ops new)
    \<and> (list_all (\<lambda>op. \<not> writes_text op) ops \<longrightarrow> verifyAudit sha env (rows @ new) = None)"
proof -
  have env: "(case env of None \<Rightarrow> GENESIS_HASH | Some g \<Rightarrow> g) = GENESIS_HASH" using assms(1) by auto
  obtain new where new: "fold (audit_step sha store text_col env) ops rows = rows @ new" "length new = length ops"
      "sort_key chain_key (rows @ new) = sort_key chain_key rows @ new"
      "map payload_value new = map (payload_value \<circ> kept_event) ops"
    and loop: "no_collision sha ops new \<Longrightarrow>
      verify_loop sha (head_hash GENESIS_HASH (sort_key chain_key rows)) new = first_text_row ops new"
    using audit_run [OF env _ _ assms(4,6,7)] assms(2,3) by blast
  have verified: "verifyAudit sha env (rows @ new) = first_text_row ops new" if "no_collision sha ops new"
    using assms(5) loop [OF that] by (simp add: verifyAudit_def env new(3) verify_after)
  moreover have "verifyAudit sha env (rows @ new) = None" if "list_all (\<lambda>op. \<not> writes_text op) ops"
    using verified objects_kept [OF that new(4)] by simp
  ultimately show ?thesis using new by blast
qed

text \<open>C7: The log is tamper-evident: two logs of the same length that both verify and end in the same hash record the same
  events in the same order, unless somebody found a SHA-256 collision among the texts hashed.\<close>

theorem audit_tamper_evident:
  assumes "verifyAudit sha env rows = None" and "verifyAudit sha env rows' = None" and "length rows = length rows'"
    and "head_hash GENESIS_HASH (sort_key chain_key rows) = head_hash GENESIS_HASH (sort_key chain_key rows')"
    and "\<forall>t. length (sha t) = 64" and "env = None \<or> env = Some GENESIS_HASH"
    and "\<forall>r \<in> set rows \<union> set rows'. proper_event r"
    and "inj_on sha ((\<lambda>r. ae_prev_hash r @ payload_text r) ` (set rows \<union> set rows'))"
  shows "map payload_value (sort_key chain_key rows) = map payload_value (sort_key chain_key rows')"
proof (rule tamper_loop [where g = GENESIS_HASH])
  have env: "(case env of None \<Rightarrow> GENESIS_HASH | Some g \<Rightarrow> g) = GENESIS_HASH" using assms(6) by auto
  show "verify_loop sha GENESIS_HASH (sort_key chain_key rows) = None"
    "verify_loop sha GENESIS_HASH (sort_key chain_key rows') = None"
    using assms(1,2) by (simp_all add: verifyAudit_def env)
  show "length (sha t) = 64" for t using assms(5) by blast
  show "length GENESIS_HASH = 64" by (simp add: GENESIS_HASH_def)
qed (use assms in simp_all)

section \<open>Examples\<close>

definition concat_uuid :: "string list \<Rightarrow> string" where
  "concat_uuid ids = CHR ''x'' # concat ids"

lemma concat_uuid_fresh: "concat_uuid ids \<notin> set ids"
proof
  assume "concat_uuid ids \<in> set ids"
  moreover have "x \<in> set ids \<Longrightarrow> length x \<le> length (concat ids)" for x
    by (induction ids) auto
  ultimately have "length (concat_uuid ids) \<le> length (concat ids)" by blast
  then show False by (simp add: concat_uuid_def)
qed

definition demo_sha :: "js_string \<Rightarrow> js_string" where
  "demo_sha t = take 64 (rev t @ replicate 64 48)"

definition demo_event :: "js_string \<Rightarrow> js_value \<Rightarrow> AuditEventInput" where
  "demo_event ts after = \<lparr>ai_actor_id = lit ''u'', ai_action = lit ''task.create'', ai_entity_type = lit ''task'',
     ai_entity_id = lit ''t1'', ai_before = JNull, ai_after = after, ai_ip = None, ai_user_agent = None,
     ai_correlation_id = None, ai_ts = ts\<rparr>"

theorem audit_chain_verifies_witness:
  "\<exists>r1 r2 r3. fold (audit_step id id JStr None)
      [Emit concat_uuid (demo_event (lit ''2026-01-01T00:00:00.000Z'') JNull),
       Campaign_export concat_uuid (lit ''u'') (lit ''t'') (lit ''3'') (lit ''2026-01-01T00:00:00.001Z''),
       Emit concat_uuid (demo_event (lit ''2026-01-01T00:00:00.002Z'') JNull)] [] = [r1, r2, r3]
    \<and> verifyAudit id None [r1, r2, r3] = Some (ae_id r2)"
proof -
  let ?ops = "[Emit concat_uuid (demo_event (lit ''2026-01-01T00:00:00.000Z'') JNull),
       Campaign_export concat_uuid (lit ''u'') (lit ''t'') (lit ''3'') (lit ''2026-01-01T00:00:00.001Z''),
       Emit concat_uuid (demo_event (lit ''2026-01-01T00:00:00.002Z'') JNull)]"
  have "sorted_wrt (<) (map (ai_ts \<circ> op_event) ?ops)"
    by (simp add: demo_event_def campaign_event_def lit_def)
  then obtain new where new: "fold (audit_step id id JStr None) ?ops [] = [] @ new"
    "map payload_value new = map (payload_value \<circ> kept_event) ?ops"
    "no_collision id ?ops new \<longrightarrow> verifyAudit id None ([] @ new) = first_text_row ?ops new"
    using audit_chain_verifies [of None id JStr ?ops id "[]"] by (auto simp: concat_uuid_fresh verifyAudit_def)
  have "length new = 3" using arg_cong [OF new(2), of length] by simp
  then obtain r1 r2 r3 where rows: "new = [r1, r2, r3]" by (auto simp: numeral_eq_Suc length_Suc_conv)
  have "no_collision id ?ops new" by (simp add: no_collision_def list_all_iff split_beta)
  with new(1,3) rows show ?thesis by (auto simp: first_text_row_def)
qed

definition demo_row :: "js_value \<Rightarrow> AuditEventRow" where
  "demo_row after = stored_row id ''x'' GENESIS_HASH (computeAuditHash demo_sha GENESIS_HASH (demo_event (lit ''1'') after))
     (demo_event (lit ''1'') after)"

theorem audit_tamper_evident_witness:
  "map payload_value (sort_key chain_key [demo_row (JObj [(lit ''a'', JNull), (lit ''b'', JNull)])])
   = map payload_value (sort_key chain_key [demo_row (JObj [(lit ''b'', JNull), (lit ''a'', JNull)])])"
proof -
  let ?r = "demo_row (JObj [(lit ''a'', JNull), (lit ''b'', JNull)])"
  let ?s = "demo_row (JObj [(lit ''b'', JNull), (lit ''a'', JNull)])"
  have same: "payload_text ?r = payload_text ?s" "ae_hash ?r = ae_hash ?s" "ae_prev_hash ?r = GENESIS_HASH"
    "ae_prev_hash ?s = GENESIS_HASH" "computeAuditHash demo_sha GENESIS_HASH ?r = ae_hash ?r"
    "computeAuditHash demo_sha GENESIS_HASH ?s = ae_hash ?s"
    by (simp_all add: demo_row_def stored_row_def event_row_def payload_text_def demo_event_def computeAuditHash_def lit_def)
  have "verifyAudit demo_sha None [?r] = None" "verifyAudit demo_sha None [?s] = None"
    using same by (simp_all add: verifyAudit_def)
  moreover have "head_hash GENESIS_HASH (sort_key chain_key [?r]) = head_hash GENESIS_HASH (sort_key chain_key [?s])"
    using same by (simp add: head_hash_def)
  moreover have "\<forall>t. length (demo_sha t) = 64" by (simp add: demo_sha_def min_def)
  moreover have "\<forall>r \<in> set [?r] \<union> set [?s]. proper_event r"
    by (simp add: proper_event_def demo_row_def stored_row_def event_row_def demo_event_def lit_def)
  moreover have "inj_on demo_sha ((\<lambda>r. ae_prev_hash r @ payload_text r) ` (set [?r] \<union> set [?s]))"
    using same by simp
  ultimately show ?thesis by (intro audit_tamper_evident [of demo_sha None]) simp_all
qed

section \<open>Where the chain breaks\<close>

lemma insort_append:
  "\<forall>y \<in> set ys. f y < f x \<Longrightarrow> insort_key f x (ys @ zs) = ys @ insort_key f x zs"
  "\<forall>z \<in> set zs. f x \<le> f z \<Longrightarrow> insort_key f x (ys @ zs) = insort_key f x ys @ zs"
  by (induction ys) (auto simp: insort_is_Cons)

lemma sort_key_snoc:
  "\<exists>xs ys. sort_key f rows = xs @ ys \<and> sort_key f (rows @ [row]) = xs @ row # ys
     \<and> (\<forall>x \<in> set xs. f x \<le> f row) \<and> (\<forall>y \<in> set ys. f row < f y)"
proof (induction rows)
  case (Cons r rows)
  then obtain xs ys where IH: "sort_key f rows = xs @ ys" "sort_key f (rows @ [row]) = xs @ row # ys"
    "\<forall>x \<in> set xs. f x \<le> f row" "\<forall>y \<in> set ys. f row < f y" by blast
  show ?case
  proof (cases "f r \<le> f row")
    case True
    then have "\<forall>z \<in> set (row # ys). f r \<le> f z" "\<forall>z \<in> set ys. f r \<le> f z" using IH(4) by force+
    then have "insort_key f r (xs @ ys) = insort_key f r xs @ ys" "insort_key f r (xs @ row # ys) = insort_key f r xs @ row # ys"
      by (intro insort_append(2); simp)+
    then show ?thesis using True IH
      by (intro exI [of _ "insort_key f r xs"] exI [of _ ys]) (auto simp: set_insort_key)
  next
    case False
    then have "\<forall>z \<in> set xs. f z < f r" using IH(3) by (meson le_less_trans not_le)
    then have "insort_key f r (xs @ ys) = xs @ insort_key f r ys" "insort_key f r (xs @ row # ys) = xs @ row # insort_key f r ys"
      using False by (simp_all add: insort_append(1))
    then show ?thesis using False IH
      by (intro exI [of _ xs] exI [of _ "insort_key f r ys"]) (auto simp: set_insort_key)
  qed
qed simp

lemma verify_append:
  "verify_loop sha g (xs @ ys) = None \<longleftrightarrow> verify_loop sha g xs = None \<and> verify_loop sha (head_hash g xs) ys = None"
  by (induction xs arbitrary: g) (auto simp: head_hash_def)

text \<open>An event whose time stamp is before that of a row already written makes the verification fail, unless its hash
  coincides with an older one: the writer links it to the latest row, the verification expects it earlier.\<close>

theorem late_event_breaks_chain:
  assumes "verifyAudit sha env rows = None" and "emitAuditEvent sha store uuid env e rows = Inr (row, rows')"
    and "r \<in> set rows" and "ai_ts e < ai_ts r"
    and "ae_hash row \<notin> insert (case env of None \<Rightarrow> GENESIS_HASH | Some g \<Rightarrow> g) (ae_hash ` set rows)"
  shows "verifyAudit sha env rows' \<noteq> None"
proof
  let ?g = "case env of None \<Rightarrow> GENESIS_HASH | Some g \<Rightarrow> g"
  assume ok: "verifyAudit sha env rows' = None"
  have rows': "rows' = rows @ [row]" and ts: "ai_ts row = ai_ts e"
    using assms(2) by (auto simp: emitAuditEvent_def append_event_def append_row_def Let_def bind_res_Inr_iff insert_row_Inr stored_row_def event_row_def)
  obtain xs ys where s: "sort_key chain_key rows = xs @ ys" "sort_key chain_key rows' = xs @ row # ys"
    "\<forall>x \<in> set xs. chain_key x \<le> chain_key row"
    using sort_key_snoc [of chain_key rows row] rows' by blast
  have "r \<notin> set xs" using s(3) assms(4) ts by (auto simp: chain_key_def less_eq_prod_simp)
  moreover have "r \<in> set (xs @ ys)" using assms(3) by (simp flip: s(1))
  ultimately obtain y ys' where ys: "ys = y # ys'" by (cases ys) auto
  have "ae_prev_hash y = head_hash ?g xs"
    using assms(1) by (simp add: verifyAudit_def s(1) ys verify_append split: if_splits)
  moreover have "ae_prev_hash y = ae_hash row"
    using ok by (simp add: verifyAudit_def s(2) ys verify_append split: if_splits)
  moreover have "head_hash ?g xs \<in> insert ?g (ae_hash ` set rows)"
  proof -
    have "set xs \<subseteq> set rows" using arg_cong [OF s(1), of set] by auto
    then have "xs \<noteq> [] \<Longrightarrow> last xs \<in> set rows" by auto
    then show ?thesis by (cases "xs = []") (simp_all add: head_hash_def)
  qed
  ultimately show False using assms(5) by simp
qed

end
