(* ===== verification/Pipelines.thy ===== *)
theory Pipelines
  imports Machine_Log Audit_Log
begin

text \<open>
  Two more logged state machines: wiki annotations, \<^verbatim>\<open>src/packages/db/annotation-state-machine.ts\<close>, with their audit
  events, and meeting recordings, \<^verbatim>\<open>src/packages/db/transcription-state-machine.ts\<close>, with one table per path. No
  call opens a transaction, so a result carries the tables beside the outcome: the statements before a failing one stay.
  Calls on one thread or recording are taken one at a time.
\<close>

section \<open>Annotations\<close>

datatype AnnotationState =
    ANNOTATION_OPEN | AGENT_RESPONDING | DISCUSSION | CORRECTION_APPLIED | DISMISSED | REOPENED | AUTO_RESOLVED

fun ANNOTATION_TRANSITIONS :: "AnnotationState \<Rightarrow> AnnotationState list" where
  "ANNOTATION_TRANSITIONS ANNOTATION_OPEN = [AGENT_RESPONDING]"
| "ANNOTATION_TRANSITIONS AGENT_RESPONDING = [DISCUSSION, CORRECTION_APPLIED, AUTO_RESOLVED]"
| "ANNOTATION_TRANSITIONS DISCUSSION = [AGENT_RESPONDING, CORRECTION_APPLIED, DISMISSED]"
| "ANNOTATION_TRANSITIONS CORRECTION_APPLIED = [REOPENED]"
| "ANNOTATION_TRANSITIONS DISMISSED = []"
| "ANNOTATION_TRANSITIONS REOPENED = [AGENT_RESPONDING, DISCUSSION]"
| "ANNOTATION_TRANSITIONS AUTO_RESOLVED = []"

definition ANNOTATION_TERMINAL :: "AnnotationState list" where
  "ANNOTATION_TERMINAL = [DISMISSED, AUTO_RESOLVED]"

fun annotation_text :: "AnnotationState \<Rightarrow> js_string" where
  "annotation_text ANNOTATION_OPEN = lit ''ANNOTATION_OPEN''"
| "annotation_text AGENT_RESPONDING = lit ''AGENT_RESPONDING''"
| "annotation_text DISCUSSION = lit ''DISCUSSION''"
| "annotation_text CORRECTION_APPLIED = lit ''CORRECTION_APPLIED''"
| "annotation_text DISMISSED = lit ''DISMISSED''"
| "annotation_text REOPENED = lit ''REOPENED''"
| "annotation_text AUTO_RESOLVED = lit ''AUTO_RESOLVED''"

datatype annotation_error =
    IllegalAnnotationTransitionError AnnotationState AnnotationState
  | NoAnnotationState string
  | AnnotationDbError db_error

record AnnotationStateRow =
  an_id :: string
  an_state :: AnnotationState
  an_actor_id :: string
  an_updated_at :: timestamp

record AnnotationTransitionRow =
  at_id :: string
  at_annotation_id :: string
  at_from_state :: "AnnotationState option"
  at_to_state :: AnnotationState
  at_actor_id :: string
  at_transitioned_at :: timestamp
  at_reason :: "string option"

record AnnotationTransitionInput =
  ai_annotationId :: string
  ai_toState :: AnnotationState
  ai_actorId :: string
  ai_reason :: "string option"

record AnnotationTransitionResult =
  ar_transitionRow :: AnnotationTransitionRow
  ar_newState :: AnnotationState

record annotation_db =
  an_states :: "AnnotationStateRow list"
  an_transitions :: "AnnotationTransitionRow list"
  an_audit :: "AuditEventRow list"

text \<open>The audit pool of a call, when the caller passes one: digest, JSONB storage, identifiers, the genesis hash and the
  time stamp of the event.\<close>

record audit_pool =
  pool_sha :: "js_string \<Rightarrow> js_string"
  pool_store :: "js_value \<Rightarrow> js_value"
  pool_uuid :: "string list \<Rightarrow> string"
  pool_genesis :: "js_string option"
  pool_ts :: js_string

definition annotation_event ::
  "string \<Rightarrow> string \<Rightarrow> AnnotationState option \<Rightarrow> AnnotationState \<Rightarrow> string option \<Rightarrow> js_string \<Rightarrow> AuditEventInput" where
  "annotation_event annotationId actorId fromState toState reason ts =
     \<lparr>ai_actor_id = lit actorId, ai_action = lit ''annotation.transition'', ai_entity_type = lit ''wiki_annotation'',
      ai_entity_id = lit annotationId,
      ai_before = (case fromState of None \<Rightarrow> JNull | Some s \<Rightarrow> JObj [(lit ''state'', JStr (annotation_text s))]),
      ai_after = JObj [(lit ''state'', JStr (annotation_text toState)),
        (lit ''reason'', case reason of None \<Rightarrow> JNull | Some r \<Rightarrow> JStr (lit r))],
      ai_ip = None, ai_user_agent = None, ai_correlation_id = None, ai_ts = ts\<rparr>"

text \<open>The last event of this annotation by time stamp; of several with one time stamp the newest row is taken.\<close>

definition entity_latest :: "js_string \<Rightarrow> AuditEventRow list \<Rightarrow> AuditEventRow option" where
  "entity_latest k rows =
     (case rev (sort_key ai_ts (filter (\<lambda>r. ai_entity_type r = lit ''wiki_annotation'' \<and> ai_entity_id r = k) rows)) of
        [] \<Rightarrow> None | r # _ \<Rightarrow> Some r)"

definition emitAnnotationAudit ::
  "audit_pool \<Rightarrow> string \<Rightarrow> string \<Rightarrow> AnnotationState option \<Rightarrow> AnnotationState \<Rightarrow> string option
     \<Rightarrow> AuditEventRow list \<Rightarrow> db_error + (AuditEventRow \<times> AuditEventRow list)" where
  "emitAnnotationAudit p annotationId actorId fromState toState reason rows =
     (let genesis = (case pool_genesis p of None \<Rightarrow> GENESIS_HASH | Some g \<Rightarrow> g);
          prevHash = (case entity_latest (lit annotationId) rows of None \<Rightarrow> genesis | Some r \<Rightarrow> ae_hash r)
      in append_event (pool_sha p) (pool_store p) (pool_uuid p) prevHash
           (annotation_event annotationId actorId fromState toState reason (pool_ts p)) rows)"

type_synonym annotation_result = "(annotation_error + AnnotationTransitionResult) \<times> annotation_db"

definition log_annotation ::
  "(string list \<Rightarrow> string) \<Rightarrow> timestamp \<Rightarrow> audit_pool option \<Rightarrow> string \<Rightarrow> string \<Rightarrow> AnnotationState option \<Rightarrow> AnnotationState
     \<Rightarrow> string option \<Rightarrow> annotation_db \<Rightarrow> annotation_result" where
  "log_annotation uuid now pool annotationId actorId from to reason db =
     (let row = \<lparr>at_id = uuid (map at_id (an_transitions db)), at_annotation_id = annotationId, at_from_state = from,
            at_to_state = to, at_actor_id = actorId, at_transitioned_at = now, at_reason = reason\<rparr>;
          result = \<lparr>ar_transitionRow = row, ar_newState = to\<rparr>
      in case insert_row at_id row (an_transitions db) of
           Inl e \<Rightarrow> (Inl (AnnotationDbError e), db)
         | Inr t \<Rightarrow>
             (let db1 = db\<lparr>an_transitions := t\<rparr> in
              case pool of
                None \<Rightarrow> (Inr result, db1)
              | Some p \<Rightarrow>
                  (case emitAnnotationAudit p annotationId actorId from to reason (an_audit db1) of
                     Inl e \<Rightarrow> (Inl (AnnotationDbError e), db1)
                   | Inr (_, rows) \<Rightarrow> (Inr result, db1\<lparr>an_audit := rows\<rparr>))))"

definition initAnnotationState ::
  "(string list \<Rightarrow> string) \<Rightarrow> timestamp \<Rightarrow> audit_pool option \<Rightarrow> string \<Rightarrow> string \<Rightarrow> string option \<Rightarrow> annotation_db \<Rightarrow> annotation_result" where
  "initAnnotationState uuid now pool annotationId actorId reason db =
     (case insert_row an_id \<lparr>an_id = annotationId, an_state = ANNOTATION_OPEN, an_actor_id = actorId, an_updated_at = now\<rparr>
             (an_states db) of
        Inl e \<Rightarrow> (Inl (AnnotationDbError e), db)
      | Inr t \<Rightarrow> log_annotation uuid now pool annotationId actorId None ANNOTATION_OPEN reason (db\<lparr>an_states := t\<rparr>))"

definition getAnnotationState :: "string \<Rightarrow> annotation_db \<Rightarrow> AnnotationStateRow option" where
  "getAnnotationState k db = find_row an_id k (an_states db)"

definition set_annotation :: "timestamp \<Rightarrow> string \<Rightarrow> AnnotationState \<Rightarrow> AnnotationStateRow \<Rightarrow> AnnotationStateRow" where
  "set_annotation now actor s r = r\<lparr>an_state := s, an_actor_id := actor, an_updated_at := now\<rparr>"

definition transitionAnnotation ::
  "(string list \<Rightarrow> string) \<Rightarrow> timestamp \<Rightarrow> audit_pool option \<Rightarrow> AnnotationTransitionInput \<Rightarrow> annotation_db \<Rightarrow> annotation_result" where
  "transitionAnnotation uuid now pool input db =
     (case getAnnotationState (ai_annotationId input) db of
        None \<Rightarrow> (Inl (NoAnnotationState (ai_annotationId input)), db)
      | Some stateRow \<Rightarrow>
          if ai_toState input \<notin> set (ANNOTATION_TRANSITIONS (an_state stateRow))
          then (Inl (IllegalAnnotationTransitionError (an_state stateRow) (ai_toState input)), db)
          else log_annotation uuid now pool (ai_annotationId input) (ai_actorId input) (Some (an_state stateRow))
                 (ai_toState input) (ai_reason input)
                 (db\<lparr>an_states := update_where (\<lambda>r. an_id r = ai_annotationId input)
                    (set_annotation now (ai_actorId input) (ai_toState input)) (an_states db)\<rparr>))"

definition getAnnotationHistory :: "string \<Rightarrow> annotation_db \<Rightarrow> AnnotationTransitionRow list" where
  "getAnnotationHistory k db =
     sort_key (\<lambda>r. (at_transitioned_at r, at_id r)) (filter (\<lambda>r. at_annotation_id r = k) (an_transitions db))"

section \<open>Recordings\<close>

datatype TranscriptionState =
    IDLE | RECORDING | TRANSCRIBING | UPLOADING | TRANSCRIBED | QUEUED | INDEXED | TRANSCRIPTION_FAILED | UPLOAD_FAILED

datatype TranscriptionPath = EDGE | WORKER

fun EDGE_PATH_TRANSITIONS :: "TranscriptionState \<Rightarrow> TranscriptionState list" where
  "EDGE_PATH_TRANSITIONS IDLE = [RECORDING]"
| "EDGE_PATH_TRANSITIONS RECORDING = [TRANSCRIBING]"
| "EDGE_PATH_TRANSITIONS TRANSCRIBING = [UPLOADING, TRANSCRIPTION_FAILED]"
| "EDGE_PATH_TRANSITIONS UPLOADING = [TRANSCRIBED, UPLOAD_FAILED]"
| "EDGE_PATH_TRANSITIONS TRANSCRIBED = [QUEUED]"
| "EDGE_PATH_TRANSITIONS QUEUED = [INDEXED]"
| "EDGE_PATH_TRANSITIONS INDEXED = []"
| "EDGE_PATH_TRANSITIONS TRANSCRIPTION_FAILED = []"
| "EDGE_PATH_TRANSITIONS UPLOAD_FAILED = [UPLOADING]"

fun WORKER_PATH_TRANSITIONS :: "TranscriptionState \<Rightarrow> TranscriptionState list" where
  "WORKER_PATH_TRANSITIONS IDLE = [RECORDING]"
| "WORKER_PATH_TRANSITIONS RECORDING = [UPLOADING]"
| "WORKER_PATH_TRANSITIONS UPLOADING = [TRANSCRIBING, UPLOAD_FAILED]"
| "WORKER_PATH_TRANSITIONS TRANSCRIBING = [TRANSCRIBED, TRANSCRIPTION_FAILED]"
| "WORKER_PATH_TRANSITIONS TRANSCRIBED = [QUEUED]"
| "WORKER_PATH_TRANSITIONS QUEUED = [INDEXED]"
| "WORKER_PATH_TRANSITIONS INDEXED = []"
| "WORKER_PATH_TRANSITIONS TRANSCRIPTION_FAILED = []"
| "WORKER_PATH_TRANSITIONS UPLOAD_FAILED = [UPLOADING]"

definition path_transitions :: "TranscriptionPath \<Rightarrow> TranscriptionState \<Rightarrow> TranscriptionState list" where
  "path_transitions path = (if path = EDGE then EDGE_PATH_TRANSITIONS else WORKER_PATH_TRANSITIONS)"

definition RECORDING_TRANSITIONS :: "TranscriptionState \<Rightarrow> TranscriptionState list" where
  "RECORDING_TRANSITIONS s = rev (remdups (rev (EDGE_PATH_TRANSITIONS s @ WORKER_PATH_TRANSITIONS s)))"

definition RECORDING_TERMINAL :: "TranscriptionState list" where
  "RECORDING_TERMINAL = [INDEXED, TRANSCRIPTION_FAILED]"

datatype recording_error =
    IllegalTranscriptionTransitionError TranscriptionState TranscriptionState TranscriptionPath
  | NoRecordingState string
  | RecordingDbError db_error

record TranscriptionStateRow =
  rs_id :: string
  rs_state :: TranscriptionState
  rs_path :: TranscriptionPath
  rs_updated_at :: timestamp

record TranscriptionTransitionRow =
  rt_id :: string
  rt_recording_id :: string
  rt_path :: TranscriptionPath
  rt_from_state :: "TranscriptionState option"
  rt_to_state :: TranscriptionState
  rt_transitioned_at :: timestamp
  rt_reason :: "string option"

record TranscriptionTransitionInput =
  ri_recordingId :: string
  ri_toState :: TranscriptionState
  ri_reason :: "string option"

record TranscriptionTransitionResult =
  rr_transitionRow :: TranscriptionTransitionRow
  rr_newState :: TranscriptionState

record recording_db =
  rec_states :: "TranscriptionStateRow list"
  rec_transitions :: "TranscriptionTransitionRow list"

type_synonym recording_result = "(recording_error + TranscriptionTransitionResult) \<times> recording_db"

definition log_recording ::
  "(string list \<Rightarrow> string) \<Rightarrow> timestamp \<Rightarrow> string \<Rightarrow> TranscriptionPath \<Rightarrow> TranscriptionState option \<Rightarrow> TranscriptionState
     \<Rightarrow> string option \<Rightarrow> recording_db \<Rightarrow> recording_result" where
  "log_recording uuid now k path from to reason db =
     (let row = \<lparr>rt_id = uuid (map rt_id (rec_transitions db)), rt_recording_id = k, rt_path = path,
            rt_from_state = from, rt_to_state = to, rt_transitioned_at = now, rt_reason = reason\<rparr>
      in case insert_row rt_id row (rec_transitions db) of
           Inl e \<Rightarrow> (Inl (RecordingDbError e), db)
         | Inr t \<Rightarrow> (Inr \<lparr>rr_transitionRow = row, rr_newState = to\<rparr>, db\<lparr>rec_transitions := t\<rparr>))"

definition initRecordingState ::
  "(string list \<Rightarrow> string) \<Rightarrow> timestamp \<Rightarrow> string \<Rightarrow> TranscriptionPath \<Rightarrow> string option \<Rightarrow> recording_db \<Rightarrow> recording_result" where
  "initRecordingState uuid now k path reason db =
     (case insert_row rs_id \<lparr>rs_id = k, rs_state = IDLE, rs_path = path, rs_updated_at = now\<rparr> (rec_states db) of
        Inl e \<Rightarrow> (Inl (RecordingDbError e), db)
      | Inr t \<Rightarrow> log_recording uuid now k path None IDLE reason (db\<lparr>rec_states := t\<rparr>))"

definition getRecordingState :: "string \<Rightarrow> recording_db \<Rightarrow> TranscriptionStateRow option" where
  "getRecordingState k db = find_row rs_id k (rec_states db)"

definition set_recording :: "timestamp \<Rightarrow> TranscriptionState \<Rightarrow> TranscriptionStateRow \<Rightarrow> TranscriptionStateRow" where
  "set_recording now s r = r\<lparr>rs_state := s, rs_updated_at := now\<rparr>"

definition transitionRecording ::
  "(string list \<Rightarrow> string) \<Rightarrow> timestamp \<Rightarrow> TranscriptionTransitionInput \<Rightarrow> recording_db \<Rightarrow> recording_result" where
  "transitionRecording uuid now input db =
     (case getRecordingState (ri_recordingId input) db of
        None \<Rightarrow> (Inl (NoRecordingState (ri_recordingId input)), db)
      | Some stateRow \<Rightarrow>
          if ri_toState input \<notin> set (path_transitions (rs_path stateRow) (rs_state stateRow))
          then (Inl (IllegalTranscriptionTransitionError (rs_state stateRow) (ri_toState input) (rs_path stateRow)), db)
          else log_recording uuid now (ri_recordingId input) (rs_path stateRow) (Some (rs_state stateRow)) (ri_toState input)
                 (ri_reason input)
                 (db\<lparr>rec_states := update_where (\<lambda>r. rs_id r = ri_recordingId input)
                    (set_recording now (ri_toState input)) (rec_states db)\<rparr>))"

definition getTranscriptionHistory :: "string \<Rightarrow> recording_db \<Rightarrow> TranscriptionTransitionRow list" where
  "getTranscriptionHistory k db =
     sort_key (\<lambda>r. (rt_transitioned_at r, rt_id r)) (filter (\<lambda>r. rt_recording_id r = k) (rec_transitions db))"

section \<open>Histories of annotations\<close>

interpretation set_annotation: row_update an_id "set_annotation now actor s" for now actor s
  by unfold_locales (simp add: set_annotation_def)

datatype annotation_op =
    Open_thread "string list \<Rightarrow> string" timestamp "audit_pool option" string string "string option"
  | Move_thread "string list \<Rightarrow> string" timestamp "audit_pool option" AnnotationTransitionInput

fun annotation_step :: "annotation_op \<Rightarrow> annotation_db \<Rightarrow> annotation_db" where
  "annotation_step (Open_thread uuid now pool k actor reason) db = snd (initAnnotationState uuid now pool k actor reason db)"
| "annotation_step (Move_thread uuid now pool input) db = snd (transitionAnnotation uuid now pool input db)"

fun thread_key :: "annotation_op \<Rightarrow> string" where
  "thread_key (Open_thread uuid now pool k actor reason) = k"
| "thread_key (Move_thread uuid now pool input) = ai_annotationId input"

fun thread_fresh :: "annotation_op \<Rightarrow> bool" where
  "thread_fresh (Open_thread uuid now pool k actor reason) \<longleftrightarrow> (\<forall>ids. uuid ids \<notin> set ids)"
| "thread_fresh (Move_thread uuid now pool input) \<longleftrightarrow> (\<forall>ids. uuid ids \<notin> set ids)"

definition thread_state :: "string \<Rightarrow> annotation_db \<Rightarrow> AnnotationState option" where
  "thread_state k db = map_option an_state (getAnnotationState k db)"

definition thread_hist :: "string \<Rightarrow> annotation_db \<Rightarrow> (AnnotationState option \<times> AnnotationState) list" where
  "thread_hist k db = map (\<lambda>r. (at_from_state r, at_to_state r)) (filter (\<lambda>r. at_annotation_id r = k) (an_transitions db))"

lemma log_annotation_effect:
  assumes "\<forall>ids. uuid ids \<notin> set ids"
  shows "an_states (snd (log_annotation uuid now pool k actor from to reason db)) = an_states db"
    and "thread_hist j (snd (log_annotation uuid now pool k actor from to reason db)) =
      thread_hist j db @ (if j = k then [(from, to)] else [])"
proof -
  let ?row = "\<lparr>at_id = uuid (map at_id (an_transitions db)), at_annotation_id = k, at_from_state = from,
    at_to_state = to, at_actor_id = actor, at_transitioned_at = now, at_reason = reason\<rparr>"
  show "an_states (snd (log_annotation uuid now pool k actor from to reason db)) = an_states db"
    by (simp add: log_annotation_def Let_def split: sum.splits option.splits prod.splits)
  have "uuid (map at_id (an_transitions db)) \<notin> at_id ` set (an_transitions db)"
    using assms [rule_format, of "map at_id (an_transitions db)"] by simp
  then have "an_transitions (snd (log_annotation uuid now pool k actor from to reason db)) = an_transitions db @ [?row]"
    by (simp add: log_annotation_def Let_def insert_row_def split: sum.splits option.splits prod.splits)
  then show "thread_hist j (snd (log_annotation uuid now pool k actor from to reason db)) =
      thread_hist j db @ (if j = k then [(from, to)] else [])"
    by (simp add: thread_hist_def)
qed

lemma thread_hist_states [simp]: "thread_hist j (db\<lparr>an_states := t\<rparr>) = thread_hist j db"
  by (simp add: thread_hist_def)

lemma open_thread_effect:
  assumes "\<forall>ids. uuid ids \<notin> set ids" and "db' = snd (initAnnotationState uuid now pool k actor reason db)"
  shows "db' = db \<or> thread_state k db = None
    \<and> (\<forall>j. thread_state j db' = (if j = k then Some ANNOTATION_OPEN else thread_state j db)
         \<and> thread_hist j db' = thread_hist j db @ (if j = k then [(None, ANNOTATION_OPEN)] else []))"
proof (cases "k \<in> an_id ` set (an_states db)")
  case True
  then show ?thesis using assms(2) by (simp add: initAnnotationState_def insert_row_def)
next
  case False
  let ?t = "an_states db @ [\<lparr>an_id = k, an_state = ANNOTATION_OPEN, an_actor_id = actor, an_updated_at = now\<rparr>]"
  have run: "db' = snd (log_annotation uuid now pool k actor None ANNOTATION_OPEN reason (db\<lparr>an_states := ?t\<rparr>))"
    using False assms(2) by (simp add: initAnnotationState_def insert_row_def)
  have none: "find_row an_id k (an_states db) = None" using False by (simp add: find_row_None_iff)
  have "an_states db' = ?t" by (simp add: run log_annotation_effect(1) [OF assms(1)])
  then have "thread_state j db' = (if j = k then Some ANNOTATION_OPEN else thread_state j db)" for j
    using none by (simp add: thread_state_def getAnnotationState_def find_row_append split: option.splits)
  moreover have "thread_hist j db' = thread_hist j db @ (if j = k then [(None, ANNOTATION_OPEN)] else [])" for j
    by (simp add: run log_annotation_effect(2) [OF assms(1)])
  ultimately show ?thesis using none by (simp add: thread_state_def getAnnotationState_def)
qed

lemma move_thread_effect:
  assumes "\<forall>ids. uuid ids \<notin> set ids" and "db' = snd (transitionAnnotation uuid now pool input db)"
  shows "db' = db \<or> (\<exists>s. thread_state (ai_annotationId input) db = Some s \<and> ai_toState input \<in> set (ANNOTATION_TRANSITIONS s)
    \<and> (\<forall>j. thread_state j db' = (if j = ai_annotationId input then Some (ai_toState input) else thread_state j db)
         \<and> thread_hist j db' = thread_hist j db @ (if j = ai_annotationId input then [(Some s, ai_toState input)] else [])))"
proof (cases "\<exists>r. getAnnotationState (ai_annotationId input) db = Some r \<and> ai_toState input \<in> set (ANNOTATION_TRANSITIONS (an_state r))")
  case False
  then show ?thesis using assms(2) by (auto simp: transitionAnnotation_def split: option.splits)
next
  case True
  let ?k = "ai_annotationId input"
  let ?t = "update_where (\<lambda>r. an_id r = ?k) (set_annotation now (ai_actorId input) (ai_toState input)) (an_states db)"
  from True obtain r where r: "getAnnotationState ?k db = Some r" "ai_toState input \<in> set (ANNOTATION_TRANSITIONS (an_state r))"
    by blast
  have run: "db' = snd (log_annotation uuid now pool ?k (ai_actorId input) (Some (an_state r)) (ai_toState input) (ai_reason input)
      (db\<lparr>an_states := ?t\<rparr>))"
    using r assms(2) by (simp add: transitionAnnotation_def)
  have states: "an_states db' = ?t" by (simp add: run log_annotation_effect(1) [OF assms(1)])
  have "thread_state j db' = (if j = ?k then Some (ai_toState input) else thread_state j db)" for j
    using r(1) by (cases "j = ?k")
      (simp_all add: thread_state_def getAnnotationState_def states set_annotation.find_update_self
        set_annotation.find_update_other set_annotation_def)
  moreover have "thread_hist j db' = thread_hist j db @ (if j = ?k then [(Some (an_state r), ai_toState input)] else [])" for j
    by (simp add: run log_annotation_effect(2) [OF assms(1)])
  ultimately show ?thesis using r by (intro disjI2 exI [of _ "an_state r"]) (simp add: thread_state_def)
qed

interpretation threads: logged_machine annotation_step thread_fresh thread_state thread_hist "\<lambda>_ _. ()"
  "\<lambda>_. ANNOTATION_TRANSITIONS" ANNOTATION_OPEN thread_key
proof unfold_locales
  fix op k db
  assume ok: "thread_fresh op" and other: "k \<noteq> thread_key op"
  show "thread_state k (annotation_step op db) = thread_state k db \<and> thread_hist k (annotation_step op db) = thread_hist k db \<and> () = ()"
  proof (cases op)
    case (Open_thread uuid now pool j actor reason)
    then show ?thesis using open_thread_effect [OF _ refl, of uuid now pool j actor reason db] ok other by auto
  next
    case (Move_thread uuid now pool input)
    then show ?thesis using move_thread_effect [OF _ refl, of uuid now pool input db] ok other by auto
  qed
next
  fix op k db
  assume ok: "thread_fresh op" and k: "k = thread_key op"
  show "thread_state k (annotation_step op db) = thread_state k db \<and> thread_hist k (annotation_step op db) = thread_hist k db \<and> () = ()
    \<or> thread_state k db = None \<and> thread_state k (annotation_step op db) = Some ANNOTATION_OPEN
      \<and> thread_hist k (annotation_step op db) = thread_hist k db @ [(None, ANNOTATION_OPEN)]
    \<or> (\<exists>s t. thread_state k db = Some s \<and> t \<in> set (ANNOTATION_TRANSITIONS s) \<and> thread_state k (annotation_step op db) = Some t
      \<and> thread_hist k (annotation_step op db) = thread_hist k db @ [(Some s, t)] \<and> () = ())"
  proof (cases op)
    case (Open_thread uuid now pool j actor reason)
    then show ?thesis using open_thread_effect [OF _ refl, of uuid now pool j actor reason db] ok k by auto
  next
    case (Move_thread uuid now pool input)
    then show ?thesis using move_thread_effect [OF _ refl, of uuid now pool input db] ok k by auto
  qed
qed

definition empty_annotations :: "AuditEventRow list \<Rightarrow> annotation_db" where
  "empty_annotations audit = \<lparr>an_states = [], an_transitions = [], an_audit = audit\<rparr>"

text \<open>The transition log of an annotation thread is its true history, whether or not the calls also write audit
  events and whether or not those writes fail: the logged targets start at \<open>ANNOTATION_OPEN\<close>, form a legal
  path that ends in the current state and chain with the logged sources; a dismissed or auto-resolved thread never moves.\<close>

theorem annotation_history_exact:
  assumes "list_all thread_fresh ops" and "db = fold annotation_step ops (empty_annotations audit)"
  shows "log_tells ANNOTATION_TRANSITIONS ANNOTATION_OPEN (thread_hist k db) (thread_state k db)
    \<and> (thread_state k db \<in> Some ` set ANNOTATION_TERMINAL \<longrightarrow>
         (\<forall>op. thread_fresh op \<longrightarrow> thread_state k (annotation_step op db) = thread_state k db))"
proof
  have "thread_state j (empty_annotations audit) = None \<and> thread_hist j (empty_annotations audit) = []" for j
    by (simp add: thread_state_def thread_hist_def getAnnotationState_def empty_annotations_def)
  from threads.history_exact [OF this assms(1)]
  show "log_tells ANNOTATION_TRANSITIONS ANNOTATION_OPEN (thread_hist k db) (thread_state k db)" by (simp add: assms(2))
  show "thread_state k db \<in> Some ` set ANNOTATION_TERMINAL \<longrightarrow>
      (\<forall>op. thread_fresh op \<longrightarrow> thread_state k (annotation_step op db) = thread_state k db)"
  proof (intro impI allI)
    fix op
    assume final: "thread_state k db \<in> Some ` set ANNOTATION_TERMINAL" and ok: "thread_fresh op"
    show "thread_state k (annotation_step op db) = thread_state k db"
    proof (cases "k = thread_key op")
      case True
      with threads.step_key [OF ok True, of db] final show ?thesis by (auto simp: ANNOTATION_TERMINAL_def)
    next
      case False
      with threads.step_other [OF ok] show ?thesis by blast
    qed
  qed
qed

definition demo_move :: "AnnotationState \<Rightarrow> annotation_op" where
  "demo_move s = Move_thread concat_uuid 1 None \<lparr>ai_annotationId = ''a'', ai_toState = s, ai_actorId = ''u'', ai_reason = None\<rparr>"

theorem annotation_history_exact_witness:
  "thread_state ''a'' (fold annotation_step [Open_thread concat_uuid 0 None ''a'' ''u'' None, demo_move AGENT_RESPONDING,
      demo_move AUTO_RESOLVED, demo_move DISCUSSION] (empty_annotations [])) = Some AUTO_RESOLVED"
proof -
  let ?ops = "[Open_thread concat_uuid 0 None ''a'' ''u'' None, demo_move AGENT_RESPONDING, demo_move AUTO_RESOLVED]"
  define db where "db = fold annotation_step ?ops (empty_annotations [])"
  have fresh: "list_all thread_fresh ?ops" "thread_fresh (demo_move DISCUSSION)"
    by (simp_all add: demo_move_def concat_uuid_fresh)
  have "thread_state ''a'' db = Some AUTO_RESOLVED"
    by (simp add: db_def demo_move_def initAnnotationState_def transitionAnnotation_def log_annotation_def insert_row_def
        empty_annotations_def getAnnotationState_def thread_state_def update_where_def set_annotation_def concat_uuid_def Let_def)
  with annotation_history_exact [OF fresh(1) db_def, of "''a''"] fresh(2)
  have "thread_state ''a'' (annotation_step (demo_move DISCUSSION) db) = Some AUTO_RESOLVED"
    by (simp add: ANNOTATION_TERMINAL_def)
  then show ?thesis by (simp add: db_def)
qed

text \<open>The events of an annotation form a chain of their own, which the verification of the whole table does not know: on
  a valid log that is not empty the first event of a thread makes \<open>/api/audit/verify\<close> fail.\<close>

theorem annotation_event_breaks_chain:
  assumes "verifyAudit (pool_sha p) env rows = None" and "rows \<noteq> []"
    and "entity_latest (lit k) rows = None"
    and "emitAnnotationAudit p k actor from to reason rows = Inr (row, rows')"
    and "\<forall>r \<in> set rows. ai_ts r < pool_ts p \<and> ae_hash r \<noteq> (case pool_genesis p of None \<Rightarrow> GENESIS_HASH | Some g \<Rightarrow> g)"
  shows "verifyAudit (pool_sha p) env rows' \<noteq> None"
proof -
  let ?g = "case env of None \<Rightarrow> GENESIS_HASH | Some g \<Rightarrow> g"
  have row: "rows' = rows @ [row]" "ai_ts row = pool_ts p"
    "ae_prev_hash row = (case pool_genesis p of None \<Rightarrow> GENESIS_HASH | Some g \<Rightarrow> g)"
    using assms(3,4)
    by (auto simp: emitAnnotationAudit_def append_event_def append_row_def Let_def bind_res_Inr_iff insert_row_Inr stored_row_def event_row_def annotation_event_def)
  have sorted: "sort_key chain_key rows' = sort_key chain_key rows @ [row]"
    unfolding row(1) using assms(5) row(2) by (intro sort_key_snoc_max) (auto simp: chain_key_def less_eq_prod_simp)
  have "sort_key chain_key rows \<noteq> []" using assms(2) by (metis set_empty set_sort)
  then have "last (sort_key chain_key rows) \<in> set rows" by (metis last_in_set set_sort)
  then have "head_hash ?g (sort_key chain_key rows) \<noteq> ae_prev_hash row"
    using assms(5) row(3) \<open>sort_key chain_key rows \<noteq> []\<close> by (simp add: head_hash_def)
  then show ?thesis unfolding verifyAudit_def sorted verify_snoc by metis
qed

section \<open>Histories of recordings\<close>

interpretation set_recording: row_update rs_id "set_recording now s" for now s
  by unfold_locales (simp add: set_recording_def)

datatype recording_op =
    Open_recording "string list \<Rightarrow> string" timestamp string TranscriptionPath "string option"
  | Move_recording "string list \<Rightarrow> string" timestamp TranscriptionTransitionInput

fun recording_step :: "recording_op \<Rightarrow> recording_db \<Rightarrow> recording_db" where
  "recording_step (Open_recording uuid now k path reason) db = snd (initRecordingState uuid now k path reason db)"
| "recording_step (Move_recording uuid now input) db = snd (transitionRecording uuid now input db)"

fun recording_key :: "recording_op \<Rightarrow> string" where
  "recording_key (Open_recording uuid now k path reason) = k"
| "recording_key (Move_recording uuid now input) = ri_recordingId input"

fun recording_fresh :: "recording_op \<Rightarrow> bool" where
  "recording_fresh (Open_recording uuid now k path reason) \<longleftrightarrow> (\<forall>ids. uuid ids \<notin> set ids)"
| "recording_fresh (Move_recording uuid now input) \<longleftrightarrow> (\<forall>ids. uuid ids \<notin> set ids)"

definition recording_state :: "string \<Rightarrow> recording_db \<Rightarrow> TranscriptionState option" where
  "recording_state k db = map_option rs_state (getRecordingState k db)"

definition recording_path :: "string \<Rightarrow> recording_db \<Rightarrow> TranscriptionPath option" where
  "recording_path k db = map_option rs_path (getRecordingState k db)"

definition recording_log :: "string \<Rightarrow> recording_db \<Rightarrow> TranscriptionTransitionRow list" where
  "recording_log k db = filter (\<lambda>r. rt_recording_id r = k) (rec_transitions db)"

definition recording_hist :: "string \<Rightarrow> recording_db \<Rightarrow> (TranscriptionState option \<times> TranscriptionState) list" where
  "recording_hist k db = map (\<lambda>r. (rt_from_state r, rt_to_state r)) (recording_log k db)"

lemma log_recording_effect:
  assumes "\<forall>ids. uuid ids \<notin> set ids"
  shows "\<exists>row. snd (log_recording uuid now k path from to reason db) = db\<lparr>rec_transitions := rec_transitions db @ [row]\<rparr>
    \<and> rt_recording_id row = k \<and> rt_path row = path \<and> rt_from_state row = from \<and> rt_to_state row = to"
proof -
  have "uuid (map rt_id (rec_transitions db)) \<notin> rt_id ` set (rec_transitions db)"
    using assms [rule_format, of "map rt_id (rec_transitions db)"] by simp
  then show ?thesis
    by (intro exI [of _ "\<lparr>rt_id = uuid (map rt_id (rec_transitions db)), rt_recording_id = k, rt_path = path,
      rt_from_state = from, rt_to_state = to, rt_transitioned_at = now, rt_reason = reason\<rparr>"])
       (simp add: log_recording_def Let_def insert_row_def)
qed

lemma open_recording_effect:
  assumes "\<forall>ids. uuid ids \<notin> set ids" and "db' = snd (initRecordingState uuid now k path reason db)"
  shows "db' = db \<or> (\<exists>row. recording_state k db = None \<and> rt_recording_id row = k \<and> rt_path row = path
    \<and> rt_from_state row = None \<and> rt_to_state row = IDLE
    \<and> (\<forall>j. recording_state j db' = (if j = k then Some IDLE else recording_state j db)
         \<and> recording_path j db' = (if j = k then Some path else recording_path j db)
         \<and> recording_log j db' = recording_log j db @ (if j = k then [row] else [])))"
proof (cases "k \<in> rs_id ` set (rec_states db)")
  case True
  then show ?thesis using assms(2) by (simp add: initRecordingState_def insert_row_def)
next
  case False
  let ?t = "rec_states db @ [\<lparr>rs_id = k, rs_state = IDLE, rs_path = path, rs_updated_at = now\<rparr>]"
  obtain row where row: "db' = db\<lparr>rec_states := ?t, rec_transitions := rec_transitions db @ [row]\<rparr>"
    "rt_recording_id row = k" "rt_path row = path" "rt_from_state row = None" "rt_to_state row = IDLE"
    using log_recording_effect [OF assms(1), of now k path None IDLE reason "db\<lparr>rec_states := ?t\<rparr>"] False assms(2)
    by (auto simp: initRecordingState_def insert_row_def)
  have none: "find_row rs_id k (rec_states db) = None" using False by (simp add: find_row_None_iff)
  show ?thesis
  proof (intro disjI2 exI [of _ row] conjI allI)
    fix j
    show "recording_state j db' = (if j = k then Some IDLE else recording_state j db)"
      "recording_path j db' = (if j = k then Some path else recording_path j db)"
      using none by (simp_all add: row(1) recording_state_def recording_path_def getRecordingState_def find_row_append split: option.splits)
    show "recording_log j db' = recording_log j db @ (if j = k then [row] else [])"
      by (simp add: row recording_log_def)
  qed (use row none in \<open>simp_all add: recording_state_def getRecordingState_def\<close>)
qed

lemma move_recording_effect:
  assumes "\<forall>ids. uuid ids \<notin> set ids" and "db' = snd (transitionRecording uuid now input db)"
  shows "db' = db \<or> (\<exists>s path row. recording_state (ri_recordingId input) db = Some s
    \<and> recording_path (ri_recordingId input) db = Some path \<and> ri_toState input \<in> set (path_transitions path s)
    \<and> rt_recording_id row = ri_recordingId input \<and> rt_path row = path \<and> rt_from_state row = Some s \<and> rt_to_state row = ri_toState input
    \<and> (\<forall>j. recording_state j db' = (if j = ri_recordingId input then Some (ri_toState input) else recording_state j db)
         \<and> recording_path j db' = recording_path j db
         \<and> recording_log j db' = recording_log j db @ (if j = ri_recordingId input then [row] else [])))"
proof (cases "\<exists>r. getRecordingState (ri_recordingId input) db = Some r
    \<and> ri_toState input \<in> set (path_transitions (rs_path r) (rs_state r))")
  case False
  then show ?thesis using assms(2) by (auto simp: transitionRecording_def split: option.splits)
next
  case True
  let ?k = "ri_recordingId input"
  let ?t = "update_where (\<lambda>r. rs_id r = ?k) (set_recording now (ri_toState input)) (rec_states db)"
  from True obtain r where r: "getRecordingState ?k db = Some r" "ri_toState input \<in> set (path_transitions (rs_path r) (rs_state r))"
    by blast
  obtain row where row: "db' = db\<lparr>rec_states := ?t, rec_transitions := rec_transitions db @ [row]\<rparr>"
    "rt_recording_id row = ?k" "rt_path row = rs_path r" "rt_from_state row = Some (rs_state r)" "rt_to_state row = ri_toState input"
    using log_recording_effect [OF assms(1), of now ?k "rs_path r" "Some (rs_state r)" "ri_toState input" "ri_reason input"
      "db\<lparr>rec_states := ?t\<rparr>"] r assms(2) by (auto simp: transitionRecording_def)
  note upd = set_recording.find_update_self set_recording.find_update_other
  show ?thesis
  proof (intro disjI2 exI [of _ "rs_state r"] exI [of _ "rs_path r"] exI [of _ row] conjI allI)
    fix j
    show "recording_state j db' = (if j = ?k then Some (ri_toState input) else recording_state j db)"
      "recording_path j db' = recording_path j db"
      using r(1) by (cases "j = ?k"; simp add: row(1) recording_state_def recording_path_def getRecordingState_def upd set_recording_def)+
    show "recording_log j db' = recording_log j db @ (if j = ?k then [row] else [])"
      by (simp add: row recording_log_def)
  qed (use row r in \<open>simp_all add: recording_state_def recording_path_def\<close>)
qed

fun table_of :: "TranscriptionPath option \<Rightarrow> TranscriptionState \<Rightarrow> TranscriptionState list" where
  "table_of None s = []"
| "table_of (Some path) s = path_transitions path s"

interpretation recordings: logged_machine recording_step recording_fresh recording_state recording_hist recording_path
  table_of IDLE recording_key
proof unfold_locales
  fix op k db
  assume ok: "recording_fresh op" and other: "k \<noteq> recording_key op"
  show "recording_state k (recording_step op db) = recording_state k db \<and> recording_hist k (recording_step op db) = recording_hist k db
    \<and> recording_path k (recording_step op db) = recording_path k db"
  proof (cases op)
    case (Open_recording uuid now j path reason)
    then show ?thesis using open_recording_effect [OF _ refl, of uuid now j path reason db] ok other
      by (auto simp: recording_hist_def)
  next
    case (Move_recording uuid now input)
    then show ?thesis using move_recording_effect [OF _ refl, of uuid now input db] ok other
      by (auto simp: recording_hist_def)
  qed
next
  fix op k db
  assume ok: "recording_fresh op" and k: "k = recording_key op"
  show "recording_state k (recording_step op db) = recording_state k db \<and> recording_hist k (recording_step op db) = recording_hist k db
      \<and> recording_path k (recording_step op db) = recording_path k db
    \<or> recording_state k db = None \<and> recording_state k (recording_step op db) = Some IDLE
      \<and> recording_hist k (recording_step op db) = recording_hist k db @ [(None, IDLE)]
    \<or> (\<exists>s t. recording_state k db = Some s \<and> t \<in> set (table_of (recording_path k db) s) \<and> recording_state k (recording_step op db) = Some t
      \<and> recording_hist k (recording_step op db) = recording_hist k db @ [(Some s, t)]
      \<and> recording_path k (recording_step op db) = recording_path k db)"
  proof (cases op)
    case (Open_recording uuid now j path reason)
    then show ?thesis using open_recording_effect [OF _ refl, of uuid now j path reason db] ok k
      by (auto simp: recording_hist_def)
  next
    case (Move_recording uuid now input)
    then show ?thesis using move_recording_effect [OF _ refl, of uuid now input db] ok k
      by (auto simp: recording_hist_def)
  qed
qed

definition paths_ok :: "recording_db \<Rightarrow> bool" where
  "paths_ok db \<longleftrightarrow> (\<forall>k. \<forall>t \<in> set (recording_log k db). recording_path k db = Some (rt_path t))"

lemma paths_ok_step:
  assumes "recordings.told db" and "paths_ok db" and "recording_fresh op"
  shows "paths_ok (recording_step op db)"
proof (cases op)
  case (Open_recording uuid now k path reason)
  have empty: "recording_log k db = []" if "recording_state k db = None"
  proof -
    have "log_tells (table_of (recording_path k db)) IDLE (recording_hist k db) None"
      using assms(1) that unfolding recordings.told_def by metis
    then show ?thesis by (simp add: log_tells_def recording_hist_def)
  qed
  have "\<forall>ids. uuid ids \<notin> set ids" using assms(3) Open_recording by simp
  from open_recording_effect [OF this refl, of now k path reason db] show ?thesis
    unfolding Open_recording recording_step.simps
    by (elim disjE exE conjE) (use assms(2) empty in \<open>simp_all add: paths_ok_def\<close>)
next
  case (Move_recording uuid now input)
  have "\<forall>ids. uuid ids \<notin> set ids" using assms(3) Move_recording by simp
  from move_recording_effect [OF this refl, of now input db] show ?thesis
    unfolding Move_recording recording_step.simps
    by (elim disjE exE conjE) (use assms(2) in \<open>simp_all add: paths_ok_def, blast\<close>)
qed

interpretation recording_paths: invariant_system recording_step recording_fresh "\<lambda>db. recordings.told db \<and> paths_ok db"
  by unfold_locales (blast intro: recordings.told_step paths_ok_step)

definition empty_recordings :: recording_db where
  "empty_recordings = \<lparr>rec_states = [], rec_transitions = []\<rparr>"

text \<open>From every state but a failed transcription the table of either path leads to \<open>INDEXED\<close>.\<close>

fun way_to_index :: "TranscriptionPath \<Rightarrow> TranscriptionState \<Rightarrow> TranscriptionState list" where
  "way_to_index EDGE IDLE = [RECORDING, TRANSCRIBING, UPLOADING, TRANSCRIBED, QUEUED, INDEXED]"
| "way_to_index EDGE RECORDING = [TRANSCRIBING, UPLOADING, TRANSCRIBED, QUEUED, INDEXED]"
| "way_to_index EDGE TRANSCRIBING = [UPLOADING, TRANSCRIBED, QUEUED, INDEXED]"
| "way_to_index EDGE UPLOADING = [TRANSCRIBED, QUEUED, INDEXED]"
| "way_to_index EDGE UPLOAD_FAILED = [UPLOADING, TRANSCRIBED, QUEUED, INDEXED]"
| "way_to_index WORKER IDLE = [RECORDING, UPLOADING, TRANSCRIBING, TRANSCRIBED, QUEUED, INDEXED]"
| "way_to_index WORKER RECORDING = [UPLOADING, TRANSCRIBING, TRANSCRIBED, QUEUED, INDEXED]"
| "way_to_index WORKER UPLOADING = [TRANSCRIBING, TRANSCRIBED, QUEUED, INDEXED]"
| "way_to_index WORKER TRANSCRIBING = [TRANSCRIBED, QUEUED, INDEXED]"
| "way_to_index WORKER UPLOAD_FAILED = [UPLOADING, TRANSCRIBING, TRANSCRIBED, QUEUED, INDEXED]"
| "way_to_index path TRANSCRIBED = [QUEUED, INDEXED]"
| "way_to_index path QUEUED = [INDEXED]"
| "way_to_index path INDEXED = []"
| "way_to_index path TRANSCRIPTION_FAILED = []"

lemma way_to_index_legal:
  "s \<noteq> TRANSCRIPTION_FAILED \<Longrightarrow> legal_path (path_transitions path) s (way_to_index path s) \<and> last (s # way_to_index path s) = INDEXED"
  by (cases path; cases s) (simp_all add: path_transitions_def)

lemma last_step:
  assumes "legal_path T s path" and "last (s # path) = t" and "t \<noteq> s"
  obtains path' where "path = path' @ [t]" and "legal_path T s path'" and "t \<in> set (T (last (s # path')))"
  using assms by (cases path rule: rev_cases) (auto simp: legal_path_snoc)

lemma indexed_tail:
  assumes "legal_path (path_transitions p) IDLE path" and "last (IDLE # path) = INDEXED"
  shows "\<exists>before. IDLE # path = before @ [TRANSCRIBED, QUEUED, INDEXED]"
proof -
  have pred: "INDEXED \<in> set (path_transitions p s) \<Longrightarrow> s = QUEUED" "QUEUED \<in> set (path_transitions p s) \<Longrightarrow> s = TRANSCRIBED" for s
    by (cases s; simp add: path_transitions_def split: if_splits)+
  obtain p1 where p1: "path = p1 @ [INDEXED]" "legal_path (path_transitions p) IDLE p1" "last (IDLE # p1) = QUEUED"
    using last_step [OF assms] pred(1) by (metis TranscriptionState.distinct(11))
  obtain p2 where p2: "p1 = p2 @ [QUEUED]" "legal_path (path_transitions p) IDLE p2" "last (IDLE # p2) = TRANSCRIBED"
    using last_step [OF p1(2,3)] pred(2) by (metis TranscriptionState.distinct(9))
  obtain p3 where "p2 = p3 @ [TRANSCRIBED]"
    using last_step [OF p2(2,3)] by (metis TranscriptionState.distinct(7))
  with p1(1) p2(1) show ?thesis by (intro exI [of _ "IDLE # p3"]) simp
qed

text \<open>C40: A recording keeps the path it was opened on: after any sequence of calls every logged transition carries that path,
  the log is the true history along that path's table, and unless its transcription failed the table still leads to
  \<open>INDEXED\<close>, which a recording only reaches through \<open>TRANSCRIBED\<close> and \<open>QUEUED\<close>.\<close>

theorem recording_history_exact:
  assumes "list_all recording_fresh ops" and "db = fold recording_step ops empty_recordings"
    and "getRecordingState k db = Some r"
  shows "log_tells (path_transitions (rs_path r)) IDLE (recording_hist k db) (Some (rs_state r))
    \<and> (\<forall>t \<in> set (recording_log k db). rt_path t = rs_path r)
    \<and> (rs_state r \<noteq> TRANSCRIPTION_FAILED \<longrightarrow>
         (\<exists>path. legal_path (path_transitions (rs_path r)) (rs_state r) path \<and> last (rs_state r # path) = INDEXED))
    \<and> (rs_state r = INDEXED \<longrightarrow>
         (\<exists>before. map rt_to_state (recording_log k db) = before @ [TRANSCRIBED, QUEUED, INDEXED]))"
proof -
  have "recordings.told empty_recordings \<and> paths_ok empty_recordings"
    by (simp add: recordings.told_def paths_ok_def log_tells_def recording_state_def recording_hist_def recording_log_def
        getRecordingState_def empty_recordings_def)
  then have inv: "recordings.told db" "paths_ok db"
    using recording_paths.run_inv [OF _ assms(1)] assms(2) by auto
  have cur: "recording_state k db = Some (rs_state r)" "recording_path k db = Some (rs_path r)"
    using assms(3) by (simp_all add: recording_state_def recording_path_def)
  have "table_of (Some (rs_path r)) = path_transitions (rs_path r)" by (simp add: fun_eq_iff)
  with inv(1) cur have tells: "log_tells (path_transitions (rs_path r)) IDLE (recording_hist k db) (Some (rs_state r))"
    unfolding recordings.told_def by metis
  have "\<exists>before. map rt_to_state (recording_log k db) = before @ [TRANSCRIBED, QUEUED, INDEXED]" if idx: "rs_state r = INDEXED"
  proof -
    obtain path where p: "map snd (recording_hist k db) = IDLE # path" "legal_path (path_transitions (rs_path r)) IDLE path"
      "last (IDLE # path) = INDEXED" using tells idx by (auto simp: log_tells_def)
    have "\<exists>before. IDLE # path = before @ [TRANSCRIBED, QUEUED, INDEXED]"
      by (rule indexed_tail [OF p(2,3)])
    then show ?thesis using p(1) by (simp add: recording_hist_def comp_def)
  qed
  with tells inv(2) cur(2) way_to_index_legal show ?thesis unfolding paths_ok_def by (metis option.inject)
qed

definition demo_recording :: "TranscriptionState \<Rightarrow> recording_op" where
  "demo_recording s = Move_recording concat_uuid 1 \<lparr>ri_recordingId = ''r'', ri_toState = s, ri_reason = None\<rparr>"

theorem recording_history_exact_witness:
  "\<exists>path. legal_path (path_transitions WORKER) UPLOAD_FAILED path \<and> last (UPLOAD_FAILED # path) = INDEXED"
proof -
  let ?ops = "[Open_recording concat_uuid 0 ''r'' WORKER None, demo_recording RECORDING, demo_recording UPLOADING,
    demo_recording UPLOAD_FAILED]"
  define db where "db = fold recording_step ?ops empty_recordings"
  have fresh: "list_all recording_fresh ?ops" by (simp add: demo_recording_def concat_uuid_fresh)
  have "getRecordingState ''r'' db = Some \<lparr>rs_id = ''r'', rs_state = UPLOAD_FAILED, rs_path = WORKER, rs_updated_at = 1\<rparr>"
    by (simp add: db_def demo_recording_def initRecordingState_def transitionRecording_def log_recording_def insert_row_def
        empty_recordings_def getRecordingState_def update_where_def set_recording_def path_transitions_def concat_uuid_def Let_def)
  from recording_history_exact [OF fresh db_def this] show ?thesis by simp
qed

end
