(* ===== verification/Spec2Isabelle.thy ===== *)
theory Spec2Isabelle
  imports Leads Interventions Label_Clearance Identity_Dictionary Task_Queue Collections Approvals State_Machines Retention Cron Auth_Limits Chunker Audit_Log Pipelines
begin

text \<open>
  Verification of demo-phoenix, a TypeScript system for customer knowledge and receivables: a server, background workers
  and a PostgreSQL database. The development models the modules that carry its rules, mostly under
  \<^verbatim>\<open>src/packages/db\<close>, and proves what they promise.

  \<^bold>\<open>Parts and theories.\<close> The server's handlers and cron jobs call database modules; workers claim tasks from a queue table;
  modules of one area share tables, so their rules meet in the triggers and constraints of \<^verbatim>\<open>schema.sql\<close>.

  \<^item> \<open>DB_Prelude\<close>: tables as lists of rows, the SQL statements on them, results as sums, and the interfaces \<open>row_update\<close>,
    \<open>ranked_graph\<close>, \<open>terminal_graph\<close> and \<open>invariant_system\<close>. \<open>Machine_Log\<close>: the interface \<open>logged_machine\<close>. \<open>JS_Strings\<close>:
    strings as 16-bit code units, quoting with a proved reader.
  \<^item> \<open>Task_Queue\<close>: \<^verbatim>\<open>task-queue.ts\<close> and the claim step of \<^verbatim>\<open>apps/worker/src/runner.ts\<close>. Idempotent enqueueing, the claim order,
    exclusive leases under every interleaving of queue operations, recovery of crashed tasks, bounded attempts.
  \<^item> \<open>Ledger\<close>: the receivables tables, their constraints and the invoice status trigger. On it \<open>Invoices\<close> (\<^verbatim>\<open>invoices.ts\<close>),
    \<open>Dunning\<close> (\<^verbatim>\<open>dunning.ts\<close>, \<^verbatim>\<open>cron/jobs/dunning-engine.ts\<close>), \<open>Payment_Plans\<close> (\<^verbatim>\<open>payment-plans.ts\<close>), \<open>Write_Off\<close>
    (\<^verbatim>\<open>write-off-approvals.ts\<close>) and \<open>Collections\<close> (\<^verbatim>\<open>collection-cases.ts\<close>): the outcome of each operation on every branch.
    \<open>ledger_lifecycle\<close> below composes them all.
  \<^item> \<open>Approvals\<close>: \<^verbatim>\<open>approvals.ts\<close> and \<^verbatim>\<open>approval-middleware.ts\<close>, also statement by statement with calls interleaved: no request is
    approved without its quorum of distinct voters.
  \<^item> \<open>State_Machines\<close> and \<open>Pipelines\<close>: autolearn jobs, e-mail ingestion, annotations and recordings
    (\<^verbatim>\<open>*-state-machine.ts\<close>): progress along the tables, logs that are true histories.
  \<^item> \<open>Retention\<close>: \<^verbatim>\<open>legal-hold.ts\<close>, \<^verbatim>\<open>retention-engine.ts\<close>, \<^verbatim>\<open>retention-store.ts\<close>, \<^verbatim>\<open>retention-scheduler.ts\<close>, \<^verbatim>\<open>worm-mode.ts\<close>,
    \<^verbatim>\<open>tenant-policies.ts\<close> and the triggers behind them: held or young records survive every sequence of operations.
  \<^item> \<open>Audit_Log\<close>: \<^verbatim>\<open>core/audit.ts\<close>, \<^verbatim>\<open>policies/audit-service.ts\<close>, \<^verbatim>\<open>api/audit.ts\<close> and the other writers of the log: canonical
    JSON determines the value, which sequences of writes verify and which row breaks the chain, valid logs are tamper-evident.
  \<^item> \<open>Auth_Limits\<close>: \<^verbatim>\<open>auth-lockout.ts\<close> and \<^verbatim>\<open>security/rate-limiter.ts\<close>: refinement of a counter per user, equivalence of the
    swept limiter with a complete log, bounds on what gets through.
  \<^item> \<open>Chunker\<close>: \<^verbatim>\<open>core/chunker.ts\<close>: no word lost, chunks within the limit, short sentences whole.
  \<^item> \<open>Encoding\<close>: base64 and UTF-8 as the platform converts them, with their round trips. \<open>Kms\<close>: \<^verbatim>\<open>core/kms.ts\<close> and the interface
    \<open>data_keys\<close>. \<open>Encryption\<close>: \<^verbatim>\<open>core/encryption.ts\<close>: what is sealed opens, under which key service and in which process, and
    what is too long to be sealed (\<^verbatim>\<open>String.fromCharCode(...bytes)\<close> throws a RangeError); keys of different entity types are apart. \<open>Label_Clearance\<close>: \<^verbatim>\<open>label-clearance.ts\<close>: refinement of who holds which label,
    revocation, reading back what was written (interface \<open>label_keys\<close>, for both key services).
  \<^item> \<open>Pii_Tokens\<close>: \<^verbatim>\<open>core/pii-tokeniser.ts\<close>, with a backtracking matcher for its expressions: detection ends, spans are sound, exactly
    the spans are replaced and registered. \<open>Identity_Dictionary\<close>: \<^verbatim>\<open>identity-dictionary.ts\<close> and the interface
    \<open>identity_store\<close>, kept by both stores: a token keeps its first value, whichever process or tenant registers it again.
  \<^item> \<open>JS_Numbers\<close>: JavaScript numbers as rationals rounded to binary64 (\<open>fl\<close>), with monotonicity, exactness and error laws.
    \<open>Scoring\<close>: \<^verbatim>\<open>cltv-scorer.ts\<close> and the score of \<^verbatim>\<open>customer-health-scores.ts\<close>: ranges and monotonicity, every rounding included.
    \<open>Leads\<close>: \<^verbatim>\<open>lead-routing.ts\<close>, \<^verbatim>\<open>leads-queue.ts\<close>, \<^verbatim>\<open>notifications.ts\<close>, \<^verbatim>\<open>cltv-rescore-worker.ts\<close> and \<^verbatim>\<open>api/kyc.ts\<close>:
    well-formed tables through every sequence of calls, what routing decides, fair turns of the sales representatives.
  \<^item> \<open>Calendar\<close>: Gregorian dates, their texts and their order. \<open>Customer_Health\<close>: the rest of \<^verbatim>\<open>customer-health-scores.ts\<close>,
    \<^verbatim>\<open>cron/jobs/health-score-worker.ts\<close>, \<^verbatim>\<open>account-manager-customers.ts\<close>, \<^verbatim>\<open>api/account-manager.ts\<close>: what the daily worker
    stores, the dashboard's list and detail page agree. \<open>Interventions\<close>: \<^verbatim>\<open>interventions.ts\<close>, \<^verbatim>\<open>api/interventions.ts\<close>,
    \<^verbatim>\<open>cron/jobs/intervention-escalation.ts\<close>: tables kept well-formed, who may change what, which interventions are escalated (those the code escalates: the
    product document asks for alerts without an intervention, see C32).
  \<^item> \<open>Cron\<close>: \<^verbatim>\<open>cron/scheduler.ts\<close> and five jobs: what runs after start and stop, the daily dunning run.

  \<^bold>\<open>How the model reads.\<close> A row type is a record with the table's columns, a union type a datatype, an exported function a
  definition of the same name that takes the clock, the source of identifiers and the tables, and returns an error or a
  result with the new tables. Where the code opens a transaction an error leaves the tables as they were; where it does not, the
  result carries the tables, with the statements before the failing one done (the dunning job, the reconciliation
  sweep, the health and escalation jobs). An operation is one step; where calls can come between its statements and a property
  turns on that, the statements are steps of their own: votes (\<open>Approvals\<close>) and the check and the insert of
  \<^verbatim>\<open>createPaymentPlan\<close> (\<open>plan_check\<close>, \<open>plan_insert\<close>). Money is rational, rounded to
  cents where the column is; times are microseconds, milliseconds once they pass through a JavaScript date.
  Loops are recursions over the lists they walk, so the functions are total. Two exceptions are in \<open>Pii_Tokens\<close>: the scanning
  loop is a partial function, shown to return on the program's expressions, and repetition in a match counts its
  rounds down from the length of the text, shown to be enough (\<open>iter_fuel\<close>).

  \<^bold>\<open>Parameters.\<close> \<^verbatim>\<open>gen_random_uuid\<close> is a function of the identifiers in use, required to be new where a theorem needs it; the
  cron library's parser, SHA-256, AES-GCM, HKDF, HMAC, random bytes, the number of arguments a call may have (\<open>max_args\<close>), the
  answers of the Vault service, JSONB storage of objects and of texts, the rounding of NUMERIC columns,
  \<^verbatim>\<open>Math.log10\<close>, the locale's number format, \<^verbatim>\<open>Date\<close>'s reading of PostgreSQL's time stamps and the row locks held by others are arguments too, with the laws a theorem needs of them as named hypotheses. Time stamps given by
  different calls are only ordered where a theorem says so.

  \<^bold>\<open>Where the model is coarser.\<close> The scores of \<open>Scoring\<close>, \<open>Leads\<close> and \<open>Customer_Health\<close> and the share of an installment
  are computed in binary64. Other amounts of money are whole cents read exactly: \<^verbatim>\<open>parseFloat\<close> of a sum is the sum, and
  \<open>roundCurrency\<close> is applied to whole cents, where binary64 agrees up to 10^13. The backoff \<^verbatim>\<open>POWER(2, attempt)\<close> of the queue and the
  days of a date are not bounded by the range of INTERVAL, which an attempt above 40 would leave. A removal request for a legal hold
  (\<open>requestHoldRemoval\<close>) runs several statements without a transaction in the code and is one step here. Rows that an ORDER BY
  leaves equal come in table order; theorems about such reads either do not depend on it or let it vary (C10, C34).
  \<open>getTransitionHistory\<close> sorts as its query does; the history theorems are about the rows in the order of insertion. Subtracting
  days from a time is in a session of time zone UTC. \<^verbatim>\<open>currentWords.push(...sentenceWords)\<close> of the chunker has no limit on its
  arguments. \<open>tokenise\<close> is the tokeniser with the store in memory; what it asks of a store is in \<open>identity_store\<close>.

  \<^bold>\<open>Not modelled.\<close> HTTP handlers, sessions and passkeys, the web application, deployment scripts, the AWS key service, the embedding
  client and worker subprocesses are input and output or third-party code. Row-level security and roles are left to the
  database. The CFO reports, read-only aggregations, are not modelled.
\<close>

section \<open>The ledger under all its operations\<close>

text \<open>\<open>Insert_plan\<close> is the second half of a \<open>createPaymentPlan\<close> whose check was done at an earlier state of the ledger.\<close>

datatype ledger_op =
    Create_invoice "string list \<Rightarrow> string" timestamp CreateInvoiceOptions
  | Record_payment "string list \<Rightarrow> string" timestamp RecordPaymentOptions
  | Run_dunning "string list \<Rightarrow> string" timestamp
  | To_collection "string list \<Rightarrow> string" timestamp string
  | Create_plan "string list \<Rightarrow> string" timestamp CreatePaymentPlanOptions
  | Insert_plan "string list \<Rightarrow> string" timestamp CreatePaymentPlanOptions date
  | Set_plan_status timestamp string PaymentPlanStatus
  | Reconcile_plans timestamp
  | Propose "string list \<Rightarrow> string" timestamp "rat option" SettlementProposal
  | Decide timestamp ApprovalDecision
  | Assign_agent timestamp string string
  | Log_contact "string list \<Rightarrow> string" timestamp ContactLogOptions

fun ledger_step :: "ledger_op \<Rightarrow> ledger \<Rightarrow> ledger" where
  "ledger_step (Create_invoice uuid now opts) db = commit db (createInvoice uuid now opts db)"
| "ledger_step (Record_payment uuid now opts) db = commit db (recordPayment uuid now opts db)"
| "ledger_step (Run_dunning uuid now) db = job_ledger (dunningEngineJob uuid now db)"
| "ledger_step (To_collection uuid now k) db = commit db (transitionInvoiceToCollection uuid now k db)"
| "ledger_step (Create_plan uuid now opts) db = commit db (createPaymentPlan uuid now opts db)"
| "ledger_step (Insert_plan uuid now opts d) db = commit db (plan_insert uuid now opts d db)"
| "ledger_step (Set_plan_status now k s) db = commit db (updatePaymentPlanStatus now k s db)"
| "ledger_step (Reconcile_plans now) db = snd (reconcilePaymentPlanLifecycle now db)"
| "ledger_step (Propose uuid now threshold input) db = commit db (proposeSettlement uuid now threshold input db)"
| "ledger_step (Decide now input) db = commit db (decideWriteOffApproval now input db)"
| "ledger_step (Assign_agent now caseId agentId) db = commit db (assignAgentToCase now caseId agentId db)"
| "ledger_step (Log_contact uuid now opts) db = commit db (createContactLog uuid now opts db)"

lemmas ledger_ops_sound =
  sound_createInvoice sound_recordPayment sound_transition sound_createPaymentPlan sound_plan_insert
  sound_updatePaymentPlanStatus sound_proposeSettlement sound_decideWriteOffApproval sound_assignAgentToCase
  sound_createContactLog

lemma keeps_step: "keeps db (ledger_step op db)"
  by (cases op) (simp_all add: ledger_ops_sound [THEN sound_commit] keeps_reconcile keeps_dunningEngineJob)

interpretation ledger_run: invariant_system ledger_step "\<lambda>_. True" "keeps db0" for db0
  by unfold_locales (blast intro: keeps_trans keeps_step)

lemma keeps_run: "keeps db (fold ledger_step ops db)"
  by (rule ledger_run.run_inv) (simp_all add: list_all_iff)

text \<open>C1: The ledger survives every sequence of operations of every component on it: keys, references and
  the one-open-case rule hold after each; no invoice disappears or changes its amount or
  customer; its status moves only along the trigger's graph, in at most five steps, and not at all from paid,
  settled or written off; payments, dunning actions and contact logs are only appended to.\<close>

theorem ledger_lifecycle:
  assumes "ledger_wf db" and "db' = fold ledger_step ops db"
  shows "ledger_wf db'
    \<and> (\<forall>k r. invoice_of k db = Some r \<longrightarrow> (\<exists>r' path. invoice_of k db' = Some r'
         \<and> inv_amount r' = inv_amount r \<and> inv_customer_id r' = inv_customer_id r
         \<and> legal_path invoice_successors (inv_status r) path \<and> last (inv_status r # path) = inv_status r'
         \<and> length path \<le> 5 \<and> (inv_status r \<in> {I_paid, I_settled, I_written_off} \<longrightarrow> inv_status r' = inv_status r)))
    \<and> (\<exists>new. payments db' = payments db @ new) \<and> (\<exists>new. dunning_actions db' = dunning_actions db @ new)
    \<and> (\<exists>new. contacts db' = contacts db @ new)"
proof -
  have ev: "ledger_wf db'" "evolves db db'"
    using keeps_run [of db ops] assms by (auto simp: keeps_def)
  have "\<exists>r' path. invoice_of k db' = Some r' \<and> inv_amount r' = inv_amount r \<and> inv_customer_id r' = inv_customer_id r
      \<and> legal_path invoice_successors (inv_status r) path \<and> last (inv_status r # path) = inv_status r'
      \<and> length path \<le> 5 \<and> (inv_status r \<in> {I_paid, I_settled, I_written_off} \<longrightarrow> inv_status r' = inv_status r)"
    if here: "invoice_of k db = Some r" for k r
  proof -
    obtain r' where r': "invoice_of k db' = Some r'" "inv_amount r' = inv_amount r"
      "inv_customer_id r' = inv_customer_id r" "status_path (inv_status r) (inv_status r')"
      using ev(2) here unfolding evolves_def by blast
    from r'(4) obtain path where
      p: "legal_path invoice_successors (inv_status r) path" "last (inv_status r # path) = inv_status r'"
      unfolding status_path_def by blast
    have "length path \<le> 5" using inv_graph.path_length [OF p(1)] by simp
    moreover have "inv_status r \<in> {I_paid, I_settled, I_written_off} \<longrightarrow> inv_status r' = inv_status r"
      using inv_graph.terminal_stays [OF _ p(1)] p(2) by (auto simp: terminal_status_def)
    ultimately show ?thesis using r' p by blast
  qed
  with ev show ?thesis unfolding evolves_def by blast
qed

theorem ledger_lifecycle_witness:
  "\<exists>r'. invoice_of ''i'' (fold ledger_step [Run_dunning long_uuid (40 * day), Reconcile_plans (41 * day)] (demo_ledger I_paid))
      = Some r' \<and> inv_status r' = I_paid"
proof -
  obtain r where r: "invoice_of ''i'' (demo_ledger I_paid) = Some r" "inv_status r = I_paid"
    by (simp add: demo_ledger_def invoice_of_def)
  let ?ops = "[Run_dunning long_uuid (40 * day), Reconcile_plans (41 * day)]"
  define db' where "db' = fold ledger_step ?ops (demo_ledger I_paid)"
  obtain r' where "invoice_of ''i'' db' = Some r'" "inv_status r' = inv_status r"
    using ledger_lifecycle [OF demo_ledger_wf db'_def] r by auto
  with r(2) show ?thesis unfolding db'_def by (intro exI [of _ r'] conjI) simp_all
qed

end
